(* ===== verification/Cereblix_Prelude.thy ===== *)
theory Cereblix_Prelude
  imports "HOL-Library.Word" "HOL-Library.AList" "HOL-Library.Char_ord" "HOL-Library.List_Lexorder"
begin

text \<open>
  Shared vocabulary of the development: machine integers and byte strings, Go maps as
  association lists, the encodings of the Go standard library that the program uses
  (hexadecimal, decimal, little and big endian), and the interface of the cryptographic
  primitives, which are parameters of the model.
\<close>

section \<open>Machine integers and byte strings\<close>

unbundle bit_operations_syntax

type_synonym u8 = "8 word"
type_synonym u16 = "16 word"
type_synonym u32 = "32 word"
type_synonym u64 = "64 word"
type_synonym bytes = "u8 list"

named_theorems u64_simps \<open>unat/uint facts about 64-bit sums and differences\<close>

text \<open>A Go string is a sequence of bytes, as is an Isabelle \<open>string\<close>.\<close>

definition str_bytes :: "string \<Rightarrow> bytes" where
  "str_bytes s = map (\<lambda>c. of_char c) s"

definition bytes_str :: "bytes \<Rightarrow> string" where
  "bytes_str bs = map (\<lambda>b. char_of (unat b)) bs"

lemma length_str_bytes [simp]: "length (str_bytes s) = length s"
  by (simp add: str_bytes_def)

lemma str_bytes_append [simp]: "str_bytes (s @ t) = str_bytes s @ str_bytes t"
  by (simp add: str_bytes_def)

lemma str_bytes_Nil [simp]: "str_bytes [] = []"
  by (simp add: str_bytes_def)

lemma char_of_unat_of_char: "char_of (unat (of_char c :: u8)) = c"
proof -
  have "(of_char c :: u8) = of_nat (of_char c)" by (simp only: of_nat_of_char)
  then have "unat (of_char c :: u8) = of_char c mod 256" by (simp add: unsigned_of_nat take_bit_eq_mod)
  then show ?thesis by simp
qed

lemma bytes_str_str_bytes [simp]: "bytes_str (str_bytes s) = s"
  by (simp add: bytes_str_def str_bytes_def char_of_unat_of_char comp_def)

lemma str_bytes_inj [simp]: "str_bytes s = str_bytes t \<longleftrightarrow> s = t"
  by (metis bytes_str_str_bytes)

section \<open>Hexadecimal (encoding/hex)\<close>

definition hex_digit :: "nat \<Rightarrow> char" where
  "hex_digit n = ''0123456789abcdef'' ! n"

definition hex_val :: "char \<Rightarrow> nat option" where
  "hex_val c =
     (let n = of_char c :: nat in
      if 48 \<le> n \<and> n \<le> 57 then Some (n - 48)
      else if 97 \<le> n \<and> n \<le> 102 then Some (n - 87)
      else if 65 \<le> n \<and> n \<le> 70 then Some (n - 55)
      else None)"

definition hex_encode :: "bytes \<Rightarrow> string" where
  "hex_encode bs = concat (map (\<lambda>b. [hex_digit (unat b div 16), hex_digit (unat b mod 16)]) bs)"

text \<open>
  \<open>hex.DecodeString\<close> returns the bytes decoded before the first error together with the
  error; the boolean is \<open>err == nil\<close>.
\<close>

fun hex_decode :: "string \<Rightarrow> bytes \<times> bool" where
  "hex_decode [] = ([], True)"
| "hex_decode [c] = ([], False)"
| "hex_decode (c # d # s) =
     (case (hex_val c, hex_val d) of
        (Some a, Some b) \<Rightarrow>
          (let r = hex_decode s in (word_of_nat (16 * a + b) # fst r, snd r))
      | _ \<Rightarrow> ([], False))"

lemma hex_val_hex_digit: "n < 16 \<Longrightarrow> hex_val (hex_digit n) = Some n"
proof -
  assume "n < 16"
  then have "n \<in> {0,1,2,3,4,5,6,7,8,9,10,11,12,13,14,15}"
    by (simp only: insert_iff empty_iff) presburger
  then show ?thesis by (elim insertE emptyE) (simp_all add: hex_val_def hex_digit_def)
qed

lemma hex_val_less: "hex_val c = Some n \<Longrightarrow> n < 16"
  by (auto simp: hex_val_def Let_def split: if_splits)

lemma unat_u8_less: "unat (b :: u8) < 256"
  using unsigned_less [of b, where 'a = nat] by simp

lemma hex_encode_Nil [simp]: "hex_encode [] = []"
  by (simp add: hex_encode_def)

lemma hex_encode_Cons:
  "hex_encode (b # bs) = hex_digit (unat b div 16) # hex_digit (unat b mod 16) # hex_encode bs"
  by (simp add: hex_encode_def)

lemma length_hex_encode [simp]: "length (hex_encode bs) = 2 * length bs"
  by (induction bs) (simp_all add: hex_encode_Cons)

lemma hex_decode_encode [simp]: "hex_decode (hex_encode bs) = (bs, True)"
proof (induction bs)
  case (Cons b bs)
  have "hex_val (hex_digit (unat b div 16)) = Some (unat b div 16)"
    using unat_u8_less [of b] by (intro hex_val_hex_digit) simp
  moreover have "hex_val (hex_digit (unat b mod 16)) = Some (unat b mod 16)"
    by (intro hex_val_hex_digit) simp
  ultimately show ?case using Cons by (simp add: hex_encode_Cons)
qed simp

lemma hex_encode_inj [simp]: "hex_encode a = hex_encode b \<longleftrightarrow> a = b"
  by (metis fst_conv hex_decode_encode)

lemma hex_decode_ok_length: "snd (hex_decode s) \<Longrightarrow> length s = 2 * length (fst (hex_decode s))"
  by (induction s rule: hex_decode.induct) (auto simp: Let_def split: option.splits)

lemma hex_decode_ok_chars: "snd (hex_decode s) \<Longrightarrow> c \<in> set s \<Longrightarrow> hex_val c \<noteq> None"
  by (induction s rule: hex_decode.induct) (auto simp: Let_def split: option.splits)

lemma hex_decode_ok_iff:
  "snd (hex_decode s) \<longleftrightarrow> even (length s) \<and> (\<forall>c \<in> set s. hex_val c \<noteq> None)"
  by (induction s rule: hex_decode.induct) (auto simp: Let_def split: option.splits)

lemma hex_val_sep: "hex_val (CHR ''|'') = None"
  by (simp add: hex_val_def)

lemma hex_encode_chars: "c \<in> set (hex_encode bs) \<Longrightarrow> hex_val c \<noteq> None"
  using hex_decode_ok_chars [of "hex_encode bs" c] by simp

section \<open>Decimal numbers (fmt \<open>%d\<close>, strconv)\<close>

definition dec_digit :: "nat \<Rightarrow> char" where
  "dec_digit n = ''0123456789'' ! n"

fun show_nat :: "nat \<Rightarrow> string" where
  "show_nat n = (if n < 10 then [dec_digit n] else show_nat (n div 10) @ [dec_digit (n mod 10)])"

declare show_nat.simps [simp del]

definition show_u64 :: "u64 \<Rightarrow> string" where
  "show_u64 w = show_nat (unat w)"

definition dec_val :: "char \<Rightarrow> nat option" where
  "dec_val c = (let n = of_char c :: nat in if 48 \<le> n \<and> n \<le> 57 then Some (n - 48) else None)"

text \<open>Value of a digit string, \<open>None\<close> on the first character that is not a digit.\<close>

fun read_digits :: "nat \<Rightarrow> string \<Rightarrow> nat option" where
  "read_digits a [] = Some a"
| "read_digits a (c # s) = (case dec_val c of None \<Rightarrow> None | Some d \<Rightarrow> read_digits (10 * a + d) s)"

text \<open>\<open>strconv.ParseUint(s, 10, 64)\<close>: empty, a non-digit and a value over 64 bits are errors.\<close>

definition parse_uint64 :: "string \<Rightarrow> u64 option" where
  "parse_uint64 s =
     (if s = [] then None
      else case read_digits 0 s of
        None \<Rightarrow> None
      | Some n \<Rightarrow> if n < 2 ^ 64 then Some (word_of_nat n) else None)"

text \<open>\<open>strconv.Atoi\<close> on a 64-bit platform: an optional sign, digits, and a range check.\<close>

definition atoi :: "string \<Rightarrow> int option" where
  "atoi s =
     (let neg = (s \<noteq> [] \<and> hd s = CHR ''-'');
          body = (if s \<noteq> [] \<and> (hd s = CHR ''-'' \<or> hd s = CHR ''+'') then tl s else s)
      in if body = [] then None
         else case read_digits 0 body of
           None \<Rightarrow> None
         | Some n \<Rightarrow>
             if neg then (if n \<le> 2 ^ 63 then Some (- int n) else None)
             else (if n < 2 ^ 63 then Some (int n) else None))"

lemma dec_val_dec_digit: "n < 10 \<Longrightarrow> dec_val (dec_digit n) = Some n"
proof -
  assume "n < 10"
  then have "n \<in> {0,1,2,3,4,5,6,7,8,9}" by auto
  then show ?thesis by (auto simp: dec_val_def dec_digit_def Let_def)
qed

lemma read_digits_append:
  "read_digits a (s @ t) = Option.bind (read_digits a s) (\<lambda>b. read_digits b t)"
  by (induction a s rule: read_digits.induct) (auto split: option.splits)

lemma read_show_nat_shift: "\<exists>k. \<forall>a. read_digits a (show_nat n) = Some (a * 10 ^ k + n)"
proof (induction n rule: show_nat.induct)
  case (1 n)
  show ?case
  proof (cases "n < 10")
    case True
    then have "\<forall>a. read_digits a (show_nat n) = Some (a * 10 ^ 1 + n)"
      by (simp add: show_nat.simps [of n] dec_val_dec_digit)
    then show ?thesis by blast
  next
    case False
    then obtain k where k: "\<forall>a. read_digits a (show_nat (n div 10)) = Some (a * 10 ^ k + n div 10)"
      using 1 by blast
    have "\<forall>a. read_digits a (show_nat n) = Some (a * 10 ^ Suc k + n)"
      using False k
      by (simp add: show_nat.simps [of n] read_digits_append dec_val_dec_digit algebra_simps)
    then show ?thesis by blast
  qed
qed

lemma read_show_nat [simp]: "read_digits 0 (show_nat n) = Some n"
  using read_show_nat_shift [of n] by auto

lemma show_nat_inj [simp]: "show_nat m = show_nat n \<longleftrightarrow> m = n"
  by (metis option.inject read_show_nat)

lemma show_nat_nonempty [simp]: "show_nat n \<noteq> []"
  by (subst show_nat.simps) simp

lemma show_u64_inj [simp]: "show_u64 a = show_u64 b \<longleftrightarrow> a = b"
  by (simp add: show_u64_def word_unat_eq_iff)

lemma parse_show_u64 [simp]: "parse_uint64 (show_u64 w) = Some w"
  using unsigned_less [of w, where 'a = nat] by (simp add: parse_uint64_def show_u64_def)

lemma dec_digit_not_sep: "n < 10 \<Longrightarrow> dec_digit n \<noteq> CHR ''|''"
  using dec_val_dec_digit [of n] by (auto simp: dec_val_def)

lemma sep_notin_show_nat: "CHR ''|'' \<notin> set (show_nat n)"
proof (induction n rule: show_nat.induct)
  case (1 n)
  have "dec_digit (n mod 10) \<noteq> CHR ''|''" by (rule dec_digit_not_sep) simp
  moreover have "n < 10 \<Longrightarrow> dec_digit n \<noteq> CHR ''|''" by (rule dec_digit_not_sep)
  ultimately show ?case using 1
    by (subst show_nat.simps) (auto simp: eq_commute [of "CHR ''|''"])
qed

lemma sep_notin_show_u64 [simp]: "CHR ''|'' \<notin> set (show_u64 w)"
  by (simp add: show_u64_def sep_notin_show_nat)

section \<open>Byte order (encoding/binary, math/big)\<close>

definition le_bytes :: "nat \<Rightarrow> 'a::len word \<Rightarrow> bytes" where
  "le_bytes k w = map (\<lambda>i. ucast (drop_bit (8 * i) w)) [0..<k]"

definition be_bytes :: "nat \<Rightarrow> 'a::len word \<Rightarrow> bytes" where
  "be_bytes k w = rev (le_bytes k w)"

fun from_le :: "bytes \<Rightarrow> nat" where
  "from_le [] = 0"
| "from_le (b # bs) = unat b + 256 * from_le bs"

definition from_be :: "bytes \<Rightarrow> nat" where
  "from_be bs = foldl (\<lambda>a b. 256 * a + unat b) 0 bs"

text \<open>The big-endian magnitude that \<open>big.Int.Bytes\<close> returns: no leading zero byte.\<close>

fun nat_le_bytes :: "nat \<Rightarrow> bytes" where
  "nat_le_bytes n = (if n = 0 then [] else word_of_nat (n mod 256) # nat_le_bytes (n div 256))"

declare nat_le_bytes.simps [simp del]

definition big_bytes :: "int \<Rightarrow> bytes" where
  "big_bytes t = rev (nat_le_bytes (nat \<bar>t\<bar>))"

lemma length_le_bytes [simp]: "length (le_bytes k w) = k"
  by (simp add: le_bytes_def)

lemma length_be_bytes [simp]: "length (be_bytes k w) = k"
  by (simp add: be_bytes_def)

lemma from_le_append: "from_le (xs @ ys) = from_le xs + 256 ^ length xs * from_le ys"
  by (induction xs) (simp_all add: algebra_simps)

lemma from_le_less: "from_le bs < 256 ^ length bs"
proof (induction bs)
  case (Cons b bs)
  have "unat b < 256" by (rule unat_u8_less)
  with Cons have "unat b + 256 * from_le bs < 256 + 256 * (256 ^ length bs - 1)" by linarith
  also have "\<dots> = 256 ^ length (b # bs)" by (simp add: diff_mult_distrib2)
  finally show ?case by simp
qed simp

lemma from_be_eq_from_le: "from_be bs = from_le (rev bs)"
proof -
  have "foldl (\<lambda>a b. 256 * a + unat b) a bs = from_le (rev bs) + 256 ^ length bs * a" for a
    by (induction bs arbitrary: a) (simp_all add: from_le_append algebra_simps)
  then show ?thesis by (simp add: from_be_def)
qed

lemma from_be_less: "from_be bs < 256 ^ length bs"
  using from_le_less [of "rev bs"] by (simp add: from_be_eq_from_le)

lemma unat_byte_of: "unat (ucast (drop_bit n w) :: u8) = unat w div 2 ^ n mod 256" for w :: "'a::len word"
proof -
  have "unat (ucast (drop_bit n w) :: u8) = unat (drop_bit n w) mod 256"
    by (simp add: unsigned_ucast_eq take_bit_eq_mod)
  also have "unat (drop_bit n w) = unat w div 2 ^ n"
    unfolding unat_drop_bit_eq by (rule drop_bit_eq_div)
  finally show ?thesis .
qed

lemma from_le_le_bytes_mod: "from_le (le_bytes k w) = unat w mod 256 ^ k"
proof (induction k)
  case (Suc k)
  have "le_bytes (Suc k) w = le_bytes k w @ [ucast (drop_bit (8 * k) w)]"
    by (simp add: le_bytes_def)
  then have "from_le (le_bytes (Suc k) w) = unat w mod 256 ^ k + 256 ^ k * (unat w div 2 ^ (8 * k) mod 256)"
    using Suc by (simp add: from_le_append unat_byte_of)
  also have "(2::nat) ^ (8 * k) = 256 ^ k" by (simp add: power_mult)
  also have "unat w mod 256 ^ k + 256 ^ k * (unat w div 256 ^ k mod 256) = unat w mod 256 ^ Suc k"
    by (simp only: power_Suc2 mod_mult2_eq)
  finally show ?case .
qed (simp add: le_bytes_def)

lemma from_le_le64 [simp]: "from_le (le_bytes 8 (w :: u64)) = unat w"
  using unsigned_less [of w, where 'a = nat] by (simp add: from_le_le_bytes_mod)

lemma from_le_le32 [simp]: "from_le (le_bytes 4 (w :: u32)) = unat w"
  using unsigned_less [of w, where 'a = nat] by (simp add: from_le_le_bytes_mod)

lemma from_be_be_bytes: "from_be (be_bytes k w) = from_le (le_bytes k w)"
  by (simp add: from_be_eq_from_le be_bytes_def)

lemma le_bytes64_inj [simp]: "le_bytes 8 (a :: u64) = le_bytes 8 b \<longleftrightarrow> a = b"
  by (metis from_le_le64 word_unat_eq_iff)

lemma le_bytes32_inj [simp]: "le_bytes 4 (a :: u32) = le_bytes 4 b \<longleftrightarrow> a = b"
  by (metis from_le_le32 word_unat_eq_iff)

lemma from_le_inj: "from_le a = from_le b \<Longrightarrow> length a = length b \<Longrightarrow> a = b"
proof (induction a arbitrary: b)
  case (Cons x a)
  then obtain y b' where b: "b = y # b'" by (cases b) auto
  have lt: "unat x < 256" "unat y < 256" by (rule unat_u8_less)+
  with Cons.prems b have eq: "unat x + 256 * from_le a = unat y + 256 * from_le b'" by simp
  have "unat x = unat y" using arg_cong [OF eq, where f = "\<lambda>n. n mod 256"] lt by simp
  with eq have "from_le a = from_le b'" by simp
  with Cons b \<open>unat x = unat y\<close> show ?case by (simp add: word_unat_eq_iff)
qed simp

lemma from_be_inj: "from_be a = from_be b \<Longrightarrow> length a = length b \<Longrightarrow> a = b"
  using from_le_inj [of "rev a" "rev b"] by (simp add: from_be_eq_from_le)

lemma from_le_nat_le_bytes [simp]: "from_le (nat_le_bytes n) = n"
proof (induction n rule: nat_le_bytes.induct)
  case (1 n)
  then show ?case
    by (cases "n = 0")
      (simp_all add: nat_le_bytes.simps [of 0] nat_le_bytes.simps [of n] unsigned_of_nat take_bit_eq_mod)
qed

lemma length_nat_le_bytes: "n < 256 ^ k \<Longrightarrow> length (nat_le_bytes n) \<le> k"
proof (induction n arbitrary: k rule: nat_le_bytes.induct)
  case (1 n)
  show ?case
  proof (cases "n = 0")
    case False
    with 1 obtain j where "k = Suc j" by (cases k) auto
    moreover from this 1 have "n div 256 < 256 ^ j" by (simp add: less_mult_imp_div_less mult.commute)
    ultimately show ?thesis using False 1 by (simp add: nat_le_bytes.simps [of n])
  qed (simp add: nat_le_bytes.simps)
qed

lemma from_be_replicate0 [simp]: "from_be (replicate k 0 @ bs) = from_be bs"
  by (induction k) (simp_all add: from_be_def)

lemma from_be_big_bytes [simp]: "from_be (big_bytes t) = nat \<bar>t\<bar>"
  by (simp add: big_bytes_def from_be_eq_from_le)

section \<open>Go maps\<close>

text \<open>
  A Go map is an association list with distinct keys; \<open>map_of\<close> reads it,
  \<open>AList.update\<close> and \<open>AList.delete\<close> write it. The order of the list is one of the
  orders in which a Go \<open>range\<close> may visit the keys.
\<close>

type_synonym ('k, 'v) gomap = "('k \<times> 'v) list"

definition gm_invar :: "('k, 'v) gomap \<Rightarrow> bool" where
  "gm_invar m = distinct (map fst m)"

definition gm_get :: "'v \<Rightarrow> ('k, 'v) gomap \<Rightarrow> 'k \<Rightarrow> 'v" where
  "gm_get d m k = (case map_of m k of None \<Rightarrow> d | Some v \<Rightarrow> v)"

definition gm_total :: "('v \<Rightarrow> 'n::ab_group_add) \<Rightarrow> ('k, 'v) gomap \<Rightarrow> 'n" where
  "gm_total f m = sum_list (map (\<lambda>p. f (snd p)) m)"

text \<open>
  The interface of a map as its clients use it: what a lookup returns after an insertion or a
  deletion, and what both keep of the invariant. The extension adds a total over the stored
  values, the form in which the ledger is summed.
\<close>

locale go_map =
  fixes empty :: "'m"
    and put :: "'k \<Rightarrow> 'v \<Rightarrow> 'm \<Rightarrow> 'm"
    and del :: "'k \<Rightarrow> 'm \<Rightarrow> 'm"
    and lookup :: "'m \<Rightarrow> 'k \<Rightarrow> 'v option"
    and invar :: "'m \<Rightarrow> bool"
  assumes lookup_empty: "lookup empty k = None"
    and lookup_put: "lookup (put k v m) = (lookup m)(k \<mapsto> v)"
    and lookup_del: "lookup (del k m) = (lookup m)(k := None)"
    and invar_empty: "invar empty"
    and invar_put: "invar m \<Longrightarrow> invar (put k v m)"
    and invar_del: "invar m \<Longrightarrow> invar (del k m)"
begin

lemma put_del_restores: "lookup m k = Some v \<Longrightarrow> lookup (put k v (del k m)) = lookup m"
  by (auto simp: lookup_put lookup_del)

lemma lookup_fold_put:
  "lookup (fold (\<lambda>k m. put k (f k) m) ks m) = (\<lambda>k. if k \<in> set ks then Some (f k) else lookup m k)"
  by (induction ks arbitrary: m) (auto simp: lookup_put fun_eq_iff)

lemma invar_fold_put: "invar m \<Longrightarrow> invar (fold (\<lambda>k m. put k (f k) m) ks m)"
  by (induction ks arbitrary: m) (simp_all add: invar_put)

lemma lookup_fold_del:
  "lookup (fold del ks m) = (\<lambda>k. if k \<in> set ks then None else lookup m k)"
  by (induction ks arbitrary: m) (auto simp: lookup_del fun_eq_iff)

lemma invar_fold_del: "invar m \<Longrightarrow> invar (fold del ks m)"
  by (induction ks arbitrary: m) (simp_all add: invar_del)

end

locale weighted_map = go_map empty put del lookup invar
  for empty :: "'m"
    and put :: "'k \<Rightarrow> 'v \<Rightarrow> 'm \<Rightarrow> 'm"
    and del :: "'k \<Rightarrow> 'm \<Rightarrow> 'm"
    and lookup :: "'m \<Rightarrow> 'k \<Rightarrow> 'v option"
    and invar :: "'m \<Rightarrow> bool" +
  fixes total :: "('v \<Rightarrow> 'n::ab_group_add) \<Rightarrow> 'm \<Rightarrow> 'n"
  assumes total_put: "invar m \<Longrightarrow>
    total f (put k v m) = total f m - (case lookup m k of None \<Rightarrow> 0 | Some w \<Rightarrow> f w) + f v"
begin

definition weight :: "('v \<Rightarrow> 'n) \<Rightarrow> 'm \<Rightarrow> 'k \<Rightarrow> 'n" where
  "weight f m k = (case lookup m k of None \<Rightarrow> 0 | Some w \<Rightarrow> f w)"

lemma weight_put: "weight f (put k v m) k' = (if k' = k then f v else weight f m k')"
  by (simp add: weight_def lookup_put)

lemma total_put_weight: "invar m \<Longrightarrow> total f (put k v m) = total f m - weight f m k + f v"
  by (simp add: total_put weight_def)

lemma total_add:
  "invar m \<Longrightarrow> f v = weight f m k + d \<Longrightarrow> total f (put k v m) = total f m + d"
  by (simp add: total_put_weight)

lemma total_move:
  assumes "invar m" and "f v = weight f m k - d" and "f w = weight f (put k v m) j + e"
  shows "total f (put j w (put k v m)) = total f m - d + e"
proof -
  have "total f (put k v m) = total f m + (- d)" using assms(1,2) by (intro total_add) simp_all
  moreover have "total f (put j w (put k v m)) = total f (put k v m) + e"
    using assms by (intro total_add invar_put) simp_all
  ultimately show ?thesis by simp
qed

end

lemma gm_total_update:
  "distinct (map fst m) \<Longrightarrow>
    gm_total f (AList.update k v m) =
      gm_total f m - (case map_of m k of None \<Rightarrow> 0 | Some w \<Rightarrow> f w) + f v"
proof (induction m)
  case (Cons p m)
  then show ?case
    by (cases p) (auto simp: gm_total_def dest: map_of_SomeD intro: rev_image_eqI split: option.splits)
qed (simp add: gm_total_def)

interpretation gmap: weighted_map "[]" AList.update AList.delete map_of gm_invar gm_total
  by unfold_locales
    (simp_all add: gm_invar_def update_conv' delete_conv' distinct_update distinct_delete gm_total_update)

lemma gm_get_update [simp]:
  "gm_get d (AList.update k v m) k' = (if k' = k then v else gm_get d m k')"
  by (simp add: gm_get_def update_conv')

lemma gm_get_delete [simp]: "gm_get d (AList.delete k m) k' = (if k' = k then d else gm_get d m k')"
  by (simp add: gm_get_def delete_conv')

lemma gm_get_Nil [simp]: "gm_get d [] k = d"
  by (simp add: gm_get_def)

lemma gm_get_eq_weight: "gm_get 0 m k = gmap.weight id m k"
  by (simp add: gm_get_def gmap.weight_def split: option.splits)

section \<open>Cryptographic primitives\<close>

text \<open>
  SHA-256 and Ed25519 are parameters: every theorem
  holds for any functions in their place. Where a proof relies on a documented property of one
  of them, the predicates below name it.
\<close>

record crypto =
  sha256 :: "bytes \<Rightarrow> bytes"
  ed_verify :: "bytes \<Rightarrow> bytes \<Rightarrow> bytes \<Rightarrow> bool"
  ed_sign :: "bytes \<Rightarrow> bytes \<Rightarrow> bytes"
  ed_public :: "bytes \<Rightarrow> bytes"

text \<open>The digest is 32 bytes long (crypto/sha256: \<open>const Size = 32\<close>).\<close>

definition digest32 :: "crypto \<Rightarrow> bool" where
  "digest32 cr \<longleftrightarrow> (\<forall>m. length (sha256 cr m) = 32)"

text \<open>
  The keys and signatures that crypto/ed25519 produces have the documented sizes and a
  signature verifies under its own public key.
\<close>

definition ed25519_ok :: "crypto \<Rightarrow> bool" where
  "ed25519_ok cr \<longleftrightarrow>
     (\<forall>k m. length (ed_public cr k) = 32 \<and> length (ed_sign cr k m) = 64
        \<and> ed_verify cr (ed_public cr k) m (ed_sign cr k m))"

lemma digest32D: "digest32 cr \<Longrightarrow> length (sha256 cr m) = 32"
  by (simp add: digest32_def)

text \<open>A concrete instance, used by the witnesses: the digest folds its input into four bytes.\<close>

definition demo_digest :: "bytes \<Rightarrow> bytes" where
  "demo_digest m = be_bytes 4 (foldl (\<lambda>(a :: u32) b. a * 31 + ucast b) 7 m) @ replicate 28 0"

definition demo_crypto :: crypto where
  "demo_crypto = \<lparr>sha256 = demo_digest,
     ed_verify = (\<lambda>pub m sig. sig = demo_digest m @ pub),
     ed_sign = (\<lambda>priv m. demo_digest m @ take 32 (priv @ replicate 32 0)),
     ed_public = (\<lambda>priv. take 32 (priv @ replicate 32 0))\<rparr>"

lemma length_demo_digest [simp]: "length (demo_digest m) = 32"
  by (simp add: demo_digest_def)

lemma digest32_demo [simp]: "digest32 demo_crypto"
  by (simp add: digest32_def demo_crypto_def)

lemma ed25519_ok_demo [simp]: "ed25519_ok demo_crypto"
  by (simp add: ed25519_ok_def demo_crypto_def min_def)

end
