(* ===== verification/Core_Types.thy ===== *)
theory Core_Types
  imports Cereblix_Prelude
begin

text \<open>
  The chain's data structures, after \<^verbatim>\<open>src/core/types.go\<close>: consensus constants,
  addresses, transactions with their cached identifiers, signing payloads, blocks, the
  serialized header, targets and work, and the genesis block. The lemmas show that the
  header and the signing payload determine the fields they serialize, that targets and work
  are inverse up to rounding, that the issuance is bounded, and that the caches are coherent.
\<close>

section \<open>Constants\<close>

abbreviation (input) CoinUnit :: nat where "CoinUnit \<equiv> 100000000"
abbreviation (input) BlockTargetSpacing :: int where "BlockTargetSpacing \<equiv> 60"
abbreviation (input) RetargetWindow :: nat where "RetargetWindow \<equiv> 20"
abbreviation (input) LWMAWindow :: nat where "LWMAWindow \<equiv> 90"
abbreviation (input) HalvingInterval :: nat where "HalvingInterval \<equiv> 1051200"
abbreviation (input) InitialReward :: nat where "InitialReward \<equiv> 5000000000"
abbreviation (input) EpochLength :: nat where "EpochLength \<equiv> 4096"
abbreviation (input) MaxBlockTxs :: nat where "MaxBlockTxs \<equiv> 200"
abbreviation (input) MaxFutureDrift :: u64 where "MaxFutureDrift \<equiv> 300"
abbreviation (input) AddrPrefix :: string where "AddrPrefix \<equiv> ''crb1''"
abbreviation (input) CoinbaseMaturity :: nat where "CoinbaseMaturity \<equiv> 100"
abbreviation (input) MaturityHeight :: nat where "MaturityHeight \<equiv> 500"
abbreviation (input) MinFeeHeight :: nat where "MinFeeHeight \<equiv> 450"
abbreviation (input) FeeMarketHeight :: nat where "FeeMarketHeight \<equiv> 3195"
abbreviation (input) ChainIDHeight :: u64 where "ChainIDHeight \<equiv> 700"
abbreviation (input) MaxMempoolNonceGap :: u64 where "MaxMempoolNonceGap \<equiv> 256"
abbreviation (input) MaxMempoolTxnsPerSender :: nat where "MaxMempoolTxnsPerSender \<equiv> 4096"

definition MaxTarget :: int where "MaxTarget = 2 ^ 244"
definition GenesisTarget :: int where "GenesisTarget = 2 ^ 241"

text \<open>Every \<open>error\<close> of the core package is a value; \<open>Panic\<close> stands for a Go run-time panic.\<close>

datatype err =
    CoinbaseHasNoSender | BadPubkey | CoinbaseNotAllowedHere | BadDestination | ZeroAmount
  | BadSigEncoding | InvalidSignature | BadTargetEncoding
  | BadVersion | BadHeight u64 nat | MalformedHeader | CheckpointConflict u64 | PrevHashMismatch
  | TimeTooOld | TimeTooFar | WrongTarget | InsufficientPoW | BadTxCount | FirstNotCoinbase
  | TxRootMismatch | CoinbaseNonce | BadCoinbaseAddress | BadCoinbaseAmount | ExtraCoinbase
  | DuplicateTx | FeeBelowMin u64 u64 | TxErr string err
  | BadNonce u64 u64 | AmountOverflow | InsufficientSpendable
  | NotExtendingTip | EmptyCandidate | BadForkPoint | ReorgTooDeep nat nat | CheckpointReorg nat
  | StoredBadTarget nat | CandidateBadTarget u64 | LacksWork | CandidateBlock u64 err
  | CoinbaseInMempool | AlreadyInMempool | ReplaceByFee u64 u64 | MempoolFull
  | NonceTooLow u64 u64 | NonceTooFar u64 u64 | TooManyQueued
  | InsufficientPending | InsufficientQueued | MedianTooFar
  | CorruptStore | WrongGenesis | DiskError | Panic

definition BlockSubsidy :: "u64 \<Rightarrow> u64" where
  "BlockSubsidy height =
     (let halvings = height div 1051200
      in if halvings \<ge> 33 then 0 else drop_bit (unat halvings) 5000000000)"

section \<open>Addresses\<close>

definition AddrFromPub :: "crypto \<Rightarrow> bytes \<Rightarrow> string" where
  "AddrFromPub cr pub = AddrPrefix @ hex_encode (take 20 (sha256 cr pub))"

definition ValidAddr :: "string \<Rightarrow> bool" where
  "ValidAddr a \<longleftrightarrow>
     take 4 a = AddrPrefix \<and> length a = 44 \<and> snd (hex_decode (drop 4 a))"

definition valid64Hex :: "string \<Rightarrow> bool" where
  "valid64Hex s \<longleftrightarrow> length s = 64 \<and> snd (hex_decode s)"

section \<open>Transactions\<close>

record tx =
  tx_FromPub :: string
  tx_To :: string
  tx_Amount :: u64
  tx_Fee :: u64
  tx_Nonce :: u64
  tx_Sig :: string
  tx_id :: string
  tx_fromAddr :: string

definition SigningPayload :: "tx \<Rightarrow> bytes" where
  "SigningPayload t = str_bytes
     (''cerebra-tx-v1|'' @ tx_FromPub t @ ''|'' @ tx_To t @ ''|'' @ show_u64 (tx_Amount t) @ ''|''
      @ show_u64 (tx_Fee t) @ ''|'' @ show_u64 (tx_Nonce t))"

definition computeID :: "crypto \<Rightarrow> tx \<Rightarrow> string" where
  "computeID cr t = hex_encode (sha256 cr (SigningPayload t @ str_bytes (''|'' @ tx_Sig t)))"

definition ID :: "crypto \<Rightarrow> tx \<Rightarrow> string" where
  "ID cr t = (if tx_id t \<noteq> [] then tx_id t else computeID cr t)"

definition IsCoinbase :: "tx \<Rightarrow> bool" where
  "IsCoinbase t \<longleftrightarrow> tx_FromPub t = []"

definition FromAddr :: "crypto \<Rightarrow> tx \<Rightarrow> err + string" where
  "FromAddr cr t =
     (if IsCoinbase t then Inl CoinbaseHasNoSender
      else if tx_fromAddr t \<noteq> [] then Inr (tx_fromAddr t)
      else let (pub, ok) = hex_decode (tx_FromPub t)
           in if \<not> ok \<or> length pub \<noteq> 32 then Inl BadPubkey
              else Inr (AddrFromPub cr pub))"

text \<open>\<open>from, _ := t.FromAddr()\<close>: the error is dropped and the address is then empty.\<close>

definition from_or_empty :: "crypto \<Rightarrow> tx \<Rightarrow> string" where
  "from_or_empty cr t = (case FromAddr cr t of Inl _ \<Rightarrow> [] | Inr a \<Rightarrow> a)"

definition cacheFromAddr :: "crypto \<Rightarrow> tx \<Rightarrow> tx" where
  "cacheFromAddr cr t =
     (if IsCoinbase t then t
      else let (pub, ok) = hex_decode (tx_FromPub t)
           in if ok \<and> length pub = 32 then t\<lparr>tx_fromAddr := AddrFromPub cr pub\<rparr> else t)"

text \<open>
  \<open>UnmarshalJSON\<close>: the decoded raw fields (the JSON decoder's result, \<open>None\<close> on a syntax
  error; the unexported caches are empty in it) and then both caches.
\<close>

definition tx_UnmarshalJSON :: "crypto \<Rightarrow> tx option \<Rightarrow> tx option" where
  "tx_UnmarshalJSON cr r =
     (case r of None \<Rightarrow> None
      | Some t \<Rightarrow> Some (cacheFromAddr cr (t\<lparr>tx_id := computeID cr t\<rparr>)))"

section \<open>Blocks\<close>

record block =
  blk_Version :: u32
  blk_Height :: u64
  blk_Time :: u64
  blk_PrevHash :: string
  blk_TxRoot :: string
  blk_Target :: string
  blk_Nonce :: u64
  blk_Txs :: "tx list"
  blk_hash :: string

text \<open>\<open>copy(out[i:i+32], b)\<close> into a zeroed buffer: truncated or zero-padded to 32 bytes.\<close>

definition copy32 :: "bytes \<Rightarrow> bytes" where
  "copy32 b = take 32 b @ replicate (32 - length b) 0"

definition HeaderBytes :: "block \<Rightarrow> bytes" where
  "HeaderBytes b =
     le_bytes 4 (blk_Version b) @ le_bytes 8 (blk_Height b) @ le_bytes 8 (blk_Time b)
     @ copy32 (fst (hex_decode (blk_PrevHash b)))
     @ copy32 (fst (hex_decode (blk_TxRoot b)))
     @ copy32 (fst (hex_decode (blk_Target b)))
     @ le_bytes 8 (blk_Nonce b)"

abbreviation (input) HeaderLen :: nat where "HeaderLen \<equiv> 124"
abbreviation (input) NonceOffset :: nat where "NonceOffset \<equiv> 116"

definition computeHash :: "crypto \<Rightarrow> block \<Rightarrow> string" where
  "computeHash cr b = hex_encode (sha256 cr (HeaderBytes b))"

definition Hash :: "crypto \<Rightarrow> block \<Rightarrow> string" where
  "Hash cr b = (if blk_hash b \<noteq> [] then blk_hash b else computeHash cr b)"

definition block_UnmarshalJSON :: "crypto \<Rightarrow> block option \<Rightarrow> block option" where
  "block_UnmarshalJSON cr r =
     (case r of None \<Rightarrow> None | Some b \<Rightarrow> Some (b\<lparr>blk_hash := computeHash cr b\<rparr>))"

definition ComputeTxRoot :: "crypto \<Rightarrow> tx list \<Rightarrow> string" where
  "ComputeTxRoot cr txs =
     hex_encode (sha256 cr (str_bytes ''cerebra-txroot-v1''
       @ concat (map (\<lambda>t. fst (hex_decode (ID cr t))) txs)))"

definition TotalFees :: "block \<Rightarrow> u64" where
  "TotalFees b = foldl (\<lambda>fees t. if \<not> IsCoinbase t then fees + tx_Fee t else fees) 0 (blk_Txs b)"

definition TargetInt :: "block \<Rightarrow> err + int" where
  "TargetInt b =
     (let (raw, ok) = hex_decode (blk_Target b)
      in if \<not> ok \<or> length raw \<noteq> 32 then Inl BadTargetEncoding else Inr (int (from_be raw)))"

text \<open>\<open>out[32-len(raw):]\<close> panics when the number does not fit 32 bytes: \<open>None\<close>.\<close>

definition TargetToHex :: "int \<Rightarrow> string option" where
  "TargetToHex t =
     (let raw = big_bytes t
      in if length raw > 32 then None
         else Some (hex_encode (replicate (32 - length raw) 0 @ raw)))"

definition WorkOf :: "int \<Rightarrow> int" where
  "WorkOf target = 2 ^ 256 div (target + 1)"

definition HashMeetsTarget :: "bytes \<Rightarrow> int \<Rightarrow> bool" where
  "HashMeetsTarget powHash target \<longleftrightarrow> int (from_be powHash) \<le> target"

section \<open>Genesis and the chain identifier\<close>

definition GenesisMessage :: string where
  "GenesisMessage = ''Cerebra genesis | 2026-06-11 | one CPU, one vote ''
     @ [CHR 0xE2, CHR 0x80, CHR 0x94] @ '' silicon shall not rule''"

definition genesis_coinbase :: tx where
  "genesis_coinbase =
     \<lparr>tx_FromPub = [], tx_To = AddrPrefix @ replicate 40 (CHR ''0''), tx_Amount = 0, tx_Fee = 0,
      tx_Nonce = 0, tx_Sig = hex_encode (str_bytes GenesisMessage), tx_id = [], tx_fromAddr = []\<rparr>"

definition GenesisBlock :: "crypto \<Rightarrow> block" where
  "GenesisBlock cr =
     \<lparr>blk_Version = 1, blk_Height = 0, blk_Time = 1781136000,
      blk_PrevHash = replicate 64 (CHR ''0''),
      blk_TxRoot = ComputeTxRoot cr [genesis_coinbase],
      blk_Target = the (TargetToHex GenesisTarget), blk_Nonce = 0,
      blk_Txs = [genesis_coinbase], blk_hash = []\<rparr>"

definition ChainID :: "crypto \<Rightarrow> string" where
  "ChainID cr = Hash cr (GenesisBlock cr)"

section \<open>Signatures\<close>

definition signingPayloadFor :: "crypto \<Rightarrow> tx \<Rightarrow> u64 \<Rightarrow> bytes" where
  "signingPayloadFor cr t height =
     (if height \<ge> ChainIDHeight
      then str_bytes (''cerebra-tx-v1|'' @ ChainID cr @ ''|'' @ tx_FromPub t @ ''|'' @ tx_To t
             @ ''|'' @ show_u64 (tx_Amount t) @ ''|'' @ show_u64 (tx_Fee t)
             @ ''|'' @ show_u64 (tx_Nonce t))
      else SigningPayload t)"

text \<open>\<open>checkSig\<close>: \<open>None\<close> is a nil error.\<close>

definition checkSig :: "crypto \<Rightarrow> tx \<Rightarrow> bytes \<Rightarrow> err option" where
  "checkSig cr t payload =
     (if IsCoinbase t then Some CoinbaseNotAllowedHere
      else if \<not> ValidAddr (tx_To t) then Some BadDestination
      else if tx_Amount t = 0 then Some ZeroAmount
      else let (pub, pok) = hex_decode (tx_FromPub t) in
        if \<not> pok \<or> length pub \<noteq> 32 then Some BadPubkey
        else let (sg, sok) = hex_decode (tx_Sig t) in
          if \<not> sok \<or> length sg \<noteq> 64 then Some BadSigEncoding
          else if \<not> ed_verify cr pub payload sg then Some InvalidSignature
          else None)"

definition CheckSig :: "crypto \<Rightarrow> tx \<Rightarrow> err option" where
  "CheckSig cr t = checkSig cr t (SigningPayload t)"

definition CheckSigAt :: "crypto \<Rightarrow> tx \<Rightarrow> u64 \<Rightarrow> err option" where
  "CheckSigAt cr t height = checkSig cr t (signingPayloadFor cr t height)"

definition SignTx :: "crypto \<Rightarrow> tx \<Rightarrow> bytes \<Rightarrow> tx" where
  "SignTx cr t priv =
     (let t1 = t\<lparr>tx_FromPub := hex_encode (ed_public cr priv)\<rparr>
      in t1\<lparr>tx_Sig := hex_encode (ed_sign cr priv (SigningPayload t1))\<rparr>)"

definition SignTxAt :: "crypto \<Rightarrow> tx \<Rightarrow> bytes \<Rightarrow> u64 \<Rightarrow> tx" where
  "SignTxAt cr t priv height =
     (let t1 = t\<lparr>tx_FromPub := hex_encode (ed_public cr priv)\<rparr>;
          t2 = t1\<lparr>tx_Sig := hex_encode (ed_sign cr priv (signingPayloadFor cr t1 height))\<rparr>;
          t3 = t2\<lparr>tx_id := computeID cr t2\<rparr>
      in cacheFromAddr cr t3)"

section \<open>The header determines the block's header fields\<close>

lemma length_copy32 [simp]: "length (copy32 b) = 32"
  by (simp add: copy32_def)

lemma copy32_id [simp]: "length b = 32 \<Longrightarrow> copy32 b = b"
  by (simp add: copy32_def)

lemma length_HeaderBytes [simp]: "length (HeaderBytes b) = HeaderLen"
  by (simp add: HeaderBytes_def)

lemma valid64Hex_length: "valid64Hex s \<Longrightarrow> length (fst (hex_decode s)) = 32"
  using hex_decode_ok_length [of s] by (simp add: valid64Hex_def)

definition header_fields_ok :: "block \<Rightarrow> bool" where
  "header_fields_ok b \<longleftrightarrow>
     valid64Hex (blk_PrevHash b) \<and> valid64Hex (blk_TxRoot b) \<and> valid64Hex (blk_Target b)"

lemma TargetInt_eq:
  "valid64Hex (blk_Target b) \<Longrightarrow> TargetInt b = Inr (int (from_be (fst (hex_decode (blk_Target b)))))"
  by (simp add: TargetInt_def valid64Hex_length case_prod_beta) (simp add: valid64Hex_def)

lemma HeaderBytes_eq_iff:
  "HeaderBytes b = HeaderBytes c \<longleftrightarrow>
     blk_Version b = blk_Version c \<and> blk_Height b = blk_Height c \<and> blk_Time b = blk_Time c
     \<and> copy32 (fst (hex_decode (blk_PrevHash b))) = copy32 (fst (hex_decode (blk_PrevHash c)))
     \<and> copy32 (fst (hex_decode (blk_TxRoot b))) = copy32 (fst (hex_decode (blk_TxRoot c)))
     \<and> copy32 (fst (hex_decode (blk_Target b))) = copy32 (fst (hex_decode (blk_Target c)))
     \<and> blk_Nonce b = blk_Nonce c"
  by (simp add: HeaderBytes_def)

text \<open>
  For blocks whose three hash fields pass \<open>valid64Hex\<close>, equal serialized headers mean equal
  versions, heights, times, nonces, previous-hash and tx-root bytes and equal numeric targets:
  nothing is padded or truncated into a collision.
\<close>

theorem header_injective:
  assumes "header_fields_ok b" and "header_fields_ok c"
  shows "HeaderBytes b = HeaderBytes c \<longleftrightarrow>
     blk_Version b = blk_Version c \<and> blk_Height b = blk_Height c \<and> blk_Time b = blk_Time c
     \<and> fst (hex_decode (blk_PrevHash b)) = fst (hex_decode (blk_PrevHash c))
     \<and> fst (hex_decode (blk_TxRoot b)) = fst (hex_decode (blk_TxRoot c))
     \<and> TargetInt b = TargetInt c \<and> blk_Nonce b = blk_Nonce c"
proof -
  have "TargetInt b = TargetInt c \<longleftrightarrow>
      fst (hex_decode (blk_Target b)) = fst (hex_decode (blk_Target c))"
    using assms by (auto simp: header_fields_ok_def TargetInt_eq valid64Hex_length dest: from_be_inj)
  then show ?thesis
    using assms by (simp add: HeaderBytes_eq_iff header_fields_ok_def valid64Hex_length)
qed

definition demo_block :: block where
  "demo_block = \<lparr>blk_Version = 1, blk_Height = 7, blk_Time = 9,
     blk_PrevHash = replicate 64 (CHR ''0''), blk_TxRoot = replicate 64 (CHR ''a''),
     blk_Target = replicate 64 (CHR ''1''), blk_Nonce = 5, blk_Txs = [], blk_hash = []\<rparr>"

lemma valid64Hex_replicate: "hex_val c \<noteq> None \<Longrightarrow> valid64Hex (replicate 64 c)"
  by (simp add: valid64Hex_def hex_decode_ok_iff)

lemma header_fields_ok_demo [simp]: "header_fields_ok demo_block"
  by (simp only: header_fields_ok_def demo_block_def block.simps)
    (intro conjI valid64Hex_replicate; simp add: hex_val_def)

theorem header_injective_witness:
  "header_fields_ok demo_block \<and>
   HeaderBytes demo_block \<noteq> HeaderBytes (demo_block\<lparr>blk_Nonce := 6\<rparr>)"
proof -
  have d: "header_fields_ok (demo_block\<lparr>blk_Nonce := 6\<rparr>)"
    using header_fields_ok_demo by (simp add: header_fields_ok_def)
  show ?thesis
    using header_injective [OF header_fields_ok_demo d] header_fields_ok_demo
    by (simp add: demo_block_def)
qed

text \<open>
  The letter case of a hexadecimal field does not reach the header: two spellings of one target
  give the same block hash.
\<close>

lemma target_spelling_malleable:
  assumes "hex_decode s = hex_decode (blk_Target b)"
  shows "computeHash cr (b\<lparr>blk_Target := s\<rparr>) = computeHash cr b
    \<and> TargetInt (b\<lparr>blk_Target := s\<rparr>) = TargetInt b"
  using assms by (simp add: computeHash_def HeaderBytes_def TargetInt_def)

section \<open>Targets and work\<close>

lemma TargetToHex_decode:
  assumes "0 \<le> t" and "t < 2 ^ 256"
  obtains raw where "length raw = 32" "int (from_be raw) = t" "TargetToHex t = Some (hex_encode raw)"
proof -
  have "nat \<bar>t\<bar> < 256 ^ 32" using assms by (simp add: nat_less_iff)
  then have len: "length (big_bytes t) \<le> 32"
    by (simp add: big_bytes_def length_nat_le_bytes)
  define raw where "raw = replicate (32 - length (big_bytes t)) 0 @ big_bytes t"
  show ?thesis
    by (rule that [of raw]) (use len assms in \<open>simp_all add: raw_def TargetToHex_def Let_def\<close>)
qed

text \<open>A target below \<open>2^256\<close> survives the header encoding: \<open>TargetToHex\<close> does not panic, yields
  64 hexadecimal digits and \<open>TargetInt\<close> reads the same number back.\<close>

theorem target_roundtrip:
  assumes "0 \<le> t" and "t < 2 ^ 256"
  shows "\<exists>h. TargetToHex t = Some h \<and> valid64Hex h \<and> TargetInt (b\<lparr>blk_Target := h\<rparr>) = Inr t"
  using assms
  by (rule TargetToHex_decode) (simp add: TargetInt_def valid64Hex_def)

theorem target_roundtrip_witness:
  "\<exists>h. TargetToHex GenesisTarget = Some h \<and> valid64Hex h
     \<and> TargetInt (demo_block\<lparr>blk_Target := h\<rparr>) = Inr GenesisTarget"
  by (rule target_roundtrip) (simp_all add: GenesisTarget_def)

lemma TargetInt_range: "TargetInt b = Inr t \<Longrightarrow> 0 \<le> t \<and> t < 2 ^ 256"
proof -
  assume "TargetInt b = Inr t"
  then obtain raw where "length raw = 32" "t = int (from_be raw)"
    by (auto simp: TargetInt_def case_prod_beta Let_def split: if_splits)
  moreover have "from_be raw < 256 ^ length raw" by (rule from_be_less)
  ultimately show ?thesis by simp
qed

lemma WorkOf_pos: "0 \<le> t \<Longrightarrow> t < 2 ^ 256 \<Longrightarrow> 1 \<le> WorkOf t"
  by (simp add: WorkOf_def pos_imp_zdiv_pos_iff int_one_le_iff_zero_less)

lemma WorkOf_antimono: "0 \<le> s \<Longrightarrow> s \<le> t \<Longrightarrow> WorkOf t \<le> WorkOf s"
  by (simp add: WorkOf_def zdiv_mono2)

lemma WorkOf_nonneg: "0 \<le> t \<Longrightarrow> 0 \<le> WorkOf t"
  by (simp add: WorkOf_def pos_imp_zdiv_nonneg_iff)

section \<open>Issuance\<close>

lemma unat_BlockSubsidy:
  "h < 2 ^ 64 \<Longrightarrow> unat (BlockSubsidy (word_of_nat h)) =
     (if h div HalvingInterval \<ge> 33 then 0 else InitialReward div 2 ^ (h div HalvingInterval))"
proof -
  assume h: "h < 2 ^ 64"
  have k: "unat (word_of_nat h div 1051200 :: u64) = h div HalvingInterval"
    using h by (simp add: unat_div_distrib unsigned_of_nat take_bit_eq_mod)
  have d: "unat (drop_bit j (5000000000 :: u64)) = InitialReward div 2 ^ j" for j
    unfolding unat_drop_bit_eq by (subst drop_bit_eq_div) simp
  show ?thesis
    by (simp only: BlockSubsidy_def Let_def if_distrib [of unat] word_le_nat_alt k d) simp
qed

definition subsidy_nat :: "nat \<Rightarrow> nat" where
  "subsidy_nat h =
     (if h div HalvingInterval \<ge> 33 then 0 else InitialReward div 2 ^ (h div HalvingInterval))"

lemma sum_halvings: "(\<Sum>k<Suc m. c div 2 ^ k) + c div 2 ^ m \<le> 2 * (c :: nat)"
proof (induction m)
  case (Suc m)
  have "c div 2 ^ Suc m = c div 2 ^ m div 2" by (simp only: power_Suc2 div_mult2_eq)
  then have "2 * (c div 2 ^ Suc m) \<le> c div 2 ^ m" by simp
  moreover have "(\<Sum>k<Suc (Suc m). c div 2 ^ k) = (\<Sum>k<Suc m. c div 2 ^ k) + c div 2 ^ Suc m"
    by (rule sum.lessThan_Suc)
  ultimately show ?case using Suc.IH by linarith
qed simp

lemma sum_subsidy_bound: "(\<Sum>h<n. subsidy_nat h) \<le> 2 * InitialReward * HalvingInterval"
proof -
  have "(\<Sum>h<n. subsidy_nat h) \<le> (\<Sum>h<33 * HalvingInterval + n. subsidy_nat h)"
    by (rule sum_mono2) auto
  also have "\<dots> = (\<Sum>h<33 * HalvingInterval. subsidy_nat h)"
    by (rule sum.mono_neutral_right)
      (auto simp: subsidy_nat_def less_eq_div_iff_mult_less_eq)
  also have "\<dots> = (\<Sum>k<33. \<Sum>h = k * HalvingInterval..<k * HalvingInterval + HalvingInterval. subsidy_nat h)"
    by (rule sum.nat_group [symmetric])
  also have "\<dots> = (\<Sum>k<33. HalvingInterval * (InitialReward div 2 ^ k))"
  proof (rule sum.cong [OF refl])
    fix k :: nat assume k: "k \<in> {..<33}"
    have "subsidy_nat h = InitialReward div 2 ^ k"
      if "h \<in> {k * HalvingInterval..<k * HalvingInterval + HalvingInterval}" for h
    proof -
      have "h div HalvingInterval = k" using that by (intro div_nat_eqI) simp_all
      with k show ?thesis by (simp add: subsidy_nat_def)
    qed
    then show "(\<Sum>h = k * HalvingInterval..<k * HalvingInterval + HalvingInterval. subsidy_nat h)
        = HalvingInterval * (InitialReward div 2 ^ k)"
      by simp
  qed
  also have "\<dots> = HalvingInterval * (\<Sum>k<33. InitialReward div 2 ^ k)"
    by (rule sum_distrib_left [symmetric])
  also have "(\<Sum>k<33. InitialReward div 2 ^ k) \<le> 2 * InitialReward"
    using sum_halvings [where m = 32 and c = InitialReward] by simp
  finally have "(\<Sum>h<n. subsidy_nat h) \<le> HalvingInterval * (2 * InitialReward)" by simp
  then show ?thesis by simp
qed

text \<open>
  However long the chain grows, the scheduled block rewards never add up to more than
  105,120,000 CRB, the maximum supply the project documents.
\<close>

theorem total_issuance_bound:
  assumes "n \<le> 2 ^ 64"
  shows "(\<Sum>h<n. unat (BlockSubsidy (word_of_nat h))) \<le> 105120000 * CoinUnit"
proof -
  have "(\<Sum>h<n. unat (BlockSubsidy (word_of_nat h))) = (\<Sum>h<n. subsidy_nat h)"
    using assms by (intro sum.cong) (simp_all add: unat_BlockSubsidy subsidy_nat_def)
  also have "\<dots> \<le> 2 * InitialReward * HalvingInterval" by (rule sum_subsidy_bound)
  finally show ?thesis by simp
qed

theorem total_issuance_bound_witness:
  "(\<Sum>h<(1000000::nat). unat (BlockSubsidy (word_of_nat h))) \<le> 105120000 * CoinUnit"
  by (rule total_issuance_bound) simp

section \<open>Addresses and signing payloads\<close>

lemma ValidAddr_AddrFromPub: "digest32 cr \<Longrightarrow> ValidAddr (AddrFromPub cr pub)"
  by (simp add: ValidAddr_def AddrFromPub_def digest32D)

lemma ValidAddr_no_sep: "ValidAddr a \<Longrightarrow> CHR ''|'' \<notin> set a"
proof -
  assume v: "ValidAddr a"
  then have "a = AddrPrefix @ drop 4 a" by (metis ValidAddr_def append_take_drop_id)
  moreover have "CHR ''|'' \<notin> set (drop 4 a)"
    using v hex_decode_ok_chars [of "drop 4 a" "CHR ''|''"] by (auto simp: ValidAddr_def hex_val_sep)
  moreover have "CHR ''|'' \<notin> set AddrPrefix" by simp
  ultimately show ?thesis by (metis UnE set_append)
qed

lemma hex_ok_no_sep: "snd (hex_decode s) \<Longrightarrow> CHR ''|'' \<notin> set s"
  using hex_decode_ok_chars [of s "CHR ''|''"] by (auto simp: hex_val_sep)

lemma split_at_sep:
  assumes "CHR ''|'' \<notin> set x" and "CHR ''|'' \<notin> set y"
  shows "x @ CHR ''|'' # r = y @ CHR ''|'' # q \<longleftrightarrow> x = y \<and> r = q"
  using assms
proof (induction x arbitrary: y)
  case Nil
  then show ?case by (cases y) auto
next
  case (Cons c x)
  then show ?case by (cases y) auto
qed

text \<open>The fields of a transaction that passes the structural checks of \<open>checkSig\<close>.\<close>

definition tx_wf :: "tx \<Rightarrow> bool" where
  "tx_wf t \<longleftrightarrow> snd (hex_decode (tx_FromPub t)) \<and> ValidAddr (tx_To t)"

lemma checkSig_wf: "checkSig cr t p = None \<Longrightarrow> tx_wf t"
  by (auto simp: checkSig_def tx_wf_def Let_def case_prod_beta split: if_splits)

lemma ChainID_hex: "snd (hex_decode (ChainID cr))"
  by (simp add: ChainID_def Hash_def GenesisBlock_def computeHash_def)

lemma tx_wf_no_sep:
  "tx_wf t \<Longrightarrow> CHR ''|'' \<notin> set (tx_FromPub t) \<and> CHR ''|'' \<notin> set (tx_To t)"
  by (simp add: tx_wf_def ValidAddr_no_sep hex_ok_no_sep)

lemma SigningPayload_inj:
  assumes "tx_wf t" and "tx_wf u" and "SigningPayload t = SigningPayload u"
  shows "tx_FromPub t = tx_FromPub u \<and> tx_To t = tx_To u \<and> tx_Amount t = tx_Amount u
    \<and> tx_Fee t = tx_Fee u \<and> tx_Nonce t = tx_Nonce u"
  using assms(3) tx_wf_no_sep [OF assms(1)] tx_wf_no_sep [OF assms(2)]
  by (simp only: SigningPayload_def str_bytes_inj) (simp add: split_at_sep)

lemma ValidAddr_not_decimal: "ValidAddr (show_u64 w) \<Longrightarrow> False"
proof -
  assume "ValidAddr (show_u64 w)"
  then have "take 4 (show_u64 w) = AddrPrefix" by (simp add: ValidAddr_def)
  then have "hd (show_u64 w) = CHR ''c''" using hd_take [of 4 "show_u64 w"] by simp
  moreover have "hd (show_nat n) \<noteq> CHR ''c''" for n
  proof (induction n rule: show_nat.induct)
    case (1 n)
    have "m < 10 \<Longrightarrow> dec_digit m \<noteq> CHR ''c''" for m
      using dec_val_dec_digit [of m] by (auto simp: dec_val_def)
    with 1 show ?case by (subst show_nat.simps) simp
  qed
  ultimately show False by (simp add: show_u64_def)
qed

lemma payload_domain_separation:
  assumes "tx_wf t" and "tx_wf u" and "height < ChainIDHeight" and "height' \<ge> ChainIDHeight"
  shows "signingPayloadFor cr t height \<noteq> signingPayloadFor cr u height'"
proof
  assume "signingPayloadFor cr t height = signingPayloadFor cr u height'"
  moreover have "\<not> height \<ge> ChainIDHeight" using assms(3) by simp
  ultimately have "tx_To t = tx_FromPub u \<and> show_u64 (tx_Amount t) = tx_To u"
    using assms(4) tx_wf_no_sep [OF assms(1)] tx_wf_no_sep [OF assms(2)]
      hex_ok_no_sep [OF ChainID_hex, of cr]
    by (simp only: signingPayloadFor_def SigningPayload_def if_True if_False str_bytes_inj)
      (simp add: split_at_sep)
  then have "ValidAddr (show_u64 (tx_Amount t))" using assms(2) by (simp add: tx_wf_def)
  then show False by (rule ValidAddr_not_decimal)
qed

text \<open>
  The message a signature covers determines the transaction and its era: two well-formed
  transactions have the same signing payload only when sender key, destination, amount, fee and
  nonce agree and both heights lie on the same side of \<open>ChainIDHeight\<close>. A signature made for the
  chain-bound format can never be read as one of the earlier format, or the reverse.
\<close>

theorem signing_payload_injective:
  assumes "tx_wf t" and "tx_wf u"
    and eq: "signingPayloadFor cr t height = signingPayloadFor cr u height'"
  shows "tx_FromPub t = tx_FromPub u \<and> tx_To t = tx_To u \<and> tx_Amount t = tx_Amount u
    \<and> tx_Fee t = tx_Fee u \<and> tx_Nonce t = tx_Nonce u
    \<and> (height \<ge> ChainIDHeight \<longleftrightarrow> height' \<ge> ChainIDHeight)"
proof -
  have era: "height \<ge> ChainIDHeight \<longleftrightarrow> height' \<ge> ChainIDHeight"
    using payload_domain_separation [OF assms(1,2)] payload_domain_separation [OF assms(2,1)] eq
    by (metis linorder_not_le)
  have "SigningPayload t = SigningPayload u"
  proof (cases "height \<ge> ChainIDHeight")
    case True
    with eq era show ?thesis
      by (simp only: signingPayloadFor_def SigningPayload_def if_True str_bytes_inj) simp
  next
    case False
    with eq era show ?thesis by (simp add: signingPayloadFor_def)
  qed
  then show ?thesis using SigningPayload_inj [OF assms(1,2)] era by blast
qed

definition demo_tx :: tx where
  "demo_tx = \<lparr>tx_FromPub = [], tx_To = AddrPrefix @ replicate 40 (CHR ''7''), tx_Amount = 5,
     tx_Fee = 1, tx_Nonce = 0, tx_Sig = [], tx_id = [], tx_fromAddr = []\<rparr>"

lemma ValidAddr_demo: "ValidAddr (tx_To demo_tx)"
  by (simp add: ValidAddr_def demo_tx_def hex_decode_ok_iff hex_val_def)

theorem signing_payload_injective_witness:
  "tx_wf demo_tx \<and> signingPayloadFor demo_crypto demo_tx 699 \<noteq> signingPayloadFor demo_crypto demo_tx 700"
proof -
  have wf: "tx_wf demo_tx" using ValidAddr_demo by (simp add: tx_wf_def) (simp add: demo_tx_def)
  have "(699 :: u64) \<ge> ChainIDHeight \<longleftrightarrow> (700 :: u64) \<ge> ChainIDHeight \<Longrightarrow> False" by simp
  with signing_payload_injective [OF wf wf, of demo_crypto 699 700] wf show ?thesis by blast
qed

section \<open>Signing and the identifier caches\<close>

text \<open>A cache is coherent when it is empty or holds what the code would compute.\<close>

definition tx_coherent :: "crypto \<Rightarrow> tx \<Rightarrow> bool" where
  "tx_coherent cr t \<longleftrightarrow>
     (tx_id t = [] \<or> tx_id t = computeID cr t)
     \<and> (tx_fromAddr t = [] \<or> FromAddr cr (t\<lparr>tx_fromAddr := []\<rparr>) = Inr (tx_fromAddr t))"

lemma computeID_upd [simp]:
  "computeID cr (t\<lparr>tx_id := i\<rparr>) = computeID cr t" "computeID cr (t\<lparr>tx_fromAddr := a\<rparr>) = computeID cr t"
  by (simp_all add: computeID_def SigningPayload_def)

lemma ID_coherent: "tx_coherent cr t \<Longrightarrow> ID cr t = computeID cr t"
  by (auto simp: tx_coherent_def ID_def)

lemma FromAddr_coherent:
  "tx_coherent cr t \<Longrightarrow> FromAddr cr t = FromAddr cr (t\<lparr>tx_fromAddr := []\<rparr>)"
  by (auto simp: tx_coherent_def FromAddr_def IsCoinbase_def split: if_splits)

lemma cacheFromAddr_coherent:
  assumes "tx_id t = computeID cr t" and "tx_fromAddr t = [] \<or> IsCoinbase t = False \<and>
      snd (hex_decode (tx_FromPub t)) \<and> length (fst (hex_decode (tx_FromPub t))) = 32"
  shows "tx_coherent cr (cacheFromAddr cr t)"
  using assms
  by (auto simp: tx_coherent_def cacheFromAddr_def FromAddr_def IsCoinbase_def case_prod_beta Let_def
      split: if_splits)

lemma cacheFromAddr_wire [simp]:
  "tx_FromPub (cacheFromAddr cr t) = tx_FromPub t" "tx_To (cacheFromAddr cr t) = tx_To t"
  "tx_Amount (cacheFromAddr cr t) = tx_Amount t" "tx_Fee (cacheFromAddr cr t) = tx_Fee t"
  "tx_Nonce (cacheFromAddr cr t) = tx_Nonce t" "tx_Sig (cacheFromAddr cr t) = tx_Sig t"
  "tx_id (cacheFromAddr cr t) = tx_id t"
  by (simp_all add: cacheFromAddr_def case_prod_beta)

lemma unmarshal_coherent:
  "tx_fromAddr r = [] \<Longrightarrow> tx_UnmarshalJSON cr (Some r) = Some t \<Longrightarrow> tx_coherent cr t"
  by (auto simp: tx_UnmarshalJSON_def intro!: cacheFromAddr_coherent)

lemma signingPayloadFor_cong:
  "tx_FromPub t = tx_FromPub u \<Longrightarrow> tx_To t = tx_To u \<Longrightarrow> tx_Amount t = tx_Amount u \<Longrightarrow>
   tx_Fee t = tx_Fee u \<Longrightarrow> tx_Nonce t = tx_Nonce u \<Longrightarrow>
   signingPayloadFor cr t h = signingPayloadFor cr u h"
  by (simp add: signingPayloadFor_def SigningPayload_def)

lemma SignTxAt_checks:
  assumes "ed25519_ok cr" and "ValidAddr (tx_To t)" and "tx_Amount t \<noteq> 0"
    and "height \<ge> ChainIDHeight \<longleftrightarrow> height' \<ge> ChainIDHeight"
  shows "CheckSigAt cr (SignTxAt cr t priv height) height' = None
    \<and> FromAddr cr (SignTxAt cr t priv height) = Inr (AddrFromPub cr (ed_public cr priv))
    \<and> tx_coherent cr (SignTxAt cr t priv height)
    \<and> ID cr (SignTxAt cr t priv height) = computeID cr (SignTxAt cr t priv height)"
proof -
  define s where "s = SignTxAt cr t priv height"
  define pub where "pub = ed_public cr priv"
  define t1 where "t1 = t\<lparr>tx_FromPub := hex_encode pub\<rparr>"
  define t2 where "t2 = t1\<lparr>tx_Sig := hex_encode (ed_sign cr priv (signingPayloadFor cr t1 height))\<rparr>"
  have s: "s = cacheFromAddr cr (t2\<lparr>tx_id := computeID cr t2\<rparr>)"
    by (simp add: s_def SignTxAt_def t2_def t1_def pub_def Let_def)
  have len: "length pub = 32" "length (ed_sign cr priv m) = 64" "ed_verify cr pub m (ed_sign cr priv m)" for m
    using assms(1) by (simp_all add: ed25519_ok_def pub_def)
  then have ne: "pub \<noteq> []" "hex_encode pub \<noteq> []" by (auto simp flip: length_greater_0_conv)
  have pay: "signingPayloadFor cr s height' = signingPayloadFor cr t1 height"
    using assms(4) by (simp add: s t2_def signingPayloadFor_def SigningPayload_def)
  have coh: "tx_coherent cr s"
    unfolding s by (rule cacheFromAddr_coherent) (use len ne in \<open>simp_all add: t2_def t1_def IsCoinbase_def\<close>)
  have "CheckSigAt cr s height' = None"
    using assms(2,3) len ne pay
    by (simp add: CheckSigAt_def checkSig_def IsCoinbase_def s) (simp add: t2_def t1_def)
  moreover have "FromAddr cr s = Inr (AddrFromPub cr pub)"
    unfolding FromAddr_coherent [OF coh]
    using len ne by (simp add: s FromAddr_def IsCoinbase_def t2_def t1_def)
  ultimately show ?thesis using coh unfolding s_def by (simp add: ID_coherent pub_def)
qed

lemma SignTxAt_fields [simp]:
  "tx_To (SignTxAt cr t priv h) = tx_To t" "tx_Amount (SignTxAt cr t priv h) = tx_Amount t"
  "tx_Fee (SignTxAt cr t priv h) = tx_Fee t" "tx_Nonce (SignTxAt cr t priv h) = tx_Nonce t"
  by (simp_all add: SignTxAt_def Let_def)

text \<open>
  A transaction signed for a height passes \<open>CheckSigAt\<close> at every height of the same era,
  carries the sender address of the signing key, and has coherent caches: \<open>ID\<close> and \<open>FromAddr\<close>
  return what they would compute afresh, whatever the caches held before.
\<close>

theorem sign_then_check:
  assumes "ed25519_ok cr" and "ValidAddr (tx_To t)" and "tx_Amount t \<noteq> 0"
    and "height \<ge> ChainIDHeight \<longleftrightarrow> height' \<ge> ChainIDHeight"
  shows "CheckSigAt cr (SignTxAt cr t priv height) height' = None
    \<and> FromAddr cr (SignTxAt cr t priv height) = Inr (AddrFromPub cr (ed_public cr priv))
    \<and> tx_coherent cr (SignTxAt cr t priv height)
    \<and> ID cr (SignTxAt cr t priv height) = computeID cr (SignTxAt cr t priv height)"
  using assms by (rule SignTxAt_checks)

theorem sign_then_check_witness:
  "CheckSigAt demo_crypto (SignTxAt demo_crypto demo_tx [1, 2, 3] 800) 900 = None"
  using sign_then_check [OF ed25519_ok_demo ValidAddr_demo, of 800 900 "[1, 2, 3]"]
  by (simp add: demo_tx_def)

text \<open>
  The older \<open>SignTx\<close> does not refresh the caches: on a transaction decoded before, it keeps the
  identifier of the unsigned original.
\<close>

lemma SignTx_keeps_cached_id: "tx_id t \<noteq> [] \<Longrightarrow> ID cr (SignTx cr t priv) = tx_id t"
  by (simp add: SignTx_def ID_def Let_def)

end
