(* ===== verification/Core_Ledger.thy ===== *)
theory Core_Ledger
  imports Core_Types
begin

text \<open>
  The account ledger, after the state rules of \<^verbatim>\<open>src/core/chain.go\<close>: accounts, coinbase
  maturity, transaction and block-body validation, applying a block to the state and to the
  per-address totals, and the supply. Balances are 64-bit words that wrap; the lemmas show when
  they do not, and that a validated block creates exactly its subsidy.
\<close>

section \<open>Accounts and the state map\<close>

record account =
  acc_Balance :: u64
  acc_Nonce :: u64

definition zero_account :: account where
  "zero_account = \<lparr>acc_Balance = 0, acc_Nonce = 0\<rparr>"

type_synonym state = "(string, account) gomap"

text \<open>\<open>State.get\<close> returns the account and creates it when it is missing.\<close>

definition st_get :: "state \<Rightarrow> string \<Rightarrow> account \<times> state" where
  "st_get s addr =
     (case map_of s addr of
        Some a \<Rightarrow> (a, s)
      | None \<Rightarrow> (zero_account, AList.update addr zero_account s))"

abbreviation acct :: "state \<Rightarrow> string \<Rightarrow> account" where
  "acct s a \<equiv> gm_get zero_account s a"

text \<open>\<open>st.get(to).Balance += amount\<close> and the debit of a sender with its nonce increment.\<close>

definition st_credit :: "state \<Rightarrow> string \<Rightarrow> u64 \<Rightarrow> state" where
  "st_credit s addr amount =
     (let (a, s1) = st_get s addr
      in AList.update addr (a\<lparr>acc_Balance := acc_Balance a + amount\<rparr>) s1)"

definition st_debit :: "state \<Rightarrow> string \<Rightarrow> u64 \<Rightarrow> state" where
  "st_debit s addr v =
     (let (a, s1) = st_get s addr
      in AList.update addr (a\<lparr>acc_Balance := acc_Balance a - v, acc_Nonce := acc_Nonce a + 1\<rparr>) s1)"

definition immatureCoinbase :: "block list \<Rightarrow> nat \<Rightarrow> (string, u64) gomap" where
  "immatureCoinbase blocks atHeight =
     (if atHeight < MaturityHeight then []
      else let lo = (if atHeight > CoinbaseMaturity then atHeight - CoinbaseMaturity + 1 else 0)
           in foldl (\<lambda>imm h.
                case blk_Txs (blocks ! h) of
                  [] \<Rightarrow> imm
                | cb # _ \<Rightarrow>
                    if IsCoinbase cb
                    then AList.update (tx_To cb) (gm_get 0 imm (tx_To cb) + tx_Amount cb) imm
                    else imm)
              [] [lo..<min atHeight (length blocks)])"

definition spendable :: "u64 \<Rightarrow> u64 \<Rightarrow> u64" where
  "spendable bal immature = (if immature \<ge> bal then 0 else bal - immature)"

text \<open>
  \<open>validateTxAgainstState\<close>: \<open>sigOK\<close> is the memo of signatures verified off the lock. The state is
  returned because \<open>get\<close> may create the sender's account.
\<close>

type_synonym sig_memo = "(string \<times> u64) list"

definition validateTxAgainstState ::
  "crypto \<Rightarrow> sig_memo \<Rightarrow> state \<Rightarrow> tx \<Rightarrow> (string, u64) gomap \<Rightarrow> u64 \<Rightarrow> err option \<times> state" where
  "validateTxAgainstState cr sigOK st t immature height =
     (case (if (ID cr t, height) \<in> set sigOK then None else CheckSigAt cr t height) of
        Some e \<Rightarrow> (Some e, st)
      | None \<Rightarrow>
          let from = from_or_empty cr t; (acc, st1) = st_get st from in
          if tx_Nonce t \<noteq> acc_Nonce acc then (Some (BadNonce (acc_Nonce acc) (tx_Nonce t)), st1)
          else let total = tx_Amount t + tx_Fee t in
            if total < tx_Amount t then (Some AmountOverflow, st1)
            else if spendable (acc_Balance acc) (gm_get 0 immature from) < total
              then (Some InsufficientSpendable, st1)
            else (None, st1))"

definition applyTx :: "crypto \<Rightarrow> state \<Rightarrow> tx \<Rightarrow> state" where
  "applyTx cr st t =
     (if IsCoinbase t then st_credit st (tx_To t) (tx_Amount t)
      else st_credit (st_debit st (from_or_empty cr t) (tx_Amount t + tx_Fee t))
             (tx_To t) (tx_Amount t))"

definition applyBlockToState :: "crypto \<Rightarrow> state \<Rightarrow> block \<Rightarrow> state" where
  "applyBlockToState cr st b = foldl (applyTx cr) st (blk_Txs b)"

definition replay :: "crypto \<Rightarrow> block list \<Rightarrow> state" where
  "replay cr bs = foldl (applyBlockToState cr) [] bs"

text \<open>
  The loop of \<open>validateBlock\<close> over \<open>b.Txs[1:]\<close>, on a copy \<open>work\<close> of the state.
\<close>

fun validateBody ::
  "crypto \<Rightarrow> sig_memo \<Rightarrow> u64 \<Rightarrow> (string, u64) gomap \<Rightarrow> u64 \<Rightarrow> string list \<Rightarrow> state \<Rightarrow> tx list
    \<Rightarrow> err option \<times> state" where
  "validateBody cr sigOK minfee imm height seen work [] = (None, work)"
| "validateBody cr sigOK minfee imm height seen work (t # ts) =
     (if IsCoinbase t then (Some ExtraCoinbase, work)
      else if ID cr t \<in> set seen then (Some DuplicateTx, work)
      else if tx_Fee t < minfee then (Some (TxErr (ID cr t) (FeeBelowMin (tx_Fee t) minfee)), work)
      else case validateTxAgainstState cr sigOK work t imm height of
        (Some e, w) \<Rightarrow> (Some (TxErr (ID cr t) e), w)
      | (None, w) \<Rightarrow>
          validateBody cr sigOK minfee imm height (ID cr t # seen)
            (st_credit (st_debit w (from_or_empty cr t) (tx_Amount t + tx_Fee t))
               (tx_To t) (tx_Amount t)) ts)"

section \<open>Supply and lifetime totals\<close>

definition supply_of :: "state \<Rightarrow> u64" where
  "supply_of st = gm_total acc_Balance st"

record addr_totals =
  at_Received :: u64
  at_Mined :: u64
  at_Sent :: u64
  at_Txn :: int

definition zero_totals :: addr_totals where
  "zero_totals = \<lparr>at_Received = 0, at_Mined = 0, at_Sent = 0, at_Txn = 0\<rparr>"

type_synonym totals = "(string, addr_totals) gomap"

definition tot_upd :: "(addr_totals \<Rightarrow> addr_totals) \<Rightarrow> string \<Rightarrow> totals \<Rightarrow> totals" where
  "tot_upd f a tot = AList.update a (f (gm_get zero_totals tot a)) tot"

definition applyTxToTotals :: "crypto \<Rightarrow> totals \<Rightarrow> tx \<Rightarrow> totals" where
  "applyTxToTotals cr tot t =
     (if IsCoinbase t
      then tot_upd (\<lambda>r. r\<lparr>at_Received := at_Received r + tx_Amount t,
                          at_Mined := at_Mined r + tx_Amount t, at_Txn := at_Txn r + 1\<rparr>) (tx_To t) tot
      else
        let from = from_or_empty cr t;
            tot1 = tot_upd (\<lambda>r. r\<lparr>at_Sent := at_Sent r + (tx_Amount t + tx_Fee t),
                                  at_Txn := at_Txn r + 1\<rparr>) from tot
        in if tx_To t \<noteq> from
           then tot_upd (\<lambda>r. r\<lparr>at_Received := at_Received r + tx_Amount t,
                               at_Txn := at_Txn r + 1\<rparr>) (tx_To t) tot1
           else tot1)"

definition applyBlockToTotals :: "crypto \<Rightarrow> totals \<Rightarrow> block \<Rightarrow> totals" where
  "applyBlockToTotals cr tot b = foldl (applyTxToTotals cr) tot (blk_Txs b)"

definition replay_totals :: "crypto \<Rightarrow> block list \<Rightarrow> totals" where
  "replay_totals cr bs = foldl (applyBlockToTotals cr) [] bs"

section \<open>Lookups after each operation\<close>

named_theorems ledger_simps \<open>lookups and invariants after a ledger operation\<close>

lemma st_get_simps [ledger_simps]:
  "fst (st_get s a) = acct s a" "acct (snd (st_get s a)) b = acct s b"
  "gm_invar s \<Longrightarrow> gm_invar (snd (st_get s a))"
  by (auto simp: st_get_def gm_get_def update_conv' gmap.invar_put split: option.splits)

lemma acct_credit [ledger_simps]:
  "acct (st_credit s a v) b =
     (if b = a then (acct s a)\<lparr>acc_Balance := acc_Balance (acct s a) + v\<rparr> else acct s b)"
  by (simp add: st_credit_def case_prod_beta Let_def ledger_simps)

lemma acct_debit [ledger_simps]:
  "acct (st_debit s a v) b =
     (if b = a then (acct s a)\<lparr>acc_Balance := acc_Balance (acct s a) - v,
                               acc_Nonce := acc_Nonce (acct s a) + 1\<rparr> else acct s b)"
  by (simp add: st_debit_def case_prod_beta Let_def ledger_simps)

lemma invar_credit [ledger_simps]: "gm_invar s \<Longrightarrow> gm_invar (st_credit s a v)"
  by (simp add: st_credit_def case_prod_beta Let_def ledger_simps gmap.invar_put)

lemma invar_debit [ledger_simps]: "gm_invar s \<Longrightarrow> gm_invar (st_debit s a v)"
  by (simp add: st_debit_def case_prod_beta Let_def ledger_simps gmap.invar_put)

lemma invar_applyTx [ledger_simps]: "gm_invar s \<Longrightarrow> gm_invar (applyTx cr s t)"
  by (simp add: applyTx_def ledger_simps)

lemma invar_applyTxs: "gm_invar s \<Longrightarrow> gm_invar (foldl (applyTx cr) s ts)"
  by (induction ts arbitrary: s) (simp_all add: ledger_simps)

lemma invar_applyBlock [ledger_simps]: "gm_invar s \<Longrightarrow> gm_invar (applyBlockToState cr s b)"
  by (simp add: applyBlockToState_def invar_applyTxs)

lemma invar_applyBlocks: "gm_invar s \<Longrightarrow> gm_invar (foldl (applyBlockToState cr) s bs)"
  by (induction bs arbitrary: s) (simp_all add: ledger_simps)

lemma gm_invar_Nil [simp]: "gm_invar []"
  by (simp add: gm_invar_def)

lemma invar_replay [ledger_simps]: "gm_invar (replay cr bs)"
  by (simp add: replay_def invar_applyBlocks)

lemma replay_snoc [simp]: "replay cr (bs @ [b]) = applyBlockToState cr (replay cr bs) b"
  by (simp add: replay_def)

lemma replay_append: "replay cr (bs @ cs) = foldl (applyBlockToState cr) (replay cr bs) cs"
  by (simp add: replay_def)

text \<open>Two states are equivalent when every account reads the same; empty accounts do not count.\<close>

definition st_eq :: "state \<Rightarrow> state \<Rightarrow> bool" where
  "st_eq s u \<longleftrightarrow> (\<forall>a. acct s a = acct u a)"

lemma st_eq_refl [simp]: "st_eq s s"
  by (simp add: st_eq_def)

lemma st_eq_sym: "st_eq s u \<Longrightarrow> st_eq u s"
  by (simp add: st_eq_def)

lemma st_eq_trans [trans]: "st_eq s u \<Longrightarrow> st_eq u v \<Longrightarrow> st_eq s v"
  by (simp add: st_eq_def)

lemma st_eq_get [ledger_simps]: "st_eq (snd (st_get s a)) s"
  by (simp add: st_eq_def ledger_simps)

lemma st_eq_credit: "st_eq s u \<Longrightarrow> st_eq (st_credit s a v) (st_credit u a v)"
  by (simp add: st_eq_def ledger_simps)

lemma st_eq_debit: "st_eq s u \<Longrightarrow> st_eq (st_debit s a v) (st_debit u a v)"
  by (simp add: st_eq_def ledger_simps)

lemma st_eq_applyTx: "st_eq s u \<Longrightarrow> st_eq (applyTx cr s t) (applyTx cr u t)"
  by (simp add: applyTx_def st_eq_credit st_eq_debit)

lemma st_eq_applyTxs: "st_eq s u \<Longrightarrow> st_eq (foldl (applyTx cr) s ts) (foldl (applyTx cr) u ts)"
  by (induction ts arbitrary: s u) (simp_all add: st_eq_applyTx)

lemma st_eq_applyBlock: "st_eq s u \<Longrightarrow> st_eq (applyBlockToState cr s b) (applyBlockToState cr u b)"
  by (simp add: applyBlockToState_def st_eq_applyTxs)

lemma gm_total_over:
  assumes "gm_invar m" and "finite S" and "fst ` set m \<subseteq> S" and "f z = 0"
  shows "gm_total f m = (\<Sum>a\<in>S. f (gm_get z m a))"
proof -
  have d: "distinct (map fst m)" using assms(1) by (simp add: gm_invar_def)
  have "gm_total f m = (\<Sum>a\<in>fst ` set m. f (gm_get z m a))"
    using d
  proof (induction m)
    case (Cons p m)
    have "(\<Sum>a\<in>fst ` set m. f (gm_get z (p # m) a)) = (\<Sum>a\<in>fst ` set m. f (gm_get z m a))"
    proof (rule sum.cong [OF refl])
      fix a assume "a \<in> fst ` set m"
      then have "a \<noteq> fst p" using Cons.prems by (metis distinct.simps(2) list.simps(9) set_map)
      then show "f (gm_get z (p # m) a) = f (gm_get z m a)" by (simp add: gm_get_def)
    qed
    then show ?case using Cons by (simp add: gm_total_def gm_get_def)
  qed (simp add: gm_total_def)
  also have "\<dots> = (\<Sum>a\<in>S. f (gm_get z m a))"
  proof (rule sum.mono_neutral_left [OF assms(2,3)], intro ballI)
    fix a assume "a \<in> S - fst ` set m"
    then have "map_of m a = None" by (simp add: map_of_eq_None_iff)
    then show "f (gm_get z m a) = 0" using assms(4) by (simp add: gm_get_def)
  qed
  finally show ?thesis .
qed

lemma gm_total_cong:
  assumes "gm_invar m" and "gm_invar n" and "\<And>a. gm_get z m a = gm_get z n a" and "f z = 0"
  shows "gm_total f m = gm_total f n"
  using gm_total_over [where S = "fst ` set m \<union> fst ` set n" and m = m and f = f and z = z]
    gm_total_over [where S = "fst ` set m \<union> fst ` set n" and m = n and f = f and z = z] assms
  by simp

lemma weight_acct: "f zero_account = 0 \<Longrightarrow> gmap.weight f s a = f (acct s a)"
  by (simp add: gmap.weight_def gm_get_def split: option.splits)

lemma total_get: "gm_invar s \<Longrightarrow> f zero_account = 0 \<Longrightarrow> gm_total f (snd (st_get s a)) = gm_total f s"
  by (auto simp: st_get_def gmap.total_put_weight gmap.weight_def split: option.splits)

lemma total_credit:
  assumes "gm_invar s" and "f zero_account = 0"
    and "f ((acct s a)\<lparr>acc_Balance := acc_Balance (acct s a) + v\<rparr>) = f (acct s a) + d"
  shows "gm_total f (st_credit s a v) = gm_total f s + d"
  using assms
  by (simp add: st_credit_def case_prod_beta Let_def ledger_simps gmap.total_put_weight weight_acct total_get)

lemma total_debit:
  assumes "gm_invar s" and "f zero_account = 0"
    and "f ((acct s a)\<lparr>acc_Balance := acc_Balance (acct s a) - v,
                       acc_Nonce := acc_Nonce (acct s a) + 1\<rparr>) = f (acct s a) - d"
  shows "gm_total f (st_debit s a v) = gm_total f s - d"
  using assms
  by (simp add: st_debit_def case_prod_beta Let_def ledger_simps gmap.total_put_weight weight_acct total_get)

section \<open>Issuance in wrapping arithmetic\<close>

lemma total_applyTx_u64:
  assumes "gm_invar s"
  shows "supply_of (applyTx cr s t) =
    (if IsCoinbase t then supply_of s + tx_Amount t else supply_of s - tx_Fee t)"
proof -
  have z: "acc_Balance zero_account = 0" by (simp add: zero_account_def)
  show ?thesis
    using assms
    by (simp add: applyTx_def supply_of_def total_credit [where f = acc_Balance and d = "tx_Amount t", OF _ z]
        total_debit [where f = acc_Balance and d = "tx_Amount t + tx_Fee t", OF _ z] ledger_simps)
qed

definition fees_of :: "tx list \<Rightarrow> u64" where
  "fees_of ts = sum_list (map tx_Fee (filter (\<lambda>t. \<not> IsCoinbase t) ts))"

lemma TotalFees_eq: "TotalFees b = fees_of (blk_Txs b)"
proof -
  have "foldl (\<lambda>fees t. if \<not> IsCoinbase t then fees + tx_Fee t else fees) a ts = a + fees_of ts" for a ts
    by (induction ts arbitrary: a) (simp_all add: fees_of_def add.assoc)
  then show ?thesis by (simp add: TotalFees_def)
qed

lemma supply_applyTxs:
  "gm_invar s \<Longrightarrow> supply_of (foldl (applyTx cr) s ts) =
     supply_of s + sum_list (map tx_Amount (filter IsCoinbase ts)) - fees_of ts"
  by (induction ts arbitrary: s) (simp_all add: total_applyTx_u64 ledger_simps fees_of_def)

text \<open>The coinbase rules of \<open>validateBlock\<close> that concern money.\<close>

definition coinbase_ok :: "block \<Rightarrow> bool" where
  "coinbase_ok b \<longleftrightarrow>
     (case blk_Txs b of [] \<Rightarrow> False
      | cb # ts \<Rightarrow> IsCoinbase cb \<and> (\<forall>t \<in> set ts. \<not> IsCoinbase t)
          \<and> tx_Amount cb = BlockSubsidy (blk_Height b) + TotalFees b)"

lemma supply_applyBlock:
  assumes "gm_invar s" and "coinbase_ok b"
  shows "supply_of (applyBlockToState cr s b) = supply_of s + BlockSubsidy (blk_Height b)"
proof -
  obtain cb ts where b: "blk_Txs b = cb # ts" "IsCoinbase cb" "\<forall>t \<in> set ts. \<not> IsCoinbase t"
      "tx_Amount cb = BlockSubsidy (blk_Height b) + TotalFees b"
    using assms(2) by (auto simp: coinbase_ok_def split: list.splits)
  then have "filter IsCoinbase (blk_Txs b) = [cb]" by simp
  then show ?thesis
    using supply_applyTxs [OF assms(1), of cr "blk_Txs b"] b(4)
    by (simp add: applyBlockToState_def TotalFees_eq)
qed

section \<open>Money as true integers\<close>

definition wealth :: "state \<Rightarrow> int" where
  "wealth s = gm_total (\<lambda>a. uint (acc_Balance a)) s"

lemma uint_zero_account [simp]: "uint (acc_Balance zero_account) = 0"
  by (simp add: zero_account_def)

lemma wealth_nonneg: "0 \<le> wealth s"
  by (auto simp: wealth_def gm_total_def intro: sum_list_nonneg)

lemma wealth_cong: "gm_invar s \<Longrightarrow> gm_invar u \<Longrightarrow> st_eq s u \<Longrightarrow> wealth s = wealth u"
  unfolding wealth_def by (rule gm_total_cong [where z = zero_account]) (simp_all add: st_eq_def)

lemma wealth_get: "gm_invar s \<Longrightarrow> wealth (snd (st_get s a)) = wealth s"
  by (simp add: wealth_def total_get)

lemma balance_le_wealth: "gm_invar s \<Longrightarrow> uint (acc_Balance (acct s a)) \<le> wealth s"
proof (cases "map_of s a")
  case None
  then show ?thesis using wealth_nonneg [of s] by (simp add: gm_get_def)
next
  case (Some x)
  then have "(a, x) \<in> set s" by (rule map_of_SomeD)
  then have "uint (acc_Balance x) \<in> set (map (\<lambda>p. uint (acc_Balance (snd p))) s)" by force
  then have "uint (acc_Balance x) \<le> sum_list (map (\<lambda>p. uint (acc_Balance (snd p))) s)"
    by (intro member_le_sum_list) auto
  with Some show ?thesis by (simp add: gm_get_def wealth_def gm_total_def)
qed

lemma uint_plus_no_wrap: "uint (x :: u64) + uint y < 2 ^ 64 \<Longrightarrow> uint (x + y) = uint x + uint y"
  using uint_add_lem [of x y] by simp

lemma uint_minus_no_wrap: "uint (y :: u64) \<le> uint x \<Longrightarrow> uint (x - y) = uint x - uint y"
  using uint_sub_lem [of y x] by simp

lemma wealth_credit:
  assumes "gm_invar s" and "wealth s + uint v < 2 ^ 64"
  shows "wealth (st_credit s a v) = wealth s + uint v"
proof -
  have "uint (acc_Balance (acct s a)) + uint v < 2 ^ 64"
    using balance_le_wealth [OF assms(1), of a] assms(2) by linarith
  then show ?thesis
    unfolding wealth_def using assms(1) by (intro total_credit) (simp_all add: uint_plus_no_wrap)
qed

lemma wealth_debit:
  assumes "gm_invar s" and "uint v \<le> uint (acc_Balance (acct s a))"
  shows "wealth (st_debit s a v) = wealth s - uint v"
  unfolding wealth_def using assms by (intro total_debit) (simp_all add: uint_minus_no_wrap)

lemma spendable_le: "spendable bal imm \<le> bal"
  by (auto simp: spendable_def word_le_nat_alt word_less_nat_alt unat_sub not_le)

text \<open>What a successful validation of a transaction says about its sender's account.\<close>

lemma validateTx_ok:
  assumes "validateTxAgainstState cr memo s t imm h = (None, w)"
  shows "w = snd (st_get s (from_or_empty cr t))
    \<and> tx_Nonce t = acc_Nonce (acct s (from_or_empty cr t))
    \<and> uint (tx_Amount t + tx_Fee t) = uint (tx_Amount t) + uint (tx_Fee t)
    \<and> tx_Amount t + tx_Fee t
        \<le> spendable (acc_Balance (acct s (from_or_empty cr t))) (gm_get 0 imm (from_or_empty cr t))"
proof -
  have "\<not> tx_Amount t + tx_Fee t < tx_Amount t \<Longrightarrow>
      uint (tx_Amount t + tx_Fee t) = uint (tx_Amount t) + uint (tx_Fee t)"
    by (simp add: not_less word_le_def uint_plus_simple)
  then show ?thesis
    using assms
    by (auto simp: validateTxAgainstState_def case_prod_beta Let_def ledger_simps not_less
        split: option.splits if_splits)
qed

lemma validateTx_funds:
  assumes "validateTxAgainstState cr memo s t imm h = (None, w)"
  shows "uint (tx_Amount t) + uint (tx_Fee t) \<le> uint (acc_Balance (acct s (from_or_empty cr t)))"
  using validateTx_ok [OF assms] spendable_le order_trans by (metis word_le_def)

lemma validateBody_Cons_ok:
  assumes "validateBody cr memo minfee imm h seen w (t # ts) = (None, w')"
  obtains "\<not> IsCoinbase t" "ID cr t \<notin> set seen" "minfee \<le> tx_Fee t"
    "validateTxAgainstState cr memo w t imm h = (None, snd (st_get w (from_or_empty cr t)))"
    "validateBody cr memo minfee imm h (ID cr t # seen) (applyTx cr (snd (st_get w (from_or_empty cr t))) t) ts
       = (None, w')"
  using assms validateTx_ok
  by (fastforce simp: applyTx_def not_less split: if_splits prod.splits option.splits)

lemma wealth_applyTx:
  assumes "gm_invar s" and "\<not> IsCoinbase t" and "wealth s < 2 ^ 64"
    and "uint (tx_Amount t + tx_Fee t) = uint (tx_Amount t) + uint (tx_Fee t)"
    and "uint (tx_Amount t) + uint (tx_Fee t) \<le> uint (acc_Balance (acct s (from_or_empty cr t)))"
  shows "wealth (applyTx cr s t) = wealth s - uint (tx_Fee t)"
proof -
  let ?d = "st_debit s (from_or_empty cr t) (tx_Amount t + tx_Fee t)"
  have d: "wealth ?d = wealth s - (uint (tx_Amount t) + uint (tx_Fee t))"
    using assms by (simp add: wealth_debit)
  have "uint (tx_Amount t) + uint (tx_Fee t) \<le> wealth s"
    using assms(5) balance_le_wealth [OF assms(1)] by (rule order_trans)
  moreover have "0 \<le> uint (tx_Fee t)" by simp
  ultimately have "wealth ?d + uint (tx_Amount t) < 2 ^ 64" using d assms(3) by linarith
  then have "wealth (st_credit ?d (tx_To t) (tx_Amount t)) = wealth ?d + uint (tx_Amount t)"
    using assms(1) by (intro wealth_credit) (simp_all add: ledger_simps)
  then show ?thesis using d assms(2) by (simp add: applyTx_def)
qed

definition fee_sum :: "tx list \<Rightarrow> int" where
  "fee_sum ts = sum_list (map (\<lambda>t. uint (tx_Fee t)) ts)"

lemma validateBody_money:
  assumes "validateBody cr memo minfee imm h seen w ts = (None, w')"
    and "gm_invar w" and "wealth w < 2 ^ 64"
  shows "gm_invar w' \<and> st_eq w' (foldl (applyTx cr) w ts) \<and> wealth w' = wealth w - fee_sum ts
    \<and> (\<forall>t \<in> set ts. \<not> IsCoinbase t)"
  using assms
proof (induction ts arbitrary: seen w)
  case (Cons t ts)
  let ?g = "snd (st_get w (from_or_empty cr t))"
  from Cons.prems(1) obtain
    t: "\<not> IsCoinbase t" and v: "validateTxAgainstState cr memo w t imm h = (None, ?g)" and
    rest: "validateBody cr memo minfee imm h (ID cr t # seen) (applyTx cr ?g t) ts = (None, w')"
    by (rule validateBody_Cons_ok)
  have g: "gm_invar ?g" "wealth ?g = wealth w" "st_eq ?g w"
    using Cons.prems(2) by (simp_all add: ledger_simps wealth_get)
  have step: "wealth (applyTx cr ?g t) = wealth w - uint (tx_Fee t)"
    using wealth_applyTx [OF g(1) t] validateTx_ok [OF v] validateTx_funds [OF v] g Cons.prems(3)
    by (simp add: ledger_simps)
  have "0 \<le> uint (tx_Fee t)" by simp
  then have "wealth (applyTx cr ?g t) < 2 ^ 64" using step Cons.prems(3) by linarith
  then have IH: "gm_invar w'" "st_eq w' (foldl (applyTx cr) (applyTx cr ?g t) ts)"
      "wealth w' = wealth (applyTx cr ?g t) - fee_sum ts" "\<forall>t \<in> set ts. \<not> IsCoinbase t"
    using Cons.IH [OF rest] g by (simp_all add: ledger_simps)
  have "st_eq (foldl (applyTx cr) (applyTx cr ?g t) ts) (foldl (applyTx cr) (applyTx cr w t) ts)"
    using g(3) by (intro st_eq_applyTxs st_eq_applyTx)
  then show ?case using IH step t by (auto simp: fee_sum_def intro: st_eq_trans)
qed (simp add: fee_sum_def)

lemma credit_commute: "st_eq (applyTx cr (st_credit s a v) t) (st_credit (applyTx cr s t) a v)"
  by (simp add: st_eq_def applyTx_def ledger_simps add.commute add.left_commute diff_add_eq)

lemma credit_commutes: "st_eq (foldl (applyTx cr) (st_credit s a v) ts) (st_credit (foldl (applyTx cr) s ts) a v)"
proof (induction ts arbitrary: s)
  case (Cons t ts)
  have "st_eq (foldl (applyTx cr) (applyTx cr (st_credit s a v) t) ts)
      (foldl (applyTx cr) (st_credit (applyTx cr s t) a v) ts)"
    by (intro st_eq_applyTxs credit_commute)
  also have "st_eq \<dots> (st_credit (foldl (applyTx cr) (applyTx cr s t) ts) a v)" by (rule Cons.IH)
  finally show ?case by simp
qed simp

lemma uint_fees_of: "\<forall>t \<in> set ts. \<not> IsCoinbase t \<Longrightarrow> fee_sum ts < 2 ^ 64 \<Longrightarrow> uint (fees_of ts) = fee_sum ts"
proof (induction ts)
  case (Cons t ts)
  have nn: "0 \<le> uint (tx_Fee t)" by simp
  have c: "fee_sum (t # ts) = uint (tx_Fee t) + fee_sum ts" by (simp add: fee_sum_def)
  then have IH: "uint (fees_of ts) = fee_sum ts" using Cons nn by (smt (verit) list.set_intros(2))
  have "fees_of (t # ts) = tx_Fee t + fees_of ts" using Cons.prems(1) by (simp add: fees_of_def)
  moreover have "uint (tx_Fee t + fees_of ts) = uint (tx_Fee t) + uint (fees_of ts)"
    using IH c Cons.prems(2) by (intro uint_plus_no_wrap) linarith
  ultimately show ?case using IH c by simp
qed (simp_all add: fees_of_def fee_sum_def)

lemma block_issuance_lemma:
  assumes "gm_invar s" and "coinbase_ok b"
    and "validateBody cr memo minfee imm h seen s (tl (blk_Txs b)) = (None, w')"
    and "wealth s + uint (BlockSubsidy (blk_Height b)) < 2 ^ 64"
  shows "wealth (applyBlockToState cr s b) = wealth s + uint (BlockSubsidy (blk_Height b))"
proof -
  obtain cb ts where b: "blk_Txs b = cb # ts" "IsCoinbase cb" "\<forall>t \<in> set ts. \<not> IsCoinbase t"
      "tx_Amount cb = BlockSubsidy (blk_Height b) + TotalFees b"
    using assms(2) by (auto simp: coinbase_ok_def split: list.splits)
  let ?sub = "uint (BlockSubsidy (blk_Height b))"
  have lt: "wealth s < 2 ^ 64" using assms(4) uint_ge_0 [of "BlockSubsidy (blk_Height b)"] by linarith
  have m: "gm_invar w'" "st_eq w' (foldl (applyTx cr) s ts)" "wealth w' = wealth s - fee_sum ts"
    using validateBody_money [OF assms(3,1) lt] b(1) by simp_all
  have fs: "0 \<le> fee_sum ts" by (auto simp: fee_sum_def intro: sum_list_nonneg)
  have "fee_sum ts < 2 ^ 64" using m(3) wealth_nonneg [of w'] lt by linarith
  then have tf: "uint (TotalFees b) = fee_sum ts"
    using uint_fees_of [OF b(3)] b(1,2) by (simp add: TotalFees_eq fees_of_def)
  have cbv: "uint (tx_Amount cb) = ?sub + fee_sum ts"
    unfolding b(4) using tf m(3) wealth_nonneg [of w'] assms(4)
    by (subst uint_plus_no_wrap) linarith+
  have "st_eq (applyBlockToState cr s b) (st_credit w' (tx_To cb) (tx_Amount cb))"
    using credit_commutes [of cr s "tx_To cb" "tx_Amount cb" ts] st_eq_credit [OF st_eq_sym [OF m(2)]] b(1,2)
    by (auto simp: applyBlockToState_def applyTx_def intro: st_eq_trans)
  then have "wealth (applyBlockToState cr s b) = wealth (st_credit w' (tx_To cb) (tx_Amount cb))"
    using assms(1) m(1) by (intro wealth_cong) (simp_all add: ledger_simps)
  also have "\<dots> = wealth w' + uint (tx_Amount cb)"
    using m cbv assms(4) by (intro wealth_credit) simp_all
  finally show ?thesis using m(3) cbv by simp
qed

section \<open>Nonces\<close>

lemma nonce_applyTx:
  "acc_Nonce (acct (applyTx cr s t) a) =
     acc_Nonce (acct s a) + (if \<not> IsCoinbase t \<and> a = from_or_empty cr t then 1 else 0)"
  by (simp add: applyTx_def ledger_simps)

definition sent_by :: "crypto \<Rightarrow> string \<Rightarrow> tx list \<Rightarrow> nat" where
  "sent_by cr a ts = length (filter (\<lambda>t. \<not> IsCoinbase t \<and> from_or_empty cr t = a) ts)"

lemma nonce_applyTxs:
  "acc_Nonce (acct (foldl (applyTx cr) s ts) a) = acc_Nonce (acct s a) + of_nat (sent_by cr a ts)"
  by (induction ts arbitrary: s) (auto simp: sent_by_def nonce_applyTx)

text \<open>
  In a validated body the transactions of one sender carry consecutive nonces from the account's
  nonce on.
\<close>

lemma validateBody_nonces:
  assumes "validateBody cr memo minfee imm h seen w ts = (None, w')" and "i < length ts"
  shows "tx_Nonce (ts ! i) = acc_Nonce (acct w (from_or_empty cr (ts ! i)))
    + of_nat (sent_by cr (from_or_empty cr (ts ! i)) (take i ts))"
  using assms
proof (induction ts arbitrary: seen w i)
  case (Cons t ts)
  let ?g = "snd (st_get w (from_or_empty cr t))"
  from Cons.prems(1) obtain
    t: "\<not> IsCoinbase t" and v: "validateTxAgainstState cr memo w t imm h = (None, ?g)" and
    rest: "validateBody cr memo minfee imm h (ID cr t # seen) (applyTx cr ?g t) ts = (None, w')"
    by (rule validateBody_Cons_ok)
  show ?case
  proof (cases i)
    case 0
    then show ?thesis using validateTx_ok [OF v] by (simp add: sent_by_def)
  next
    case (Suc j)
    then show ?thesis
      using Cons.IH [OF rest, of j] Cons.prems(2) t
      by (auto simp: sent_by_def nonce_applyTx ledger_simps)
  qed
qed simp

text \<open>So once a validated body is applied, none of its transactions validates again.\<close>

lemma sent_by_append: "sent_by cr a (xs @ ys) = sent_by cr a xs + sent_by cr a ys"
  by (simp add: sent_by_def)

lemma sent_by_le: "sent_by cr a ts \<le> length ts"
  by (simp add: sent_by_def)

lemma nonce_of_nat_neq: "0 < k \<Longrightarrow> k < 2 ^ 64 \<Longrightarrow> n + of_nat k \<noteq> (n :: u64)"
proof -
  assume k: "0 < k" "k < 2 ^ 64"
  then have "unat (of_nat k :: u64) = k" by (simp add: unat_of_nat)
  then show ?thesis using k by (metis add_cancel_right_right less_irrefl unat_0)
qed

lemma replayed_nonce:
  assumes "validateBody cr memo minfee imm h seen w ts = (None, w')" and "i < length ts"
    and "length ts < 2 ^ 64" and "\<not> IsCoinbase (ts ! i)"
  shows "tx_Nonce (ts ! i) \<noteq> acc_Nonce (acct (foldl (applyTx cr) w ts) (from_or_empty cr (ts ! i)))"
proof -
  let ?a = "from_or_empty cr (ts ! i)"
  have split: "ts = take i ts @ ts ! i # drop (Suc i) ts" using assms(2) by (simp add: id_take_nth_drop)
  have "sent_by cr ?a (ts ! i # drop (Suc i) ts) = Suc (sent_by cr ?a (drop (Suc i) ts))"
    using assms(4) by (simp add: sent_by_def)
  then have k: "sent_by cr ?a ts = sent_by cr ?a (take i ts) + Suc (sent_by cr ?a (drop (Suc i) ts))"
    by (subst split) (simp add: sent_by_append)
  let ?k = "Suc (sent_by cr ?a (drop (Suc i) ts))"
  have "?k < 2 ^ 64" using sent_by_le [of cr ?a ts] k assms(3) by linarith
  then have "tx_Nonce (ts ! i) + of_nat ?k \<noteq> tx_Nonce (ts ! i)" by (intro nonce_of_nat_neq) simp_all
  moreover have "acc_Nonce (acct (foldl (applyTx cr) w ts) ?a) = tx_Nonce (ts ! i) + of_nat ?k"
    using validateBody_nonces [OF assms(1,2)] k by (simp add: nonce_applyTxs add.assoc)
  ultimately show ?thesis by simp
qed

lemma validateTx_nonce:
  "fst (validateTxAgainstState cr memo s t imm h) = None \<Longrightarrow> tx_Nonce t = acc_Nonce (acct s (from_or_empty cr t))"
  by (metis prod.collapse validateTx_ok)

section \<open>Balances explained by the lifetime totals\<close>

definition self_amount :: "crypto \<Rightarrow> string \<Rightarrow> tx list \<Rightarrow> u64" where
  "self_amount cr a ts =
     sum_list (map tx_Amount (filter (\<lambda>t. \<not> IsCoinbase t \<and> from_or_empty cr t = a \<and> tx_To t = a) ts))"

abbreviation tots :: "totals \<Rightarrow> string \<Rightarrow> addr_totals" where
  "tots m a \<equiv> gm_get zero_totals m a"

lemma tots_upd [ledger_simps]: "tots (tot_upd f a m) b = (if b = a then f (tots m a) else tots m b)"
  by (simp add: tot_upd_def gm_get_def update_conv')

lemma totals_step:
  assumes "acc_Balance (acct s a) + at_Sent (tots m a) = at_Received (tots m a) + k"
  shows "acc_Balance (acct (applyTx cr s t) a) + at_Sent (tots (applyTxToTotals cr m t) a)
    = at_Received (tots (applyTxToTotals cr m t) a) + (k + self_amount cr a [t])"
proof -
  have "acc_Balance (acct s a) = at_Received (tots m a) + k - at_Sent (tots m a)"
    using assms by (simp add: eq_diff_eq)
  then show ?thesis
    by (auto simp: applyTx_def applyTxToTotals_def Let_def ledger_simps self_amount_def algebra_simps)
qed

lemma totals_steps:
  assumes "acc_Balance (acct s a) + at_Sent (tots m a) = at_Received (tots m a) + k"
  shows "acc_Balance (acct (foldl (applyTx cr) s ts) a) + at_Sent (tots (foldl (applyTxToTotals cr) m ts) a)
    = at_Received (tots (foldl (applyTxToTotals cr) m ts) a) + (k + self_amount cr a ts)"
  using assms
proof (induction ts arbitrary: s m k)
  case (Cons t ts)
  have "self_amount cr a (t # ts) = self_amount cr a [t] + self_amount cr a ts"
    by (simp add: self_amount_def)
  then show ?case using Cons.IH [OF totals_step [OF Cons.prems]] by (simp add: add.assoc)
qed (simp add: self_amount_def)

lemma replay_flat: "replay cr bs = foldl (applyTx cr) [] (concat (map blk_Txs bs))"
proof -
  have "foldl (applyBlockToState cr) s bs = foldl (applyTx cr) s (concat (map blk_Txs bs))" for s
    by (induction bs arbitrary: s) (simp_all add: applyBlockToState_def)
  then show ?thesis by (simp add: replay_def)
qed

lemma replay_totals_flat: "replay_totals cr bs = foldl (applyTxToTotals cr) [] (concat (map blk_Txs bs))"
proof -
  have "foldl (applyBlockToTotals cr) s bs = foldl (applyTxToTotals cr) s (concat (map blk_Txs bs))" for s
    by (induction bs arbitrary: s) (simp_all add: applyBlockToTotals_def)
  then show ?thesis by (simp add: replay_totals_def)
qed

text \<open>The lifetime totals kept beside the state explain every balance: after replaying any list of
  blocks, balance plus everything sent equals everything received plus the amounts the address
  sent to itself (which the totals count as sent but not as received), in the 64-bit arithmetic of
  the code.
\<close>

theorem totals_explain_balance:
  "acc_Balance (acct (replay cr bs) a) + at_Sent (tots (replay_totals cr bs) a)
     = at_Received (tots (replay_totals cr bs) a) + self_amount cr a (concat (map blk_Txs bs))"
  unfolding replay_flat replay_totals_flat
  using totals_steps [of "[]" a "[]" 0 cr "concat (map blk_Txs bs)"]
  by (simp add: gm_get_def zero_account_def zero_totals_def)

text \<open>A block whose coinbase pays its subsidy plus fees and whose body validates against the state
  creates exactly its subsidy: the true (unbounded) sum of all balances grows by
  \<open>BlockSubsidy\<close> of its height, no addition or subtraction of the 64-bit code wraps on the way.
\<close>

theorem validated_block_issuance:
  assumes "gm_invar s" and "coinbase_ok b"
    and "validateBody cr memo minfee imm h seen s (tl (blk_Txs b)) = (None, w')"
    and "wealth s + uint (BlockSubsidy (blk_Height b)) < 2 ^ 64"
  shows "wealth (applyBlockToState cr s b) = wealth s + uint (BlockSubsidy (blk_Height b))"
  using assms by (rule block_issuance_lemma)

text \<open>No replay inside the ledger: once a validated body is applied, none of its transactions passes
  validation again in the resulting state, whatever the memo, the fee rule, the maturity map or
  the height.
\<close>

theorem applied_tx_cannot_replay:
  assumes "validateBody cr memo minfee imm h seen s ts = (None, w')" and "t \<in> set ts"
    and "length ts \<le> MaxBlockTxs" and "gm_invar s" and "wealth s < 2 ^ 64"
  shows "fst (validateTxAgainstState cr memo' (foldl (applyTx cr) s ts) t imm' h') \<noteq> None"
proof -
  obtain i where i: "i < length ts" "t = ts ! i" using assms(2) by (metis in_set_conv_nth)
  have "\<not> IsCoinbase (ts ! i)" using validateBody_money [OF assms(1,4,5)] i by simp
  then show ?thesis
    using replayed_nonce [OF assms(1) i(1)] validateTx_nonce assms(3) i(2) by fastforce
qed

text \<open>The witnesses run on a block whose coinbase collects the fee of one signed transfer.\<close>

definition pay_tx :: tx where
  "pay_tx = SignTxAt demo_crypto demo_tx [1, 2, 3] 7"

definition pay_state :: state where
  "pay_state = [(AddrFromPub demo_crypto (ed_public demo_crypto [1, 2, 3]),
                 \<lparr>acc_Balance = 5000, acc_Nonce = 0\<rparr>)]"

definition pay_block :: block where
  "pay_block = demo_block\<lparr>blk_Txs :=
     [genesis_coinbase\<lparr>tx_To := tx_To demo_tx, tx_Amount := 5000000001, tx_Nonce := 7\<rparr>, pay_tx]\<rparr>"

lemma pay_tx_simps [simp]:
  "CheckSigAt demo_crypto pay_tx 7 = None"
  "from_or_empty demo_crypto pay_tx = AddrFromPub demo_crypto (ed_public demo_crypto [1, 2, 3])"
  "tx_Amount pay_tx = 5" "tx_Fee pay_tx = 1" "tx_Nonce pay_tx = 0" "tx_To pay_tx = tx_To demo_tx"
  "\<not> IsCoinbase pay_tx"
proof -
  have s: "CheckSigAt demo_crypto pay_tx 7 = None"
      "FromAddr demo_crypto pay_tx = Inr (AddrFromPub demo_crypto (ed_public demo_crypto [1, 2, 3]))"
    unfolding pay_tx_def
    using SignTxAt_checks [OF ed25519_ok_demo ValidAddr_demo, of 7 7 "[1, 2, 3]"]
    by (simp_all add: demo_tx_def)
  show "CheckSigAt demo_crypto pay_tx 7 = None" by (rule s)
  show "from_or_empty demo_crypto pay_tx = AddrFromPub demo_crypto (ed_public demo_crypto [1, 2, 3])"
    by (simp add: from_or_empty_def s)
  show "\<not> IsCoinbase pay_tx" using s(2) by (auto simp: FromAddr_def)
qed (simp_all add: pay_tx_def, simp_all add: demo_tx_def)

lemma pay_invar [simp]: "gm_invar pay_state"
  by (simp add: gm_invar_def pay_state_def)

lemma pay_wealth [simp]: "wealth pay_state = 5000"
  by (simp add: wealth_def gm_total_def pay_state_def)

lemma pay_body: "\<exists>w'. validateBody demo_crypto [] 0 [] 7 [] pay_state [pay_tx] = (None, w')"
  by (simp add: validateTxAgainstState_def case_prod_beta Let_def ledger_simps)
    (simp add: pay_state_def gm_get_def spendable_def)

lemma pay_coinbase_ok [simp]: "coinbase_ok pay_block"
  by (simp add: coinbase_ok_def pay_block_def TotalFees_def demo_block_def genesis_coinbase_def
      IsCoinbase_def [of "\<lparr>tx_FromPub = [], tx_To = a, tx_Amount = b, tx_Fee = c, tx_Nonce = d, tx_Sig = e,
        tx_id = f, tx_fromAddr = g\<rparr>" for a b c d e f g] BlockSubsidy_def)

theorem validated_block_issuance_witness:
  "wealth (applyBlockToState demo_crypto pay_state pay_block) = 5000005000"
proof -
  obtain w' where "validateBody demo_crypto [] 0 [] 7 [] pay_state [pay_tx] = (None, w')"
    using pay_body by blast
  then have b: "validateBody demo_crypto [] 0 [] 7 [] pay_state (tl (blk_Txs pay_block)) = (None, w')"
    by (simp add: pay_block_def)
  have s: "BlockSubsidy (blk_Height pay_block) = 5000000000"
    by (simp add: pay_block_def demo_block_def BlockSubsidy_def)
  show ?thesis
    using validated_block_issuance [OF pay_invar pay_coinbase_ok b] unfolding s by simp
qed

theorem applied_tx_cannot_replay_witness:
  "fst (validateTxAgainstState demo_crypto [] (foldl (applyTx demo_crypto) pay_state [pay_tx])
      pay_tx [] 7) \<noteq> None"
proof -
  obtain w' where b: "validateBody demo_crypto [] 0 [] 7 [] pay_state [pay_tx] = (None, w')"
    using pay_body by blast
  show ?thesis by (rule applied_tx_cannot_replay [OF b]) simp_all
qed

end
