(* ===== verification/Core_Upgrade.thy ===== *)
theory Core_Upgrade
  imports Core_Types
begin

text \<open>
  Readiness-gated network upgrades, after \<^verbatim>\<open>src/core/upgrade.go\<close>, and the sticky cache of an
  activation height (\<^verbatim>\<open>lwmaActivationC\<close> and its siblings in \<^verbatim>\<open>src/core/chain.go\<close>). The locale
  \<open>readiness_gate\<close> states what the engine relies on: an activation height depends only on the
  blocks below it. The three gates of the program are interpretations of it.
\<close>

section \<open>Signals in the coinbase\<close>

abbreviation (input) NodeConsensusVersion :: nat where "NodeConsensusVersion \<equiv> 4"
abbreviation (input) FeeMarketVersion :: int where "FeeMarketVersion \<equiv> 2"
abbreviation (input) LWMAVersion :: int where "LWMAVersion \<equiv> 3"
abbreviation (input) DeepRecoveryVersion :: int where "DeepRecoveryVersion \<equiv> 4"
abbreviation (input) SignalWindow :: int where "SignalWindow \<equiv> 100"
abbreviation (input) SignalThreshold :: nat where "SignalThreshold \<equiv> 80"
abbreviation (input) LWMAThreshold :: nat where "LWMAThreshold \<equiv> 90"
abbreviation (input) DeepRecoveryWindow :: int where "DeepRecoveryWindow \<equiv> 50"
abbreviation (input) DeepRecoveryPercent :: int where "DeepRecoveryPercent \<equiv> 95"
abbreviation (input) coinbaseTagPrefix :: string where "coinbaseTagPrefix \<equiv> ''crbnode/''"

definition deepRecoveryRequired :: nat where
  "deepRecoveryRequired = nat ((DeepRecoveryWindow * DeepRecoveryPercent + 99) div 100)"

definition coinbaseTag :: string where
  "coinbaseTag = coinbaseTagPrefix @ show_nat NodeConsensusVersion"

definition coinbaseVersion :: "block \<Rightarrow> int" where
  "coinbaseVersion b =
     (case blk_Txs b of
        [] \<Rightarrow> 1
      | cb # _ \<Rightarrow>
          if take 8 (tx_Sig cb) \<noteq> coinbaseTagPrefix then 1
          else case atoi (drop 8 (tx_Sig cb)) of
            None \<Rightarrow> 1
          | Some v \<Rightarrow> if v < 1 then 1 else v)"

definition signalCountWin :: "block list \<Rightarrow> nat \<Rightarrow> int \<Rightarrow> int \<Rightarrow> nat" where
  "signalCountWin blocks at required window =
     (if window \<le> 0 \<or> at < nat window \<or> at > length blocks then 0
      else length (filter (\<lambda>h. coinbaseVersion (blocks ! h) \<ge> required) [at - nat window..<at]))"

definition signalCount :: "block list \<Rightarrow> nat \<Rightarrow> int \<Rightarrow> nat" where
  "signalCount blocks at required = signalCountWin blocks at required SignalWindow"

section \<open>Activation heights\<close>

definition activationHeightWin :: "block list \<Rightarrow> nat \<Rightarrow> int \<Rightarrow> nat \<Rightarrow> int \<Rightarrow> nat" where
  "activationHeightWin blocks flr requiredVersion threshold window =
     (if length blocks < flr then 0
      else let start = (if flr < nat window then nat window else flr)
           in case find (\<lambda>a. signalCountWin blocks a requiredVersion window \<ge> threshold)
                     [start..<length blocks + 1] of
                None \<Rightarrow> 0
              | Some a \<Rightarrow> a)"

definition activationHeight :: "block list \<Rightarrow> nat \<Rightarrow> int \<Rightarrow> nat \<Rightarrow> nat" where
  "activationHeight blocks flr requiredVersion threshold =
     activationHeightWin blocks flr requiredVersion threshold SignalWindow"

definition feeMarketActivation :: "block list \<Rightarrow> nat" where
  "feeMarketActivation blocks = activationHeight blocks FeeMarketHeight FeeMarketVersion SignalThreshold"

definition lwmaActivation :: "block list \<Rightarrow> nat" where
  "lwmaActivation blocks = activationHeight blocks 0 LWMAVersion LWMAThreshold"

definition deepRecoveryActivation :: "block list \<Rightarrow> nat" where
  "deepRecoveryActivation blocks =
     activationHeightWin blocks 0 DeepRecoveryVersion deepRecoveryRequired DeepRecoveryWindow"

definition feeMarketActiveAt :: "block list \<Rightarrow> nat \<Rightarrow> bool" where
  "feeMarketActiveAt blocks height = (let a = feeMarketActivation blocks in a \<noteq> 0 \<and> height \<ge> a)"

definition lwmaActiveAt :: "block list \<Rightarrow> nat \<Rightarrow> bool" where
  "lwmaActiveAt blocks height = (let a = lwmaActivation blocks in a \<noteq> 0 \<and> height \<ge> a)"

definition deepRecoveryActiveAt :: "block list \<Rightarrow> nat \<Rightarrow> bool" where
  "deepRecoveryActiveAt blocks height = (let a = deepRecoveryActivation blocks in a \<noteq> 0 \<and> height \<ge> a)"

text \<open>The package initialiser panics unless every threshold is a supermajority of its window.\<close>

definition upgrade_init_ok :: bool where
  "upgrade_init_ok \<longleftrightarrow>
     \<not> (int LWMAThreshold \<le> SignalWindow div 2 \<or> int LWMAThreshold > SignalWindow)
     \<and> \<not> (int SignalThreshold \<le> SignalWindow div 2 \<or> int SignalThreshold > SignalWindow)
     \<and> \<not> (int deepRecoveryRequired \<le> DeepRecoveryWindow div 2
           \<or> int deepRecoveryRequired > DeepRecoveryWindow)"

text \<open>
  The cached activation height (\<open>0\<close>: not yet): the result and the new cache. It is written only
  once the activation is buried \<open>depth\<close> blocks deep.
\<close>

definition sticky_activation ::
  "(block list \<Rightarrow> nat) \<Rightarrow> nat \<Rightarrow> nat \<Rightarrow> block list \<Rightarrow> nat \<times> nat" where
  "sticky_activation act depth cache blocks =
     (if cache \<noteq> 0 then (cache, cache)
      else let a = act blocks
           in (a, if a \<noteq> 0 \<and> length blocks \<ge> a + depth then a else cache))"

section \<open>The gate interface\<close>

lemma find_upt_Some:
  "find P [i..<j] = Some a \<longleftrightarrow> i \<le> a \<and> a < j \<and> P a \<and> (\<forall>k. i \<le> k \<and> k < a \<longrightarrow> \<not> P k)"
proof (induction "j - i" arbitrary: i)
  case 0
  then show ?case by auto
next
  case (Suc n)
  then have lt: "i < j" by simp
  then have split: "[i..<j] = i # [Suc i..<j]" by (simp add: upt_conv_Cons)
  have IH: "find P [Suc i..<j] = Some a \<longleftrightarrow>
      Suc i \<le> a \<and> a < j \<and> P a \<and> (\<forall>k. Suc i \<le> k \<and> k < a \<longrightarrow> \<not> P k)"
    using Suc by simp
  show ?case
  proof (cases "P i")
    case True
    have "i \<le> a \<and> (\<forall>k. i \<le> k \<and> k < a \<longrightarrow> \<not> P k) \<longleftrightarrow> a = i"
      using True by (metis le_eq_less_or_eq le_refl linorder_not_le)
    with True lt show ?thesis by (auto simp: split)
  next
    case False
    then have "i \<le> a \<and> P a \<longleftrightarrow> Suc i \<le> a \<and> P a" by (metis Suc_leI le_neq_implies_less Suc_leD)
    moreover have "(\<forall>k. i \<le> k \<and> k < a \<longrightarrow> \<not> P k) \<longleftrightarrow> (\<forall>k. Suc i \<le> k \<and> k < a \<longrightarrow> \<not> P k)"
      using False by (metis Suc_leD Suc_leI le_neq_implies_less)
    ultimately show ?thesis using False IH by (simp add: split) blast
  qed
qed

lemma find_upt_None: "find P [i..<j] = None \<longleftrightarrow> (\<forall>k. i \<le> k \<and> k < j \<longrightarrow> \<not> P k)"
  by (auto simp: find_None_iff)

definition first_ready :: "block list \<Rightarrow> nat \<Rightarrow> int \<Rightarrow> nat \<Rightarrow> int \<Rightarrow> nat \<Rightarrow> bool" where
  "first_ready blocks flr req thr window a \<longleftrightarrow>
     max flr (nat window) \<le> a \<and> a \<le> length blocks \<and> signalCountWin blocks a req window \<ge> thr
     \<and> (\<forall>k. max flr (nat window) \<le> k \<and> k < a \<longrightarrow> signalCountWin blocks k req window < thr)"

lemma first_ready_unique:
  "first_ready bs flr req thr window a \<Longrightarrow> first_ready bs flr req thr window b \<Longrightarrow> a = b"
  unfolding first_ready_def by (metis linorder_neqE_nat linorder_not_le)

lemma activationHeightWin_cases:
  "activationHeightWin blocks flr req thr window =
     (if length blocks < flr then 0
      else case find (\<lambda>a. signalCountWin blocks a req window \<ge> thr)
             [max flr (nat window)..<Suc (length blocks)] of None \<Rightarrow> 0 | Some a \<Rightarrow> a)"
proof -
  have "(if flr < nat window then nat window else flr) = max flr (nat window)" by simp
  then show ?thesis by (simp only: activationHeightWin_def Let_def Suc_eq_plus1)
qed

lemma activationHeightWin_ready:
  "activationHeightWin bs flr req thr window = a \<Longrightarrow> a \<noteq> 0 \<Longrightarrow> first_ready bs flr req thr window a"
  by (simp only: activationHeightWin_cases first_ready_def)
    (auto simp: find_upt_Some not_le simp del: upt_Suc split: if_splits option.splits)

lemma activationHeightWin_None:
  "activationHeightWin bs flr req thr window = 0 \<Longrightarrow> \<not> length bs < flr \<Longrightarrow>
    max flr (nat window) \<noteq> 0 \<Longrightarrow>
    max flr (nat window) \<le> a \<Longrightarrow> a \<le> length bs \<Longrightarrow> signalCountWin bs a req window < thr"
  by (simp only: activationHeightWin_cases)
    (auto simp: find_upt_Some find_upt_None not_le simp del: upt_Suc split: if_splits option.splits)

lemma activationHeightWin_eq:
  assumes "a \<noteq> 0"
  shows "activationHeightWin bs flr req thr window = a \<longleftrightarrow> first_ready bs flr req thr window a"
proof
  assume r: "first_ready bs flr req thr window a"
  then have "find (\<lambda>a. signalCountWin bs a req window \<ge> thr)
      [max flr (nat window)..<Suc (length bs)] = Some a"
    by (auto simp: find_upt_Some first_ready_def not_le simp del: upt_Suc)
  moreover have "\<not> length bs < flr" using r by (auto simp: first_ready_def)
  ultimately show "activationHeightWin bs flr req thr window = a"
    by (simp only: activationHeightWin_cases if_False option.case)
next
  assume "activationHeightWin bs flr req thr window = a"
  then show "first_ready bs flr req thr window a" using assms by (rule activationHeightWin_ready)
qed

lemma signalCountWin_take:
  assumes "take n bs = take n cs" and "a \<le> n" and "n \<le> length bs" and "n \<le> length cs"
  shows "signalCountWin bs a req window = signalCountWin cs a req window"
proof -
  have "bs ! h = cs ! h" if "h < a" for h
    using assms that by (metis nth_take order_less_le_trans)
  then show ?thesis using assms by (auto simp: signalCountWin_def intro!: arg_cong [where f = length] filter_cong)
qed

lemma first_ready_take:
  assumes "first_ready bs flr req thr window a" and "take a bs = take a cs" and "a \<le> length cs"
  shows "first_ready cs flr req thr window a"
proof -
  have "signalCountWin bs k req window = signalCountWin cs k req window" if "k \<le> a" for k
    using assms that by (intro signalCountWin_take [where n = a]) (simp_all add: first_ready_def)
  then show ?thesis using assms by (auto simp: first_ready_def)
qed

text \<open>
  What the chain engine relies on in a gate: it never lies beyond the chain, and it depends only
  on the blocks below it.
\<close>

locale readiness_gate =
  fixes act :: "block list \<Rightarrow> nat"
  assumes act_le: "act bs \<le> length bs"
    and act_local: "act bs \<noteq> 0 \<Longrightarrow> take (act bs) bs = take (act bs) cs \<Longrightarrow> act bs \<le> length cs \<Longrightarrow>
      act cs = act bs"
begin

lemma act_append: "act bs \<noteq> 0 \<Longrightarrow> act (bs @ cs) = act bs"
  using act_le [of bs] by (intro act_local) simp_all

definition cache_ok :: "nat \<Rightarrow> block list \<Rightarrow> bool" where
  "cache_ok cache bs \<longleftrightarrow> cache \<noteq> 0 \<longrightarrow> act bs = cache"

lemma cache_ok_0 [simp]: "cache_ok 0 bs"
  by (simp add: cache_ok_def)

lemma sticky_result: "cache_ok cache bs \<Longrightarrow> fst (sticky_activation act depth cache bs) = act bs"
  by (auto simp: sticky_activation_def cache_ok_def Let_def)

lemma sticky_cache: "cache_ok cache bs \<Longrightarrow> cache_ok (snd (sticky_activation act depth cache bs)) bs"
  by (auto simp: sticky_activation_def cache_ok_def Let_def)

lemma sticky_buried:
  "snd (sticky_activation act depth 0 bs) \<noteq> 0 \<Longrightarrow>
    snd (sticky_activation act depth 0 bs) + depth \<le> length bs"
  by (auto simp: sticky_activation_def Let_def split: if_splits)

lemma cache_ok_keep:
  "cache_ok cache bs \<Longrightarrow> take cache bs = take cache cs \<Longrightarrow> cache \<le> length cs \<Longrightarrow> cache_ok cache cs"
  using act_local [of bs cs] by (auto simp: cache_ok_def)

lemma cache_ok_append: "cache_ok cache bs \<Longrightarrow> cache_ok cache (bs @ cs)"
  using act_le [of bs] by (auto simp: cache_ok_def act_append)

text \<open>A fork that replaces at most \<open>depth\<close> blocks of a chain where the cache is buried keeps it.\<close>

lemma cache_ok_fork:
  assumes "cache_ok cache bs" and "cache + depth \<le> length bs" and "length bs \<le> start + depth"
    and "start \<le> length bs"
  shows "cache_ok cache (take start bs @ cs)"
proof (rule cache_ok_keep [OF assms(1)])
  have le: "cache \<le> start" using assms(2,3) by simp
  then show "take cache bs = take cache (take start bs @ cs)" using assms(4) by (simp add: min_def)
  show "cache \<le> length (take start bs @ cs)" using le assms(4) by simp
qed

end

lemma activationHeightWin_le: "activationHeightWin bs flr req thr window \<le> length bs"
  using activationHeightWin_ready [of bs flr req thr window, OF refl]
  by (cases "activationHeightWin bs flr req thr window = 0") (simp_all add: first_ready_def)

lemma activationHeightWin_local:
  assumes "activationHeightWin bs flr req thr window = a" and "a \<noteq> 0"
    and "take a bs = take a cs" and "a \<le> length cs"
  shows "activationHeightWin cs flr req thr window = a"
proof -
  from assms(1,2) have "first_ready bs flr req thr window a" by (rule activationHeightWin_ready)
  then have "first_ready cs flr req thr window a" using assms(3,4) by (rule first_ready_take)
  then show ?thesis using activationHeightWin_eq [OF assms(2)] by blast
qed

lemma activationHeightWin_gate: "readiness_gate (\<lambda>bs. activationHeightWin bs flr req thr window)"
  by (rule readiness_gate.intro [OF activationHeightWin_le activationHeightWin_local [OF refl]])

interpretation fee_gate: readiness_gate feeMarketActivation
  unfolding feeMarketActivation_def [abs_def] activationHeight_def by (rule activationHeightWin_gate)

interpretation lwma_gate: readiness_gate lwmaActivation
  unfolding lwmaActivation_def [abs_def] activationHeight_def by (rule activationHeightWin_gate)

interpretation dr_gate: readiness_gate deepRecoveryActivation
  unfolding deepRecoveryActivation_def [abs_def] by (rule activationHeightWin_gate)

section \<open>Properties\<close>

lemma upgrade_init: upgrade_init_ok
  by (simp add: upgrade_init_ok_def deepRecoveryRequired_def)

text \<open>
  An upgrade activates at the first height at or above both its floor and its window whose
  preceding window reached the threshold; with no such height on the chain the gate returns 0.
\<close>

theorem activation_first_ready:
  "(if activationHeightWin blocks flr req thr window = 0
    then length blocks < flr \<or> max flr (nat window) = 0
      \<or> (\<forall>a. max flr (nat window) \<le> a \<longrightarrow> a \<le> length blocks \<longrightarrow> signalCountWin blocks a req window < thr)
    else first_ready blocks flr req thr window (activationHeightWin blocks flr req thr window))"
proof (cases "activationHeightWin blocks flr req thr window = 0")
  case True
  then have "length blocks < flr \<or> max flr (nat window) = 0
      \<or> (\<forall>a. max flr (nat window) \<le> a \<longrightarrow> a \<le> length blocks \<longrightarrow> signalCountWin blocks a req window < thr)"
    using activationHeightWin_None by blast
  then show ?thesis by (simp only: True if_True simp_thms)
next
  case False
  then show ?thesis using activationHeightWin_ready [OF refl] by (simp only: if_False)
qed

theorem activation_first_ready_witness:
  "length (replicate 60 demo_block) \<ge> 50
   \<and> activationHeightWin (replicate 60 demo_block) 0 1 48 50 = 50"
proof -
  have v: "coinbaseVersion demo_block = 1" by (simp add: coinbaseVersion_def demo_block_def)
  have c: "signalCountWin (replicate 60 demo_block) 50 1 50 = 50"
    by (simp add: signalCountWin_def v nth_replicate cong: filter_cong)
  have "activationHeightWin (replicate 60 demo_block) 0 1 48 50 = 50"
    using c by (subst activationHeightWin_eq) (auto simp: first_ready_def)
  then show ?thesis using activation_first_ready [of "replicate 60 demo_block" 0 1 48 50] by simp
qed

text \<open>
  Once a gate has activated, appending blocks never moves its height, and no block appended
  later is judged by another height; this holds for the fee market, the LWMA retarget and the deep
  recovery rule.
\<close>

theorem activation_is_final:
  "feeMarketActivation bs \<in> {0, feeMarketActivation (bs @ cs)}
   \<and> lwmaActivation bs \<in> {0, lwmaActivation (bs @ cs)}
   \<and> deepRecoveryActivation bs \<in> {0, deepRecoveryActivation (bs @ cs)}"
  using fee_gate.act_append [of bs cs] lwma_gate.act_append [of bs cs] dr_gate.act_append [of bs cs]
  by (simp_all only: insert_iff empty_iff simp_thms) metis

end
