(* ===== verification/Core_Target.thy ===== *)
theory Core_Target
  imports Core_Upgrade
begin

text \<open>
  Difficulty: the legacy windowed-average retarget, the LWMA retarget, the choice between them,
  and the median-time rule, after the targets section of \<^verbatim>\<open>src/core/chain.go\<close>. \<open>big.Int\<close> is
  \<open>int\<close>; \<open>int64(x) - int64(y)\<close> on timestamps is the signed reading of the wrapped 64-bit
  difference. A stored block whose target does not decode makes the code dereference a nil
  \<open>big.Int\<close>: the functions return \<open>None\<close> there. The locale \<open>retarget_rule\<close> is the contract that
  block validation and template building rely on.
\<close>

definition target_opt :: "block \<Rightarrow> int option" where
  "target_opt b = (case TargetInt b of Inl _ \<Rightarrow> None | Inr t \<Rightarrow> Some t)"

definition int64_diff :: "u64 \<Rightarrow> u64 \<Rightarrow> int" where
  "int64_diff a b = sint (a - b)"

definition clamp_target :: "int \<Rightarrow> int" where
  "clamp_target next =
     (let next1 = (if next > MaxTarget then MaxTarget else next)
      in if next1 \<le> 0 then 1 else next1)"

definition legacyTarget :: "block list \<Rightarrow> int option" where
  "legacyTarget blocks =
     (let h = length blocks in
      if h < 2 then Some GenesisTarget
      else
        let window = (if h - 1 < RetargetWindow then h - 1 else RetargetWindow);
            expected = int window * BlockTargetSpacing;
            actual0 = int64_diff (blk_Time (blocks ! (h - 1))) (blk_Time (blocks ! (h - 1 - window)));
            actual1 = (if actual0 < expected div 4 then expected div 4 else actual0);
            actual = (if actual1 > expected * 4 then expected * 4 else actual1)
        in case those (map (\<lambda>i. target_opt (blocks ! i)) [h - window..<h]) of
             None \<Rightarrow> None
           | Some ts \<Rightarrow>
               let avg = sum_list ts div int window
               in Some (clamp_target (avg * actual div expected)))"

text \<open>The clamped solve time of the block at index \<open>idx\<close>.\<close>

definition solvetime :: "block list \<Rightarrow> nat \<Rightarrow> int" where
  "solvetime blocks idx =
     (let st = int64_diff (blk_Time (blocks ! idx)) (blk_Time (blocks ! (idx - 1)));
          st1 = (if st < 1 then 1 else st)
      in if st1 > 10 * BlockTargetSpacing then 10 * BlockTargetSpacing else st1)"

text \<open>The arithmetic after the loop: from summed work and weighted solve time to the target.\<close>

definition lwma_next :: "int \<Rightarrow> int \<Rightarrow> int" where
  "lwma_next sumD weighted =
     (let w = (if weighted < 1 then 1 else weighted);
          nextD0 = sumD * (BlockTargetSpacing * (int LWMAWindow + 1)) div (2 * w);
          nextD = (if nextD0 \<le> 0 then 1 else nextD0)
      in clamp_target (2 ^ 256 div nextD - 1))"

definition lwmaTarget :: "block list \<Rightarrow> int option" where
  "lwmaTarget blocks =
     (let h = length blocks; N = LWMAWindow in
      if h < N + 1 then legacyTarget blocks
      else
        let weighted = sum_list (map (\<lambda>k. int k * solvetime blocks (h - N + (k - 1))) [1..<N + 1])
        in case those (map (\<lambda>k. target_opt (blocks ! (h - N + (k - 1)))) [1..<N + 1]) of
             None \<Rightarrow> None
           | Some ds \<Rightarrow> Some (lwma_next (sum_list (map WorkOf ds)) weighted))"

definition expectedTargetActive :: "block list \<Rightarrow> bool \<Rightarrow> int option" where
  "expectedTargetActive blocks lwmaActive = (if lwmaActive then lwmaTarget blocks else legacyTarget blocks)"

definition expectedTarget :: "block list \<Rightarrow> int option" where
  "expectedTarget blocks = expectedTargetActive blocks (lwmaActiveAt blocks (length blocks))"

text \<open>\<open>medianTime\<close>; on an empty chain the code indexes out of range (the engine never has one).\<close>

definition medianTime :: "block list \<Rightarrow> u64" where
  "medianTime blocks =
     (let n = (if length blocks < 11 then length blocks else 11);
          times = sort (map blk_Time (drop (length blocks - n) blocks))
      in times ! (length times div 2))"

section \<open>The retarget contract\<close>

definition targets_ok :: "block list \<Rightarrow> bool" where
  "targets_ok bs \<longleftrightarrow> (\<forall>b \<in> set bs. target_opt b \<noteq> None)"

lemma targets_ok_simps [simp]:
  "targets_ok []" "targets_ok (b # bs) \<longleftrightarrow> target_opt b \<noteq> None \<and> targets_ok bs"
  "targets_ok (bs @ cs) \<longleftrightarrow> targets_ok bs \<and> targets_ok cs"
  by (auto simp: targets_ok_def)

lemma targets_ok_take: "targets_ok bs \<Longrightarrow> targets_ok (take n bs)"
  by (auto simp: targets_ok_def dest: in_set_takeD)

lemma targets_ok_nth: "targets_ok bs \<Longrightarrow> i < length bs \<Longrightarrow> target_opt (bs ! i) \<noteq> None"
  by (simp add: targets_ok_def)

lemma target_opt_range: "target_opt b = Some t \<Longrightarrow> 0 \<le> t \<and> t < 2 ^ 256"
  by (auto simp: target_opt_def dest: TargetInt_range split: sum.splits)

locale retarget_rule =
  fixes rule :: "block list \<Rightarrow> int option"
  assumes rule_range: "rule bs = Some t \<Longrightarrow> 1 \<le> t \<and> t \<le> MaxTarget"
    and rule_total: "targets_ok bs \<Longrightarrow> rule bs \<noteq> None"
begin

lemma rule_defined: "targets_ok bs \<Longrightarrow> \<exists>t. rule bs = Some t \<and> 1 \<le> t \<and> t \<le> MaxTarget"
  using rule_total [of bs] rule_range by blast

lemma rule_fits: "rule bs = Some t \<Longrightarrow> 0 \<le> t \<and> t < 2 ^ 256"
  using rule_range [of bs t] by (simp add: MaxTarget_def)

lemma rule_encodes:
  assumes "rule bs = Some t"
  obtains h where "TargetToHex t = Some h" "valid64Hex h" "hex_decode h = (fst (hex_decode h), True)"
    "\<And>b. blk_Target b = h \<Longrightarrow> TargetInt b = Inr t"
proof -
  obtain raw where raw: "length raw = 32" "int (from_be raw) = t" "TargetToHex t = Some (hex_encode raw)"
    using rule_fits [OF assms] TargetToHex_decode by blast
  show ?thesis
    by (rule that [of "hex_encode raw"]) (use raw in \<open>simp_all add: valid64Hex_def TargetInt_def\<close>)
qed

lemma rule_work: "rule bs = Some t \<Longrightarrow> WorkOf MaxTarget \<le> WorkOf t \<and> 1 \<le> WorkOf t"
  using rule_range [of bs t] rule_fits [of bs t] by (simp add: WorkOf_antimono WorkOf_pos)

end

lemma clamp_target_range: "1 \<le> clamp_target t \<and> clamp_target t \<le> MaxTarget"
  by (auto simp: clamp_target_def Let_def MaxTarget_def)

lemma clamp_target_mono: "s \<le> t \<Longrightarrow> clamp_target s \<le> clamp_target t"
  by (auto simp: clamp_target_def Let_def MaxTarget_def)

lemma those_Some_iff: "those xs = Some ys \<longleftrightarrow> xs = map Some ys"
  by (induction xs arbitrary: ys) (auto simp: map_eq_Cons_conv split: option.splits)

lemma those_map_Some: "(\<And>x. x \<in> set xs \<Longrightarrow> f x \<noteq> None) \<Longrightarrow> those (map f xs) \<noteq> None"
  by (induction xs) (auto split: option.splits)

lemma those_map_eq: "(\<And>x. x \<in> set xs \<Longrightarrow> f x = Some (g x)) \<Longrightarrow> those (map f xs) = Some (map g xs)"
  by (induction xs) auto

interpretation legacy: retarget_rule legacyTarget
proof
  fix bs t
  show "legacyTarget bs = Some t \<Longrightarrow> 1 \<le> t \<and> t \<le> MaxTarget"
    using clamp_target_range
    by (auto simp: legacyTarget_def Let_def GenesisTarget_def MaxTarget_def
        simp del: upt_Suc split: if_splits option.splits)
  assume ok: "targets_ok bs"
  define w where "w = (if length bs - 1 < RetargetWindow then length bs - 1 else RetargetWindow)"
  have "those (map (\<lambda>i. target_opt (bs ! i)) [length bs - w..<length bs]) \<noteq> None"
    by (rule those_map_Some, rule targets_ok_nth [OF ok]) simp
  then obtain ts where "those (map (\<lambda>i. target_opt (bs ! i)) [length bs - w..<length bs]) = Some ts"
    by blast
  then show "legacyTarget bs \<noteq> None"
    by (simp only: legacyTarget_def Let_def w_def [symmetric] option.case split: if_splits) blast
qed

interpretation lwma: retarget_rule lwmaTarget
proof
  fix bs t
  have "1 \<le> lwma_next s w \<and> lwma_next s w \<le> MaxTarget" for s w
    by (simp only: lwma_next_def Let_def clamp_target_range simp_thms)
  then show "lwmaTarget bs = Some t \<Longrightarrow> 1 \<le> t \<and> t \<le> MaxTarget"
    using legacy.rule_range
    by (auto simp: lwmaTarget_def Let_def simp del: upt_Suc split: if_splits option.splits)
  assume ok: "targets_ok bs"
  have "those (map (\<lambda>k. target_opt (bs ! (length bs - 90 + (k - 1)))) [1..<91]) \<noteq> None"
    if "\<not> length bs < 91"
    by (rule those_map_Some, rule targets_ok_nth [OF ok]) (use that in auto)
  then show "lwmaTarget bs \<noteq> None"
    using legacy.rule_total [OF ok]
    by (auto simp: lwmaTarget_def Let_def simp del: upt_Suc not_None_eq split: option.splits)
qed

interpretation expected: retarget_rule expectedTarget
  by unfold_locales
    (auto simp: expectedTarget_def expectedTargetActive_def simp del: not_None_eq
      dest: legacy.rule_range lwma.rule_range legacy.rule_total lwma.rule_total split: if_splits)

section \<open>Properties\<close>

text \<open>
  On a chain whose stored targets decode, both retarget rules and the rule in force return a
  target between 1 and the difficulty floor; it needs no more than 32 header bytes, the header
  field reads back as the same number, and a block at it carries at least the floor's work.
\<close>

theorem expected_target_sound:
  assumes "targets_ok bs"
  shows "\<exists>t h. expectedTargetActive bs act = Some t \<and> 1 \<le> t \<and> t \<le> MaxTarget
    \<and> TargetToHex t = Some h \<and> TargetInt (b\<lparr>blk_Target := h\<rparr>) = Inr t \<and> WorkOf t \<ge> WorkOf MaxTarget"
proof (cases act)
  case True
  obtain t where t: "lwmaTarget bs = Some t" "1 \<le> t" "t \<le> MaxTarget"
    using lwma.rule_defined [OF assms] by blast
  then show ?thesis
    using True lwma.rule_encodes [OF t(1)] lwma.rule_work [OF t(1)]
    by (auto simp: expectedTargetActive_def) (metis block.select_convs(6) block.surjective block.update_convs(6))
next
  case False
  obtain t where t: "legacyTarget bs = Some t" "1 \<le> t" "t \<le> MaxTarget"
    using legacy.rule_defined [OF assms] by blast
  then show ?thesis
    using False legacy.rule_encodes [OF t(1)] legacy.rule_work [OF t(1)]
    by (auto simp: expectedTargetActive_def) (metis block.select_convs(6) block.surjective block.update_convs(6))
qed

theorem expected_target_sound_witness:
  "\<exists>t h. expectedTargetActive [GenesisBlock demo_crypto] True = Some t \<and> 1 \<le> t \<and> t \<le> MaxTarget
    \<and> TargetToHex t = Some h \<and> TargetInt (demo_block\<lparr>blk_Target := h\<rparr>) = Inr t
    \<and> WorkOf t \<ge> WorkOf MaxTarget"
proof -
  have "0 \<le> GenesisTarget" "GenesisTarget < 2 ^ 256" by (simp_all add: GenesisTarget_def)
  then obtain raw where "length raw = 32" "TargetToHex GenesisTarget = Some (hex_encode raw)"
    by (rule TargetToHex_decode)
  then have "targets_ok [GenesisBlock demo_crypto]"
    by (simp add: target_opt_def TargetInt_def GenesisBlock_def)
  then show ?thesis by (rule expected_target_sound)
qed

text \<open>
  The LWMA arithmetic responds in the right direction: with the same summed work, longer
  weighted solve times never make the next target harder, and more summed work never makes it
  easier.
\<close>

theorem lwma_monotone:
  assumes "0 \<le> sumD" and "sumD \<le> sumD'" and "w' \<le> w"
  shows "lwma_next sumD' w' \<le> lwma_next sumD w"
proof -
  define v where "v = (if w < 1 then 1 else w)"
  define v' where "v' = (if w' < 1 then 1 else w')"
  have v: "1 \<le> v'" "v' \<le> v" using assms(3) by (auto simp: v_def v'_def)
  let ?c = "BlockTargetSpacing * (int LWMAWindow + 1)"
  define d where "d = sumD * ?c div (2 * v)"
  define d' where "d' = sumD' * ?c div (2 * v')"
  have "sumD * ?c div (2 * v) \<le> sumD * ?c div (2 * v')"
    using v assms(1) by (intro zdiv_mono2) auto
  also have "\<dots> \<le> d'" unfolding d'_def using v assms(2) by (intro zdiv_mono1) auto
  finally have "d \<le> d'" by (simp only: d_def)
  then have "1 \<le> (if d \<le> 0 then 1 else d)" "(if d \<le> 0 then 1 else d) \<le> (if d' \<le> 0 then 1 else d')" by auto
  then have "2 ^ 256 div (if d' \<le> 0 then 1 else d') \<le> (2 ^ 256 div (if d \<le> 0 then 1 else d) :: int)"
    by (intro zdiv_mono2) auto
  then show ?thesis
    unfolding lwma_next_def Let_def d_def d'_def v_def v'_def by (intro clamp_target_mono) simp
qed

theorem lwma_monotone_witness: "lwma_next 500000 100000 \<le> lwma_next 400000 200000"
  by (rule lwma_monotone) simp_all

lemma sum_upto_nat: "sum_list (map int [1..<N + 1]) = int N * (int N + 1) div 2"
proof (induction N)
  case (Suc N)
  have "sum_list (map int [1..<Suc N + 1]) = sum_list (map int [1..<N + 1]) + int (Suc N)" by simp
  also have "\<dots> = int (Suc N) * (int (Suc N) + 1) div 2" unfolding Suc.IH by (simp add: algebra_simps)
  finally show ?case .
qed simp

text \<open>
  The LWMA retarget is stationary: when the last ninety blocks all carry the target \<open>t\<close> and
  were found exactly one minute apart, the next difficulty is the work of \<open>t\<close>, so the next target
  is \<open>2^256 div WorkOf t - 1\<close>, which is \<open>t\<close> up to the rounding of the division and never harder.
\<close>

theorem lwma_stationary:
  assumes "length bs \<ge> LWMAWindow + 1"
    and "\<forall>i. length bs - LWMAWindow \<le> i \<and> i < length bs \<longrightarrow>
           target_opt (bs ! i) = Some t \<and> int64_diff (blk_Time (bs ! i)) (blk_Time (bs ! (i - 1))) = 60"
    and "1 \<le> t" and "t \<le> MaxTarget"
  shows "lwmaTarget bs = Some (clamp_target (2 ^ 256 div WorkOf t - 1))
    \<and> t \<le> clamp_target (2 ^ 256 div WorkOf t - 1)"
proof -
  let ?i = "\<lambda>k. length bs - 90 + (k - 1)"
  have win: "target_opt (bs ! ?i k) = Some t" "solvetime bs (?i k) = 60" if "k \<in> set [1..<91]" for k
  proof -
    have "length bs - 90 \<le> ?i k \<and> ?i k < length bs" using that assms(1) by auto
    with assms(2) have "target_opt (bs ! ?i k) = Some t"
      "int64_diff (blk_Time (bs ! ?i k)) (blk_Time (bs ! (?i k - 1))) = 60" by blast+
    then show "target_opt (bs ! ?i k) = Some t" "solvetime bs (?i k) = 60"
      by (simp_all only: solvetime_def Let_def) simp
  qed
  have ts: "those (map (\<lambda>k. target_opt (bs ! ?i k)) [1..<91]) = Some (map (\<lambda>k. t) [1..<91])"
    by (rule those_map_eq) (rule win)
  have "map (\<lambda>k. int k * solvetime bs (?i k)) [1..<91] = map (\<lambda>k. int k * 60) [1..<91]"
    using win(2) by (intro map_cong) simp_all
  then have w: "sum_list (map (\<lambda>k. int k * solvetime bs (?i k)) [1..<91]) = 60 * 4095"
    using sum_upto_nat [of 90] by (simp only: sum_list_mult_const) simp
  have d: "sum_list (map WorkOf (map (\<lambda>k. t) [1..<91])) = 90 * WorkOf t"
    by (simp add: comp_def sum_list_triv)
  have pos: "1 \<le> WorkOf t" using assms(3,4) by (intro WorkOf_pos) (simp_all add: MaxTarget_def)
  have nxt: "lwma_next (90 * WorkOf t) (60 * 4095) = clamp_target (2 ^ 256 div WorkOf t - 1)"
    using pos by (simp add: lwma_next_def Let_def)
  have "WorkOf t * (t + 1) \<le> 2 ^ 256"
    unfolding WorkOf_def using assms(3) by (simp add: mult.commute div_times_less_eq_dividend
        flip: minus_mod_eq_mult_div)
  then have "t + 1 \<le> 2 ^ 256 div WorkOf t"
    using pos zdiv_mono1 [of "WorkOf t * (t + 1)" "2 ^ 256" "WorkOf t"] by simp
  then have "clamp_target t \<le> clamp_target (2 ^ 256 div WorkOf t - 1)" by (intro clamp_target_mono) simp
  moreover have "clamp_target t = t" using assms(3,4) by (simp add: clamp_target_def)
  moreover have "lwmaTarget bs = Some (lwma_next (90 * WorkOf t) (60 * 4095))"
    using assms(1) ts w d by (simp add: lwmaTarget_def Let_def del: upt_Suc)
  ultimately show ?thesis by (simp only: nxt simp_thms)
qed

theorem lwma_stationary_witness:
  "\<exists>bs. lwmaTarget bs = Some (clamp_target (2 ^ 256 div WorkOf GenesisTarget - 1)) \<and> length bs = 95"
proof -
  have "0 \<le> GenesisTarget" "GenesisTarget < 2 ^ 256" by (simp_all add: GenesisTarget_def)
  then obtain raw where raw: "length raw = 32" "int (from_be raw) = GenesisTarget"
    by (rule TargetToHex_decode)
  define blk where "blk i = demo_block\<lparr>blk_Target := hex_encode raw, blk_Time := 60 * word_of_nat i\<rparr>" for i
  define bs where "bs = map blk [0..<95]"
  have t: "target_opt (blk i) = Some GenesisTarget" for i
    using raw by (simp add: blk_def target_opt_def TargetInt_def)
  have d: "int64_diff (blk_Time (blk (Suc j))) (blk_Time (blk j)) = 60" for j
    by (simp add: blk_def int64_diff_def algebra_simps)
  have "\<forall>i. length bs - LWMAWindow \<le> i \<and> i < length bs \<longrightarrow>
      target_opt (bs ! i) = Some GenesisTarget \<and> int64_diff (blk_Time (bs ! i)) (blk_Time (bs ! (i - 1))) = 60"
  proof (intro allI impI)
    fix i assume "length bs - LWMAWindow \<le> i \<and> i < length bs"
    then have i: "5 \<le> i" "i < 95" by (simp_all add: bs_def)
    then obtain j where "i = Suc j" by (cases i) auto
    with i t d show "target_opt (bs ! i) = Some GenesisTarget
        \<and> int64_diff (blk_Time (bs ! i)) (blk_Time (bs ! (i - 1))) = 60"
      by (simp add: bs_def del: upt_Suc)
  qed
  moreover have "length bs = 95" by (simp add: bs_def)
  ultimately show ?thesis
    using lwma_stationary [of bs GenesisTarget] by (auto simp: GenesisTarget_def MaxTarget_def)
qed

text \<open>The targets in the legacy window and their average.\<close>

definition window_targets :: "block list \<Rightarrow> int list option" where
  "window_targets bs =
     (let w = min (length bs - 1) RetargetWindow
      in those (map (\<lambda>i. target_opt (bs ! i)) [length bs - w..<length bs]))"

definition window_mean :: "block list \<Rightarrow> int list \<Rightarrow> int" where
  "window_mean bs ts = sum_list ts div int (min (length bs - 1) RetargetWindow)"

text \<open>
  The legacy retarget moves difficulty by at most a factor of four: the next target lies
  between a quarter and four times the window's average target (before the clamp to the floor).
\<close>

theorem legacy_factor_four:
  assumes "2 \<le> length bs" and "window_targets bs = Some ts"
  shows "\<exists>t. legacyTarget bs = Some (clamp_target t)
    \<and> window_mean bs ts div 4 \<le> t \<and> t \<le> 4 * window_mean bs ts"
proof -
  define avg where "avg = window_mean bs ts"
  define w where "w = min (length bs - 1) RetargetWindow"
  define a0 where "a0 = int64_diff (blk_Time (bs ! (length bs - 1))) (blk_Time (bs ! (length bs - 1 - w)))"
  define e where "e = int w * BlockTargetSpacing"
  define a1 where "a1 = (if a0 < e div 4 then e div 4 else a0)"
  define a where "a = (if a1 > e * 4 then e * 4 else a1)"
  have w: "1 \<le> w" "(if length bs - 1 < RetargetWindow then length bs - 1 else RetargetWindow) = w"
    using assms(1) by (auto simp: w_def)
  have e: "e div 4 = 15 * int w" "e = 60 * int w" by (simp_all add: e_def)
  have a: "15 * int w \<le> a" "a \<le> 4 * e" using w(1) by (auto simp: a_def a1_def e)
  have nn: "0 \<le> x" if "x \<in> set ts" for x
  proof -
    have "map Some ts = map (\<lambda>i. target_opt (bs ! i)) [length bs - w..<length bs]"
      using assms(2) by (simp add: window_targets_def w_def Let_def those_Some_iff)
    then have "Some x \<in> set (map (\<lambda>i. target_opt (bs ! i)) [length bs - w..<length bs])"
      using that by (metis image_eqI set_map)
    then show ?thesis by (auto dest!: target_opt_range [OF sym])
  qed
  have "0 \<le> sum_list ts div int n" for n
    using nn by (cases "n = 0") (simp_all add: pos_imp_zdiv_nonneg_iff sum_list_nonneg)
  then have avg: "0 \<le> avg" by (simp only: avg_def window_mean_def)
  have eq: "legacyTarget bs = Some (clamp_target (avg * a div e))"
  proof -
    have "those (map (\<lambda>i. target_opt (bs ! i)) [length bs - w..<length bs]) = Some ts"
      using assms(2) by (simp only: window_targets_def Let_def w_def)
    moreover have "\<not> length bs < 2" using assms(1) by simp
    ultimately show ?thesis
      by (simp only: legacyTarget_def Let_def w(2) if_False option.case avg_def window_mean_def
          w_def [symmetric] a_def a1_def a0_def e_def)
  qed
  have "avg * a div e \<le> avg * (4 * e) div e"
    using a(2) avg w(1) e by (intro zdiv_mono1 mult_left_mono) simp_all
  also have "\<dots> = 4 * avg" using w(1) e by simp
  finally have up: "avg * a div e \<le> 4 * avg" .
  have "avg div 4 = avg * (15 * int w) div (60 * int w)"
    using w(1) div_mult_mult2 [of "15 * int w" avg 4] by (simp add: mult.commute mult.left_commute)
  also have "\<dots> \<le> avg * a div e"
    unfolding e(2) using a(1) avg w(1) by (intro zdiv_mono1 mult_left_mono) simp_all
  finally show ?thesis using eq up unfolding avg_def by blast
qed

theorem legacy_factor_four_witness:
  "\<exists>bs ts t. length bs = 2 \<and> window_targets bs = Some ts \<and> legacyTarget bs = Some (clamp_target t)
     \<and> window_mean bs ts div 4 \<le> t \<and> t \<le> 4 * window_mean bs ts"
proof -
  have "0 \<le> GenesisTarget" "GenesisTarget < 2 ^ 256" by (simp_all add: GenesisTarget_def)
  then obtain raw where "length raw = 32" "int (from_be raw) = GenesisTarget"
    by (rule TargetToHex_decode)
  then have t: "target_opt (demo_block\<lparr>blk_Target := hex_encode raw\<rparr>) = Some GenesisTarget"
    by (simp add: target_opt_def TargetInt_def)
  let ?bs = "replicate 2 (demo_block\<lparr>blk_Target := hex_encode raw\<rparr>)"
  have w: "window_targets ?bs = Some [GenesisTarget]"
    using t by (simp add: window_targets_def numeral_2_eq_2)
  have "length ?bs = 2" by simp
  then show ?thesis using legacy_factor_four [OF _ w] w by (intro exI [of _ ?bs]) fastforce
qed

end
