(* ===== verification/Float64.thy ===== *)
theory Float64
  imports Cereblix_Prelude "HOL-Library.Log_Nat"
begin

text \<open>
  Go's \<open>float64\<close> on positive numbers in the normal range, as the fee curve uses it: a value is a
  rational, and every operation rounds its exact result to 53 significant bits, ties to even. The
  lemmas show that rounding is monotone and never crosses an integer below \<open>2^52\<close>.
\<close>

definition rne :: "rat \<Rightarrow> int" where
  "rne x =
     (let f = \<lfloor>x\<rfloor>; r = x - of_int f
      in if r < 1 / 2 then f else if r > 1 / 2 then f + 1 else if even f then f else f + 1)"

definition f64_exp :: "rat \<Rightarrow> int" where
  "f64_exp x =
     (let (n, d) = quotient_of x; k = bitlen n - bitlen d
      in if 2 powi k \<le> x then k else k - 1)"

definition f64_round :: "rat \<Rightarrow> rat" where
  "f64_round x =
     (if x = 0 then 0
      else let u = 2 powi (f64_exp x - 52) in of_int (rne (x / u)) * u)"

lemma rne_bounds: "\<lfloor>x\<rfloor> \<le> rne x \<and> rne x \<le> \<lfloor>x\<rfloor> + 1"
  by (simp add: rne_def Let_def)

lemma rne_of_int [simp]: "rne (of_int i) = i"
  by (simp add: rne_def)

lemma rne_mono: "x \<le> y \<Longrightarrow> rne x \<le> rne y"
proof (cases "\<lfloor>x\<rfloor> = \<lfloor>y\<rfloor>")
  case True
  assume "x \<le> y"
  with True show ?thesis by (auto simp: rne_def Let_def)
next
  case False
  assume "x \<le> y"
  then have "\<lfloor>x\<rfloor> + 1 \<le> \<lfloor>y\<rfloor>" using False floor_mono [of x y] by simp
  then show ?thesis using rne_bounds [of x] rne_bounds [of y] by linarith
qed

lemma bitlen_pow: "0 < n \<Longrightarrow> 2 powi (bitlen n - 1) \<le> (of_int n :: rat) \<and> of_int n < (2 powi bitlen n :: rat)"
proof -
  assume n: "0 < n"
  define b where "b = nat (bitlen n)"
  have "n < 2 ^ b" using bitlen_bounds [OF n] by (simp add: b_def)
  then have b: "bitlen n = int b" "0 < b"
    using n bitlen_nonneg [of n] by (simp add: b_def) (use \<open>n < 2 ^ b\<close> n in \<open>cases b; simp\<close>)
  have "2 ^ (b - 1) \<le> n" "n < 2 ^ b" using bitlen_bounds [OF n] b by (simp_all add: nat_diff_distrib)
  then have "(of_int (2 ^ (b - 1)) :: rat) \<le> of_int n" "(of_int n :: rat) < of_int (2 ^ b)"
    by (simp_all only: of_int_le_iff of_int_less_iff)
  moreover have "(2 :: rat) powi (int b - 1) = 2 ^ (b - 1)"
    using b(2) by (simp add: power_int_def nat_diff_distrib)
  ultimately show ?thesis by (simp add: b)
qed

lemma f64_exp_bounds:
  assumes "0 < x"
  shows "2 powi f64_exp x \<le> x \<and> x < 2 powi (f64_exp x + 1)"
proof -
  obtain n d where q: "quotient_of x = (n, d)" by fastforce
  have d: "0 < d" using quotient_of_denom_pos [OF q] .
  have x: "x = of_int n / of_int d" using quotient_of_div [OF q] .
  then have n: "0 < n" using assms d by (simp add: zero_less_divide_iff)
  let ?k = "bitlen n - bitlen d"
  note bn = bitlen_pow [OF n] and bd = bitlen_pow [OF d]
  have "x < 2 powi bitlen n / 2 powi (bitlen d - 1)"
    unfolding x using bn bd d n by (intro frac_less) (simp_all add: order.strict_implies_order)
  also have "\<dots> = 2 powi (?k + 1)" by (simp add: power_int_diff power_int_add)
  finally have up: "x < 2 powi (?k + 1)" .
  have "2 powi (bitlen n - 1) / 2 powi bitlen d \<le> x"
    unfolding x using bn bd d n by (intro frac_le) simp_all
  then have lo: "2 powi (?k - 1) \<le> x" by (simp add: power_int_diff)
  show ?thesis using up lo by (simp add: f64_exp_def q Let_def)
qed

lemma f64_round_ge:
  assumes "0 < x" and "f64_exp x \<le> e" and "of_int m * 2 powi (f64_exp x - 52) \<le> x"
  shows "of_int m * 2 powi (f64_exp x - 52) \<le> f64_round x"
proof -
  define u :: rat where "u = 2 powi (f64_exp x - 52)"
  have u: "0 < u" by (simp add: u_def)
  have "of_int m \<le> x / u" using assms(3) u by (simp add: pos_le_divide_eq flip: u_def)
  then have "m \<le> rne (x / u)" using rne_mono [of "of_int m" "x / u"] by simp
  then show ?thesis using assms(1) u by (simp add: f64_round_def Let_def flip: u_def)
qed

lemma f64_round_le:
  assumes "0 < x" and "x \<le> of_int m * 2 powi (f64_exp x - 52)"
  shows "f64_round x \<le> of_int m * 2 powi (f64_exp x - 52)"
proof -
  define u :: rat where "u = 2 powi (f64_exp x - 52)"
  have u: "0 < u" by (simp add: u_def)
  have "x / u \<le> of_int m" using assms(2) u by (simp add: pos_divide_le_eq flip: u_def)
  then have "rne (x / u) \<le> m" using rne_mono [of "x / u" "of_int m"] by simp
  then show ?thesis using assms(1) u by (simp add: f64_round_def Let_def flip: u_def)
qed

text \<open>An integer at least as coarse as the result's unit in the last place is never crossed.\<close>

lemma powi_mult: "(2 :: rat) powi a * 2 powi b = 2 powi (a + b)"
  by (simp add: power_int_add)

lemma f64_round_upper_pow:
  assumes "0 < x" and "x \<le> 2 powi j" and "f64_exp x \<le> j + 52"
  shows "f64_round x \<le> 2 powi j"
proof -
  define m :: int where "m = 2 ^ nat (j + 52 - f64_exp x)"
  have "of_int m * 2 powi (f64_exp x - 52) = (2 :: rat) powi j"
    using assms(3) by (simp add: m_def powi_mult flip: power_int_of_nat)
  then show ?thesis using f64_round_le [OF assms(1), of m] assms(2) by simp
qed

lemma f64_round_lower_pow:
  assumes "0 < x" and "2 powi f64_exp x \<le> x"
  shows "2 powi f64_exp x \<le> f64_round x"
proof -
  have "of_int (2 ^ 52) * 2 powi (f64_exp x - 52) = (2 :: rat) powi f64_exp x"
    using powi_mult [of 52 "f64_exp x - 52"] by simp
  then show ?thesis using f64_round_ge [OF assms(1) order_refl, of "2 ^ 52"] assms(2) by simp
qed

lemma f64_round_nonneg: "0 \<le> x \<Longrightarrow> 0 \<le> f64_round x"
proof (cases "x = 0")
  case False
  assume "0 \<le> x"
  with False have x: "0 < x" by simp
  have "(0 :: rat) \<le> 2 powi f64_exp x" by simp
  also have "\<dots> \<le> f64_round x" using f64_exp_bounds [OF x] by (intro f64_round_lower_pow [OF x]) simp
  finally show ?thesis .
qed (simp add: f64_round_def)

lemma f64_exp_mono: "0 < x \<Longrightarrow> x \<le> y \<Longrightarrow> f64_exp x \<le> f64_exp y"
proof (rule ccontr)
  assume a: "0 < x" "x \<le> y" "\<not> f64_exp x \<le> f64_exp y"
  have "y < 2 powi (f64_exp y + 1)" using f64_exp_bounds [of y] a by simp
  also have "\<dots> \<le> 2 powi f64_exp x" using a by (intro power_int_increasing) simp_all
  also have "\<dots> \<le> x" using f64_exp_bounds [of x] a by simp
  finally show False using a by simp
qed

lemma f64_round_mono: "0 \<le> x \<Longrightarrow> x \<le> y \<Longrightarrow> f64_round x \<le> f64_round y"
proof (cases "x = 0")
  case False
  assume "0 \<le> x" "x \<le> y"
  with False have x: "0 < x" "0 < y" by simp_all
  show ?thesis
  proof (cases "f64_exp x = f64_exp y")
    case True
    have "x / 2 powi (f64_exp y - 52) \<le> y / 2 powi (f64_exp y - 52)"
      using \<open>x \<le> y\<close> by (intro divide_right_mono) simp_all
    then have "rne (x / 2 powi (f64_exp y - 52)) \<le> rne (y / 2 powi (f64_exp y - 52))" by (rule rne_mono)
    then show ?thesis using x True by (simp add: f64_round_def Let_def mult_right_mono)
  next
    case False
    then have lt: "f64_exp x + 1 \<le> f64_exp y" using f64_exp_mono [OF x(1) \<open>x \<le> y\<close>] by simp
    have "f64_round x \<le> 2 powi (f64_exp x + 1)"
      using f64_exp_bounds [OF x(1)] x(1) by (intro f64_round_upper_pow) simp_all
    also have "\<dots> \<le> 2 powi f64_exp y" using lt by (intro power_int_increasing) simp_all
    also have "\<dots> \<le> f64_round y" using f64_exp_bounds [OF x(2)] x(2) by (intro f64_round_lower_pow) simp_all
    finally show ?thesis .
  qed
qed (simp add: f64_round_def [of 0] f64_round_nonneg)

text \<open>Integers up to \<open>2^53\<close> are representable.\<close>

lemma f64_round_of_nat: "n < 2 ^ 53 \<Longrightarrow> f64_round (of_nat n) = of_nat n"
proof (cases "n = 0")
  case False
  assume "n < 2 ^ 53"
  define x :: rat where "x = of_nat n"
  have x: "0 < x" using False by (simp add: x_def)
  have "2 powi f64_exp x \<le> x" using f64_exp_bounds [OF x] by simp
  also have "x < 2 powi 53" using \<open>n < 2 ^ 53\<close> by (simp add: x_def flip: of_nat_less_iff)
  finally have lt: "(2 :: rat) powi f64_exp x < 2 powi 53" .
  have "f64_exp x < 53"
  proof (rule ccontr)
    assume "\<not> f64_exp x < 53"
    then have "(2 :: rat) powi 53 \<le> 2 powi f64_exp x" by (intro power_int_increasing) simp_all
    with lt show False by simp
  qed
  define z :: rat where "z = 2 powi (f64_exp x - 52)"
  define p :: rat where "p = 2 ^ nat (52 - f64_exp x)"
  have "p = 2 powi (52 - f64_exp x)"
    using \<open>f64_exp x < 53\<close> power_int_of_nat [of "2 :: rat" "nat (52 - f64_exp x)"] by (simp add: p_def)
  then have zp: "z * p = 1" using powi_mult [of "f64_exp x - 52" "52 - f64_exp x"] by (simp add: z_def)
  have z: "z \<noteq> 0" by (simp add: z_def)
  have "x / z = x * p" using zp z by (simp add: nonzero_divide_eq_eq mult.assoc mult.commute [of p])
  also have "\<dots> = of_int (int n * 2 ^ nat (52 - f64_exp x))" by (simp add: x_def p_def)
  finally have "rne (x / z) = int n * 2 ^ nat (52 - f64_exp x)" by (simp only: rne_of_int)
  then have "f64_round x = x * p * z" using x by (simp add: f64_round_def Let_def x_def p_def z_def)
  also have "\<dots> = x" using zp by (simp add: mult.assoc mult.commute [of p])
  finally show ?thesis by (simp add: x_def)
qed (simp add: f64_round_def)

end
