(* ===== verification/Core_Fee.thy ===== *)
theory Core_Fee
  imports Core_Upgrade Float64 "HOL-Library.Multiset"
begin

text \<open>
  The consensus fee floor (legacy self-adjusting curve, flat floor after the fee market) and the
  wallet's suggested fee, after \<^verbatim>\<open>minFeeFor\<close>, \<^verbatim>\<open>minFeeForActive\<close> and \<^verbatim>\<open>suggestFee\<close> in
  \<^verbatim>\<open>src/core/chain.go\<close>. The curve is computed in rounded double arithmetic, step by step.
\<close>

text \<open>\<open>uint64(float64(floor) * (1.0 + fullMult*fill*fill))\<close>, each operation rounded.\<close>

definition legacy_curve :: "nat \<Rightarrow> nat \<Rightarrow> u64" where
  "legacy_curve txs capacity =
     (let fill = f64_round (of_nat txs / of_nat capacity);
          sq = f64_round (f64_round (1000 * fill) * fill);
          scale = f64_round (1 + sq)
      in word_of_int \<lfloor>f64_round (1000 * scale)\<rfloor>)"

definition recent_txs :: "block list \<Rightarrow> nat \<Rightarrow> nat" where
  "recent_txs blocks n =
     sum_list (map (\<lambda>b. length (blk_Txs b) - 1) (drop (length blocks - n) blocks))"

definition minFeeForActive :: "block list \<Rightarrow> bool \<Rightarrow> u64" where
  "minFeeForActive blocks feeActive =
     (let n = (if length blocks < 20 then length blocks else 20);
          capacity = n * (MaxBlockTxs - 1)
      in if n \<le> 0 \<or> capacity \<le> 0 then 1000
         else if \<not> feeActive then legacy_curve (recent_txs blocks n) capacity
         else 1000)"

definition minFeeFor :: "block list \<Rightarrow> u64" where
  "minFeeFor blocks = minFeeForActive blocks (feeMarketActiveAt blocks (length blocks))"

definition suggestFee :: "u64 list \<Rightarrow> u64 \<Rightarrow> u64" where
  "suggestFee memFees flr =
     (let capacity = MaxBlockTxs - 1;
          fees = filter (\<lambda>f. f \<ge> flr) memFees
      in if length fees \<le> capacity then flr
         else
           let cut = rev (sort fees) ! (capacity - 1);
               bump = cut div 8;
               bump' = (if bump = 0 then 1 else bump)
           in cut + bump')"

section \<open>The curve\<close>

definition curve_value :: "nat \<Rightarrow> nat \<Rightarrow> rat" where
  "curve_value txs capacity =
     (let fill = f64_round (of_nat txs / of_nat capacity)
      in f64_round (1000 * f64_round (1 + f64_round (f64_round (1000 * fill) * fill))))"

lemma f64_round_num: "n < 2 ^ 53 \<Longrightarrow> x = of_nat n \<Longrightarrow> f64_round x = of_nat n"
  using f64_round_of_nat [of n] by simp

lemma f64_between:
  assumes "of_nat a \<le> x" and "x \<le> of_nat b" and "a < 2 ^ 53" and "b < 2 ^ 53"
  shows "of_nat a \<le> f64_round x \<and> f64_round x \<le> of_nat b"
proof -
  have "0 \<le> x" using assms(1) by (rule order_trans [OF of_nat_0_le_iff])
  then have "f64_round (of_nat a) \<le> f64_round x" "f64_round x \<le> f64_round (of_nat b)"
    using assms(1,2) by (auto intro: f64_round_mono)
  then show ?thesis using assms(3,4) by (simp add: f64_round_of_nat)
qed

lemma fill_range:
  assumes "txs \<le> capacity" and "0 < capacity"
  shows "0 \<le> f64_round (of_nat txs / of_nat capacity) \<and> f64_round (of_nat txs / of_nat capacity) \<le> 1"
  using f64_between [of 0 "of_nat txs / of_nat capacity" 1] assms by simp

lemma curve_value_mono:
  assumes "s \<le> t" and "0 < capacity"
  shows "curve_value s capacity \<le> curve_value t capacity"
proof -
  define f where "f n = f64_round (of_nat n / of_nat capacity)" for n
  have f: "0 \<le> f s" "f s \<le> f t"
    using assms by (auto simp: f_def divide_right_mono intro: f64_round_mono f64_round_nonneg)
  have g: "0 \<le> f64_round (1000 * f s)" "f64_round (1000 * f s) \<le> f64_round (1000 * f t)"
    using f by (auto intro: f64_round_mono f64_round_nonneg)
  have "f64_round (1000 * f s) * f s \<le> f64_round (1000 * f t) * f t"
    using f g by (intro mult_mono) auto
  moreover have "0 \<le> f64_round (1000 * f s) * f s" using f g by simp
  ultimately have h: "0 \<le> f64_round (f64_round (1000 * f s) * f s)"
    "f64_round (f64_round (1000 * f s) * f s) \<le> f64_round (f64_round (1000 * f t) * f t)"
    by (auto intro: f64_round_mono f64_round_nonneg)
  then have "0 \<le> f64_round (1 + f64_round (f64_round (1000 * f s) * f s))"
    "f64_round (1 + f64_round (f64_round (1000 * f s) * f s))
     \<le> f64_round (1 + f64_round (f64_round (1000 * f t) * f t))"
    by (auto intro: f64_round_mono f64_round_nonneg)
  then show ?thesis
    by (auto simp: curve_value_def f_def [symmetric] Let_def intro: f64_round_mono)
qed

lemma curve_value_range:
  assumes "txs \<le> capacity" and "0 < capacity"
  shows "1000 \<le> curve_value txs capacity \<and> curve_value txs capacity \<le> 1001000"
proof -
  define fill where "fill = f64_round (of_nat txs / of_nat capacity)"
  have fill: "0 \<le> fill" "fill \<le> 1" using fill_range [OF assms] by (simp_all add: fill_def)
  have a: "0 \<le> f64_round (1000 * fill)" "f64_round (1000 * fill) \<le> 1000"
    using f64_between [of 0 "1000 * fill" 1000] fill by simp_all
  have "f64_round (1000 * fill) * fill \<le> 1000 * 1" using a fill by (intro mult_mono) auto
  then have b: "0 \<le> f64_round (f64_round (1000 * fill) * fill)"
      "f64_round (f64_round (1000 * fill) * fill) \<le> 1000"
    using f64_between [of 0 "f64_round (1000 * fill) * fill" 1000] a fill by simp_all
  have c: "1 \<le> f64_round (1 + f64_round (f64_round (1000 * fill) * fill))"
      "f64_round (1 + f64_round (f64_round (1000 * fill) * fill)) \<le> 1001"
    using f64_between [of 1 "1 + f64_round (f64_round (1000 * fill) * fill)" 1001] b by simp_all
  show ?thesis
    using f64_between [of 1000 "1000 * f64_round (1 + f64_round (f64_round (1000 * fill) * fill))" 1001000] c
    by (simp add: curve_value_def fill_def [symmetric] Let_def)
qed

lemma unat_legacy_curve:
  assumes "txs \<le> capacity" and "0 < capacity"
  shows "unat (legacy_curve txs capacity) = nat \<lfloor>curve_value txs capacity\<rfloor>"
proof -
  have r: "1000 \<le> \<lfloor>curve_value txs capacity\<rfloor>" "\<lfloor>curve_value txs capacity\<rfloor> \<le> 1001000"
    using curve_value_range [OF assms] by (simp_all add: le_floor_iff floor_le_iff)
  have "legacy_curve txs capacity = word_of_int \<lfloor>curve_value txs capacity\<rfloor>"
    by (simp add: legacy_curve_def curve_value_def Let_def)
  then have "uint (legacy_curve txs capacity) = \<lfloor>curve_value txs capacity\<rfloor>"
    using r by (simp add: unsigned_of_int take_bit_eq_mod)
  then show ?thesis by (simp only: unat_eq_nat_uint)
qed

lemma legacy_curve_range:
  assumes "txs \<le> capacity" and "0 < capacity"
  shows "1000 \<le> unat (legacy_curve txs capacity) \<and> unat (legacy_curve txs capacity) \<le> 1001000"
proof -
  have "1000 \<le> \<lfloor>curve_value txs capacity\<rfloor>" "\<lfloor>curve_value txs capacity\<rfloor> \<le> 1001000"
    using curve_value_range [OF assms] by (simp_all add: le_floor_iff floor_le_iff)
  then show ?thesis by (simp add: unat_legacy_curve [OF assms] le_nat_iff nat_le_iff)
qed

lemma recent_txs_le:
  assumes "\<forall>b \<in> set blocks. length (blk_Txs b) \<le> MaxBlockTxs" and "n \<le> length blocks"
  shows "recent_txs blocks n \<le> n * (MaxBlockTxs - 1)"
proof -
  have "sum_list (map (\<lambda>b. length (blk_Txs b) - 1) bs) \<le> length bs * 199"
    if "\<forall>b \<in> set bs. length (blk_Txs b) \<le> 200" for bs
    using that by (induction bs) fastforce+
  then have "recent_txs blocks n \<le> length (drop (length blocks - n) blocks) * 199"
    using assms(1) unfolding recent_txs_def by (blast dest: in_set_dropD)
  then show ?thesis using assms(2) by simp
qed

text \<open>
  On a chain whose blocks respect the transaction cap, the consensus fee floor is between
  1000 and 1001000 synapses, and exactly 1000 once the fee market is active or the chain is idle.
\<close>

theorem fee_floor_bounds:
  assumes "\<forall>b \<in> set blocks. length (blk_Txs b) \<le> MaxBlockTxs"
  shows "1000 \<le> unat (minFeeForActive blocks act) \<and> unat (minFeeForActive blocks act) \<le> 1001000
    \<and> (act \<longrightarrow> minFeeForActive blocks act = 1000)"
proof -
  define n where "n = (if length blocks < 20 then length blocks else 20)"
  have "recent_txs blocks n \<le> n * 199" using assms recent_txs_le [of blocks n] by (simp add: n_def)
  then have "1000 \<le> unat (legacy_curve (recent_txs blocks n) (n * 199))
      \<and> unat (legacy_curve (recent_txs blocks n) (n * 199)) \<le> 1001000" if "0 < n"
    using that legacy_curve_range [of "recent_txs blocks n" "n * 199"] by simp
  then show ?thesis by (auto simp: minFeeForActive_def Let_def n_def [symmetric])
qed

theorem fee_floor_bounds_witness:
  "1000 \<le> unat (minFeeForActive [demo_block] True) \<and> unat (minFeeForActive [demo_block] True) \<le> 1001000
    \<and> minFeeForActive [demo_block] True = 1000"
  using fee_floor_bounds [of "[demo_block]" True] by (simp add: demo_block_def)

text \<open>
  The legacy floor is monotone: fuller recent blocks never lower the minimum fee, in spite of
  the four roundings of the double arithmetic.
\<close>

theorem legacy_curve_monotone:
  assumes "s \<le> t" and "t \<le> capacity" and "0 < capacity"
  shows "legacy_curve s capacity \<le> legacy_curve t capacity"
proof -
  have "\<lfloor>curve_value s capacity\<rfloor> \<le> \<lfloor>curve_value t capacity\<rfloor>"
    using curve_value_mono [OF assms(1,3)] by (rule floor_mono)
  then have "unat (legacy_curve s capacity) \<le> unat (legacy_curve t capacity)"
    using unat_legacy_curve [of s capacity] unat_legacy_curve [of t capacity] assms by simp
  then show ?thesis by (simp add: word_le_nat_alt)
qed

theorem legacy_curve_monotone_witness: "legacy_curve 10 3980 \<le> legacy_curve 20 3980"
  by (rule legacy_curve_monotone) simp_all

section \<open>The suggested fee\<close>

lemma length_filter_less_sorted:
  assumes "sorted xs" and "i < length xs"
  shows "length (filter (\<lambda>x. xs ! i < x) xs) \<le> length xs - Suc i"
proof -
  have "filter (\<lambda>x. xs ! i < x) (take (Suc i) xs) = []"
    using assms by (auto simp: filter_empty_conv in_set_conv_nth not_less sorted_iff_nth_mono less_Suc_eq_le)
  then have "filter (\<lambda>x. xs ! i < x) xs = filter (\<lambda>x. xs ! i < x) (drop (Suc i) xs)"
    by (metis append_take_drop_id filter_append append_Nil)
  then show ?thesis using length_filter_le [of "\<lambda>x. xs ! i < x" "drop (Suc i) xs"] by simp
qed

lemma length_filter_imp: "(\<And>x. P x \<Longrightarrow> Q x) \<Longrightarrow> length (filter P xs) \<le> length (filter Q xs)"
  by (induction xs) (auto simp: le_SucI)

text \<open>
  Paying the suggested fee puts a transaction into the next block: fewer than 199 of the
  waiting transactions pay as much, so the fee-priority selection reaches it. The hypothesis
  excludes a cut so large that its bump wraps around 64 bits.
\<close>

theorem suggested_fee_confirms:
  assumes "\<forall>f \<in> set memFees. unat f + unat f div 8 + 1 < 2 ^ 64"
    and "length (filter (\<lambda>f. f \<ge> flr) memFees) > 199"
  shows "length (filter (\<lambda>f. f \<ge> suggestFee memFees flr) memFees) < 199 \<and> suggestFee memFees flr > flr"
proof -
  define fees where "fees = filter (\<lambda>f. f \<ge> flr) memFees"
  define cut where "cut = rev (sort fees) ! 198"
  define bump where "bump = (if cut div 8 = 0 then 1 else cut div 8)"
  have len: "199 < length fees" using assms(2) by (simp add: fees_def)
  have cut_nth: "cut = sort fees ! (length fees - 199)"
    using len by (simp add: cut_def rev_nth)
  have "cut \<in> set fees"
    unfolding cut_nth using len by (metis diff_less length_sort nth_mem set_sort less_trans zero_less_numeral)
  then have cut: "flr \<le> cut" "cut \<in> set memFees" by (simp_all add: fees_def)
  have ub: "unat bump \<le> unat cut div 8 + 1" "0 < unat bump"
    by (auto simp: bump_def unat_div_distrib unat_gt_0)
  then have no_wrap: "unat cut + unat bump < 2 ^ 64" using assms(1) cut(2) by fastforce
  have s: "suggestFee memFees flr = cut + bump"
    using len by (simp add: suggestFee_def Let_def fees_def [symmetric] cut_def [symmetric] bump_def)
  have gt: "cut < cut + bump"
    using no_wrap ub(2) by (simp add: word_less_nat_alt unat_word_ariths)
  have "filter (\<lambda>f. f \<ge> cut + bump) memFees = filter (\<lambda>f. f \<ge> cut + bump) fees"
    using gt cut(1) by (auto simp: fees_def intro!: filter_cong)
  then have "length (filter (\<lambda>f. f \<ge> cut + bump) memFees) \<le> length (filter (\<lambda>f. cut < f) fees)"
    using gt by (auto intro: length_filter_imp)
  also have "\<dots> = length (filter (\<lambda>f. cut < f) (sort fees))"
    by (metis mset_filter mset_sort size_mset)
  also have "\<dots> \<le> length fees - Suc (length fees - 199)"
    using length_filter_less_sorted [of "sort fees" "length fees - 199"] len by (simp add: cut_nth)
  finally show ?thesis using s gt cut(1) len by auto
qed

theorem suggested_fee_confirms_witness:
  "length (filter (\<lambda>f. f \<ge> suggestFee (replicate 300 5000) 1000) (replicate 300 (5000 :: u64))) < 199"
  using suggested_fee_confirms [of "replicate 300 5000" 1000] by (simp add: filter_replicate)

end
