(* ===== verification/Core_Checkpoint.thy ===== *)
theory Core_Checkpoint
  imports Core_Types
begin

text \<open>
  Authority checkpoints, after \<^verbatim>\<open>src/core/checkpoint.go\<close>, and the test whether a candidate
  branch contains the authority anchor (\<^verbatim>\<open>candidateMeetsAnchor\<close> in \<^verbatim>\<open>src/core/chain.go\<close>).
\<close>

section \<open>Signed checkpoints\<close>

definition AuthorityPubKey :: string where
  "AuthorityPubKey = ''7a2712d5d7ac3734ecf85ee256c932465444c973ef486b595f327b9af8f68b20''"

record checkpoint =
  cp_Height :: u64
  cp_Hash :: string
  cp_Sig :: string

definition zero_checkpoint :: checkpoint where
  "zero_checkpoint = \<lparr>cp_Height = 0, cp_Hash = [], cp_Sig = []\<rparr>"

definition checkpointMsg :: "u64 \<Rightarrow> string \<Rightarrow> bytes" where
  "checkpointMsg height hash = str_bytes (''cereblix-checkpoint-v1|'' @ show_u64 height @ ''|'' @ hash)"

definition Verify :: "crypto \<Rightarrow> checkpoint \<Rightarrow> bool" where
  "Verify cr cp =
     (if AuthorityPubKey = [] \<or> cp_Hash cp = [] then False
      else let (pub, pok) = hex_decode AuthorityPubKey in
        if \<not> pok \<or> length pub \<noteq> 32 then False
        else let (sg, sok) = hex_decode (cp_Sig cp) in
          if \<not> sok \<or> length sg \<noteq> 64 then False
          else ed_verify cr pub (checkpointMsg (cp_Height cp) (cp_Hash cp)) sg)"

definition SignCheckpoint :: "crypto \<Rightarrow> u64 \<Rightarrow> string \<Rightarrow> bytes \<Rightarrow> checkpoint" where
  "SignCheckpoint cr height hash priv =
     \<lparr>cp_Height = height, cp_Hash = hash,
      cp_Sig = hex_encode (ed_sign cr priv (checkpointMsg height hash))\<rparr>"

text \<open>The anchor at offset \<open>Height - startHeight\<close> of the candidate.\<close>

definition candidateMeetsAnchor :: "crypto \<Rightarrow> checkpoint \<Rightarrow> u64 \<Rightarrow> block list \<Rightarrow> bool" where
  "candidateMeetsAnchor cr a startHeight newBlocks =
     (if cp_Height a = 0 \<or> cp_Hash a = [] \<or> cp_Height a < startHeight then False
      else let i = unat (cp_Height a - startHeight)
           in i < length newBlocks \<and> Hash cr (newBlocks ! i) = cp_Hash a)"

section \<open>Lemmas\<close>

lemma AuthorityPubKey_ok: "AuthorityPubKey \<noteq> []" "snd (hex_decode AuthorityPubKey)"
    "length (fst (hex_decode AuthorityPubKey)) = 32"
proof -
  show "AuthorityPubKey \<noteq> []" by (simp add: AuthorityPubKey_def)
  show ok: "snd (hex_decode AuthorityPubKey)"
    by (simp add: AuthorityPubKey_def hex_decode_ok_iff hex_val_def)
  show "length (fst (hex_decode AuthorityPubKey)) = 32"
    using hex_decode_ok_length [OF ok] by (simp add: AuthorityPubKey_def)
qed

lemma checkpointMsg_inj:
  "checkpointMsg h x = checkpointMsg k y \<longleftrightarrow> h = k \<and> x = y"
proof -
  have "show_u64 h @ CHR ''|'' # x = show_u64 k @ CHR ''|'' # y \<longleftrightarrow> show_u64 h = show_u64 k \<and> x = y"
    by (rule split_at_sep) simp_all
  then show ?thesis by (simp add: checkpointMsg_def)
qed

lemma Verify_sig:
  "Verify cr cp \<longleftrightarrow> cp_Hash cp \<noteq> [] \<and> snd (hex_decode (cp_Sig cp)) \<and> length (fst (hex_decode (cp_Sig cp))) = 64
     \<and> ed_verify cr (fst (hex_decode AuthorityPubKey)) (checkpointMsg (cp_Height cp) (cp_Hash cp))
         (fst (hex_decode (cp_Sig cp)))"
  using AuthorityPubKey_ok by (auto simp: Verify_def case_prod_beta Let_def)

lemma candidateMeetsAnchor_iff:
  assumes "unat startHeight + length newBlocks < 2 ^ 64"
  shows "candidateMeetsAnchor cr a startHeight newBlocks \<longleftrightarrow>
    cp_Height a \<noteq> 0 \<and> cp_Hash a \<noteq> [] \<and>
    (\<exists>i < length newBlocks. unat (cp_Height a) = unat startHeight + i \<and> Hash cr (newBlocks ! i) = cp_Hash a)"
proof (cases "cp_Height a < startHeight")
  case True
  then show ?thesis by (auto simp: candidateMeetsAnchor_def word_less_nat_alt)
next
  case False
  then have "unat (cp_Height a) = unat startHeight + unat (cp_Height a - startHeight)"
    by (simp add: not_less word_le_nat_alt unat_sub)
  with False show ?thesis
    by (auto simp: candidateMeetsAnchor_def Let_def)
qed

text \<open>
  Authority checkpoints: what the holder of the authority key signs verifies, and a signature that
  the key made for one checkpoint is only ever checked against the message of that height and
  hash, because the signed message determines both. A checkpoint with an empty hash, the zero
  anchor included, never verifies.
\<close>

theorem checkpoint_sign_verify:
  assumes "ed25519_ok cr" and "hex_encode (ed_public cr priv) = AuthorityPubKey"
  shows "(Verify cr (SignCheckpoint cr height hash priv) \<longleftrightarrow> hash \<noteq> [])
    \<and> (checkpointMsg height hash = checkpointMsg height' hash' \<longleftrightarrow> height = height' \<and> hash = hash')
    \<and> \<not> Verify cr zero_checkpoint"
proof -
  have "hex_decode AuthorityPubKey = (ed_public cr priv, True)"
    unfolding assms(2) [symmetric] by simp
  then show ?thesis
    using assms(1)
    by (simp add: Verify_sig SignCheckpoint_def ed25519_ok_def checkpointMsg_inj zero_checkpoint_def)
qed

theorem checkpoint_sign_verify_witness:
  "Verify demo_crypto (SignCheckpoint demo_crypto 5 ''ab'' (fst (hex_decode AuthorityPubKey)))"
proof -
  have "hex_encode (fst (hex_decode AuthorityPubKey)) = AuthorityPubKey"
    by (simp add: AuthorityPubKey_def hex_val_def hex_encode_def hex_digit_def)
  then have "hex_encode (ed_public demo_crypto (fst (hex_decode AuthorityPubKey))) = AuthorityPubKey"
    using AuthorityPubKey_ok by (simp add: demo_crypto_def)
  from checkpoint_sign_verify [OF ed25519_ok_demo this, of 5 "''ab''"] show ?thesis by simp
qed

end
