(* ===== verification/Core_State.thy ===== *)
theory Core_State
  imports Core_Ledger Core_Target Core_Fee Core_Checkpoint
begin

text \<open>
  The consensus engine's state and block validation, after \<^verbatim>\<open>src/core/chain.go\<close>: the \<open>Chain\<close>
  record, the cached activation heights, epochs and the per-epoch VM cache, the memos of proofs of
  work and signatures verified off the lock, and \<open>validateBlock\<close>. The NeuroMorph hash is the
  argument \<open>pow\<close> (epoch seed, header, height); the clock is the argument \<open>now\<close>. Two locales state
  the contracts of the memos and of the VM cache: with them, validation decides exactly what it
  decides with empty caches.
\<close>

section \<open>The chain record\<close>

type_synonym pow_fun = "bytes \<Rightarrow> bytes \<Rightarrow> u64 \<Rightarrow> bytes"
type_synonym hist_ref = "int \<times> int"

record chain =
  ch_blocks :: "block list"
  ch_state :: state
  ch_cumWork :: int
  ch_supply :: u64
  ch_totals :: totals
  ch_addrTx :: "(string, hist_ref list) gomap"
  ch_mempool :: "(string, tx) gomap"
  ch_bySender :: "(string, tx list) gomap"
  ch_verifiedPow :: "string list"
  ch_powOK :: "(string \<times> string) list"
  ch_sigOK :: sig_memo
  ch_feeAct :: nat
  ch_lwmaAct :: nat
  ch_drAct :: nat
  ch_vmCache :: "(u64, bytes) gomap"
  ch_vmSeed :: "(u64, string) gomap"
  ch_MaxReorgDepth :: nat
  ch_ReorgPenaltyPermille :: u64
  ch_Checkpoints :: "(u64, string) gomap"
  ch_authAnchor :: checkpoint
  ch_store :: bool

text \<open>
  \<open>OpenChain\<close> before \<open>load\<close>: everything empty, reorganisations capped at 100 blocks, no penalty.
  A VM is represented by the seed its parameters were derived from; \<open>ch_store\<close> says whether the
  bbolt store is in use (\<open>c.store != nil\<close>).
\<close>

definition open_chain :: "bool \<Rightarrow> chain" where
  "open_chain store =
     \<lparr>ch_blocks = [], ch_state = [], ch_cumWork = 0, ch_supply = 0, ch_totals = [], ch_addrTx = [],
      ch_mempool = [], ch_bySender = [], ch_verifiedPow = [], ch_powOK = [], ch_sigOK = [],
      ch_feeAct = 0, ch_lwmaAct = 0, ch_drAct = 0, ch_vmCache = [], ch_vmSeed = [],
      ch_MaxReorgDepth = 100, ch_ReorgPenaltyPermille = 0, ch_Checkpoints = [],
      ch_authAnchor = zero_checkpoint, ch_store = store\<rparr>"

text \<open>\<open>uint64(len(blocks))\<close>.\<close>

abbreviation blen :: "block list \<Rightarrow> u64" where
  "blen bs \<equiv> word_of_nat (length bs)"

section \<open>Cached activation heights\<close>

definition lwmaActivationC :: "chain \<Rightarrow> block list \<Rightarrow> nat \<times> chain" where
  "lwmaActivationC c blocks =
     (let (a, cache) = sticky_activation lwmaActivation (ch_MaxReorgDepth c) (ch_lwmaAct c) blocks
      in (a, c\<lparr>ch_lwmaAct := cache\<rparr>))"

definition feeMarketActivationC :: "chain \<Rightarrow> block list \<Rightarrow> nat \<times> chain" where
  "feeMarketActivationC c blocks =
     (let (a, cache) = sticky_activation feeMarketActivation (ch_MaxReorgDepth c) (ch_feeAct c) blocks
      in (a, c\<lparr>ch_feeAct := cache\<rparr>))"

definition deepRecoveryActivationC :: "chain \<Rightarrow> block list \<Rightarrow> nat \<times> chain" where
  "deepRecoveryActivationC c blocks =
     (let (a, cache) = sticky_activation deepRecoveryActivation (ch_MaxReorgDepth c) (ch_drAct c) blocks
      in (a, c\<lparr>ch_drAct := cache\<rparr>))"

definition expectedTargetC :: "chain \<Rightarrow> block list \<Rightarrow> int option \<times> chain" where
  "expectedTargetC c blocks =
     (let (a, c1) = lwmaActivationC c blocks
      in (expectedTargetActive blocks (a \<noteq> 0 \<and> length blocks \<ge> a), c1))"

definition minFeeForC :: "chain \<Rightarrow> block list \<Rightarrow> u64 \<times> chain" where
  "minFeeForC c blocks =
     (let (a, c1) = feeMarketActivationC c blocks
      in (minFeeForActive blocks (a \<noteq> 0 \<and> length blocks \<ge> a), c1))"

definition expectedTargetRO :: "chain \<Rightarrow> block list \<Rightarrow> int option" where
  "expectedTargetRO c blocks =
     (let a = (if ch_lwmaAct c = 0 then lwmaActivation blocks else ch_lwmaAct c)
      in expectedTargetActive blocks (a \<noteq> 0 \<and> length blocks \<ge> a))"

definition minFeeForRO :: "chain \<Rightarrow> block list \<Rightarrow> u64" where
  "minFeeForRO c blocks =
     (let a = (if ch_feeAct c = 0 then feeMarketActivation blocks else ch_feeAct c)
      in minFeeForActive blocks (a \<noteq> 0 \<and> length blocks \<ge> a))"

definition deepRecoveryActiveC :: "chain \<Rightarrow> bool \<times> chain" where
  "deepRecoveryActiveC c =
     (let (a, c1) = deepRecoveryActivationC c (ch_blocks c)
      in (a \<noteq> 0 \<and> length (ch_blocks c) \<ge> a, c1))"

section \<open>Epochs and the VM cache\<close>

definition EpochSeed0 :: "crypto \<Rightarrow> bytes" where
  "EpochSeed0 cr = sha256 cr (str_bytes ''cerebra/neuromorph/v1/epoch0/2026-06-11'')"

text \<open>\<open>None\<close>: the boundary lies beyond the prefix and the slice access panics.\<close>

definition epochSeedFor :: "crypto \<Rightarrow> block list \<Rightarrow> u64 \<Rightarrow> (bytes \<times> u64) option" where
  "epochSeedFor cr blocks height =
     (let epoch = height div 4096 in
      if epoch = 0 then Some (EpochSeed0 cr, 0)
      else let boundary = unat (epoch * 4096 - 1) in
        if boundary < length blocks
        then Some (fst (hex_decode (Hash cr (blocks ! boundary))), epoch) else None)"

text \<open>
  Storing a freshly built VM; with more than three cached, epochs older than two before this one go.
\<close>

definition vm_store :: "chain \<Rightarrow> u64 \<Rightarrow> bytes \<Rightarrow> string \<Rightarrow> chain" where
  "vm_store c epoch vm sk =
     (let vms = AList.update epoch vm (ch_vmCache c);
          seeds = AList.update epoch sk (ch_vmSeed c);
          old = filter (\<lambda>e. e + 2 < epoch) (map fst vms)
      in if length vms > 3
         then c\<lparr>ch_vmCache := fold AList.delete old vms, ch_vmSeed := fold AList.delete old seeds\<rparr>
         else c\<lparr>ch_vmCache := vms, ch_vmSeed := seeds\<rparr>)"

definition vmFor :: "crypto \<Rightarrow> chain \<Rightarrow> block list \<Rightarrow> u64 \<Rightarrow> (bytes \<times> chain) option" where
  "vmFor cr c blocks height =
     (case epochSeedFor cr blocks height of
        None \<Rightarrow> None
      | Some (seed, epoch) \<Rightarrow>
          let sk = hex_encode seed in
          (case map_of (ch_vmCache c) epoch of
             Some vm \<Rightarrow>
               if gm_get [] (ch_vmSeed c) epoch = sk then Some (vm, c)
               else Some (seed, vm_store c epoch seed sk)
           | None \<Rightarrow> Some (seed, vm_store c epoch seed sk)))"

definition EpochSeedForNext :: "crypto \<Rightarrow> chain \<Rightarrow> (bytes \<times> u64) option" where
  "EpochSeedForNext cr c = epochSeedFor cr (ch_blocks c) (blen (ch_blocks c))"

section \<open>Block validation\<close>

abbreviation (input) maxVerifiedPow :: nat where "maxVerifiedPow \<equiv> 8192"

definition markPowVerified :: "string \<Rightarrow> chain \<Rightarrow> chain" where
  "markPowVerified h c =
     (if h \<in> set (ch_verifiedPow c) then c
      else c\<lparr>ch_verifiedPow :=
        h # (if length (ch_verifiedPow c) \<ge> maxVerifiedPow
             then drop (maxVerifiedPow div 2) (ch_verifiedPow c) else ch_verifiedPow c)\<rparr>)"

text \<open>The proof-of-work step of \<open>validateBlock\<close>, between the target check and the body checks.\<close>

definition checkPow :: "crypto \<Rightarrow> pow_fun \<Rightarrow> chain \<Rightarrow> block list \<Rightarrow> block \<Rightarrow> int \<Rightarrow> err option \<times> chain" where
  "checkPow cr pow c prefix b got =
     (if Hash cr b \<in> set (ch_verifiedPow c) then (None, c)
      else case epochSeedFor cr prefix (blk_Height b) of
        None \<Rightarrow> (Some Panic, c)
      | Some (seed, _) \<Rightarrow>
          if (hex_encode seed, Hash cr b) \<in> set (ch_powOK c) then (None, markPowVerified (Hash cr b) c)
          else (case vmFor cr c prefix (blk_Height b) of
              None \<Rightarrow> (Some Panic, c)
            | Some (vm, c1) \<Rightarrow>
                if \<not> HashMeetsTarget (pow vm (HeaderBytes b) (blk_Height b)) got
                then (Some InsufficientPoW, c1)
                else (None, markPowVerified (Hash cr b) c1)))"

text \<open>The rest of \<open>validateBlock\<close>: transaction count, root, coinbase and body.\<close>

definition checkBody :: "crypto \<Rightarrow> chain \<Rightarrow> block list \<Rightarrow> state \<Rightarrow> block \<Rightarrow> err option \<times> chain" where
  "checkBody cr c prefix st b =
     (case blk_Txs b of
        [] \<Rightarrow> (Some BadTxCount, c)
      | cb # body \<Rightarrow>
          if length (blk_Txs b) > MaxBlockTxs then (Some BadTxCount, c)
          else if \<not> IsCoinbase cb then (Some FirstNotCoinbase, c)
          else if blk_TxRoot b \<noteq> ComputeTxRoot cr (blk_Txs b) then (Some TxRootMismatch, c)
          else if tx_Nonce cb \<noteq> blk_Height b then (Some CoinbaseNonce, c)
          else if \<not> ValidAddr (tx_To cb) then (Some BadCoinbaseAddress, c)
          else if tx_Amount cb \<noteq> BlockSubsidy (blk_Height b) + TotalFees b
          then (Some BadCoinbaseAmount, c)
          else
            let imm = immatureCoinbase prefix (unat (blk_Height b));
                (minfee, c1) = (if unat (blk_Height b) \<ge> MinFeeHeight then minFeeForC c prefix else (0, c))
            in (fst (validateBody cr (ch_sigOK c1) minfee imm (blk_Height b) [] st body), c1))"

definition validateBlock ::
  "crypto \<Rightarrow> pow_fun \<Rightarrow> u64 \<Rightarrow> chain \<Rightarrow> block list \<Rightarrow> state \<Rightarrow> block \<Rightarrow> err option \<times> chain" where
  "validateBlock cr pow now c prefix st b =
     (if prefix = [] then (Some Panic, c)
      else if blk_Version b \<noteq> 1 then (Some BadVersion, c)
      else if blk_Height b \<noteq> blen prefix then (Some (BadHeight (blk_Height b) (length prefix)), c)
      else if \<not> valid64Hex (blk_PrevHash b) \<or> \<not> valid64Hex (blk_TxRoot b) \<or> \<not> valid64Hex (blk_Target b)
      then (Some MalformedHeader, c)
      else if (case map_of (ch_Checkpoints c) (blk_Height b) of None \<Rightarrow> False | Some cp \<Rightarrow> cp \<noteq> Hash cr b)
      then (Some (CheckpointConflict (blk_Height b)), c)
      else if blk_PrevHash b \<noteq> Hash cr (last prefix) then (Some PrevHashMismatch, c)
      else if blk_Time b \<le> medianTime prefix then (Some TimeTooOld, c)
      else if blk_Time b > now + MaxFutureDrift then (Some TimeTooFar, c)
      else
        let (want, c1) = expectedTargetC c prefix in
        (case (want, TargetInt b) of
           (None, _) \<Rightarrow> (Some Panic, c1)
         | (_, Inl e) \<Rightarrow> (Some e, c1)
         | (Some w, Inr got) \<Rightarrow>
             if w \<noteq> got then (Some WrongTarget, c1)
             else (case checkPow cr pow c1 prefix b got of
                 (Some e, c2) \<Rightarrow> (Some e, c2)
               | (None, c2) \<Rightarrow> checkBody cr c2 prefix st b)))"

section \<open>Verification off the lock\<close>

text \<open>
  \<open>PreVerifyPoW\<close>: the memo is emptied at entry when it holds more than \<open>powOKMax\<close> keys; the loop
  stops at the first block whose height is not the next one. A VM depends only on its seed, so the
  private VMs of the call are not part of the model.
\<close>

abbreviation (input) powOKMax :: nat where "powOKMax \<equiv> 65536"
abbreviation (input) sigOKMax :: nat where "sigOKMax \<equiv> 131072"

definition pow_passes :: "pow_fun \<Rightarrow> bytes \<Rightarrow> block \<Rightarrow> bool" where
  "pow_passes pow seed b =
     (case TargetInt b of Inl _ \<Rightarrow> False
      | Inr got \<Rightarrow> HashMeetsTarget (pow seed (HeaderBytes b) (blk_Height b)) got)"

fun preVerifyPow_loop ::
  "crypto \<Rightarrow> pow_fun \<Rightarrow> u64 \<Rightarrow> block list \<Rightarrow> block list \<Rightarrow> (string \<times> string) list \<Rightarrow> (string \<times> string) list" where
  "preVerifyPow_loop cr pow h prefix [] memo = memo"
| "preVerifyPow_loop cr pow h prefix (b # bs) memo =
     (if blk_Height b \<noteq> h then memo
      else case epochSeedFor cr prefix (blk_Height b) of
        None \<Rightarrow> memo
      | Some (seed, _) \<Rightarrow>
          let pk = (hex_encode seed, Hash cr b);
              memo1 = (if pk \<in> set memo then memo
                       else if pow_passes pow seed b then pk # memo else memo)
          in preVerifyPow_loop cr pow (h + 1) (prefix @ [b]) bs memo1)"

definition PreVerifyPoW :: "crypto \<Rightarrow> pow_fun \<Rightarrow> u64 \<Rightarrow> block list \<Rightarrow> chain \<Rightarrow> chain" where
  "PreVerifyPoW cr pow startHeight nb c =
     (if startHeight = 0 \<or> nb = [] then c
      else if startHeight > blen (ch_blocks c) then c
      else let memo = (if length (ch_powOK c) > powOKMax then [] else ch_powOK c)
           in c\<lparr>ch_powOK := preVerifyPow_loop cr pow startHeight
                              (take (unat startHeight) (ch_blocks c)) nb memo\<rparr>)"

definition preVerifyTx :: "crypto \<Rightarrow> u64 \<Rightarrow> sig_memo \<Rightarrow> tx \<Rightarrow> sig_memo" where
  "preVerifyTx cr h memo t =
     (if IsCoinbase t then memo
      else if (ID cr t, h) \<in> set memo then memo
      else if CheckSigAt cr t h = None then (ID cr t, h) # memo else memo)"

fun preVerifySigs_loop :: "crypto \<Rightarrow> u64 \<Rightarrow> block list \<Rightarrow> sig_memo \<Rightarrow> sig_memo" where
  "preVerifySigs_loop cr h [] memo = memo"
| "preVerifySigs_loop cr h (b # bs) memo =
     (if blk_Height b \<noteq> h then memo
      else preVerifySigs_loop cr (h + 1) bs (foldl (preVerifyTx cr h) memo (blk_Txs b)))"

definition PreVerifySigs :: "crypto \<Rightarrow> u64 \<Rightarrow> block list \<Rightarrow> chain \<Rightarrow> chain" where
  "PreVerifySigs cr startHeight nb c =
     (if startHeight = 0 \<or> nb = [] then c
      else c\<lparr>ch_sigOK := preVerifySigs_loop cr startHeight nb
                          (if length (ch_sigOK c) > sigOKMax then [] else ch_sigOK c)\<rparr>)"

section \<open>The memo interface\<close>

text \<open>
  A memo records the keys of items that passed a check. \<open>same\<close> says when two items have the same
  content; the check depends only on the content. A memo is sound for the items seen so far when
  each of its keys was recorded for one of them that passed. Looking an item up in a sound memo
  decides its check, provided no other item seen has the same key and different content.
\<close>

locale verify_memo =
  fixes key :: "'a \<Rightarrow> 'k" and check :: "'a \<Rightarrow> bool" and same :: "'a \<Rightarrow> 'a \<Rightarrow> bool"
  assumes same_check: "same x y \<Longrightarrow> check x \<Longrightarrow> check y"
begin

definition sound :: "'a set \<Rightarrow> 'k list \<Rightarrow> bool" where
  "sound U memo \<longleftrightarrow> (\<forall>k \<in> set memo. \<exists>x \<in> U. key x = k \<and> check x)"

definition no_collision :: "'a set \<Rightarrow> 'a \<Rightarrow> bool" where
  "no_collision U y \<longleftrightarrow> (\<forall>x \<in> U. check x \<longrightarrow> key x = key y \<longrightarrow> same x y)"

definition remember :: "'k list \<Rightarrow> 'a \<Rightarrow> 'k list" where
  "remember memo x = (if key x \<in> set memo then memo else if check x then key x # memo else memo)"

lemma sound_Nil [simp]: "sound U []"
  by (simp add: sound_def)

lemma sound_mono: "sound U memo \<Longrightarrow> U \<subseteq> V \<Longrightarrow> sound V memo"
  by (auto simp: sound_def)

lemma sound_subset: "sound U memo \<Longrightarrow> set memo' \<subseteq> set memo \<Longrightarrow> sound U memo'"
  by (auto simp: sound_def)

lemma sound_Cons: "sound U memo \<Longrightarrow> x \<in> U \<Longrightarrow> check x \<Longrightarrow> sound U (key x # memo)"
  by (auto simp: sound_def)

lemma sound_remember: "sound U memo \<Longrightarrow> x \<in> U \<Longrightarrow> sound U (remember memo x)"
  by (simp add: remember_def sound_Cons)

lemma remember_keeps: "k \<in> set memo \<Longrightarrow> k \<in> set (remember memo x)"
  by (simp add: remember_def)

lemma remember_adds: "check x \<Longrightarrow> key x \<in> set (remember memo x)"
  by (simp add: remember_def)

lemma remember_all:
  "set memo \<subseteq> set (foldl remember memo xs) \<and> (\<forall>x \<in> set xs. check x \<longrightarrow> key x \<in> set (foldl remember memo xs))
   \<and> (sound U memo \<longrightarrow> set xs \<subseteq> U \<longrightarrow> sound U (foldl remember memo xs))"
proof (induction xs arbitrary: memo)
  case (Cons x xs)
  from Cons.IH [of "remember memo x"] show ?case
    using remember_keeps [of _ memo x] remember_adds [of x memo] sound_remember [of U memo x] by auto
qed simp

lemma lookup_sound: "sound U memo \<Longrightarrow> no_collision U y \<Longrightarrow> key y \<in> set memo \<Longrightarrow> check y"
  unfolding sound_def no_collision_def using same_check by metis

lemma lookup_exact: "sound U memo \<Longrightarrow> no_collision U y \<Longrightarrow> (key y \<in> set memo \<or> check y) = check y"
  using lookup_sound by blast

end

text \<open>
  Three memos of the engine: signatures keyed by transaction and height, proofs of work keyed by
  seed and block hash, and the proofs of work of validated blocks keyed by block hash.
\<close>

definition same_wire :: "tx \<Rightarrow> tx \<Rightarrow> bool" where
  "same_wire t u \<longleftrightarrow> tx_FromPub t = tx_FromPub u \<and> tx_To t = tx_To u \<and> tx_Amount t = tx_Amount u
     \<and> tx_Fee t = tx_Fee u \<and> tx_Nonce t = tx_Nonce u \<and> tx_Sig t = tx_Sig u"

lemma same_wire_CheckSigAt: "same_wire t u \<Longrightarrow> CheckSigAt cr t h = CheckSigAt cr u h"
proof -
  assume w: "same_wire t u"
  then have "signingPayloadFor cr t h = signingPayloadFor cr u h"
    by (intro signingPayloadFor_cong) (simp_all add: same_wire_def)
  then show ?thesis
    using w unfolding same_wire_def CheckSigAt_def checkSig_def IsCoinbase_def by (elim conjE) (simp only:)
qed

interpretation sigs: verify_memo "\<lambda>(t, h). (ID cr t, h)" "\<lambda>(t, h). CheckSigAt cr t h = None"
    "\<lambda>(t, h) (u, k). same_wire t u \<and> h = k" for cr
  by unfold_locales (clarsimp, metis same_wire_CheckSigAt)

definition same_pow :: "block \<Rightarrow> block \<Rightarrow> bool" where
  "same_pow b d \<longleftrightarrow> HeaderBytes b = HeaderBytes d \<and> TargetInt b = TargetInt d"

lemma same_pow_passes: "same_pow b d \<Longrightarrow> pow_passes pow seed b = pow_passes pow seed d"
proof -
  assume s: "same_pow b d"
  then have "blk_Height b = blk_Height d" by (simp add: same_pow_def HeaderBytes_eq_iff)
  with s show ?thesis by (simp add: same_pow_def pow_passes_def split: sum.split)
qed

interpretation pows: verify_memo "\<lambda>(seed, b). (hex_encode seed, Hash cr b)"
    "\<lambda>(seed, b). pow_passes pow seed b" "\<lambda>(seed, b) (s, d). seed = s \<and> same_pow b d" for cr pow
  by unfold_locales (auto dest: same_pow_passes)

interpretation blocks: verify_memo "\<lambda>(seed, b). Hash cr b"
    "\<lambda>(seed, b). pow_passes pow seed b" "\<lambda>(seed, b) (s, d). seed = s \<and> same_pow b d" for cr pow
  by unfold_locales (auto dest: same_pow_passes)

end
