(* ===== verification/Core_Validate.thy ===== *)
theory Core_Validate
  imports Core_State
begin

text \<open>
  The consensus rules as a specification, \<open>block_valid\<close>, free of memos and caches, and the proof that
  \<open>validateBlock\<close> of \<^verbatim>\<open>src/core/chain.go\<close> decides it: the activation caches, the VM cache and
  the memos of work done off the lock never change a verdict.
\<close>

section \<open>What validation leaves alone\<close>

named_theorems chain_frame \<open>fields of the chain record an operation does not write\<close>

lemma frame_gatesC [chain_frame]:
  "snd (lwmaActivationC c bs) = c\<lparr>ch_lwmaAct := snd (sticky_activation lwmaActivation (ch_MaxReorgDepth c) (ch_lwmaAct c) bs)\<rparr>"
  "snd (feeMarketActivationC c bs) = c\<lparr>ch_feeAct := snd (sticky_activation feeMarketActivation (ch_MaxReorgDepth c) (ch_feeAct c) bs)\<rparr>"
  "snd (deepRecoveryActivationC c bs) = c\<lparr>ch_drAct := snd (sticky_activation deepRecoveryActivation (ch_MaxReorgDepth c) (ch_drAct c) bs)\<rparr>"
  "snd (expectedTargetC c bs) = snd (lwmaActivationC c bs)"
  "snd (minFeeForC c bs) = snd (feeMarketActivationC c bs)"
  "snd (deepRecoveryActiveC c) = snd (deepRecoveryActivationC c (ch_blocks c))"
  by (simp_all add: lwmaActivationC_def feeMarketActivationC_def deepRecoveryActivationC_def
      expectedTargetC_def minFeeForC_def deepRecoveryActiveC_def case_prod_beta)

text \<open>The fields validation never writes, as one value.\<close>

definition core_of :: "chain \<Rightarrow> chain" where
  "core_of c = c\<lparr>ch_verifiedPow := [], ch_vmCache := [], ch_vmSeed := [], ch_lwmaAct := 0, ch_feeAct := 0,
     ch_drAct := 0\<rparr>"

lemma core_of_upd [simp]:
  "core_of (c\<lparr>ch_verifiedPow := v\<rparr>) = core_of c" "core_of (c\<lparr>ch_vmCache := m\<rparr>) = core_of c"
  "core_of (c\<lparr>ch_vmSeed := s\<rparr>) = core_of c" "core_of (c\<lparr>ch_lwmaAct := n\<rparr>) = core_of c"
  "core_of (c\<lparr>ch_feeAct := n\<rparr>) = core_of c" "core_of (c\<lparr>ch_drAct := n\<rparr>) = core_of c"
  by (simp_all add: core_of_def)

lemma core_of_sel:
  "ch_blocks (core_of c) = ch_blocks c" "ch_state (core_of c) = ch_state c" "ch_cumWork (core_of c) = ch_cumWork c"
  "ch_supply (core_of c) = ch_supply c" "ch_totals (core_of c) = ch_totals c" "ch_addrTx (core_of c) = ch_addrTx c"
  "ch_mempool (core_of c) = ch_mempool c" "ch_bySender (core_of c) = ch_bySender c" "ch_powOK (core_of c) = ch_powOK c"
  "ch_sigOK (core_of c) = ch_sigOK c" "ch_MaxReorgDepth (core_of c) = ch_MaxReorgDepth c" "ch_ReorgPenaltyPermille (core_of c) = ch_ReorgPenaltyPermille c"
  "ch_Checkpoints (core_of c) = ch_Checkpoints c" "ch_authAnchor (core_of c) = ch_authAnchor c" "ch_store (core_of c) = ch_store c"
  by (simp_all add: core_of_def)

lemma core_of_fields:
  assumes "core_of d = core_of c"
  shows "ch_blocks d = ch_blocks c" "ch_state d = ch_state c" "ch_cumWork d = ch_cumWork c"
    "ch_supply d = ch_supply c" "ch_totals d = ch_totals c" "ch_addrTx d = ch_addrTx c"
    "ch_mempool d = ch_mempool c" "ch_bySender d = ch_bySender c" "ch_powOK d = ch_powOK c"
    "ch_sigOK d = ch_sigOK c" "ch_MaxReorgDepth d = ch_MaxReorgDepth c"
    "ch_ReorgPenaltyPermille d = ch_ReorgPenaltyPermille c" "ch_Checkpoints d = ch_Checkpoints c"
    "ch_authAnchor d = ch_authAnchor c" "ch_store d = ch_store c"
  by (metis assms core_of_sel)+

lemma core_gates [chain_frame]:
  "core_of (snd (lwmaActivationC c bs)) = core_of c" "core_of (snd (feeMarketActivationC c bs)) = core_of c"
  "core_of (snd (deepRecoveryActivationC c bs)) = core_of c" "core_of (snd (expectedTargetC c bs)) = core_of c"
  "core_of (snd (minFeeForC c bs)) = core_of c" "core_of (snd (deepRecoveryActiveC c)) = core_of c"
  by (simp_all add: chain_frame)

lemma core_mark [chain_frame]: "core_of (markPowVerified h c) = core_of c"
  by (simp add: markPowVerified_def)

lemma core_vm_store [chain_frame]: "core_of (vm_store c e vm sk) = core_of c"
  by (simp add: vm_store_def Let_def)

lemma core_vmFor [chain_frame]: "vmFor cr c bs h = Some (vm, d) \<Longrightarrow> core_of d = core_of c"
  by (auto simp: vmFor_def Let_def core_vm_store split: option.splits prod.splits if_splits)

lemma core_checkPow [chain_frame]: "core_of (snd (checkPow cr pow c prefix b got)) = core_of c"
  by (auto simp: checkPow_def core_mark dest: core_vmFor split: option.splits prod.splits)

lemma core_checkBody [chain_frame]: "core_of (snd (checkBody cr c prefix st b)) = core_of c"
  by (simp add: checkBody_def chain_frame case_prod_beta Let_def split: list.split)

lemma core_validateBlock [chain_frame]: "core_of (snd (validateBlock cr pow now c prefix st b)) = core_of c"
proof -
  have p: "core_of (snd (checkPow cr pow (snd (expectedTargetC c prefix)) prefix b got)) = core_of c" for got
    by (simp only: core_checkPow core_gates)
  show ?thesis
    unfolding validateBlock_def
    by (simp add: case_prod_beta Let_def core_checkBody core_gates p split: option.split sum.split)
qed

section \<open>Cached activations\<close>

definition gates_ok :: "block list \<Rightarrow> chain \<Rightarrow> bool" where
  "gates_ok bs c \<longleftrightarrow> lwma_gate.cache_ok (ch_lwmaAct c) bs \<and> fee_gate.cache_ok (ch_feeAct c) bs
     \<and> dr_gate.cache_ok (ch_drAct c) bs"

lemma expectedTargetC_eq: "gates_ok bs c \<Longrightarrow> fst (expectedTargetC c bs) = expectedTarget bs"
  by (simp add: expectedTargetC_def lwmaActivationC_def case_prod_beta lwma_gate.sticky_result gates_ok_def
      expectedTarget_def lwmaActiveAt_def Let_def)

lemma minFeeForC_eq: "gates_ok bs c \<Longrightarrow> fst (minFeeForC c bs) = minFeeFor bs"
  by (simp add: minFeeForC_def feeMarketActivationC_def case_prod_beta fee_gate.sticky_result gates_ok_def
      minFeeFor_def feeMarketActiveAt_def Let_def)

lemma expectedTargetRO_eq: "gates_ok bs c \<Longrightarrow> expectedTargetRO c bs = expectedTarget bs"
  by (auto simp: expectedTargetRO_def gates_ok_def lwma_gate.cache_ok_def expectedTarget_def lwmaActiveAt_def Let_def)

lemma minFeeForRO_eq: "gates_ok bs c \<Longrightarrow> minFeeForRO c bs = minFeeFor bs"
  by (auto simp: minFeeForRO_def gates_ok_def fee_gate.cache_ok_def minFeeFor_def feeMarketActiveAt_def Let_def)

lemma deepRecoveryActiveC_eq:
  "gates_ok (ch_blocks c) c \<Longrightarrow> fst (deepRecoveryActiveC c) = deepRecoveryActiveAt (ch_blocks c) (length (ch_blocks c))"
  by (simp add: deepRecoveryActiveC_def deepRecoveryActivationC_def case_prod_beta dr_gate.sticky_result gates_ok_def
      deepRecoveryActiveAt_def Let_def)

lemma gates_ok_upd [simp]:
  "gates_ok bs (c\<lparr>ch_verifiedPow := v\<rparr>) = gates_ok bs c" "gates_ok bs (c\<lparr>ch_vmCache := m\<rparr>) = gates_ok bs c"
  "gates_ok bs (c\<lparr>ch_vmSeed := s\<rparr>) = gates_ok bs c"
  by (simp_all add: gates_ok_def)

lemma gates_ok_C:
  assumes "gates_ok bs c"
  shows "gates_ok bs (snd (lwmaActivationC c bs))" "gates_ok bs (snd (feeMarketActivationC c bs))"
    "gates_ok bs (snd (deepRecoveryActivationC c bs))" "gates_ok bs (snd (expectedTargetC c bs))"
    "gates_ok bs (snd (minFeeForC c bs))"
  using assms by (simp_all add: chain_frame gates_ok_def lwma_gate.sticky_cache fee_gate.sticky_cache dr_gate.sticky_cache)

section \<open>The VM cache\<close>

definition vm_ok :: "chain \<Rightarrow> bool" where
  "vm_ok c \<longleftrightarrow> (\<forall>e vm. map_of (ch_vmCache c) e = Some vm \<longrightarrow> gm_get [] (ch_vmSeed c) e = hex_encode vm)"

lemma vm_ok_store:
  assumes "vm_ok c"
  shows "vm_ok (vm_store c epoch vm (hex_encode vm))"
proof -
  have get_del: "gm_get [] (fold AList.delete ks m) e = (if e \<in> set ks then [] else gm_get [] m e)" for ks m e
    by (simp add: gm_get_def gmap.lookup_fold_del)
  show ?thesis
    using assms
    by (auto simp: vm_ok_def vm_store_def Let_def update_conv' gmap.lookup_fold_del get_del split: if_splits)
qed

lemma vmFor_ok:
  assumes "vm_ok c" and "epochSeedFor cr bs h = Some (seed, e)"
  shows "\<exists>d. vmFor cr c bs h = Some (seed, d) \<and> vm_ok d \<and> ch_verifiedPow d = ch_verifiedPow c
    \<and> (\<forall>bs. gates_ok bs d = gates_ok bs c)"
proof -
  have f: "ch_verifiedPow (vm_store c e seed sk) = ch_verifiedPow c"
      "gates_ok bs (vm_store c e seed sk) = gates_ok bs c" for sk bs
    by (simp_all add: vm_store_def Let_def)
  show ?thesis
  proof (cases "map_of (ch_vmCache c) e")
    case None
    then show ?thesis using assms vm_ok_store [OF assms(1)] f by (simp add: vmFor_def Let_def)
  next
    case (Some vm)
    then have "gm_get [] (ch_vmSeed c) e = hex_encode vm" using assms(1) by (simp add: vm_ok_def)
    then show ?thesis using Some assms vm_ok_store [OF assms(1)] f by (simp add: vmFor_def Let_def)
  qed
qed

section \<open>The consensus rules\<close>

definition body_valid :: "crypto \<Rightarrow> block list \<Rightarrow> state \<Rightarrow> block \<Rightarrow> bool" where
  "body_valid cr prefix st b \<longleftrightarrow>
     (case blk_Txs b of
        [] \<Rightarrow> False
      | cb # body \<Rightarrow>
          length (blk_Txs b) \<le> MaxBlockTxs \<and> IsCoinbase cb \<and> blk_TxRoot b = ComputeTxRoot cr (blk_Txs b)
          \<and> tx_Nonce cb = blk_Height b \<and> ValidAddr (tx_To cb)
          \<and> tx_Amount cb = BlockSubsidy (blk_Height b) + TotalFees b
          \<and> fst (validateBody cr [] (if unat (blk_Height b) \<ge> MinFeeHeight then minFeeFor prefix else 0)
                   (immatureCoinbase prefix (unat (blk_Height b))) (blk_Height b) [] st body) = None)"

text \<open>
  \<open>block_valid\<close>: the rules by which \<open>b\<close> is the next block after \<open>prefix\<close>, with \<open>st\<close> the state of
  \<open>prefix\<close>, \<open>cps\<close> the enforced checkpoints and \<open>now\<close> the clock.
\<close>

definition block_valid ::
  "crypto \<Rightarrow> pow_fun \<Rightarrow> u64 \<Rightarrow> (u64, string) gomap \<Rightarrow> block list \<Rightarrow> state \<Rightarrow> block \<Rightarrow> bool" where
  "block_valid cr pow now cps prefix st b \<longleftrightarrow>
     prefix \<noteq> [] \<and> blk_Version b = 1 \<and> blk_Height b = blen prefix \<and> header_fields_ok b
     \<and> (map_of cps (blk_Height b) = None \<or> map_of cps (blk_Height b) = Some (Hash cr b))
     \<and> blk_PrevHash b = Hash cr (last prefix)
     \<and> medianTime prefix < blk_Time b \<and> blk_Time b \<le> now + MaxFutureDrift
     \<and> expectedTarget prefix = target_opt b \<and> target_opt b \<noteq> None
     \<and> pow_passes pow (fst (the (epochSeedFor cr prefix (blk_Height b)))) b
     \<and> body_valid cr prefix st b"

lemma epochSeedFor_tip:
  assumes "length prefix < 2 ^ 64"
  shows "\<exists>seed e. epochSeedFor cr prefix (blen prefix) = Some (seed, e)"
proof (cases "blen prefix div 4096 = 0")
  case False
  let ?e = "blen prefix div 4096"
  have n: "unat (blen prefix) = length prefix" using assms by (simp add: unat_of_nat)
  have u: "unat ?e = length prefix div 4096" using n by (simp add: unat_div)
  have pos: "0 < unat ?e" using False by (simp add: unat_gt_0)
  have "unat ?e * 4096 \<le> length prefix" unfolding u by simp
  then have m: "unat (?e * 4096) = unat ?e * 4096"
    using assms by (subst unat_mult_lem [THEN iffD1]) simp_all
  then have "unat (?e * 4096 - 1) = unat ?e * 4096 - 1"
    using pos by (subst unat_minus_one) (auto simp flip: unat_gt_0)
  then have "unat (?e * 4096 - 1) < length prefix"
    using pos \<open>unat ?e * 4096 \<le> length prefix\<close> by linarith
  then show ?thesis using False by (simp add: epochSeedFor_def Let_def)
qed (simp add: epochSeedFor_def Let_def)

definition memos_sound ::
  "crypto \<Rightarrow> pow_fun \<Rightarrow> (bytes \<times> block) set \<Rightarrow> (tx \<times> u64) set \<Rightarrow> chain \<Rightarrow> bool" where
  "memos_sound cr pow U V c \<longleftrightarrow>
     pows.sound cr pow U (ch_powOK c) \<and> blocks.sound cr pow U (ch_verifiedPow c) \<and> sigs.sound cr V (ch_sigOK c)"

text \<open>No block or transaction seen before shares its key with this one and differs from it.\<close>

definition seen_ok ::
  "crypto \<Rightarrow> pow_fun \<Rightarrow> (bytes \<times> block) set \<Rightarrow> (tx \<times> u64) set \<Rightarrow> bytes \<Rightarrow> block \<Rightarrow> bool" where
  "seen_ok cr pow U V seed b \<longleftrightarrow>
     pows.no_collision cr pow U (seed, b) \<and> blocks.no_collision cr pow U (seed, b)
     \<and> (\<forall>t \<in> set (blk_Txs b). sigs.no_collision cr V (t, blk_Height b))"

lemma checkPow_spec:
  assumes "vm_ok c" and "gates_ok prefix c" and "memos_sound cr pow U V c" and "seen_ok cr pow U V seed b"
    and "epochSeedFor cr prefix (blk_Height b) = Some (seed, e)" and "TargetInt b = Inr got"
  shows "fst (checkPow cr pow c prefix b got) = (if pow_passes pow seed b then None else Some InsufficientPoW)
    \<and> vm_ok (snd (checkPow cr pow c prefix b got)) \<and> gates_ok prefix (snd (checkPow cr pow c prefix b got))"
proof -
  have 1: "Hash cr b \<in> set (ch_verifiedPow c) \<Longrightarrow> pow_passes pow seed b"
    using blocks.lookup_sound [of cr pow U "ch_verifiedPow c" "(seed, b)"] assms(3,4)
    by (simp add: memos_sound_def seen_ok_def)
  have 2: "(hex_encode seed, Hash cr b) \<in> set (ch_powOK c) \<Longrightarrow> pow_passes pow seed b"
    using pows.lookup_sound [of cr pow U "ch_powOK c" "(seed, b)"] assms(3,4)
    by (simp add: memos_sound_def seen_ok_def)
  obtain d where d: "vmFor cr c prefix (blk_Height b) = Some (seed, d)" "vm_ok d" "gates_ok prefix d"
    using vmFor_ok [OF assms(1,5)] assms(2) by auto
  have p: "pow_passes pow seed b = HashMeetsTarget (pow seed (HeaderBytes b) (blk_Height b)) got"
    using assms(6) by (simp add: pow_passes_def)
  have m: "vm_ok (markPowVerified h x) = vm_ok x" "gates_ok prefix (markPowVerified h x) = gates_ok prefix x" for h x
    by (simp_all add: markPowVerified_def vm_ok_def)
  show ?thesis
    using 1 2 d assms(1,2,5) p by (simp add: checkPow_def m)
qed

lemma validateTx_memo:
  assumes "(ID cr t, h) \<in> set memo \<longrightarrow> CheckSigAt cr t h = None"
  shows "validateTxAgainstState cr memo st t imm h = validateTxAgainstState cr [] st t imm h"
  using assms by (auto simp: validateTxAgainstState_def)

lemma validateBody_memo:
  assumes "\<forall>t \<in> set ts. (ID cr t, h) \<in> set memo \<longrightarrow> CheckSigAt cr t h = None"
  shows "validateBody cr memo minfee imm h seen w ts = validateBody cr [] minfee imm h seen w ts"
  using assms
proof (induction ts arbitrary: seen w)
  case (Cons t ts)
  then show ?case
    by (simp add: validateTx_memo [of cr t h memo] split: prod.split option.split)
qed simp

lemma checkBody_spec:
  assumes "gates_ok prefix c" and "sigs.sound cr V (ch_sigOK c)"
    and "\<forall>t \<in> set (blk_Txs b). sigs.no_collision cr V (t, blk_Height b)"
  shows "fst (checkBody cr c prefix st b) = None \<longleftrightarrow> body_valid cr prefix st b"
proof -
  have t: "(ID cr t, blk_Height b) \<in> set (ch_sigOK c) \<longrightarrow> CheckSigAt cr t (blk_Height b) = None"
    if "t \<in> set (blk_Txs b)" for t
    using sigs.lookup_sound [OF assms(2), of "(t, blk_Height b)"] assms(3) that by auto
  show ?thesis
  proof (cases "blk_Txs b")
    case (Cons cb body)
    have "validateBody cr (ch_sigOK c) minfee imm (blk_Height b) [] st body
        = validateBody cr [] minfee imm (blk_Height b) [] st body" for minfee imm
      using t Cons by (intro validateBody_memo) auto
    then show ?thesis
      using Cons minFeeForC_eq [OF assms(1)]
      by (simp add: checkBody_def body_valid_def case_prod_beta Let_def chain_frame)
  qed (simp add: checkBody_def body_valid_def)
qed

section \<open>Validation decides the rules\<close>

lemma validateBlock_iff:
  assumes "length prefix < 2 ^ 64" and "gates_ok prefix c" and "vm_ok c"
    and "memos_sound cr pow U V c"
    and "seen_ok cr pow U V (fst (the (epochSeedFor cr prefix (blk_Height b)))) b"
  shows "fst (validateBlock cr pow now c prefix st b) = None
    \<longleftrightarrow> block_valid cr pow now (ch_Checkpoints c) prefix st b"
proof (cases "blk_Height b = blen prefix")
  case True
  let ?c1 = "snd (expectedTargetC c prefix)"
  obtain seed e where ep: "epochSeedFor cr prefix (blk_Height b) = Some (seed, e)"
    using epochSeedFor_tip [OF assms(1), of cr] True by auto
  have c1: "gates_ok prefix ?c1" "vm_ok ?c1" "memos_sound cr pow U V ?c1"
    using assms(2,3,4) gates_ok_C(4) by (simp_all add: chain_frame vm_ok_def memos_sound_def)
  have pw: "fst (checkPow cr pow ?c1 prefix b got) = (if pow_passes pow seed b then None else Some InsufficientPoW)
      \<and> gates_ok prefix (snd (checkPow cr pow ?c1 prefix b got))
      \<and> ch_sigOK (snd (checkPow cr pow ?c1 prefix b got)) = ch_sigOK c"
    if "TargetInt b = Inr got" for got
    using checkPow_spec [OF c1(2,1,3), of seed b e got] assms(5) ep that
      core_of_fields(10) [OF core_checkPow [of cr pow ?c1 prefix b got]]
    by (simp add: chain_frame)
  have bd: "fst (checkBody cr (snd (checkPow cr pow ?c1 prefix b got)) prefix st b) = None \<longleftrightarrow> body_valid cr prefix st b"
    if "TargetInt b = Inr got" for got
    using pw [OF that] assms(4,5) by (intro checkBody_spec [where V = V]) (simp_all add: memos_sound_def seen_ok_def)
  have P: "fst (validateBlock cr pow now c prefix st b) = None \<longleftrightarrow>
      prefix \<noteq> [] \<and> blk_Version b = 1 \<and> header_fields_ok b
      \<and> \<not> (case map_of (ch_Checkpoints c) (blk_Height b) of None \<Rightarrow> False | Some cp \<Rightarrow> cp \<noteq> Hash cr b)
      \<and> blk_PrevHash b = Hash cr (last prefix) \<and> \<not> blk_Time b \<le> medianTime prefix \<and> \<not> blk_Time b > now + MaxFutureDrift
      \<and> (\<exists>got. expectedTarget prefix = Some got \<and> TargetInt b = Inr got \<and> pow_passes pow seed b
           \<and> body_valid cr prefix st b)"
    using True pw bd expectedTargetC_eq [OF assms(2)]
    by (simp add: validateBlock_def header_fields_ok_def case_prod_beta Let_def split: option.splits sum.splits)
      (auto split: option.splits sum.splits)
  show ?thesis
    unfolding P block_valid_def using True ep
    by (auto simp: target_opt_def not_le not_less split: option.splits sum.splits)
next
  case False
  then show ?thesis by (simp add: validateBlock_def block_valid_def)
qed

section \<open>Caches stay sound\<close>

definition caches_ok ::
  "crypto \<Rightarrow> pow_fun \<Rightarrow> (bytes \<times> block) set \<Rightarrow> (tx \<times> u64) set \<Rightarrow> block list \<Rightarrow> chain \<Rightarrow> bool" where
  "caches_ok cr pow U V prefix c \<longleftrightarrow> gates_ok prefix c \<and> vm_ok c \<and> memos_sound cr pow U V c"

lemma caches_ok_open: "caches_ok cr pow {} {} prefix (open_chain store)"
  by (simp add: caches_ok_def gates_ok_def vm_ok_def memos_sound_def open_chain_def)

lemma memos_sound_mono: "memos_sound cr pow U V c \<Longrightarrow> U \<subseteq> U' \<Longrightarrow> V \<subseteq> V' \<Longrightarrow> memos_sound cr pow U' V' c"
  unfolding memos_sound_def
  by (elim conjE, intro conjI)
    (erule pows.sound_mono blocks.sound_mono sigs.sound_mono, assumption)+

lemma caches_ok_mono: "caches_ok cr pow U V prefix c \<Longrightarrow> U \<subseteq> U' \<Longrightarrow> V \<subseteq> V' \<Longrightarrow> caches_ok cr pow U' V' prefix c"
proof -
  assume c: "caches_ok cr pow U V prefix c" and s: "U \<subseteq> U'" "V \<subseteq> V'"
  have "memos_sound cr pow U V c" using c unfolding caches_ok_def by (elim conjE)
  then have "memos_sound cr pow U' V' c" using s by (rule memos_sound_mono)
  with c show ?thesis unfolding caches_ok_def by (elim conjE, intro conjI)
qed

lemma mark_sound:
  assumes "blocks.sound cr pow U (ch_verifiedPow c)" and "(seed, b) \<in> U" and "pow_passes pow seed b"
  shows "blocks.sound cr pow U (ch_verifiedPow (markPowVerified (Hash cr b) c))"
proof -
  have "blocks.sound cr pow U (drop n (ch_verifiedPow c))" for n
    by (rule blocks.sound_subset [OF assms(1)]) (rule set_drop_subset)
  then show ?thesis
    using assms blocks.sound_Cons [OF _ assms(2)] by (simp add: markPowVerified_def)
qed

lemma checkPow_memos:
  assumes "caches_ok cr pow U V prefix c" and "seen_ok cr pow U V seed b"
    and "epochSeedFor cr prefix (blk_Height b) = Some (seed, e)" and "TargetInt b = Inr got"
  shows "caches_ok cr pow (insert (seed, b) U) V prefix (snd (checkPow cr pow c prefix b got))"
proof -
  let ?U = "insert (seed, b) U" and ?d = "snd (checkPow cr pow c prefix b got)"
  have c: "gates_ok prefix c" "vm_ok c" "memos_sound cr pow U V c" using assms(1) by (simp_all add: caches_ok_def)
  note s = checkPow_spec [OF c(2,1,3) assms(2,3,4), THEN conjunct1]
    checkPow_spec [OF c(2,1,3) assms(2,3,4), THEN conjunct2, THEN conjunct1]
    checkPow_spec [OF c(2,1,3) assms(2,3,4), THEN conjunct2, THEN conjunct2]
  have m: "memos_sound cr pow ?U V c" by (rule memos_sound_mono [OF c(3)]) auto
  obtain d where d: "vmFor cr c prefix (blk_Height b) = Some (seed, d)" "ch_verifiedPow d = ch_verifiedPow c"
    using vmFor_ok [OF c(2) assms(3)] by auto
  have "blocks.sound cr pow ?U (ch_verifiedPow ?d)"
    using m d s(1) assms(3) mark_sound [of cr pow ?U _ seed b]
    by (auto simp: memos_sound_def checkPow_def split: if_splits)
  moreover have "ch_powOK ?d = ch_powOK c" "ch_sigOK ?d = ch_sigOK c"
    using core_of_fields(9,10) [OF core_checkPow [of cr pow c prefix b got]] by simp_all
  ultimately show ?thesis using m s by (simp add: caches_ok_def memos_sound_def)
qed

lemma caches_ok_expected: "caches_ok cr pow U V prefix c \<Longrightarrow> caches_ok cr pow U V prefix (snd (expectedTargetC c prefix))"
  using gates_ok_C(4) [of prefix c] by (simp add: caches_ok_def chain_frame vm_ok_def memos_sound_def)

lemma caches_ok_checkBody: "caches_ok cr pow U V prefix c \<Longrightarrow> caches_ok cr pow U V prefix (snd (checkBody cr c prefix st b))"
  using gates_ok_C(5) [of prefix c]
  by (simp add: caches_ok_def checkBody_def chain_frame vm_ok_def memos_sound_def case_prod_beta Let_def split: list.split)

lemma snd_guard: "P c \<Longrightarrow> (\<not> g \<Longrightarrow> P (snd X)) \<Longrightarrow> P (snd (if g then (e, c) else X))"
  by simp

lemma validateBlock_snd_cases:
  assumes "P c" and "blk_Height b = blen prefix \<Longrightarrow> P (snd (expectedTargetC c prefix))"
    and "\<And>got. blk_Height b = blen prefix \<Longrightarrow> TargetInt b = Inr got \<Longrightarrow>
      P (snd (checkPow cr pow (snd (expectedTargetC c prefix)) prefix b got))"
    and "\<And>got. blk_Height b = blen prefix \<Longrightarrow> TargetInt b = Inr got \<Longrightarrow>
      P (snd (checkBody cr (snd (checkPow cr pow (snd (expectedTargetC c prefix)) prefix b got)) prefix st b))"
  shows "P (snd (validateBlock cr pow now c prefix st b))"
  unfolding validateBlock_def
proof (rule snd_guard [where P = P and c = c, OF assms(1)])+
  let ?c1 = "snd (expectedTargetC c prefix)"
  assume "\<not> blk_Height b \<noteq> blen prefix"
  then have h: "blk_Height b = blen prefix" by simp
  show "P (snd (let (want, c1) = expectedTargetC c prefix in
        (case (want, TargetInt b) of
           (None, _) \<Rightarrow> (Some Panic, c1)
         | (_, Inl e) \<Rightarrow> (Some e, c1)
         | (Some w, Inr got) \<Rightarrow>
             if w \<noteq> got then (Some WrongTarget, c1)
             else (case checkPow cr pow c1 prefix b got of
                 (Some e, c2) \<Rightarrow> (Some e, c2)
               | (None, c2) \<Rightarrow> checkBody cr c2 prefix st b))))"
  proof (cases "TargetInt b")
    case (Inl e)
    then show ?thesis using assms(2) [OF h] by (simp add: case_prod_beta split: option.split)
  next
    case (Inr got)
    then show ?thesis
      using assms(2) [OF h] assms(3) [OF h Inr] assms(4) [OF h Inr]
      by (simp add: case_prod_beta split: option.split)
  qed
qed

lemma validateBlock_caches:
  assumes "length prefix < 2 ^ 64" and "caches_ok cr pow U V prefix c"
    and "seen_ok cr pow U V (fst (the (epochSeedFor cr prefix (blk_Height b)))) b"
  shows "caches_ok cr pow (insert (fst (the (epochSeedFor cr prefix (blk_Height b))), b) U) V prefix
    (snd (validateBlock cr pow now c prefix st b))"
proof -
  let ?U = "insert (fst (the (epochSeedFor cr prefix (blk_Height b))), b) U"
  have c: "caches_ok cr pow ?U V prefix c" by (rule caches_ok_mono [OF assms(2)]) auto
  show ?thesis
  proof (cases "blk_Height b = blen prefix")
    case True
    obtain seed e where ep: "epochSeedFor cr prefix (blk_Height b) = Some (seed, e)"
      using epochSeedFor_tip [OF assms(1), of cr] True by auto
    have p: "caches_ok cr pow ?U V prefix (snd (checkPow cr pow (snd (expectedTargetC c prefix)) prefix b got))"
      if "TargetInt b = Inr got" for got
      using checkPow_memos [OF caches_ok_expected [OF assms(2)] _ ep that] assms(3) ep by simp
    show ?thesis
    proof (rule validateBlock_snd_cases [where P = "caches_ok cr pow ?U V prefix"])
      show "caches_ok cr pow ?U V prefix (snd (expectedTargetC c prefix))" by (rule caches_ok_expected [OF c])
    qed (rule c p caches_ok_checkBody, assumption?)+
  qed (use c in \<open>auto simp: validateBlock_def\<close>)
qed

text \<open>The loops of the two pre-verifications are the memo's own \<open>remember\<close> over the items they visit.\<close>

fun pow_items :: "crypto \<Rightarrow> u64 \<Rightarrow> block list \<Rightarrow> block list \<Rightarrow> (bytes \<times> block) list" where
  "pow_items cr h prefix [] = []"
| "pow_items cr h prefix (b # bs) =
     (if blk_Height b \<noteq> h then []
      else case epochSeedFor cr prefix (blk_Height b) of
        None \<Rightarrow> []
      | Some (seed, _) \<Rightarrow> (seed, b) # pow_items cr (h + 1) (prefix @ [b]) bs)"

lemma preVerifyPow_remember:
  "preVerifyPow_loop cr pow h prefix bs memo = foldl (pows.remember cr pow) memo (pow_items cr h prefix bs)"
  by (induction cr h prefix bs arbitrary: memo rule: pow_items.induct)
    (simp_all add: pows.remember_def Let_def split: option.split)

fun sig_items :: "u64 \<Rightarrow> block list \<Rightarrow> (tx \<times> u64) list" where
  "sig_items h [] = []"
| "sig_items h (b # bs) =
     (if blk_Height b \<noteq> h then [] else map (\<lambda>t. (t, h)) (filter (\<lambda>t. \<not> IsCoinbase t) (blk_Txs b)) @ sig_items (h + 1) bs)"

lemma preVerifyTxs_remember:
  "foldl (preVerifyTx cr h) memo ts = foldl (sigs.remember cr) memo (map (\<lambda>t. (t, h)) (filter (\<lambda>t. \<not> IsCoinbase t) ts))"
  by (induction ts arbitrary: memo) (simp_all add: preVerifyTx_def sigs.remember_def)

lemma preVerifySigs_remember:
  "preVerifySigs_loop cr h bs memo = foldl (sigs.remember cr) memo (sig_items h bs)"
  by (induction h bs arbitrary: memo rule: sig_items.induct) (simp_all add: preVerifyTxs_remember)

lemma PreVerifyPoW_caches:
  assumes "caches_ok cr pow U V bs c"
  shows "caches_ok cr pow (U \<union> set (pow_items cr startHeight (take (unat startHeight) (ch_blocks c)) nb)) V bs
    (PreVerifyPoW cr pow startHeight nb c)"
proof -
  let ?items = "pow_items cr startHeight (take (unat startHeight) (ch_blocks c)) nb"
  have c: "caches_ok cr pow (U \<union> set ?items) V bs c" by (rule caches_ok_mono [OF assms]) auto
  have "pows.sound cr pow (U \<union> set ?items) (foldl (pows.remember cr pow) memo ?items)"
    if "pows.sound cr pow (U \<union> set ?items) memo" for memo
    using pows.remember_all [where U = "U \<union> set ?items" and xs = ?items] that by blast
  then show ?thesis
    using c by (simp add: PreVerifyPoW_def preVerifyPow_remember caches_ok_def memos_sound_def vm_ok_def gates_ok_def)
qed

lemma PreVerifySigs_caches:
  assumes "caches_ok cr pow U V bs c"
  shows "caches_ok cr pow U (V \<union> set (sig_items startHeight nb)) bs (PreVerifySigs cr startHeight nb c)"
proof -
  let ?items = "sig_items startHeight nb"
  have c: "caches_ok cr pow U (V \<union> set ?items) bs c" by (rule caches_ok_mono [OF assms]) auto
  have "sigs.sound cr (V \<union> set ?items) (foldl (sigs.remember cr) memo ?items)"
    if "sigs.sound cr (V \<union> set ?items) memo" for memo
    using sigs.remember_all [where U = "V \<union> set ?items" and xs = ?items] that by blast
  then show ?thesis
    using c by (simp add: PreVerifySigs_def preVerifySigs_remember caches_ok_def memos_sound_def vm_ok_def gates_ok_def)
qed

section \<open>A concrete first block\<close>

definition easy_pow :: pow_fun where
  "easy_pow seed header height = replicate 32 0"

definition coinbase1 :: tx where
  "coinbase1 = genesis_coinbase\<lparr>tx_To := AddrFromPub demo_crypto (ed_public demo_crypto [1, 2, 3]),
     tx_Amount := 5000000000, tx_Nonce := 1\<rparr>"

definition block1 :: block where
  "block1 = \<lparr>blk_Version = 1, blk_Height = 1, blk_Time = 1781136060,
     blk_PrevHash = Hash demo_crypto (GenesisBlock demo_crypto),
     blk_TxRoot = ComputeTxRoot demo_crypto [coinbase1], blk_Target = the (TargetToHex GenesisTarget),
     blk_Nonce = 0, blk_Txs = [coinbase1], blk_hash = []\<rparr>"

lemma valid64Hex_digest: "digest32 cr \<Longrightarrow> valid64Hex (hex_encode (sha256 cr m))"
  by (simp add: valid64Hex_def digest32D)

lemma genesis_target: "valid64Hex (the (TargetToHex GenesisTarget))"
    "blk_Target b = the (TargetToHex GenesisTarget) \<Longrightarrow> TargetInt b = Inr GenesisTarget"
proof -
  obtain raw where r: "length raw = 32" "int (from_be raw) = GenesisTarget"
      "TargetToHex GenesisTarget = Some (hex_encode raw)"
    by (rule TargetToHex_decode [of GenesisTarget]) (simp_all add: GenesisTarget_def)
  show "valid64Hex (the (TargetToHex GenesisTarget))" using r by (simp add: valid64Hex_def)
  show "blk_Target b = the (TargetToHex GenesisTarget) \<Longrightarrow> TargetInt b = Inr GenesisTarget"
    using r by (simp add: TargetInt_def)
qed

lemma expectedTarget_genesis: "expectedTarget [g] = Some GenesisTarget"
  by (simp add: expectedTarget_def expectedTargetActive_def lwmaActiveAt_def lwmaActivation_def activationHeight_def
      activationHeightWin_def legacyTarget_def)

lemma medianTime_single: "medianTime [g] = blk_Time g"
  by (simp add: medianTime_def)

lemma IsCoinbase_coinbase1 [simp]: "IsCoinbase coinbase1"
  by (simp add: coinbase1_def genesis_coinbase_def IsCoinbase_def)

lemma block1_valid:
  "block_valid demo_crypto easy_pow 1781136060 [] [GenesisBlock demo_crypto] st block1"
proof -
  have hdr: "header_fields_ok block1"
    by (simp add: header_fields_ok_def block1_def genesis_target ComputeTxRoot_def Hash_def computeHash_def
        GenesisBlock_def valid64Hex_digest)
  have body: "body_valid demo_crypto [GenesisBlock demo_crypto] st block1"
    using ValidAddr_AddrFromPub [OF digest32_demo]
    by (simp add: body_valid_def block1_def TotalFees_def BlockSubsidy_def)
      (simp add: coinbase1_def genesis_coinbase_def IsCoinbase_def)
  have tgt: "TargetInt block1 = Inr GenesisTarget" by (rule genesis_target) (simp add: block1_def)
  have "pow_passes easy_pow seed block1" for seed
    using tgt from_be_replicate0 [of 32 "[]"]
    by (simp add: pow_passes_def easy_pow_def HashMeetsTarget_def GenesisTarget_def from_be_def)
  then show ?thesis
    using hdr body tgt
    by (simp add: block_valid_def expectedTarget_genesis target_opt_def medianTime_single)
      (simp add: block1_def GenesisBlock_def)
qed

section \<open>Properties\<close>

text \<open>(C3)
  Block validation decides the consensus rules: with activation caches that agree with the chain,
  a VM cache keyed by its seeds and sound memos, \<open>validateBlock\<close> accepts a block exactly when it is
  a valid next block of the prefix. Work verified off the lock, cached activation heights, cached
  VMs and the verified-hash set never change a verdict, and afterwards they are still sound.
\<close>

theorem validateBlock_decides_rules:
  assumes "length prefix < 2 ^ 64" and "caches_ok cr pow U V prefix c"
    and "seen_ok cr pow U V (fst (the (epochSeedFor cr prefix (blk_Height b)))) b"
  shows "(fst (validateBlock cr pow now c prefix st b) = None
      \<longleftrightarrow> block_valid cr pow now (ch_Checkpoints c) prefix st b)
    \<and> caches_ok cr pow (insert (fst (the (epochSeedFor cr prefix (blk_Height b))), b) U) V prefix
        (snd (validateBlock cr pow now c prefix st b))"
  using assms validateBlock_iff [OF assms(1) _ _ _ assms(3)] validateBlock_caches [OF assms]
  unfolding caches_ok_def by blast

theorem validateBlock_decides_rules_witness:
  "fst (validateBlock demo_crypto easy_pow 1781136060 (open_chain False) [GenesisBlock demo_crypto]
      (replay demo_crypto [GenesisBlock demo_crypto]) block1) = None"
proof -
  let ?g = "[GenesisBlock demo_crypto]"
  have s: "seen_ok demo_crypto easy_pow {} {} (fst (the (epochSeedFor demo_crypto ?g (blk_Height block1)))) block1"
    by (simp add: seen_ok_def pows.no_collision_def blocks.no_collision_def sigs.no_collision_def)
  have "block_valid demo_crypto easy_pow 1781136060 (ch_Checkpoints (open_chain False)) ?g
      (replay demo_crypto ?g) block1"
    using block1_valid by (simp add: open_chain_def)
  then show ?thesis
    using validateBlock_decides_rules [OF _ caches_ok_open s, where now = 1781136060
        and st = "replay demo_crypto ?g"] by simp
qed



end
