(* ===== verification/Core_Mempool.thy ===== *)
theory Core_Mempool
  imports Core_Validate
begin

text \<open>
  The mempool, after \<^verbatim>\<open>src/core/chain.go\<close> (\<open>AddTx\<close>, \<open>validateMempoolTxLocked\<close>, \<open>mpAdd\<close>, \<open>mpDel\<close>,
  \<open>pruneMempoolLocked\<close>, \<open>sortedMempoolLocked\<close>) and \<^verbatim>\<open>src/core/mempool_persist.go\<close>. The pool is a map
  from identifiers to transactions with a second index of nonce-ordered lists per sender. The
  locale \<open>pool_ops\<close> is the contract of its deletions; the invariant \<open>pool_ok\<close> says that both
  structures hold the same transactions and that a sender never has two with the same nonce.
\<close>

section \<open>Binary search\<close>

text \<open>\<open>sort.Search\<close> of the Go library: the smallest index whose predicate holds, if it is monotone.\<close>

function go_search :: "(nat \<Rightarrow> bool) \<Rightarrow> nat \<Rightarrow> nat \<Rightarrow> nat" where
  "go_search f i j =
     (if i < j then let h = (i + j) div 2 in if \<not> f h then go_search f (h + 1) j else go_search f i h
      else i)"
  by pat_completeness auto

termination go_search
  by (relation "measure (\<lambda>(f, i, j). j - i)") auto

declare go_search.simps [simp del]

lemma go_search_least:
  assumes "i \<le> j" and "\<And>k l. i \<le> k \<Longrightarrow> k \<le> l \<Longrightarrow> l < j \<Longrightarrow> f k \<Longrightarrow> f l"
  shows "i \<le> go_search f i j \<and> go_search f i j \<le> j
    \<and> (\<forall>k. i \<le> k \<longrightarrow> k < go_search f i j \<longrightarrow> \<not> f k) \<and> (\<forall>k. go_search f i j \<le> k \<longrightarrow> k < j \<longrightarrow> f k)"
  using assms
proof (induction f i j rule: go_search.induct)
  case (1 f i j)
  show ?case
  proof (cases "i < j")
    case True
    let ?h = "(i + j) div 2"
    have h: "i \<le> ?h" "?h < j" using True by auto
    show ?thesis
    proof (cases "f ?h")
      case t: True
      have IH: "i \<le> go_search f i ?h \<and> go_search f i ?h \<le> ?h
          \<and> (\<forall>k. i \<le> k \<longrightarrow> k < go_search f i ?h \<longrightarrow> \<not> f k) \<and> (\<forall>k. go_search f i ?h \<le> k \<longrightarrow> k < ?h \<longrightarrow> f k)"
      proof (rule "1.IH"(2) [OF True refl])
        show "f k \<Longrightarrow> f l" if "i \<le> k" "k \<le> l" "l < ?h" for k l
          using "1.prems"(2) [OF that(1,2)] that(3) h(2) by linarith
      qed (use h t in simp_all)
      have A: "\<forall>k. ?h \<le> k \<longrightarrow> k < j \<longrightarrow> f k" using "1.prems"(2) [OF h(1) _ _ t] by blast
      have "\<forall>k. go_search f i ?h \<le> k \<longrightarrow> k < j \<longrightarrow> f k" using IH A linorder_not_le by blast
      moreover have "go_search f i j = go_search f i ?h"
        using t True by (simp add: go_search.simps [of f i j] Let_def)
      moreover have "go_search f i ?h \<le> j" using IH h by linarith
      ultimately show ?thesis using IH by simp
    next
      case n: False
      have IH: "?h + 1 \<le> go_search f (?h + 1) j \<and> go_search f (?h + 1) j \<le> j
          \<and> (\<forall>k. ?h + 1 \<le> k \<longrightarrow> k < go_search f (?h + 1) j \<longrightarrow> \<not> f k)
          \<and> (\<forall>k. go_search f (?h + 1) j \<le> k \<longrightarrow> k < j \<longrightarrow> f k)"
      proof (rule "1.IH"(1) [OF True refl])
        show "f k \<Longrightarrow> f l" if "?h + 1 \<le> k" "k \<le> l" "l < j" for k l
          using "1.prems"(2) [OF _ that(2,3)] that(1) h(1) by linarith
      qed (use h n in simp_all)
      have A: "\<forall>k. i \<le> k \<longrightarrow> k < ?h + 1 \<longrightarrow> \<not> f k"
        using "1.prems"(2) [OF _ _ h(2)] n by (metis Suc_eq_plus1 less_Suc_eq_le)
      have "\<forall>k. i \<le> k \<longrightarrow> k < go_search f (?h + 1) j \<longrightarrow> \<not> f k" using IH A linorder_not_le by blast
      moreover have "go_search f i j = go_search f (?h + 1) j"
        using n True by (simp add: go_search.simps [of f i j] Let_def)
      moreover have "i \<le> go_search f (?h + 1) j" using IH h by linarith
      ultimately show ?thesis using IH by simp
    qed
  next
    case False
    then have "go_search f i j = i" by (subst go_search.simps) simp
    then show ?thesis using False "1.prems"(1) by simp
  qed
qed

section \<open>The pool and its index\<close>

definition mpAdd :: "crypto \<Rightarrow> tx \<Rightarrow> chain \<Rightarrow> chain" where
  "mpAdd cr t c =
     (let c1 = c\<lparr>ch_mempool := AList.update (ID cr t) t (ch_mempool c)\<rparr>
      in case FromAddr cr t of
           Inl _ \<Rightarrow> c1
         | Inr from \<Rightarrow>
             let lst = gm_get [] (ch_bySender c1) from;
                 i = go_search (\<lambda>i. tx_Nonce (lst ! i) \<ge> tx_Nonce t) 0 (length lst)
             in c1\<lparr>ch_bySender := AList.update from (take i lst @ t # drop i lst) (ch_bySender c1)\<rparr>)"

text \<open>Removes the first entry of the list with the identifier.\<close>

fun remove_id :: "crypto \<Rightarrow> string \<Rightarrow> tx list \<Rightarrow> tx list" where
  "remove_id cr i [] = []"
| "remove_id cr i (m # ms) = (if ID cr m = i then ms else m # remove_id cr i ms)"

definition mpDel :: "crypto \<Rightarrow> string \<Rightarrow> chain \<Rightarrow> chain" where
  "mpDel cr txid c =
     (case map_of (ch_mempool c) txid of
        None \<Rightarrow> c
      | Some t \<Rightarrow>
          let c1 = c\<lparr>ch_mempool := AList.delete txid (ch_mempool c)\<rparr>
          in (case FromAddr cr t of
                Inl _ \<Rightarrow> c1
              | Inr from \<Rightarrow>
                  let lst = remove_id cr txid (gm_get [] (ch_bySender c1) from)
                  in if lst = [] then c1\<lparr>ch_bySender := AList.delete from (ch_bySender c1)\<rparr>
                     else c1\<lparr>ch_bySender := AList.update from lst (ch_bySender c1)\<rparr>))"

text \<open>One visit of \<open>pruneMempoolLocked\<close>; the loop deletes only the entry it visits.\<close>

definition prune_step :: "crypto \<Rightarrow> chain \<Rightarrow> string \<times> tx \<Rightarrow> chain" where
  "prune_step cr c p =
     (case p of (txid, t) \<Rightarrow>
        (case FromAddr cr t of
           Inl _ \<Rightarrow> mpDel cr txid c
         | Inr from \<Rightarrow>
             let (acc, st) = st_get (ch_state c) from; c1 = c\<lparr>ch_state := st\<rparr>
             in if tx_Nonce t < acc_Nonce acc \<or> acc_Balance acc < tx_Amount t + tx_Fee t
                then mpDel cr txid c1 else c1))"

definition pruneMempoolLocked :: "crypto \<Rightarrow> chain \<Rightarrow> chain" where
  "pruneMempoolLocked cr c = foldl (prune_step cr) c (ch_mempool c)"

section \<open>Admission\<close>

text \<open>The walk over the sender's queue: next executable nonce, committed balance, queue length.\<close>

definition queue_step :: "u64 \<times> u64 \<times> nat \<Rightarrow> tx \<Rightarrow> u64 \<times> u64 \<times> nat" where
  "queue_step s m =
     (case s of (nonce, spent, held) \<Rightarrow>
        if tx_Nonce m = nonce then (nonce + 1, spent + (tx_Amount m + tx_Fee m), held + 1)
        else (nonce, spent, held + 1))"

definition queue_walk :: "u64 \<Rightarrow> tx list \<Rightarrow> u64 \<times> u64 \<times> nat" where
  "queue_walk n0 lst = foldl queue_step (n0, 0, 0) lst"

text \<open>
  The checks after the walk: \<open>nonce\<close>, \<open>spent\<close> and \<open>held\<close> are its results, \<open>avail\<close> the sender's
  spendable balance.
\<close>

definition queue_verdict :: "tx \<Rightarrow> account \<Rightarrow> u64 \<Rightarrow> u64 \<Rightarrow> nat \<Rightarrow> u64 \<Rightarrow> err option" where
  "queue_verdict t acc nonce spent held avail =
     (if tx_Nonce t < acc_Nonce acc then Some (NonceTooLow (acc_Nonce acc) (tx_Nonce t))
      else if tx_Nonce t > nonce + MaxMempoolNonceGap then Some (NonceTooFar nonce (tx_Nonce t))
      else if held \<ge> MaxMempoolTxnsPerSender then Some TooManyQueued
      else if tx_Nonce t = nonce
      then (if avail < spent + tx_Amount t + tx_Fee t then Some InsufficientPending else None)
      else if avail < tx_Amount t + tx_Fee t then Some InsufficientQueued
      else None)"

definition validateMempoolTxLocked :: "crypto \<Rightarrow> tx \<Rightarrow> chain \<Rightarrow> err option \<times> chain" where
  "validateMempoolTxLocked cr t c =
     (case CheckSigAt cr t (blen (ch_blocks c)) of
        Some e \<Rightarrow> (Some e, c)
      | None \<Rightarrow>
          let (m, c1) = (if length (ch_blocks c) \<ge> MinFeeHeight then minFeeForC c (ch_blocks c) else (0, c)) in
          if length (ch_blocks c) \<ge> MinFeeHeight \<and> tx_Fee t < m then (Some (FeeBelowMin (tx_Fee t) m), c1)
          else
            let frm = from_or_empty cr t;
                (acc, st) = st_get (ch_state c1) frm;
                (nonce, spent, held) = queue_walk (acc_Nonce acc) (gm_get [] (ch_bySender c1) frm);
                imm = immatureCoinbase (ch_blocks c1) (length (ch_blocks c1))
            in (queue_verdict t acc nonce spent held (spendable (acc_Balance acc) (gm_get 0 imm frm)),
                c1\<lparr>ch_state := st\<rparr>))"

text \<open>The fee a replacement must pay: ten per cent more, at least one more.\<close>

definition rbf_min :: "u64 \<Rightarrow> u64" where
  "rbf_min fee = (let minFee = fee + fee div 10 in if minFee \<le> fee then fee + 1 else minFee)"

definition AddTx :: "crypto \<Rightarrow> tx \<Rightarrow> chain \<Rightarrow> err option \<times> chain" where
  "AddTx cr t c =
     (if IsCoinbase t then (Some CoinbaseInMempool, c)
      else if map_of (ch_mempool c) (ID cr t) \<noteq> None then (Some AlreadyInMempool, c)
      else
        case (case FromAddr cr t of
                Inl _ \<Rightarrow> None
              | Inr from \<Rightarrow>
                  find (\<lambda>(txid, m). tx_Nonce m = tx_Nonce t \<and> from_or_empty cr m = from) (ch_mempool c)) of
          Some (txid, m) \<Rightarrow>
            if tx_Fee t < rbf_min (tx_Fee m) then (Some (ReplaceByFee (tx_Fee t) (rbf_min (tx_Fee m))), c)
            else (case validateMempoolTxLocked cr t (mpDel cr txid c) of
                    (Some e, c1) \<Rightarrow> (Some e, mpAdd cr m c1)
                  | (None, c1) \<Rightarrow> (None, mpAdd cr t c1))
        | None \<Rightarrow>
            if length (ch_mempool c) > 10000 then (Some MempoolFull, c)
            else (case validateMempoolTxLocked cr t c of
                    (Some e, c1) \<Rightarrow> (Some e, c1)
                  | (None, c1) \<Rightarrow> (None, mpAdd cr t c1)))"

section \<open>The order of the listing\<close>

text \<open>\<open>sortedMempoolLocked\<close>: nonce ascending, then fee descending, then identifier ascending.\<close>

datatype pool_key = PoolKey u64 u64 string

instantiation pool_key :: linorder
begin

fun less_pool_key :: "pool_key \<Rightarrow> pool_key \<Rightarrow> bool" where
  "less_pool_key (PoolKey n f i) (PoolKey n' f' i') \<longleftrightarrow>
     (if n \<noteq> n' then n < n' else if f \<noteq> f' then f > f' else i < i')"

definition less_eq_pool_key :: "pool_key \<Rightarrow> pool_key \<Rightarrow> bool" where
  "less_eq_pool_key x y \<longleftrightarrow> x < y \<or> x = y"

instance
proof
  fix x y z :: pool_key
  show "x \<le> x" by (simp add: less_eq_pool_key_def)
  show "x < y \<longleftrightarrow> x \<le> y \<and> \<not> y \<le> x"
    by (cases x; cases y) (auto simp: less_eq_pool_key_def split: if_splits)
  show "x \<le> y \<Longrightarrow> y \<le> z \<Longrightarrow> x \<le> z"
    by (cases x; cases y; cases z) (auto simp: less_eq_pool_key_def split: if_splits)
  show "x \<le> y \<Longrightarrow> y \<le> x \<Longrightarrow> x = y"
    by (cases x; cases y) (auto simp: less_eq_pool_key_def split: if_splits)
  show "x \<le> y \<or> y \<le> x"
    by (cases x; cases y) (auto simp: less_eq_pool_key_def split: if_splits)
qed

end

definition pool_key :: "crypto \<Rightarrow> tx \<Rightarrow> pool_key" where
  "pool_key cr t = PoolKey (tx_Nonce t) (tx_Fee t) (ID cr t)"

definition sortedMempoolLocked :: "crypto \<Rightarrow> chain \<Rightarrow> tx list" where
  "sortedMempoolLocked cr c = sort_key (pool_key cr) (map snd (ch_mempool c))"

text \<open>
  \<open>SaveMempool\<close> writes the transactions of the pool in some order; \<open>LoadMempool\<close> sorts what the
  file holds by nonce and offers each to \<open>AddTx\<close>, counting the accepted ones.
\<close>

definition SaveMempool :: "chain \<Rightarrow> tx list" where
  "SaveMempool c = map snd (ch_mempool c)"

definition LoadMempool :: "crypto \<Rightarrow> tx list option \<Rightarrow> chain \<Rightarrow> nat \<times> chain" where
  "LoadMempool cr saved c =
     (case saved of
        None \<Rightarrow> (0, c)
      | Some txs \<Rightarrow>
          foldl (\<lambda>(kept, c) t. case AddTx cr t c of
                   (None, c1) \<Rightarrow> (kept + 1, c1)
                 | (Some _, c1) \<Rightarrow> (kept, c1)) (0, c) (sort_key tx_Nonce txs))"

section \<open>The invariant of the pool\<close>

definition tx_from :: "crypto \<Rightarrow> tx \<Rightarrow> string option" where
  "tx_from cr t = (case FromAddr cr t of Inl _ \<Rightarrow> None | Inr a \<Rightarrow> Some a)"

lemma tx_from_Some: "tx_from cr t = Some a \<longleftrightarrow> FromAddr cr t = Inr a"
  by (simp add: tx_from_def split: sum.split)

definition pool_ok :: "crypto \<Rightarrow> chain \<Rightarrow> bool" where
  "pool_ok cr c \<longleftrightarrow> gm_invar (ch_mempool c) \<and> gm_invar (ch_bySender c)
     \<and> (\<forall>i t. map_of (ch_mempool c) i = Some t \<longrightarrow> ID cr t = i \<and> tx_from cr t \<noteq> None)
     \<and> (\<forall>a. sorted_wrt (\<lambda>x y. tx_Nonce x < tx_Nonce y) (gm_get [] (ch_bySender c) a)
          \<and> set (gm_get [] (ch_bySender c) a)
              = {t. map_of (ch_mempool c) (ID cr t) = Some t \<and> tx_from cr t = Some a}
          \<and> map_of (ch_bySender c) a \<noteq> Some [])"

lemma pool_okD:
  assumes "pool_ok cr c"
  shows "sorted_wrt (\<lambda>x y. tx_Nonce x < tx_Nonce y) (gm_get [] (ch_bySender c) a)"
    "set (gm_get [] (ch_bySender c) a) = {t. map_of (ch_mempool c) (ID cr t) = Some t \<and> tx_from cr t = Some a}"
    "map_of (ch_mempool c) i = Some t \<Longrightarrow> ID cr t = i" "map_of (ch_mempool c) i = Some t \<Longrightarrow> tx_from cr t \<noteq> None"
    "map_of (ch_bySender c) a \<noteq> Some []" "gm_invar (ch_mempool c)" "gm_invar (ch_bySender c)"
  using assms unfolding pool_ok_def by blast+

text \<open>One transaction per sender and nonce.\<close>

lemma pool_unique:
  assumes "pool_ok cr c" and "map_of (ch_mempool c) (ID cr t) = Some t"
    and "map_of (ch_mempool c) (ID cr u) = Some u"
    and "tx_from cr t = tx_from cr u" and "tx_Nonce t = tx_Nonce u"
  shows "t = u"
proof -
  obtain a where a: "tx_from cr t = Some a" using pool_okD(4) [OF assms(1,2)] by blast
  let ?l = "gm_get [] (ch_bySender c) a"
  have "t \<in> set ?l" "u \<in> set ?l" "sorted_wrt (\<lambda>x y. tx_Nonce x < tx_Nonce y) ?l"
    using assms(2-4) a by (simp_all add: pool_okD(1,2) [OF assms(1)])
  then obtain i j where "i < length ?l" "j < length ?l" "?l ! i = t" "?l ! j = u"
    by (auto simp: in_set_conv_nth)
  then show ?thesis
    using assms(5) \<open>sorted_wrt _ ?l\<close> by (metis linorder_neqE_nat order_less_irrefl sorted_wrt_nth_less)
qed

text \<open>The insertion point found by the binary search splits a sorted queue.\<close>

lemma insert_point:
  fixes lst :: "tx list" and n :: u64
  assumes "sorted_wrt (\<lambda>x y. tx_Nonce x < tx_Nonce y) lst"
  defines "i \<equiv> go_search (\<lambda>i. tx_Nonce (lst ! i) \<ge> n) 0 (length lst)"
  shows "(\<forall>x \<in> set (take i lst). tx_Nonce x < n) \<and> (\<forall>x \<in> set (drop i lst). n \<le> tx_Nonce x)"
proof -
  have mono: "tx_Nonce (lst ! l) \<ge> n" if "k \<le> l" "l < length lst" "tx_Nonce (lst ! k) \<ge> n" for k l
    using that assms(1) by (metis le_neq_implies_less less_imp_le order_trans sorted_wrt_nth_less)
  have g: "i \<le> length lst" "\<forall>k<i. \<not> tx_Nonce (lst ! k) \<ge> n" "\<forall>k. i \<le> k \<longrightarrow> k < length lst \<longrightarrow> tx_Nonce (lst ! k) \<ge> n"
    using go_search_least [of 0 "length lst" "\<lambda>i. tx_Nonce (lst ! i) \<ge> n"] mono unfolding i_def by blast+
  show ?thesis
    using g by (auto simp: in_set_conv_nth not_le)
qed

lemma sorted_insert:
  fixes lst :: "tx list"
  assumes "sorted_wrt (\<lambda>x y. tx_Nonce x < tx_Nonce y) lst" and "\<forall>x \<in> set lst. tx_Nonce x \<noteq> tx_Nonce t"
  defines "i \<equiv> go_search (\<lambda>i. tx_Nonce (lst ! i) \<ge> tx_Nonce t) 0 (length lst)"
  shows "sorted_wrt (\<lambda>x y. tx_Nonce x < tx_Nonce y) (take i lst @ t # drop i lst)"
proof -
  have "sorted_wrt (\<lambda>x y. tx_Nonce x < tx_Nonce y) (take i lst @ drop i lst)" using assms(1) by simp
  moreover have "\<forall>x \<in> set (take i lst). tx_Nonce x < tx_Nonce t" "\<forall>x \<in> set (drop i lst). tx_Nonce t \<le> tx_Nonce x"
    using insert_point [OF assms(1)] unfolding i_def by blast+
  moreover have "\<forall>x \<in> set (drop i lst). tx_Nonce t < tx_Nonce x"
    using calculation(3) assms(2) by (metis in_set_dropD order_le_imp_less_or_eq)
  moreover have "\<forall>x \<in> set (take i lst). \<forall>y \<in> set (drop i lst). tx_Nonce x < tx_Nonce y"
    using calculation(2,4) by (metis order_less_trans)
  ultimately show ?thesis by (simp add: sorted_wrt_append sorted_wrt_take sorted_wrt_drop)
qed

lemma set_take_insert_drop: "set (take i lst @ t # drop i lst) = insert t (set lst)"
  by (metis (no_types) append_take_drop_id list.simps(15) set_append Un_insert_right)

lemma mpAdd_fields [simp]:
  "ch_mempool (mpAdd cr t c) = AList.update (ID cr t) t (ch_mempool c)"
  "ch_blocks (mpAdd cr t c) = ch_blocks c" "ch_state (mpAdd cr t c) = ch_state c"
  by (simp_all add: mpAdd_def Let_def split: sum.split)

lemma pool_ok_add:
  assumes p: "pool_ok cr c" and frm: "tx_from cr t = Some a" and new: "map_of (ch_mempool c) (ID cr t) = None"
    and slot: "\<forall>u. map_of (ch_mempool c) (ID cr u) = Some u \<and> tx_from cr u = Some a \<longrightarrow> tx_Nonce u \<noteq> tx_Nonce t"
  shows "pool_ok cr (mpAdd cr t c)"
proof -
  let ?l = "gm_get [] (ch_bySender c) a"
  let ?i = "go_search (\<lambda>i. tx_Nonce (?l ! i) \<ge> tx_Nonce t) 0 (length ?l)"
  have idx: "ch_bySender (mpAdd cr t c) = AList.update a (take ?i ?l @ t # drop ?i ?l) (ch_bySender c)"
    using frm by (simp add: mpAdd_def tx_from_Some Let_def)
  have l: "sorted_wrt (\<lambda>x y. tx_Nonce x < tx_Nonce y) ?l"
      "set ?l = {u. map_of (ch_mempool c) (ID cr u) = Some u \<and> tx_from cr u = Some a}"
    by (simp_all add: pool_okD(1,2) [OF p])
  have s: "sorted_wrt (\<lambda>x y. tx_Nonce x < tx_Nonce y) (take ?i ?l @ t # drop ?i ?l)"
    using l slot by (intro sorted_insert) auto
  have e: "{u. map_of (ch_mempool (mpAdd cr t c)) (ID cr u) = Some u \<and> tx_from cr u = Some b}
      = (if b = a then insert t (set ?l) else {u. map_of (ch_mempool c) (ID cr u) = Some u \<and> tx_from cr u = Some b})" for b
    by (cases "b = a") (use new frm in \<open>auto simp: update_conv' l(2) split: if_splits\<close>)
  show ?thesis
    unfolding pool_ok_def
  proof (intro conjI allI impI)
    fix b
    show "sorted_wrt (\<lambda>x y. tx_Nonce x < tx_Nonce y) (gm_get [] (ch_bySender (mpAdd cr t c)) b)"
      using p s by (simp add: idx pool_ok_def)
    show "set (gm_get [] (ch_bySender (mpAdd cr t c)) b)
        = {u. map_of (ch_mempool (mpAdd cr t c)) (ID cr u) = Some u \<and> tx_from cr u = Some b}"
      unfolding e idx using p set_take_insert_drop [of ?i ?l t] by (simp add: pool_ok_def)
    show "map_of (ch_bySender (mpAdd cr t c)) b \<noteq> Some []"
      using p by (simp add: idx update_conv' pool_ok_def)
  next
    fix i u assume "map_of (ch_mempool (mpAdd cr t c)) i = Some u"
    then have "i = ID cr t \<and> u = t \<or> map_of (ch_mempool c) i = Some u"
      by (simp add: update_conv' split: if_splits)
    then show "ID cr u = i" "tx_from cr u \<noteq> None" using pool_okD(3,4) [OF p, of i u] frm by auto
  qed (simp_all add: idx gmap.invar_put pool_okD(6,7) [OF p])
qed

lemma remove_id_sorted:
  assumes "sorted_wrt (\<lambda>x y. tx_Nonce x < tx_Nonce y) lst"
  shows "sorted_wrt (\<lambda>x y. tx_Nonce x < tx_Nonce y) (remove_id cr i lst)"
  using assms
proof (induction lst)
  case (Cons m ms)
  have "set (remove_id cr i ms) \<subseteq> set ms" by (induction ms) auto
  with Cons show ?case by auto
qed simp

lemma remove_id_set:
  assumes "\<forall>x \<in> set lst. \<forall>y \<in> set lst. ID cr x = ID cr y \<longrightarrow> x = y" and "distinct lst"
  shows "set (remove_id cr i lst) = {x \<in> set lst. ID cr x \<noteq> i}"
  using assms by (induction lst) auto

lemma sorted_nonce_distinct: "sorted_wrt (\<lambda>x y. tx_Nonce x < tx_Nonce y) lst \<Longrightarrow> distinct lst"
  by (induction lst) auto

lemma mpDel_fields [simp]:
  "ch_mempool (mpDel cr i c) = (if map_of (ch_mempool c) i = None then ch_mempool c else AList.delete i (ch_mempool c))"
  "ch_blocks (mpDel cr i c) = ch_blocks c" "ch_state (mpDel cr i c) = ch_state c"
  by (simp_all add: mpDel_def Let_def split: option.split sum.split)

lemma mpDel_lookup: "map_of (ch_mempool (mpDel cr i c)) = (map_of (ch_mempool c))(i := None)"
  by (auto simp: delete_conv')

lemma pool_ok_del:
  assumes p: "pool_ok cr c"
  shows "pool_ok cr (mpDel cr i c)"
proof (cases "map_of (ch_mempool c) i")
  case None
  then show ?thesis using p by (simp add: mpDel_def)
next
  case (Some t)
  then have t: "ID cr t = i" by (rule pool_okD(3) [OF p])
  obtain a where a: "FromAddr cr t = Inr a" using pool_okD(4) [OF p Some] by (auto simp: tx_from_Some)
  let ?l = "gm_get [] (ch_bySender c) a" and ?d = "mpDel cr i c"
  let ?r = "remove_id cr i ?l"
  have mp: "ch_mempool ?d = AList.delete i (ch_mempool c)" using Some by simp
  have idx: "ch_bySender ?d = (if ?r = [] then AList.delete a (ch_bySender c) else AList.update a ?r (ch_bySender c))"
    using Some a by (simp add: mpDel_def Let_def)
  have get: "gm_get [] (ch_bySender ?d) b = (if b = a then ?r else gm_get [] (ch_bySender c) b)" for b
    by (simp add: idx)
  have "\<forall>x \<in> set ?l. \<forall>y \<in> set ?l. ID cr x = ID cr y \<longrightarrow> x = y"
  proof (intro ballI impI)
    fix x y assume "x \<in> set ?l" "y \<in> set ?l" "ID cr x = ID cr y"
    then have "map_of (ch_mempool c) (ID cr y) = Some x" "map_of (ch_mempool c) (ID cr y) = Some y"
      unfolding pool_okD(2) [OF p] mem_Collect_eq by metis+
    then show "x = y" by simp
  qed
  then have r: "set ?r = {x \<in> set ?l. ID cr x \<noteq> i}"
    by (rule remove_id_set) (rule sorted_nonce_distinct [OF pool_okD(1) [OF p]])
  have other: "ID cr u \<noteq> i" if "map_of (ch_mempool c) (ID cr u) = Some u" "tx_from cr u = Some b" "b \<noteq> a" for u b
  proof
    assume "ID cr u = i"
    then have "u = t" using that(1) Some by simp
    then show False using that(2,3) a by (simp add: tx_from_Some)
  qed
  show ?thesis
    unfolding pool_ok_def
  proof (intro conjI allI impI)
    fix b
    show "sorted_wrt (\<lambda>x y. tx_Nonce x < tx_Nonce y) (gm_get [] (ch_bySender ?d) b)"
      using pool_okD(1) [OF p] remove_id_sorted by (simp add: get)
    show "set (gm_get [] (ch_bySender ?d) b)
        = {u. map_of (ch_mempool ?d) (ID cr u) = Some u \<and> tx_from cr u = Some b}"
    proof (cases "b = a")
      case True
      then show ?thesis by (auto simp: get r mp delete_conv' pool_okD(2) [OF p] split: if_splits)
    next
      case False
      then have "gm_get [] (ch_bySender ?d) b = gm_get [] (ch_bySender c) b" by (simp add: get)
      moreover have "map_of (ch_mempool ?d) (ID cr u) = Some u \<and> tx_from cr u = Some b
          \<longleftrightarrow> map_of (ch_mempool c) (ID cr u) = Some u \<and> tx_from cr u = Some b" for u
        using other [OF _ _ False] by (auto simp: mp delete_conv')
      ultimately show ?thesis by (simp add: pool_okD(2) [OF p])
    qed
    show "map_of (ch_bySender ?d) b \<noteq> Some []"
      using pool_okD(5) [OF p] by (simp add: idx update_conv' delete_conv')
  next
    fix j u assume "map_of (ch_mempool ?d) j = Some u"
    then have "map_of (ch_mempool c) j = Some u" by (simp add: mp delete_conv' split: if_splits)
    then show "ID cr u = j" "tx_from cr u \<noteq> None" using pool_okD(3,4) [OF p] by blast+
  qed (simp_all add: mp idx gmap.invar_put gmap.invar_del pool_okD(6,7) [OF p])
qed

text \<open>
  The contract of the deletions, on which pruning and the clean-up after a block rest: a deletion
  removes one entry and keeps the invariant.
\<close>

locale pool_ops =
  fixes del :: "'i \<Rightarrow> 'c \<Rightarrow> 'c" and pool :: "'c \<Rightarrow> 'i \<Rightarrow> 't option" and inv :: "'c \<Rightarrow> bool"
  assumes del_pool: "pool (del i c) = (pool c)(i := None)"
    and del_inv: "inv c \<Longrightarrow> inv (del i c)"
begin

lemma del_all: "pool (foldl (\<lambda>c i. del i c) c is) = (\<lambda>i. if i \<in> set is then None else pool c i)"
  by (induction "is" arbitrary: c) (auto simp: del_pool)

lemma del_all_inv: "inv c \<Longrightarrow> inv (foldl (\<lambda>c i. del i c) c is)"
  by (induction "is" arbitrary: c) (simp_all add: del_inv)

lemma sweep_inv:
  assumes "\<And>c x. inv c \<Longrightarrow> inv (step c x)"
  shows "inv c \<Longrightarrow> inv (foldl step c xs)"
  by (induction xs arbitrary: c) (simp_all add: assms)

lemma sweep_pool:
  assumes "\<And>c x. pool (step c x) = (if bad c x then (pool c)(key x := None) else pool c)"
    and "\<And>c x y. bad (step c y) x = bad c x"
  shows "pool (foldl step c xs) = (\<lambda>i. if \<exists>x \<in> set xs. key x = i \<and> bad c x then None else pool c i)"
proof (induction xs arbitrary: c)
  case (Cons x xs)
  then show ?case by (auto simp: assms fun_eq_iff)
qed simp

end

interpretation mempool: pool_ops "mpDel cr" "\<lambda>c. map_of (ch_mempool c)" "pool_ok cr" for cr
  by unfold_locales (rule mpDel_lookup, rule pool_ok_del)

section \<open>Pruning\<close>

lemma tx_from_empty: "tx_from cr t = Some a \<Longrightarrow> from_or_empty cr t = a"
  by (simp add: tx_from_Some from_or_empty_def)

text \<open>Why a transaction is pruned: no sender, a spent nonce, or a balance that cannot pay it.\<close>

definition prunable :: "crypto \<Rightarrow> state \<Rightarrow> tx \<Rightarrow> bool" where
  "prunable cr st t \<longleftrightarrow>
     (case tx_from cr t of
        None \<Rightarrow> True
      | Some a \<Rightarrow> tx_Nonce t < acc_Nonce (acct st a) \<or> acc_Balance (acct st a) < tx_Amount t + tx_Fee t)"

lemma prunable_cong: "st_eq s u \<Longrightarrow> prunable cr s t = prunable cr u t"
  by (simp add: prunable_def st_eq_def split: option.split)

lemma pool_ok_state [simp]: "pool_ok cr (c\<lparr>ch_state := s\<rparr>) = pool_ok cr c"
  "pool_ok cr (c\<lparr>ch_feeAct := n\<rparr>) = pool_ok cr c"
  by (simp_all add: pool_ok_def)

lemma prune_step_props:
  "map_of (ch_mempool (prune_step cr c (i, t)))
     = (if prunable cr (ch_state c) t then (map_of (ch_mempool c))(i := None) else map_of (ch_mempool c))"
  "st_eq (ch_state (prune_step cr c p)) (ch_state c)"
  "pool_ok cr c \<Longrightarrow> pool_ok cr (prune_step cr c p)"
  "gm_invar (ch_state c) \<Longrightarrow> gm_invar (ch_state (prune_step cr c p))"
proof -
  show "map_of (ch_mempool (prune_step cr c (i, t)))
     = (if prunable cr (ch_state c) t then (map_of (ch_mempool c))(i := None) else map_of (ch_mempool c))"
    by (auto simp: prune_step_def prunable_def tx_from_def case_prod_beta Let_def mpDel_lookup ledger_simps
        simp del: mpDel_fields split: sum.split)
  show "st_eq (ch_state (prune_step cr c p)) (ch_state c)"
    "gm_invar (ch_state c) \<Longrightarrow> gm_invar (ch_state (prune_step cr c p))"
    by (simp_all add: prune_step_def case_prod_beta Let_def ledger_simps split: sum.split)
  show "pool_ok cr c \<Longrightarrow> pool_ok cr (prune_step cr c p)"
    by (simp add: prune_step_def case_prod_beta Let_def pool_ok_del split: sum.split)
qed

lemma prune_state: "st_eq (ch_state (foldl (prune_step cr) c ps)) (ch_state c)"
  by (induction ps arbitrary: c) (auto intro: st_eq_trans prune_step_props(2))

lemma prune_invar: "gm_invar (ch_state c) \<Longrightarrow> gm_invar (ch_state (foldl (prune_step cr) c ps))"
  by (induction ps arbitrary: c) (simp_all add: prune_step_props(4))

lemma prune_pool_ok: "pool_ok cr c \<Longrightarrow> pool_ok cr (pruneMempoolLocked cr c)"
  unfolding pruneMempoolLocked_def by (rule mempool.sweep_inv [of cr "prune_step cr"]) (rule prune_step_props(3))

lemma prune_lookup:
  assumes "gm_invar (ch_mempool c)"
  shows "map_of (ch_mempool (pruneMempoolLocked cr c)) i =
    (case map_of (ch_mempool c) i of None \<Rightarrow> None
     | Some t \<Rightarrow> if prunable cr (ch_state c) t then None else Some t)"
proof -
  have "map_of (ch_mempool (foldl (prune_step cr) c (ch_mempool c)))
      = (\<lambda>i. if \<exists>p \<in> set (ch_mempool c). fst p = i \<and> prunable cr (ch_state c) (snd p) then None
             else map_of (ch_mempool c) i)"
    by (rule mempool.sweep_pool [where key = fst and bad = "\<lambda>c p. prunable cr (ch_state c) (snd p)"])
      (simp_all add: prune_step_props(1) [of cr _ "fst x" "snd x" for x, simplified] prunable_cong [OF prune_step_props(2)])
  moreover have "(\<exists>p \<in> set (ch_mempool c). fst p = i \<and> P (snd p)) \<longleftrightarrow>
      (case map_of (ch_mempool c) i of None \<Rightarrow> False | Some t \<Rightarrow> P t)" for P
  proof (cases "map_of (ch_mempool c) i")
    case None
    then have "\<forall>p \<in> set (ch_mempool c). fst p \<noteq> i" by (auto simp: map_of_eq_None_iff)
    then show ?thesis using None by auto
  next
    case (Some t)
    have "p \<in> set (ch_mempool c) \<Longrightarrow> fst p = i \<Longrightarrow> snd p = t" for p
      using assms Some by (metis gm_invar_def map_of_is_SomeI option.inject prod.collapse)
    moreover have "(i, t) \<in> set (ch_mempool c)" using Some by (rule map_of_SomeD)
    ultimately have "(\<exists>p \<in> set (ch_mempool c). fst p = i \<and> P (snd p)) \<longleftrightarrow> P t"
      by (metis fst_conv snd_conv)
    then show ?thesis by (simp add: Some)
  qed
  ultimately show ?thesis by (auto simp: pruneMempoolLocked_def split: option.splits)
qed

section \<open>Admission\<close>

lemma validateMempool_frame:
  "ch_mempool (snd (validateMempoolTxLocked cr t c)) = ch_mempool c"
  "ch_bySender (snd (validateMempoolTxLocked cr t c)) = ch_bySender c"
  "ch_blocks (snd (validateMempoolTxLocked cr t c)) = ch_blocks c"
  "st_eq (ch_state (snd (validateMempoolTxLocked cr t c))) (ch_state c)"
  "gm_invar (ch_state c) \<Longrightarrow> gm_invar (ch_state (snd (validateMempoolTxLocked cr t c)))"
  by (simp_all add: validateMempoolTxLocked_def case_prod_beta Let_def chain_frame ledger_simps split: option.split)

lemma pool_ok_cong:
  "ch_mempool d = ch_mempool c \<Longrightarrow> ch_bySender d = ch_bySender c \<Longrightarrow> pool_ok cr d = pool_ok cr c"
  by (simp add: pool_ok_def)

lemma validateMempool_from:
  assumes "fst (validateMempoolTxLocked cr t c) = None"
  shows "tx_from cr t \<noteq> None"
proof -
  have "CheckSigAt cr t (blen (ch_blocks c)) = None"
    using assms by (simp add: validateMempoolTxLocked_def split: option.splits)
  then show ?thesis
    by (auto simp: CheckSigAt_def checkSig_def tx_from_def FromAddr_def case_prod_beta Let_def split: if_splits)
qed

lemma sorted_nonce_unique:
  fixes xs :: "tx list"
  assumes "sorted_wrt (\<lambda>x y. tx_Nonce x < tx_Nonce y) xs" and "sorted_wrt (\<lambda>x y. tx_Nonce x < tx_Nonce y) ys"
    and "set xs = set ys"
  shows "xs = ys"
  using assms
proof (induction xs arbitrary: ys)
  case (Cons x xs)
  then obtain y zs where y: "ys = y # zs" by (cases ys) auto
  have "x = y"
  proof (rule ccontr)
    assume "x \<noteq> y"
    then have "x \<in> set zs" "y \<in> set xs" using Cons.prems(3) y by auto
    then have "tx_Nonce y < tx_Nonce x" "tx_Nonce x < tx_Nonce y" using Cons.prems(1,2) y by auto
    then show False by simp
  qed
  moreover have "x \<notin> set xs" "y \<notin> set zs" using Cons.prems(1,2) y by auto
  ultimately have "set xs = set zs" using Cons.prems(3) y by (simp add: insert_ident)
  then show ?case using Cons y \<open>x = y\<close> by simp
qed simp

text \<open>The index is determined by the pool.\<close>

lemma pool_index_unique:
  assumes "pool_ok cr c" and "pool_ok cr d" and "map_of (ch_mempool d) = map_of (ch_mempool c)"
  shows "gm_get [] (ch_bySender d) a = gm_get [] (ch_bySender c) a" "map_of (ch_bySender d) = map_of (ch_bySender c)"
proof -
  show g: "gm_get [] (ch_bySender d) a = gm_get [] (ch_bySender c) a" for a
    by (rule sorted_nonce_unique [OF pool_okD(1) [OF assms(2)] pool_okD(1) [OF assms(1)]])
      (simp add: pool_okD(2) [OF assms(1)] pool_okD(2) [OF assms(2)] assms(3))
  show "map_of (ch_bySender d) = map_of (ch_bySender c)"
  proof
    fix a
    show "map_of (ch_bySender d) a = map_of (ch_bySender c) a"
      using g [of a] pool_okD(5) [OF assms(1), of a] pool_okD(5) [OF assms(2), of a]
      by (auto simp: gm_get_def split: option.splits)
  qed
qed

text \<open>The pending transaction a new one would replace.\<close>

definition rbf_slot :: "crypto \<Rightarrow> chain \<Rightarrow> tx \<Rightarrow> tx option" where
  "rbf_slot cr c t =
     (case tx_from cr t of None \<Rightarrow> None
      | Some a \<Rightarrow> map_option snd
          (find (\<lambda>(txid, m). tx_Nonce m = tx_Nonce t \<and> from_or_empty cr m = a) (ch_mempool c)))"

lemma find_Some_mem: "find P xs = Some x \<Longrightarrow> x \<in> set xs \<and> P x"
  by (metis find_Some_iff nth_mem)

lemma rbf_slot_Some:
  assumes "pool_ok cr c" and "rbf_slot cr c t = Some m"
  shows "map_of (ch_mempool c) (ID cr m) = Some m" "tx_Nonce m = tx_Nonce t" "tx_from cr m = tx_from cr t"
proof -
  obtain a i where a: "tx_from cr t = Some a" and
    f: "find (\<lambda>(txid, m). tx_Nonce m = tx_Nonce t \<and> from_or_empty cr m = a) (ch_mempool c) = Some (i, m)"
    using assms(2) by (auto simp: rbf_slot_def split: option.splits)
  then have m: "(i, m) \<in> set (ch_mempool c)" "tx_Nonce m = tx_Nonce t" "from_or_empty cr m = a"
    using find_Some_mem [OF f] by simp_all
  then have i: "map_of (ch_mempool c) i = Some m" using pool_okD(6) [OF assms(1)] by (simp add: gm_invar_def)
  then show "map_of (ch_mempool c) (ID cr m) = Some m" using pool_okD(3) [OF assms(1) i] by simp
  show "tx_Nonce m = tx_Nonce t" by (rule m)
  show "tx_from cr m = tx_from cr t"
    using pool_okD(4) [OF assms(1) i] m(3) a tx_from_empty by fastforce
qed

lemma rbf_slot_None:
  assumes "rbf_slot cr c t = None" and "tx_from cr t = Some a" and "map_of (ch_mempool c) i = Some u"
    and "tx_from cr u = Some a"
  shows "tx_Nonce u \<noteq> tx_Nonce t"
proof -
  have "(i, u) \<in> set (ch_mempool c)" using assms(3) by (rule map_of_SomeD)
  then show ?thesis
    using assms(1,2) tx_from_empty [OF assms(4)] by (auto simp: rbf_slot_def find_None_iff)
qed

lemma AddTx_cases:
  assumes "pool_ok cr c"
  shows "AddTx cr t c =
    (if IsCoinbase t then (Some CoinbaseInMempool, c)
     else if map_of (ch_mempool c) (ID cr t) \<noteq> None then (Some AlreadyInMempool, c)
     else case rbf_slot cr c t of
       Some m \<Rightarrow>
         if tx_Fee t < rbf_min (tx_Fee m) then (Some (ReplaceByFee (tx_Fee t) (rbf_min (tx_Fee m))), c)
         else (case validateMempoolTxLocked cr t (mpDel cr (ID cr m) c) of
                 (Some e, c1) \<Rightarrow> (Some e, mpAdd cr m c1)
               | (None, c1) \<Rightarrow> (None, mpAdd cr t c1))
     | None \<Rightarrow>
         if length (ch_mempool c) > 10000 then (Some MempoolFull, c)
         else (case validateMempoolTxLocked cr t c of
                 (Some e, c1) \<Rightarrow> (Some e, c1)
               | (None, c1) \<Rightarrow> (None, mpAdd cr t c1)))"
proof -
  let ?f = "\<lambda>a. find (\<lambda>(txid, m). tx_Nonce m = tx_Nonce t \<and> from_or_empty cr m = a) (ch_mempool c)"
  have "ID cr m = i" if "?f a = Some (i, m)" for a i m
  proof (rule pool_okD(3) [OF assms])
    have "(i, m) \<in> set (ch_mempool c)" using find_Some_mem [OF that] by simp
    then show "map_of (ch_mempool c) i = Some m" using pool_okD(6) [OF assms] by (simp add: gm_invar_def)
  qed
  then show ?thesis
    by (auto simp: AddTx_def rbf_slot_def tx_from_def split: option.split sum.split prod.split)
qed

lemma queue_step_sel:
  "fst (queue_step s m) = (if tx_Nonce m = fst s then fst s + 1 else fst s)"
  "fst (snd (queue_step s m)) = (if tx_Nonce m = fst s then fst (snd s) + (tx_Amount m + tx_Fee m) else fst (snd s))"
  "snd (snd (queue_step s m)) = snd (snd s) + 1"
  by (simp_all add: queue_step_def case_prod_beta)

lemma queue_walk_held: "snd (snd (queue_walk n lst)) = length lst"
proof -
  have "snd (snd (foldl queue_step s lst)) = snd (snd s) + length lst" for s
    by (induction lst arbitrary: s) (simp_all add: queue_step_sel)
  then show ?thesis by (simp add: queue_walk_def)
qed

text \<open>What an admitted transaction satisfies.\<close>

lemma validateMempool_ok:
  assumes "fst (validateMempoolTxLocked cr t c) = None"
  defines "a \<equiv> from_or_empty cr t"
  shows "CheckSigAt cr t (blen (ch_blocks c)) = None"
    "\<exists>nonce spent. queue_walk (acc_Nonce (acct (ch_state c) a)) (gm_get [] (ch_bySender c) a)
        = (nonce, spent, length (gm_get [] (ch_bySender c) a))
      \<and> queue_verdict t (acct (ch_state c) a) nonce spent (length (gm_get [] (ch_bySender c) a))
          (spendable (acc_Balance (acct (ch_state c) a))
             (gm_get 0 (immatureCoinbase (ch_blocks c) (length (ch_blocks c))) a)) = None"
proof -
  show "CheckSigAt cr t (blen (ch_blocks c)) = None"
    using assms(1) by (simp add: validateMempoolTxLocked_def split: option.splits)
  let ?c1 = "snd (if length (ch_blocks c) \<ge> MinFeeHeight then minFeeForC c (ch_blocks c) else (0, c))"
  have "ch_bySender ?c1 = ch_bySender c" "ch_state ?c1 = ch_state c" "ch_blocks ?c1 = ch_blocks c"
    by (simp_all add: chain_frame)
  then have "queue_verdict t (acct (ch_state c) a)
      (fst (queue_walk (acc_Nonce (acct (ch_state c) a)) (gm_get [] (ch_bySender c) a)))
      (fst (snd (queue_walk (acc_Nonce (acct (ch_state c) a)) (gm_get [] (ch_bySender c) a))))
      (length (gm_get [] (ch_bySender c) a))
      (spendable (acc_Balance (acct (ch_state c) a))
         (gm_get 0 (immatureCoinbase (ch_blocks c) (length (ch_blocks c))) a)) = None"
    using assms(1)
    by (simp add: validateMempoolTxLocked_def case_prod_beta Let_def ledger_simps queue_walk_held a_def
        split: option.splits if_splits)
  then show "\<exists>nonce spent. queue_walk (acc_Nonce (acct (ch_state c) a)) (gm_get [] (ch_bySender c) a)
        = (nonce, spent, length (gm_get [] (ch_bySender c) a))
      \<and> queue_verdict t (acct (ch_state c) a) nonce spent (length (gm_get [] (ch_bySender c) a))
          (spendable (acc_Balance (acct (ch_state c) a))
             (gm_get 0 (immatureCoinbase (ch_blocks c) (length (ch_blocks c))) a)) = None"
    by (metis prod.collapse queue_walk_held)
qed

lemma validateMempool_held:
  assumes "fst (validateMempoolTxLocked cr t c) = None"
  shows "length (gm_get [] (ch_bySender c) (from_or_empty cr t)) < MaxMempoolTxnsPerSender"
  using validateMempool_ok(2) [OF assms] by (auto simp: queue_verdict_def split: if_splits)

section \<open>The pool invariant through every operation\<close>

definition pool_inv :: "crypto \<Rightarrow> chain \<Rightarrow> bool" where
  "pool_inv cr c \<longleftrightarrow> pool_ok cr c \<and> length (ch_mempool c) \<le> 10001
     \<and> (\<forall>a. length (gm_get [] (ch_bySender c) a) \<le> MaxMempoolTxnsPerSender)"

lemma pool_ok_validate: "pool_ok cr (snd (validateMempoolTxLocked cr t c)) = pool_ok cr c"
  by (rule pool_ok_cong) (simp_all add: validateMempool_frame)

lemma length_update_new: "map_of m k = None \<Longrightarrow> length (AList.update k v m) = Suc (length m)"
  by (induction m) (auto split: if_splits)

lemma length_delete_le: "length (AList.delete k m) \<le> length m"
  by (simp add: AList.delete_eq)

lemma length_delete_Some: "gm_invar m \<Longrightarrow> map_of m k = Some v \<Longrightarrow> Suc (length (AList.delete k m)) = length m"
proof (induction m)
  case (Cons p m)
  show ?case
  proof (cases "fst p = k")
    case True
    then have "k \<notin> fst ` set m" using Cons.prems(1) by (auto simp: gm_invar_def)
    then have "AList.delete k m = m" by (force simp: AList.delete_eq filter_id_conv)
    with True show ?thesis by (cases p) (simp add: AList.delete_eq)
  next
    case False
    then have "map_of m k = Some v" using Cons.prems(2) by (cases p) simp
    moreover have "gm_invar m" using Cons.prems(1) by (simp add: gm_invar_def)
    ultimately show ?thesis using Cons.IH False by (cases p) (simp add: AList.delete_eq)
  qed
qed simp

lemma remove_id_length: "length (remove_id cr i lst) \<le> length lst"
  by (induction lst) auto

lemma remove_id_shorter: "m \<in> set lst \<Longrightarrow> length (remove_id cr (ID cr m) lst) < length lst"
  by (induction lst) auto

lemma mpDel_queue: "length (gm_get [] (ch_bySender (mpDel cr i c)) a) \<le> length (gm_get [] (ch_bySender c) a)"
  using remove_id_length [of cr i "gm_get [] (ch_bySender c) a"]
  by (auto simp: mpDel_def Let_def split: option.split sum.split)

lemma mpAdd_queue:
  "tx_from cr t = Some b \<Longrightarrow> length (gm_get [] (ch_bySender (mpAdd cr t c)) a)
     = (if a = b then Suc (length (gm_get [] (ch_bySender c) a)) else length (gm_get [] (ch_bySender c) a))"
  by (auto simp: mpAdd_def Let_def tx_from_Some)

lemma pool_inv_del: "pool_inv cr c \<Longrightarrow> pool_inv cr (mpDel cr i c)"
proof -
  assume p: "pool_inv cr c"
  have "length (ch_mempool (mpDel cr i c)) \<le> length (ch_mempool c)" by (simp add: length_delete_le)
  then have "length (ch_mempool (mpDel cr i c)) \<le> 10001" using p unfolding pool_inv_def by linarith
  moreover have "length (gm_get [] (ch_bySender (mpDel cr i c)) a) \<le> MaxMempoolTxnsPerSender" for a
    using mpDel_queue [of cr i c a] p unfolding pool_inv_def by (meson order_trans)
  ultimately show ?thesis using p pool_ok_del unfolding pool_inv_def by blast
qed

lemma pool_inv_prune: "pool_inv cr c \<Longrightarrow> pool_inv cr (pruneMempoolLocked cr c)"
proof -
  have st: "pool_inv cr (d\<lparr>ch_state := s\<rparr>) = pool_inv cr d" for d s by (simp add: pool_inv_def)
  have "pool_inv cr d \<Longrightarrow> pool_inv cr (prune_step cr d p)" for d p
    by (simp add: prune_step_def case_prod_beta Let_def pool_inv_del st split: sum.split)
  then have "pool_inv cr d \<Longrightarrow> pool_inv cr (foldl (prune_step cr) d ps)" for d ps
    by (induction ps arbitrary: d) simp_all
  then show "pool_inv cr c \<Longrightarrow> pool_inv cr (pruneMempoolLocked cr c)" by (simp add: pruneMempoolLocked_def)
qed

lemma pool_inv_cong:
  "ch_mempool d = ch_mempool c \<Longrightarrow> ch_bySender d = ch_bySender c \<Longrightarrow> pool_inv cr d = pool_inv cr c"
  by (simp add: pool_inv_def pool_ok_def)

lemma pool_inv_validate: "pool_inv cr (snd (validateMempoolTxLocked cr t c)) = pool_inv cr c"
  by (rule pool_inv_cong) (simp_all add: validateMempool_frame)

lemma pool_inv_add:
  assumes p: "pool_inv cr c" and frm: "tx_from cr t = Some a" and new: "map_of (ch_mempool c) (ID cr t) = None"
    and slot: "\<forall>u. map_of (ch_mempool c) (ID cr u) = Some u \<and> tx_from cr u = Some a \<longrightarrow> tx_Nonce u \<noteq> tx_Nonce t"
    and room: "length (ch_mempool c) \<le> 10000" "length (gm_get [] (ch_bySender c) a) < MaxMempoolTxnsPerSender"
  shows "pool_inv cr (mpAdd cr t c)"
proof -
  have "pool_ok cr (mpAdd cr t c)" using p frm new slot pool_ok_add unfolding pool_inv_def by blast
  moreover have "length (ch_mempool (mpAdd cr t c)) \<le> 10001" using new room(1) by (simp add: length_update_new)
  moreover have "length (gm_get [] (ch_bySender (mpAdd cr t c)) b) \<le> MaxMempoolTxnsPerSender" for b
    using p room(2) mpAdd_queue [OF frm, of c b] unfolding pool_inv_def by auto
  ultimately show ?thesis unfolding pool_inv_def by blast
qed

text \<open>After the old transaction of a slot is dropped, either one can take the slot.\<close>

lemma pool_inv_swap:
  assumes p: "pool_inv cr c" and m: "map_of (ch_mempool c) (ID cr m) = Some m"
    and t: "t = m \<or> map_of (ch_mempool c) (ID cr t) = None" and same: "tx_from cr t = tx_from cr m" "tx_Nonce t = tx_Nonce m"
    and d: "ch_mempool d = ch_mempool (mpDel cr (ID cr m) c)" "ch_bySender d = ch_bySender (mpDel cr (ID cr m) c)"
  shows "pool_inv cr (mpAdd cr t d)"
proof -
  let ?e = "mpDel cr (ID cr m) c"
  have pc: "pool_ok cr c" using p by (simp add: pool_inv_def)
  have pe: "pool_inv cr ?e" by (rule pool_inv_del [OF p])
  obtain a where a: "tx_from cr m = Some a" using pool_okD(4) [OF pc m] by blast
  have look: "map_of (ch_mempool ?e) i = (if i = ID cr m then None else map_of (ch_mempool c) i)" for i
    by (simp add: mpDel_lookup del: mpDel_fields)
  have free: "tx_Nonce u \<noteq> tx_Nonce t" if u: "map_of (ch_mempool d) (ID cr u) = Some u" "tx_from cr u = Some a" for u
  proof
    assume "tx_Nonce u = tx_Nonce t"
    moreover have "map_of (ch_mempool c) (ID cr u) = Some u" "ID cr u \<noteq> ID cr m"
      using u(1) unfolding d look by (auto split: if_splits)
    ultimately have "u = m" using pool_unique [OF pc _ m] u(2) a same(2) by simp
    then show False using \<open>ID cr u \<noteq> ID cr m\<close> by simp
  qed
  have "m \<in> set (gm_get [] (ch_bySender c) a)" using pool_okD(2) [OF pc] m a by simp
  then have "length (gm_get [] (ch_bySender ?e) a) < length (gm_get [] (ch_bySender c) a)"
    using m a remove_id_shorter [of m "gm_get [] (ch_bySender c) a" cr]
    by (auto simp: mpDel_def tx_from_Some Let_def)
  then have "length (gm_get [] (ch_bySender d) a) < MaxMempoolTxnsPerSender"
    using p unfolding d(2) pool_inv_def by (meson order_less_le_trans)
  moreover have "length (ch_mempool d) \<le> 10000"
    using p length_delete_Some [OF pool_okD(6) [OF pc] m] m unfolding d(1) pool_inv_def by simp
  moreover have "map_of (ch_mempool d) (ID cr t) = None" using t unfolding d look by auto
  ultimately show ?thesis
    using pe free a same(1) d by (intro pool_inv_add) (auto simp: pool_inv_cong [of d ?e])
qed

lemma AddTx_inv:
  assumes "pool_inv cr c"
  shows "pool_inv cr (snd (AddTx cr t c))"
proof -
  have pc: "pool_ok cr c" using assms by (simp add: pool_inv_def)
  show ?thesis
  proof (cases "rbf_slot cr c t")
    case (Some m)
    note m = rbf_slot_Some [OF pc Some]
    let ?v = "validateMempoolTxLocked cr t (mpDel cr (ID cr m) c)"
    have "pool_inv cr (mpAdd cr m (snd ?v))"
      by (rule pool_inv_swap [OF assms m(1)]) (simp_all only: validateMempool_frame simp_thms)
    moreover have "pool_inv cr (mpAdd cr t (snd ?v))" if "map_of (ch_mempool c) (ID cr t) = None"
      by (rule pool_inv_swap [OF assms m(1)]) (simp_all only: that m validateMempool_frame simp_thms)
    ultimately show ?thesis
      using assms by (auto simp: AddTx_cases [OF pc] Some split: prod.split option.split)
  next
    case None
    let ?v = "validateMempoolTxLocked cr t c"
    have "pool_inv cr (mpAdd cr t (snd ?v))"
      if v: "fst ?v = None" and new: "map_of (ch_mempool c) (ID cr t) = None" "length (ch_mempool c) \<le> 10000"
    proof -
      obtain a where a: "tx_from cr t = Some a" using validateMempool_from [OF v] by blast
      have "\<forall>u. map_of (ch_mempool c) (ID cr u) = Some u \<and> tx_from cr u = Some a \<longrightarrow> tx_Nonce u \<noteq> tx_Nonce t"
        using rbf_slot_None [OF None a] by blast
      then show ?thesis
        using assms a new validateMempool_held [OF v] tx_from_empty [OF a]
        by (intro pool_inv_add) (simp_all add: pool_inv_validate validateMempool_frame)
    qed
    then show ?thesis
      using assms pool_inv_validate [of cr t c]
      by (auto simp: AddTx_cases [OF pc] None not_less split: prod.split option.split)
  qed
qed

lemma LoadMempool_inv:
  assumes "pool_inv cr c"
  shows "pool_inv cr (snd (LoadMempool cr saved c))"
proof (cases saved)
  case (Some txs)
  have "pool_inv cr (snd p) \<Longrightarrow> pool_inv cr (snd (foldl (\<lambda>(kept, c) t. case AddTx cr t c of
        (None, c1) \<Rightarrow> (kept + 1, c1) | (Some _, c1) \<Rightarrow> (kept, c1)) p ts))" for p :: "nat \<times> chain" and ts
  proof (induction ts arbitrary: p)
    case (Cons t ts)
    then show ?case
      using AddTx_inv [of cr "snd p" t] by (simp add: case_prod_beta split: prod.split option.split)
  qed simp
  then show ?thesis using assms Some by (simp add: LoadMempool_def)
qed (use assms in \<open>simp add: LoadMempool_def\<close>)

lemma pool_inv_open: "pool_inv cr (open_chain store)"
  by (simp add: pool_inv_def pool_ok_def open_chain_def)

lemma unat_minus_one_u64: "unat (- 1 :: u64) = 2 ^ 64 - 1"
  by (simp add: unsigned_minus_1_eq_mask mask_eq_exp_minus_1)

lemma word_less_inc: "(x :: u64) \<noteq> - 1 \<Longrightarrow> x < x + 1"
proof -
  assume x: "x \<noteq> - 1"
  have b: "unat x < 2 ^ 64" using unsigned_less [of x, where 'a = nat] by simp
  have "unat x \<noteq> 2 ^ 64 - 1" using x unat_minus_one_u64 by (metis word_unat_eq_iff)
  then have "unat (x + 1) = unat x + 1" using b by (simp add: unat_word_ariths)
  then show ?thesis by (simp add: word_less_nat_alt)
qed

lemma rbf_min_ge:
  "(fee \<noteq> - 1 \<longrightarrow> fee < rbf_min fee)
   \<and> (unat fee + unat fee div 10 < 2 ^ 64 \<longrightarrow> unat fee + unat fee div 10 \<le> unat (rbf_min fee))"
proof -
  have u: "unat (fee div 10) = unat fee div 10" by (simp add: unat_div)
  have plus: "unat (fee + fee div 10) = unat fee + unat fee div 10" if "unat fee + unat fee div 10 < 2 ^ 64"
    using that u by (simp add: unat_word_ariths)
  have one: "fee < fee + 1" if "fee \<noteq> - 1" using that by (rule word_less_inc)
  have small: "fee \<noteq> - 1" if "unat fee div 10 = 0"
    using that unat_minus_one_u64 by auto
  show ?thesis
    using plus one u small by (auto simp: rbf_min_def Let_def not_le word_le_nat_alt word_less_nat_alt)
qed

section \<open>Properties\<close>

text \<open>(C15)
  The mempool and its per-sender index never drift apart: admission, deletion, pruning and the
  restore at start-up keep the invariant that every pooled transaction has a sender and is indexed
  exactly once, in a queue strictly ordered by nonce (so one transaction per sender and nonce), and
  that the pool holds at most 10001 transactions and a sender at most 4096.
\<close>

theorem mempool_invariant:
  assumes "pool_inv cr c"
  shows "pool_inv cr (snd (AddTx cr t c)) \<and> pool_inv cr (mpDel cr i c)
    \<and> pool_inv cr (pruneMempoolLocked cr c) \<and> pool_inv cr (snd (LoadMempool cr saved c))"
  using AddTx_inv [OF assms] pool_inv_del [OF assms] pool_inv_prune [OF assms] LoadMempool_inv [OF assms] by blast

theorem mempool_invariant_witness:
  "pool_inv demo_crypto (snd (AddTx demo_crypto demo_tx (open_chain False)))"
  using mempool_invariant [OF pool_inv_open] by blast

text \<open>(C14)
  Admission is atomic and exact. A rejected transaction leaves the pool and the index as they were,
  the displaced transaction restored in a failed replacement. An accepted one is added; it displaces
  nothing but the pending transaction of the same sender and nonce, and then pays at least ten per
  cent, and strictly, more than it (unless the old fee is the largest word).
\<close>

theorem AddTx_outcome:
  assumes "pool_ok cr c"
  shows "(if fst (AddTx cr t c) = None
    then tx_from cr t \<noteq> None
      \<and> (case rbf_slot cr c t of
           None \<Rightarrow> map_of (ch_mempool (snd (AddTx cr t c))) = (map_of (ch_mempool c))(ID cr t \<mapsto> t)
         | Some m \<Rightarrow>
             map_of (ch_mempool (snd (AddTx cr t c))) = (map_of (ch_mempool c))(ID cr m := None, ID cr t \<mapsto> t)
             \<and> tx_from cr m = tx_from cr t \<and> tx_Nonce m = tx_Nonce t
             \<and> (tx_Fee m \<noteq> - 1 \<longrightarrow> tx_Fee m < tx_Fee t)
             \<and> (unat (tx_Fee m) + unat (tx_Fee m) div 10 < 2 ^ 64 \<longrightarrow>
                 unat (tx_Fee m) + unat (tx_Fee m) div 10 \<le> unat (tx_Fee t)))
    else map_of (ch_mempool (snd (AddTx cr t c))) = map_of (ch_mempool c)
      \<and> (pool_inv cr c \<longrightarrow> map_of (ch_bySender (snd (AddTx cr t c))) = map_of (ch_bySender c)))"
proof -
  have err: "map_of (ch_bySender (snd (AddTx cr t c))) = map_of (ch_bySender c)"
    if "pool_inv cr c" "map_of (ch_mempool (snd (AddTx cr t c))) = map_of (ch_mempool c)"
    using pool_index_unique(2) [OF assms _ that(2)] AddTx_inv [OF that(1)] by (simp add: pool_inv_def)
  show ?thesis
  proof (cases "rbf_slot cr c t")
    case None
    let ?v = "validateMempoolTxLocked cr t c"
    show ?thesis
      using err validateMempool_from [of cr t c] validateMempool_frame(1) [of cr t c]
      by (auto simp: AddTx_cases [OF assms] None update_conv' split: prod.split option.split)
  next
    case (Some m)
    note m = rbf_slot_Some [OF assms Some]
    let ?v = "validateMempoolTxLocked cr t (mpDel cr (ID cr m) c)"
    have look: "map_of (ch_mempool (snd ?v)) = (map_of (ch_mempool c))(ID cr m := None)"
      unfolding validateMempool_frame by (rule mpDel_lookup)
    have restore: "map_of (ch_mempool (mpAdd cr m (snd ?v))) = map_of (ch_mempool c)"
      using m(1) by (auto simp: look update_conv')
    have add: "map_of (ch_mempool (mpAdd cr t (snd ?v))) = (map_of (ch_mempool c))(ID cr m := None, ID cr t \<mapsto> t)"
      by (simp add: look update_conv')
    have fee: "rbf_min (tx_Fee m) \<le> tx_Fee t \<Longrightarrow>
        (tx_Fee m \<noteq> - 1 \<longrightarrow> tx_Fee m < tx_Fee t)
        \<and> (unat (tx_Fee m) + unat (tx_Fee m) div 10 < 2 ^ 64 \<longrightarrow>
            unat (tx_Fee m) + unat (tx_Fee m) div 10 \<le> unat (tx_Fee t))"
    proof (intro conjI impI)
      assume le: "rbf_min (tx_Fee m) \<le> tx_Fee t"
      show "tx_Fee m < tx_Fee t" if "tx_Fee m \<noteq> - 1"
        using rbf_min_ge [of "tx_Fee m"] that le by (blast intro: order_less_le_trans)
      show "unat (tx_Fee m) + unat (tx_Fee m) div 10 \<le> unat (tx_Fee t)"
        if "unat (tx_Fee m) + unat (tx_Fee m) div 10 < 2 ^ 64"
        using rbf_min_ge [of "tx_Fee m"] that le unfolding word_le_nat_alt by (blast intro: order_trans)
    qed
    have from_t: "fst ?v = None \<Longrightarrow> tx_from cr t \<noteq> None" by (rule validateMempool_from)
    have idx: "map_of (ch_bySender (mpAdd cr m (snd ?v))) = map_of (ch_bySender c)" if "pool_inv cr c"
    proof (rule pool_index_unique(2) [OF assms _ restore])
      have "pool_inv cr (mpAdd cr m (snd ?v))"
        by (rule pool_inv_swap [OF that m(1)]) (simp_all only: validateMempool_frame simp_thms)
      then show "pool_ok cr (mpAdd cr m (snd ?v))" by (simp add: pool_inv_def)
    qed
    show ?thesis
      using idx restore add fee from_t m(2,3)
      by (simp add: AddTx_cases [OF assms] Some case_prod_beta not_less split: option.splits del: mpAdd_fields)
  qed
qed

definition pay_chain :: chain where
  "pay_chain = (open_chain False)\<lparr>ch_blocks := [GenesisBlock demo_crypto], ch_state := pay_state\<rparr>"

lemma pay_chain_simps [simp]:
  "ch_blocks pay_chain = [GenesisBlock demo_crypto]" "ch_state pay_chain = pay_state"
  "ch_mempool pay_chain = []" "ch_bySender pay_chain = []" "pool_ok demo_crypto pay_chain"
  by (simp_all add: pay_chain_def open_chain_def pool_ok_def)

lemma pay_tx_at1: "CheckSigAt demo_crypto pay_tx 1 = None"
  unfolding pay_tx_def
  by (rule SignTxAt_checks [OF ed25519_ok_demo ValidAddr_demo, THEN conjunct1])
    (simp_all add: demo_tx_def word_le_nat_alt)

lemma pay_tx_admitted: "fst (validateMempoolTxLocked demo_crypto pay_tx pay_chain) = None"
  using pay_tx_at1
  by (simp add: validateMempoolTxLocked_def case_prod_beta Let_def queue_walk_def queue_verdict_def immatureCoinbase_def
      ledger_simps) (simp add: pay_state_def gm_get_def spendable_def)

lemma pay_tx_added: "fst (AddTx demo_crypto pay_tx pay_chain) = None"
  using pay_tx_admitted
  by (simp add: AddTx_cases rbf_slot_def split: prod.split option.split) (auto split: option.split)

theorem AddTx_outcome_witness:
  "map_of (ch_mempool (snd (AddTx demo_crypto pay_tx pay_chain))) (ID demo_crypto pay_tx) = Some pay_tx"
  using AddTx_outcome [of demo_crypto pay_chain pay_tx] pay_tx_added by (simp add: rbf_slot_def split: option.splits)

text \<open>Pruning removes exactly the transactions that can no longer be mined from the account's present
  state: those without a sender, with a spent nonce, or costing more than the whole balance (as the
  64-bit sum of amount and fee); all others stay, and no account changes.
\<close>

theorem prune_is_exact:
  assumes "gm_invar (ch_mempool c)"
  shows "map_of (ch_mempool (pruneMempoolLocked cr c)) i =
      (case map_of (ch_mempool c) i of None \<Rightarrow> None
       | Some t \<Rightarrow> if prunable cr (ch_state c) t then None else Some t)
    \<and> st_eq (ch_state (pruneMempoolLocked cr c)) (ch_state c)"
  using prune_lookup [OF assms] prune_state unfolding pruneMempoolLocked_def by blast

theorem prune_is_exact_witness:
  "map_of (ch_mempool (pruneMempoolLocked demo_crypto (pay_chain\<lparr>ch_mempool := [(''x'', demo_tx)]\<rparr>))) ''x'' = None"
  using prune_is_exact [of "pay_chain\<lparr>ch_mempool := [(''x'', demo_tx)]\<rparr>" demo_crypto "''x''"]
  by (simp add: gm_invar_def prunable_def tx_from_def FromAddr_def IsCoinbase_def demo_tx_def)

text \<open>A queue whose frontier is still the account's nonce has committed nothing.\<close>

lemma queue_walk_idle:
  assumes "queue_walk n lst = (n, spent, k)" and "length lst < 2 ^ 64"
  shows "spent = 0"
proof -
  have inv: "\<exists>j \<le> length lst. fst (foldl queue_step (n, 0, 0) lst) = n + of_nat j
      \<and> (j = 0 \<longrightarrow> fst (snd (foldl queue_step (n, 0, 0) lst)) = 0)" for lst
  proof (induction lst rule: rev_induct)
    case (snoc m lst)
    then obtain j where j: "j \<le> length lst" "fst (foldl queue_step (n, 0, 0) lst) = n + of_nat j"
        "j = 0 \<longrightarrow> fst (snd (foldl queue_step (n, 0, 0) lst)) = 0" by blast
    show ?case
    proof (cases "tx_Nonce m = fst (foldl queue_step (n, 0, 0) lst)")
      case True
      then show ?thesis using j by (intro exI [of _ "Suc j"]) (simp add: queue_step_sel)
    next
      case False
      then show ?thesis using j by (intro exI [of _ j]) (auto simp: queue_step_sel)
    qed
  qed simp
  obtain j where j: "j \<le> length lst" "n = n + of_nat j" "j = 0 \<longrightarrow> spent = 0"
    using inv [of lst] assms(1) by (auto simp: queue_walk_def)
  have "j = 0" using nonce_of_nat_neq [of j n] j(1,2) assms(2) by auto
  then show ?thesis using j(3) by simp
qed

text \<open>Admission agrees with block validation: a transaction admitted with the sender's next nonce, whose
  amount and fee do not overflow a word, validates as the sender's first transaction of the next
  block, with the same maturity rule, at the same height.
\<close>

theorem admitted_next_tx_is_minable:
  assumes "fst (validateMempoolTxLocked cr t c) = None" and "pool_inv cr c"
    and "tx_Nonce t = acc_Nonce (acct (ch_state c) (from_or_empty cr t))"
    and "tx_Amount t \<le> tx_Amount t + tx_Fee t"
  shows "fst (validateTxAgainstState cr memo (ch_state c) t
    (immatureCoinbase (ch_blocks c) (length (ch_blocks c))) (blen (ch_blocks c))) = None"
proof -
  let ?a = "from_or_empty cr t"
  let ?avail = "spendable (acc_Balance (acct (ch_state c) ?a))
    (gm_get 0 (immatureCoinbase (ch_blocks c) (length (ch_blocks c))) ?a)"
  note ok = validateMempool_ok [OF assms(1)]
  obtain nonce spent where w: "queue_walk (acc_Nonce (acct (ch_state c) ?a)) (gm_get [] (ch_bySender c) ?a)
        = (nonce, spent, length (gm_get [] (ch_bySender c) ?a))"
      "queue_verdict t (acct (ch_state c) ?a) nonce spent (length (gm_get [] (ch_bySender c) ?a)) ?avail = None"
    using ok(2) by blast
  have "length (gm_get [] (ch_bySender c) ?a) \<le> MaxMempoolTxnsPerSender"
    using assms(2) unfolding pool_inv_def by blast
  then have len: "length (gm_get [] (ch_bySender c) ?a) < 2 ^ 64" by simp
  have "\<not> ?avail < tx_Amount t + tx_Fee t"
  proof (cases "tx_Nonce t = nonce")
    case True
    then have "spent = 0" using queue_walk_idle w(1) assms(3) len by metis
    then show ?thesis using w(2) True by (auto simp: queue_verdict_def split: if_splits)
  next
    case False
    then show ?thesis using w(2) by (auto simp: queue_verdict_def split: if_splits)
  qed
  then show ?thesis
    using ok(1) assms(3,4) by (simp add: validateTxAgainstState_def case_prod_beta Let_def ledger_simps not_less)
qed

theorem admitted_next_tx_is_minable_witness:
  "fst (validateTxAgainstState demo_crypto [] pay_state pay_tx (immatureCoinbase [GenesisBlock demo_crypto] 1) 1) = None"
proof -
  have i: "pool_inv demo_crypto pay_chain" by (simp add: pool_inv_def)
  have n: "tx_Nonce pay_tx = acc_Nonce (acct (ch_state pay_chain) (from_or_empty demo_crypto pay_tx))"
    by simp (simp add: pay_state_def gm_get_def)
  have f: "tx_Amount pay_tx \<le> tx_Amount pay_tx + tx_Fee pay_tx" by simp
  show ?thesis using admitted_next_tx_is_minable [OF pay_tx_admitted i n f, of "[]"] by simp
qed

text \<open>
  The overflow condition is needed: admission adds amount and fee without the overflow check of
  \<open>validateTxAgainstState\<close>. A transaction whose cost wraps to 1 enters the pool, survives pruning, and
  can never be mined.
\<close>

definition wrap_tx :: tx where
  "wrap_tx = SignTxAt demo_crypto (demo_tx\<lparr>tx_Amount := - 1, tx_Fee := 2\<rparr>) [1, 2, 3] 1"

lemma wrap_tx_simps:
  "CheckSigAt demo_crypto wrap_tx 1 = None" "tx_Amount wrap_tx = - 1" "tx_Fee wrap_tx = 2" "tx_Nonce wrap_tx = 0"
  "tx_from demo_crypto wrap_tx = Some (AddrFromPub demo_crypto (ed_public demo_crypto [1, 2, 3]))"
  "\<not> IsCoinbase wrap_tx"
proof -
  have s: "CheckSigAt demo_crypto wrap_tx 1 = None"
      "FromAddr demo_crypto wrap_tx = Inr (AddrFromPub demo_crypto (ed_public demo_crypto [1, 2, 3]))"
    unfolding wrap_tx_def
    using SignTxAt_checks [OF ed25519_ok_demo, of "demo_tx\<lparr>tx_Amount := - 1, tx_Fee := 2\<rparr>" 1 1 "[1, 2, 3]"] ValidAddr_demo
    by simp_all
  then show "CheckSigAt demo_crypto wrap_tx 1 = None" "\<not> IsCoinbase wrap_tx"
    "tx_from demo_crypto wrap_tx = Some (AddrFromPub demo_crypto (ed_public demo_crypto [1, 2, 3]))"
    by (auto simp: tx_from_def FromAddr_def)
qed (simp_all add: wrap_tx_def, simp_all add: demo_tx_def)

lemma wrapping_tx_admitted:
  "fst (validateMempoolTxLocked demo_crypto wrap_tx pay_chain) = None
   \<and> \<not> prunable demo_crypto pay_state wrap_tx
   \<and> fst (validateTxAgainstState demo_crypto [] pay_state wrap_tx [] 1) = Some AmountOverflow"
proof -
  have acc: "acct pay_state (AddrFromPub demo_crypto (ed_public demo_crypto [1, 2, 3]))
      = \<lparr>acc_Balance = 5000, acc_Nonce = 0\<rparr>"
    by (simp add: pay_state_def gm_get_def)
  have sum: "tx_Amount wrap_tx + tx_Fee wrap_tx = 1" by (simp add: wrap_tx_simps)
  have a: "from_or_empty demo_crypto wrap_tx = AddrFromPub demo_crypto (ed_public demo_crypto [1, 2, 3])"
    by (rule tx_from_empty) (rule wrap_tx_simps)
  have 1: "fst (validateMempoolTxLocked demo_crypto wrap_tx pay_chain) = None"
    by (simp add: validateMempoolTxLocked_def case_prod_beta Let_def queue_walk_def queue_verdict_def
        immatureCoinbase_def ledger_simps wrap_tx_simps a acc spendable_def)
  have 2: "\<not> prunable demo_crypto pay_state wrap_tx"
    by (simp add: prunable_def wrap_tx_simps acc)
  have 3: "fst (validateTxAgainstState demo_crypto [] pay_state wrap_tx [] 1) = Some AmountOverflow"
    by (simp add: validateTxAgainstState_def case_prod_beta Let_def ledger_simps wrap_tx_simps a acc word_less_nat_alt
        unat_minus_one_u64)
  show ?thesis using 1 2 3 by blast
qed

end
