(* ===== verification/Core_Chain.thy ===== *)
theory Core_Chain
  imports Core_Mempool
begin

text \<open>
  The chain engine's operations, after \<^verbatim>\<open>src/core/chain.go\<close>: loading and rebuilding derived
  data, extending the tip (\<open>AddBlock\<close>), adopting a candidate branch (\<open>TryAdoptChain\<close>) with its guards
  and fork choice, checkpoints and the authority anchor. An operation returns its error and the new
  record; the disk write that follows it outside the lock is returned as a \<open>commit\<close> instruction.
\<close>

section \<open>Derived data\<close>

definition hist_add :: "string \<Rightarrow> hist_ref \<Rightarrow> (string, hist_ref list) gomap \<Rightarrow> (string, hist_ref list) gomap" where
  "hist_add a r m = AList.update a (gm_get [] m a @ [r]) m"

definition index_tx ::
  "crypto \<Rightarrow> int \<Rightarrow> (string, hist_ref list) gomap \<Rightarrow> nat \<times> tx \<Rightarrow> (string, hist_ref list) gomap" where
  "index_tx cr bi m p =
     (case p of (ti, t) \<Rightarrow>
        let ref = (bi, int ti) in
        if IsCoinbase t then hist_add (tx_To t) ref m
        else case FromAddr cr t of
          Inl _ \<Rightarrow> m
        | Inr a \<Rightarrow>
            let m1 = hist_add a ref m
            in if tx_To t \<noteq> a then hist_add (tx_To t) ref m1 else m1)"

definition indexBlockLocked ::
  "crypto \<Rightarrow> (string, hist_ref list) gomap \<Rightarrow> block \<Rightarrow> (string, hist_ref list) gomap" where
  "indexBlockLocked cr m b = foldl (index_tx cr (sint (blk_Height b))) m (enumerate 0 (blk_Txs b))"

definition reindexAddrTxLocked :: "crypto \<Rightarrow> block list \<Rightarrow> (string, hist_ref list) gomap" where
  "reindexAddrTxLocked cr blocks = foldl (indexBlockLocked cr) [] blocks"

definition recomputeSupplyLocked :: "chain \<Rightarrow> chain" where
  "recomputeSupplyLocked c = c\<lparr>ch_supply := supply_of (ch_state c)\<rparr>"

text \<open>\<open>None\<close>: a stored block whose target does not decode makes \<open>WorkOf(nil)\<close> panic.\<close>

definition work_of_blocks :: "block list \<Rightarrow> int option" where
  "work_of_blocks bs = map_option (\<lambda>ts. sum_list (map WorkOf ts)) (those (map target_opt bs))"

definition rebuildDerived :: "crypto \<Rightarrow> chain \<Rightarrow> chain option" where
  "rebuildDerived cr c =
     (case work_of_blocks (ch_blocks c) of
        None \<Rightarrow> None
      | Some work \<Rightarrow>
          let c1 = recomputeSupplyLocked
                (c\<lparr>ch_state := replay cr (ch_blocks c), ch_totals := replay_totals cr (ch_blocks c),
                   ch_cumWork := work\<rparr>);
              c2 = snd (lwmaActivationC c1 (ch_blocks c1));
              c3 = snd (feeMarketActivationC c2 (ch_blocks c2))
          in Some (if ch_store c3 then c3
                   else c3\<lparr>ch_addrTx := reindexAddrTxLocked cr (ch_blocks c3)\<rparr>))"

section \<open>Loading\<close>

text \<open>The stored blocks up to the first one whose height or link does not fit.\<close>

definition truncate_at_break :: "crypto \<Rightarrow> block list \<Rightarrow> block list" where
  "truncate_at_break cr blocks =
     (case find (\<lambda>i. blk_Height (blocks ! i) \<noteq> word_of_nat i
                   \<or> blk_PrevHash (blocks ! i) \<noteq> Hash cr (blocks ! (i - 1))) [1..<length blocks] of
        None \<Rightarrow> blocks
      | Some i \<Rightarrow> take i blocks)"

definition load_blocks :: "crypto \<Rightarrow> block list \<Rightarrow> chain \<Rightarrow> err + chain" where
  "load_blocks cr stored c =
     (let c1 = foldl (\<lambda>c b. markPowVerified (Hash cr b) c) c stored;
          (blocks, c2) = (if stored = [] then ([GenesisBlock cr], markPowVerified (Hash cr (GenesisBlock cr)) c1)
                          else (stored, c1))
      in if Hash cr (hd blocks) \<noteq> Hash cr (GenesisBlock cr) then Inl WrongGenesis
         else case rebuildDerived cr (c2\<lparr>ch_blocks := truncate_at_break cr blocks\<rparr>) of
           None \<Rightarrow> Inl Panic
         | Some c3 \<Rightarrow> Inr c3)"

text \<open>
  \<open>load\<close> on the jsonl file: \<open>None\<close> when the file is missing; a line that does not decode is \<open>None\<close>.
  The second component says whether the whole file is written afterwards (\<open>saveAll\<close>).
\<close>

definition load_jsonl :: "crypto \<Rightarrow> block option list option \<Rightarrow> chain \<Rightarrow> (err + chain) \<times> bool" where
  "load_jsonl cr lines c =
     (case lines of
        None \<Rightarrow> (load_blocks cr [] c, True)
      | Some ls \<Rightarrow>
          (case those ls of
             None \<Rightarrow> (Inl CorruptStore, False)
           | Some bs \<Rightarrow> (load_blocks cr bs c, False)))"

text \<open>
  \<open>loadBolt\<close>: \<open>None\<close> when the database cannot be opened or read; the engine then runs on the jsonl
  file. The database is rewritten when it was empty or had to be truncated.
\<close>

definition load_bolt ::
  "crypto \<Rightarrow> block list option \<Rightarrow> block option list option \<Rightarrow> chain \<Rightarrow> (err + chain) \<times> bool" where
  "load_bolt cr db lines c =
     (case db of
        None \<Rightarrow> load_jsonl cr lines (c\<lparr>ch_store := False, ch_blocks := []\<rparr>)
      | Some bs \<Rightarrow> (load_blocks cr bs c, bs = [] \<or> truncate_at_break cr bs \<noteq> bs))"

section \<open>Extending the tip\<close>

datatype commit = CommitExtend "block list" int | CommitReorg nat "block list" int

definition mpDel_block :: "crypto \<Rightarrow> chain \<Rightarrow> block \<Rightarrow> chain" where
  "mpDel_block cr c b = foldl (\<lambda>c t. mpDel cr (ID cr t) c) c (blk_Txs b)"

definition work_or_0 :: "block \<Rightarrow> int" where
  "work_or_0 b = (case target_opt b of None \<Rightarrow> 0 | Some t \<Rightarrow> WorkOf t)"

text \<open>
  \<open>AddBlock\<close> up to the release of the lock. After validation the target decodes, so the panic of
  \<open>WorkOf(nil)\<close> cannot happen.
\<close>

definition AddBlock ::
  "crypto \<Rightarrow> pow_fun \<Rightarrow> u64 \<Rightarrow> block \<Rightarrow> chain \<Rightarrow> err option \<times> chain \<times> commit option" where
  "AddBlock cr pow now b c =
     (if ch_blocks c = [] then (Some Panic, c, None)
      else if blk_PrevHash b \<noteq> Hash cr (last (ch_blocks c)) then (Some NotExtendingTip, c, None)
      else case validateBlock cr pow now c (ch_blocks c) (ch_state c) b of
        (Some e, c1) \<Rightarrow> (Some e, c1, None)
      | (None, c1) \<Rightarrow>
          let c2 = c1\<lparr>ch_blocks := ch_blocks c1 @ [b]\<rparr>;
              c3 = (if ch_store c2 then c2 else c2\<lparr>ch_addrTx := indexBlockLocked cr (ch_addrTx c2) b\<rparr>);
              c4 = recomputeSupplyLocked
                     (c3\<lparr>ch_state := applyBlockToState cr (ch_state c3) b,
                         ch_totals := applyBlockToTotals cr (ch_totals c3) b\<rparr>);
              c5 = c4\<lparr>ch_cumWork := ch_cumWork c4 + work_or_0 b\<rparr>;
              c6 = pruneMempoolLocked cr (mpDel_block cr c5 b)
          in (None, c6, Some (CommitExtend [b] (ch_cumWork c6))))"

section \<open>Adopting a candidate branch\<close>

text \<open>The work of the blocks that would be disconnected and of the candidate; targets must decode.\<close>

fun sub_work :: "nat \<Rightarrow> block list \<Rightarrow> int \<Rightarrow> err + int" where
  "sub_work i [] w = Inr w"
| "sub_work i (b # bs) w =
     (case target_opt b of None \<Rightarrow> Inl (StoredBadTarget i) | Some t \<Rightarrow> sub_work (i + 1) bs (w - WorkOf t))"

fun add_work :: "block list \<Rightarrow> int \<Rightarrow> err + int" where
  "add_work [] w = Inr w"
| "add_work (b # bs) w =
     (case target_opt b of None \<Rightarrow> Inl (CandidateBadTarget (blk_Height b)) | Some t \<Rightarrow> add_work bs (w + WorkOf t))"

definition cand_work :: "chain \<Rightarrow> nat \<Rightarrow> block list \<Rightarrow> err + int" where
  "cand_work c start newBlocks =
     (case sub_work start (drop start (ch_blocks c)) (ch_cumWork c) of
        Inl e \<Rightarrow> Inl e
      | Inr w \<Rightarrow> add_work newBlocks w)"

text \<open>The work a candidate must exceed: \<open>int64(depth*permille)\<close> keeps its wrap-around.\<close>

definition work_threshold :: "chain \<Rightarrow> nat \<Rightarrow> int" where
  "work_threshold c depth =
     (if ch_ReorgPenaltyPermille c > 0 \<and> depth > 1
      then ch_cumWork c + ch_cumWork c * sint (word_of_nat depth * ch_ReorgPenaltyPermille c) div 1000
      else ch_cumWork c)"

definition tie_break_win :: "crypto \<Rightarrow> chain \<Rightarrow> nat \<Rightarrow> int \<Rightarrow> block list \<Rightarrow> bool" where
  "tie_break_win cr c depth candWork newBlocks \<longleftrightarrow>
     depth = 1 \<and> candWork = ch_cumWork c
     \<and> blk_Height (last newBlocks) = blk_Height (last (ch_blocks c))
     \<and> Hash cr (last newBlocks) < Hash cr (last (ch_blocks c))"

text \<open>A checkpointed block we hold that the candidate would drop without reaching its height.\<close>

definition checkpoint_drop :: "chain \<Rightarrow> u64 \<Rightarrow> block list \<Rightarrow> u64 option" where
  "checkpoint_drop c start newBlocks =
     (if ch_Checkpoints c = [] then None
      else let ourTipH = blen (ch_blocks c) - 1; newTipH = start + blen newBlocks - 1
           in map_option fst (find (\<lambda>(h, _). h \<ge> start \<and> h \<le> ourTipH \<and> h > newTipH) (ch_Checkpoints c)))"

text \<open>Checkpoints and work: an admitted candidate yields its work.\<close>

definition fork_choice :: "crypto \<Rightarrow> u64 \<Rightarrow> block list \<Rightarrow> chain \<Rightarrow> err + int" where
  "fork_choice cr start newBlocks c =
     (let depth = length (ch_blocks c) - unat start in
      case checkpoint_drop c start newBlocks of
        Some h \<Rightarrow> Inl (CheckpointReorg (unat h))
      | None \<Rightarrow>
          (case cand_work c (unat start) newBlocks of
             Inl e \<Rightarrow> Inl e
           | Inr candWork \<Rightarrow>
               if candWork \<le> work_threshold c depth \<and> \<not> tie_break_win cr c depth candWork newBlocks
               then Inl LacksWork else Inr candWork))"

text \<open>The guards of \<open>TryAdoptChain\<close> before any block is validated.\<close>

definition adopt_guards :: "crypto \<Rightarrow> u64 \<Rightarrow> block list \<Rightarrow> chain \<Rightarrow> (err + int) \<times> chain" where
  "adopt_guards cr start newBlocks c =
     (if newBlocks = [] then (Inl EmptyCandidate, c)
      else if start = 0 \<or> start > blen (ch_blocks c) then (Inl BadForkPoint, c)
      else
        let depth = length (ch_blocks c) - unat start in
        if ch_MaxReorgDepth c > 0 \<and> depth > ch_MaxReorgDepth c
        then (let (active, c1) = deepRecoveryActiveC c
              in if \<not> active \<or> \<not> candidateMeetsAnchor cr (ch_authAnchor c1) start newBlocks
                 then (Inl (ReorgTooDeep depth (ch_MaxReorgDepth c)), c1)
                 else (fork_choice cr start newBlocks c1, c1))
        else (fork_choice cr start newBlocks c, c))"

text \<open>
  The validation loop over the candidate: each block is validated against the prefix built so far
  and applied. The record is threaded for its caches only.
\<close>

fun adopt_loop ::
  "crypto \<Rightarrow> pow_fun \<Rightarrow> u64 \<Rightarrow> chain \<Rightarrow> block list \<Rightarrow> state \<Rightarrow> totals \<Rightarrow> block list
    \<Rightarrow> (err + block list \<times> state \<times> totals) \<times> chain" where
  "adopt_loop cr pow now c candidate st tot [] = (Inr (candidate, st, tot), c)"
| "adopt_loop cr pow now c candidate st tot (b # bs) =
     (case validateBlock cr pow now c candidate st b of
        (Some e, c1) \<Rightarrow> (Inl (CandidateBlock (blk_Height b) e), c1)
      | (None, c1) \<Rightarrow>
          adopt_loop cr pow now c1 (candidate @ [b]) (applyBlockToState cr st b)
            (applyBlockToTotals cr tot b) bs)"

definition TryAdoptChain ::
  "crypto \<Rightarrow> pow_fun \<Rightarrow> u64 \<Rightarrow> u64 \<Rightarrow> block list \<Rightarrow> chain \<Rightarrow> err option \<times> chain \<times> commit option" where
  "TryAdoptChain cr pow now start newBlocks c =
     (case adopt_guards cr start newBlocks c of
        (Inl e, c1) \<Rightarrow> (Some e, c1, None)
      | (Inr candWork, c1) \<Rightarrow>
          let n = unat start; depth = length (ch_blocks c1) - n in
          if depth = 0 then
            (case adopt_loop cr pow now c1 (ch_blocks c1) (ch_state c1) (ch_totals c1) newBlocks of
               (Inl e, c2) \<Rightarrow> (Some e, c2, None)
             | (Inr (candidate, st, tot), c2) \<Rightarrow>
                 let c3 = c2\<lparr>ch_blocks := candidate\<rparr>;
                     c4 = (if ch_store c3 then c3
                           else c3\<lparr>ch_addrTx := foldl (indexBlockLocked cr) (ch_addrTx c3) newBlocks\<rparr>);
                     c5 = recomputeSupplyLocked
                            (c4\<lparr>ch_state := st, ch_totals := tot, ch_cumWork := candWork\<rparr>);
                     c6 = pruneMempoolLocked cr (foldl (mpDel_block cr) c5 newBlocks)
                 in (None, c6, Some (CommitExtend newBlocks candWork)))
          else
            (let prefix = take n (ch_blocks c1) in
             case adopt_loop cr pow now c1 prefix (replay cr prefix) (replay_totals cr prefix) newBlocks of
               (Inl e, c2) \<Rightarrow> (Some e, c2, None)
             | (Inr (candidate, st, tot), c2) \<Rightarrow>
                 let c3 = c2\<lparr>ch_blocks := candidate\<rparr>;
                     c4 = (if ch_store c3 then c3
                           else c3\<lparr>ch_addrTx := reindexAddrTxLocked cr (ch_blocks c3)\<rparr>);
                     c5 = recomputeSupplyLocked
                            (c4\<lparr>ch_state := st, ch_totals := tot, ch_cumWork := candWork\<rparr>);
                     c6 = pruneMempoolLocked cr c5
                 in (None, c6, Some (CommitReorg n (drop n (ch_blocks c6)) (ch_cumWork c6)))))"

section \<open>Checkpoints and the authority anchor\<close>

definition ApplyCheckpoint :: "crypto \<Rightarrow> checkpoint \<Rightarrow> chain \<Rightarrow> bool \<times> chain" where
  "ApplyCheckpoint cr cp c =
     (if cp_Height cp = 0 \<or> cp_Height cp \<ge> blen (ch_blocks c) then (False, c)
      else if Hash cr (ch_blocks c ! unat (cp_Height cp)) \<noteq> cp_Hash cp then (False, c)
      else if gm_get [] (ch_Checkpoints c) (cp_Height cp) = cp_Hash cp then (True, c)
      else (True, c\<lparr>ch_Checkpoints := AList.update (cp_Height cp) (cp_Hash cp) (ch_Checkpoints c)\<rparr>))"

definition SetAuthorityAnchor :: "checkpoint \<Rightarrow> chain \<Rightarrow> chain" where
  "SetAuthorityAnchor cp c =
     (if cp_Height cp > cp_Height (ch_authAnchor c) then c\<lparr>ch_authAnchor := cp\<rparr> else c)"

text \<open>\<open>loadAuthAnchor\<close>: the persisted anchor is used only when its signature verifies again.\<close>

definition loadAuthAnchor :: "crypto \<Rightarrow> checkpoint option \<Rightarrow> chain \<Rightarrow> chain" where
  "loadAuthAnchor cr raw c =
     (case raw of None \<Rightarrow> c | Some cp \<Rightarrow> if Verify cr cp then c\<lparr>ch_authAnchor := cp\<rparr> else c)"

definition loadCheckpoints :: "(u64, string) gomap option \<Rightarrow> chain \<Rightarrow> chain" where
  "loadCheckpoints raw c = (case raw of None \<Rightarrow> c | Some m \<Rightarrow> c\<lparr>ch_Checkpoints := m\<rparr>)"

definition HighestCheckpointHeight :: "chain \<Rightarrow> u64" where
  "HighestCheckpointHeight c = foldl (\<lambda>mx (h, _). if h > mx then h else mx) 0 (ch_Checkpoints c)"

definition ConsensusStatus :: "chain \<Rightarrow> nat \<times> nat \<times> int \<times> u64" where
  "ConsensusStatus c =
     (signalCountWin (ch_blocks c) (length (ch_blocks c)) DeepRecoveryVersion DeepRecoveryWindow,
      deepRecoveryRequired, DeepRecoveryWindow, cp_Height (ch_authAnchor c))"

text \<open>\<open>OpenChain\<close>: load, then checkpoints, anchor and mempool.\<close>

definition OpenChain ::
  "crypto \<Rightarrow> block list option option \<Rightarrow> block option list option \<Rightarrow> (u64, string) gomap option
    \<Rightarrow> checkpoint option \<Rightarrow> tx list option \<Rightarrow> err + chain" where
  "OpenChain cr bolt lines cps anchor pool =
     (case (case bolt of
              None \<Rightarrow> load_jsonl cr lines (open_chain False)
            | Some db \<Rightarrow> load_bolt cr db lines (open_chain True)) of
        (Inl e, _) \<Rightarrow> Inl e
      | (Inr c, _) \<Rightarrow> Inr (snd (LoadMempool cr pool (loadAuthAnchor cr anchor (loadCheckpoints cps c)))))"

end
