(* ===== verification/Core_Invariant.thy ===== *)
theory Core_Invariant
  imports Core_Chain
begin

text \<open>
  What holds of every chain the engine builds: the stored blocks form a valid chain, and the state,
  totals, work, supply and indexes are what a replay of the blocks yields. The lemmas show that
  every operation of \<open>Core_Chain\<close> and \<open>Core_Mempool\<close> keeps this invariant, and the properties draw
  the consequences: no inflation, no replay, exact fork choice, atomic failure.
\<close>

section \<open>Validation up to equivalence of states\<close>

lemma validateTx_st_eq:
  assumes "st_eq s u"
  shows "fst (validateTxAgainstState cr memo s t imm h) = fst (validateTxAgainstState cr memo u t imm h)
    \<and> st_eq (snd (validateTxAgainstState cr memo s t imm h)) (snd (validateTxAgainstState cr memo u t imm h))"
proof -
  have a: "acct s x = acct u x" for x using assms by (simp add: st_eq_def)
  have g: "st_eq (snd (st_get s x)) (snd (st_get u x))" for x
    using assms by (simp add: st_eq_def ledger_simps)
  show ?thesis
    using assms by (simp add: validateTxAgainstState_def case_prod_beta Let_def ledger_simps a g split: option.split)
qed

lemma validateBody_st_eq:
  assumes "st_eq s u"
  shows "fst (validateBody cr memo minfee imm h seen s ts) = fst (validateBody cr memo minfee imm h seen u ts)"
  using assms
proof (induction ts arbitrary: seen s u)
  case (Cons t ts)
  have v: "fst (validateTxAgainstState cr memo s t imm h) = fst (validateTxAgainstState cr memo u t imm h)"
      "st_eq (snd (validateTxAgainstState cr memo s t imm h)) (snd (validateTxAgainstState cr memo u t imm h))"
    using validateTx_st_eq [OF Cons.prems, of cr memo t imm h] by blast+
  show ?case
  proof (cases "fst (validateTxAgainstState cr memo u t imm h)")
    case None
    then show ?thesis
      using v Cons.IH [OF st_eq_credit [OF st_eq_debit [OF v(2)]]]
      by (simp add: case_prod_beta prod_eq_iff split: prod.split)
  next
    case (Some e)
    then have "fst (validateTxAgainstState cr memo s t imm h) = Some e" using v(1) by simp
    with Some show ?thesis by (simp add: case_prod_beta)
  qed
qed simp

section \<open>Valid chains\<close>

text \<open>
  What every accepted block satisfies, independently of caches, clock and checkpoints. The fee
  floor and the maturity map that its body was checked against are left open.
\<close>

definition block_sound :: "crypto \<Rightarrow> block list \<Rightarrow> block \<Rightarrow> bool" where
  "block_sound cr prefix b \<longleftrightarrow>
     blk_Version b = 1 \<and> blk_Height b = blen prefix \<and> blk_PrevHash b = Hash cr (last prefix)
     \<and> header_fields_ok b \<and> target_opt b \<noteq> None \<and> medianTime prefix < blk_Time b
     \<and> length (blk_Txs b) \<le> MaxBlockTxs \<and> blk_TxRoot b = ComputeTxRoot cr (blk_Txs b) \<and> coinbase_ok b
     \<and> tx_Nonce (hd (blk_Txs b)) = blk_Height b \<and> ValidAddr (tx_To (hd (blk_Txs b)))
     \<and> (\<exists>memo minfee imm. fst (validateBody cr memo minfee imm (blk_Height b) [] (replay cr prefix)
            (tl (blk_Txs b))) = None)"

lemma validateBody_not_coinbase:
  "fst (validateBody cr memo minfee imm h seen w ts) = None \<Longrightarrow> \<forall>t \<in> set ts. \<not> IsCoinbase t"
  by (induction ts arbitrary: seen w) (auto split: if_splits prod.splits option.splits)

lemma checkBody_sound:
  assumes "fst (checkBody cr c prefix st b) = None" and "st_eq st (replay cr prefix)"
  shows "length (blk_Txs b) \<le> MaxBlockTxs \<and> blk_TxRoot b = ComputeTxRoot cr (blk_Txs b) \<and> coinbase_ok b
     \<and> tx_Nonce (hd (blk_Txs b)) = blk_Height b \<and> ValidAddr (tx_To (hd (blk_Txs b)))
     \<and> (\<exists>memo minfee imm. fst (validateBody cr memo minfee imm (blk_Height b) [] (replay cr prefix)
            (tl (blk_Txs b))) = None)"
proof (cases "blk_Txs b")
  case (Cons cb body)
  define m where "m = (if unat (blk_Height b) \<ge> MinFeeHeight then minFeeForC c prefix else (0, c))"
  have s: "length (blk_Txs b) \<le> MaxBlockTxs" "IsCoinbase cb" "blk_TxRoot b = ComputeTxRoot cr (blk_Txs b)"
      "tx_Nonce cb = blk_Height b" "ValidAddr (tx_To cb)"
      "tx_Amount cb = BlockSubsidy (blk_Height b) + TotalFees b"
      and v: "fst (validateBody cr (ch_sigOK (snd m)) (fst m)
        (immatureCoinbase prefix (unat (blk_Height b))) (blk_Height b) [] st body) = None"
    using assms(1) Cons unfolding checkBody_def m_def [symmetric] Let_def
    by (simp_all add: case_prod_beta not_less split: if_split_asm)
  have "\<forall>t \<in> set body. \<not> IsCoinbase t" using v by (rule validateBody_not_coinbase)
  moreover note v [unfolded validateBody_st_eq [OF assms(2)]]
  ultimately show ?thesis using s Cons by (auto simp: coinbase_ok_def)
qed (use assms in \<open>simp add: checkBody_def\<close>)

lemma validateBlock_sound:
  assumes "fst (validateBlock cr pow now c prefix st b) = None" and "st_eq st (replay cr prefix)"
  shows "block_sound cr prefix b"
proof -
  let ?c1 = "snd (expectedTargetC c prefix)"
  have h: "blk_Version b = 1 \<and> blk_Height b = blen prefix \<and> blk_PrevHash b = Hash cr (last prefix)
      \<and> header_fields_ok b \<and> medianTime prefix < blk_Time b"
    using assms(1) by (auto simp: validateBlock_def header_fields_ok_def not_le split: if_splits)
  obtain got where got: "TargetInt b = Inr got"
    using assms(1) by (auto simp: validateBlock_def case_prod_beta Let_def split: if_splits option.splits sum.splits)
  have "fst (checkBody cr (snd (checkPow cr pow ?c1 prefix b got)) prefix st b) = None"
    using assms(1) got
    by (simp add: validateBlock_def case_prod_beta Let_def split: if_split_asm option.split_asm)
  from checkBody_sound [OF this assms(2)] h got show ?thesis
    unfolding block_sound_def by (simp add: target_opt_def)
qed

inductive valid_chain :: "crypto \<Rightarrow> block list \<Rightarrow> bool" for cr where
  genesis: "valid_chain cr [GenesisBlock cr]"
| extend: "valid_chain cr bs \<Longrightarrow> block_sound cr bs b \<Longrightarrow> valid_chain cr (bs @ [b])"

inductive_cases valid_chain_snocE: "valid_chain cr (bs @ [b])"

lemma valid_chain_nonempty: "valid_chain cr bs \<Longrightarrow> bs \<noteq> []"
  by (induction rule: valid_chain.induct) auto

lemma valid_chain_take: "valid_chain cr bs \<Longrightarrow> 0 < n \<Longrightarrow> valid_chain cr (take n bs)"
proof (induction rule: valid_chain.induct)
  case genesis
  then show ?case by (cases n) (auto intro: valid_chain.genesis)
next
  case (extend bs b)
  show ?case
  proof (cases "n \<le> length bs")
    case True
    then show ?thesis using extend by simp
  next
    case False
    then show ?thesis using extend valid_chain.extend by simp
  qed
qed

lemma valid_chain_hd: "valid_chain cr bs \<Longrightarrow> hd bs = GenesisBlock cr"
  by (induction rule: valid_chain.induct) (auto simp: valid_chain_nonempty)

lemma valid_chain_nth: "valid_chain cr bs \<Longrightarrow> 0 < i \<Longrightarrow> i < length bs \<Longrightarrow> block_sound cr (take i bs) (bs ! i)"
proof (induction rule: valid_chain.induct)
  case (extend bs b)
  then show ?case by (cases "i < length bs") (simp_all add: nth_append not_less le_less_Suc_eq)
qed simp

lemma genesis_target_opt: "target_opt (GenesisBlock cr) \<noteq> None"
  using genesis_target(2) [of "GenesisBlock cr"] by (simp add: GenesisBlock_def target_opt_def)

lemma valid_chain_targets: "valid_chain cr bs \<Longrightarrow> b \<in> set bs \<Longrightarrow> target_opt b \<noteq> None"
  by (induction rule: valid_chain.induct) (auto simp: block_sound_def genesis_target_opt simp del: not_None_eq)

definition total_work :: "block list \<Rightarrow> int" where
  "total_work bs = sum_list (map work_or_0 bs)"

lemma total_work_simps [simp]:
  "total_work [] = 0" "total_work (b # bs) = work_or_0 b + total_work bs"
  "total_work (xs @ ys) = total_work xs + total_work ys"
  by (simp_all add: total_work_def)

lemma work_or_0_pos: "target_opt b \<noteq> None \<Longrightarrow> 1 \<le> work_or_0 b"
  using target_opt_range [of b] by (auto simp: work_or_0_def WorkOf_pos)

lemma sub_work_eq: "\<forall>b \<in> set bs. target_opt b \<noteq> None \<Longrightarrow> sub_work i bs w = Inr (w - total_work bs)"
  by (induction bs arbitrary: i w) (auto simp: work_or_0_def)

lemma add_work_eq: "add_work bs w = Inr w' \<Longrightarrow> w' = w + total_work bs \<and> (\<forall>b \<in> set bs. target_opt b \<noteq> None)"
proof (induction bs arbitrary: w)
  case (Cons b bs)
  then obtain t where "target_opt b = Some t" "add_work bs (w + WorkOf t) = Inr w'"
    by (auto split: option.splits)
  then show ?case using Cons.IH [of "w + WorkOf t"] by (simp add: work_or_0_def)
qed simp

lemma work_of_blocks_eq: "\<forall>b \<in> set bs. target_opt b \<noteq> None \<Longrightarrow> work_of_blocks bs = Some (total_work bs)"
proof -
  assume a: "\<forall>b \<in> set bs. target_opt b \<noteq> None"
  have "those (map target_opt bs) = Some (map (\<lambda>b. the (target_opt b)) bs)"
    using a by (intro those_map_eq) auto
  moreover have "sum_list (map (\<lambda>b. WorkOf (the (target_opt b))) bs) = total_work bs"
    using a by (induction bs) (auto simp: work_or_0_def)
  ultimately show ?thesis by (simp add: work_of_blocks_def comp_def)
qed

section \<open>The invariant\<close>

definition chain_inv :: "crypto \<Rightarrow> chain \<Rightarrow> bool" where
  "chain_inv cr c \<longleftrightarrow>
     valid_chain cr (ch_blocks c) \<and> gm_invar (ch_state c) \<and> st_eq (ch_state c) (replay cr (ch_blocks c))
     \<and> ch_totals c = replay_totals cr (ch_blocks c) \<and> ch_cumWork c = total_work (ch_blocks c)
     \<and> ch_supply c = supply_of (ch_state c)
     \<and> (\<not> ch_store c \<longrightarrow> ch_addrTx c = reindexAddrTxLocked cr (ch_blocks c)) \<and> pool_inv cr c"

lemma chain_inv_core: "core_of d = core_of c \<Longrightarrow> chain_inv cr d = chain_inv cr c"
  using core_of_fields [of d c] by (simp add: chain_inv_def pool_inv_def pool_ok_def)

text \<open>The mempool is irrelevant to the rest, and the rest to the mempool.\<close>

definition ledger_part :: "chain \<Rightarrow> chain" where
  "ledger_part c = c\<lparr>ch_mempool := [], ch_bySender := [], ch_state := [], ch_feeAct := 0\<rparr>"

lemma ledger_part_fields:
  assumes "ledger_part d = ledger_part c"
  shows "ch_blocks d = ch_blocks c" "ch_cumWork d = ch_cumWork c" "ch_supply d = ch_supply c"
    "ch_totals d = ch_totals c" "ch_addrTx d = ch_addrTx c" "ch_store d = ch_store c"
    "ch_authAnchor d = ch_authAnchor c" "ch_Checkpoints d = ch_Checkpoints c" "ch_MaxReorgDepth d = ch_MaxReorgDepth c"
proof -
  have s: "ch_blocks (ledger_part x) = ch_blocks x" "ch_cumWork (ledger_part x) = ch_cumWork x"
    "ch_supply (ledger_part x) = ch_supply x" "ch_totals (ledger_part x) = ch_totals x"
    "ch_addrTx (ledger_part x) = ch_addrTx x" "ch_store (ledger_part x) = ch_store x"
    "ch_authAnchor (ledger_part x) = ch_authAnchor x" "ch_Checkpoints (ledger_part x) = ch_Checkpoints x"
    "ch_MaxReorgDepth (ledger_part x) = ch_MaxReorgDepth x" for x
    by (simp_all add: ledger_part_def)
  show "ch_blocks d = ch_blocks c" "ch_cumWork d = ch_cumWork c" "ch_supply d = ch_supply c"
    "ch_totals d = ch_totals c" "ch_addrTx d = ch_addrTx c" "ch_store d = ch_store c"
    "ch_authAnchor d = ch_authAnchor c" "ch_Checkpoints d = ch_Checkpoints c" "ch_MaxReorgDepth d = ch_MaxReorgDepth c"
    using assms by (metis s)+
qed

lemma ledger_part_upd [simp]:
  "ledger_part (c\<lparr>ch_mempool := m\<rparr>) = ledger_part c" "ledger_part (c\<lparr>ch_bySender := i\<rparr>) = ledger_part c"
  "ledger_part (c\<lparr>ch_state := s\<rparr>) = ledger_part c" "ledger_part (c\<lparr>ch_feeAct := n\<rparr>) = ledger_part c"
  by (simp_all add: ledger_part_def)

lemma ledger_part_pool [simp]:
  "ledger_part (mpAdd cr t c) = ledger_part c" "ledger_part (mpDel cr i c) = ledger_part c"
  "ledger_part (prune_step cr c p) = ledger_part c"
proof -
  show "ledger_part (mpAdd cr t c) = ledger_part c" by (simp add: mpAdd_def Let_def split: sum.split)
  show d: "ledger_part (mpDel cr i c) = ledger_part c" for i c
    by (simp add: mpDel_def Let_def split: sum.split option.split)
  show "ledger_part (prune_step cr c p) = ledger_part c"
    by (simp add: prune_step_def case_prod_beta Let_def d split: sum.split)
qed

lemma ledger_part_prune [simp]: "ledger_part (pruneMempoolLocked cr c) = ledger_part c"
proof -
  have "ledger_part (foldl (prune_step cr) d ps) = ledger_part d" for d ps
    by (induction ps arbitrary: d) simp_all
  then show ?thesis by (simp add: pruneMempoolLocked_def)
qed

lemma ledger_part_mpDel_block [simp]: "ledger_part (mpDel_block cr c b) = ledger_part c"
proof -
  have "ledger_part (foldl (\<lambda>c t. mpDel cr (ID cr t) c) d ts) = ledger_part d" for d ts
    by (induction ts arbitrary: d) simp_all
  then show ?thesis by (simp add: mpDel_block_def)
qed

lemma ledger_part_mpDel_blocks [simp]: "ledger_part (foldl (mpDel_block cr) c bs) = ledger_part c"
  by (induction bs arbitrary: c) simp_all

lemma ledger_part_validate [simp]: "ledger_part (snd (validateMempoolTxLocked cr t c)) = ledger_part c"
  by (simp add: validateMempoolTxLocked_def case_prod_beta Let_def chain_frame split: option.split)

lemma ledger_part_AddTx [simp]: "ledger_part (snd (AddTx cr t c)) = ledger_part c"
proof -
  have v: "validateMempoolTxLocked cr t d = (e, d') \<Longrightarrow> ledger_part d' = ledger_part d" for d d' e
    using ledger_part_validate [of cr t d] by simp
  show ?thesis by (auto simp: AddTx_def dest: v split: option.split prod.split)
qed

lemma mpDel_block_state [simp]: "ch_state (mpDel_block cr c b) = ch_state c"
proof -
  have "ch_state (foldl (\<lambda>c t. mpDel cr (ID cr t) c) d ts) = ch_state d" for d ts
    by (induction ts arbitrary: d) simp_all
  then show ?thesis by (simp add: mpDel_block_def)
qed

lemma mpDel_blocks_state [simp]: "ch_state (foldl (mpDel_block cr) c bs) = ch_state c"
  by (induction bs arbitrary: c) simp_all

lemma mpDel_block_inv: "pool_inv cr c \<Longrightarrow> pool_inv cr (mpDel_block cr c b)"
proof -
  have "pool_inv cr d \<Longrightarrow> pool_inv cr (foldl (\<lambda>c t. mpDel cr (ID cr t) c) d ts)" for d ts
    by (induction ts arbitrary: d) (simp_all add: pool_inv_del)
  then show "pool_inv cr c \<Longrightarrow> pool_inv cr (mpDel_block cr c b)" by (simp add: mpDel_block_def)
qed

lemma mpDel_blocks_inv: "pool_inv cr c \<Longrightarrow> pool_inv cr (foldl (mpDel_block cr) c bs)"
  by (induction bs arbitrary: c) (simp_all add: mpDel_block_inv)

text \<open>The clean-up of the mempool after a block changes the state only up to equivalence.\<close>

lemma supply_cong: "gm_invar s \<Longrightarrow> gm_invar u \<Longrightarrow> st_eq s u \<Longrightarrow> supply_of s = supply_of u"
  unfolding supply_of_def
  by (rule gm_total_cong [where z = zero_account]) (simp_all add: st_eq_def zero_account_def)

lemma chain_inv_pool_step:
  assumes "chain_inv cr c" and "ledger_part d = ledger_part c" and "st_eq (ch_state d) (ch_state c)"
    and "gm_invar (ch_state d)" and "pool_inv cr d"
  shows "chain_inv cr d"
  using assms ledger_part_fields [OF assms(2)] supply_cong [OF assms(4) _ assms(3)]
  unfolding chain_inv_def by (auto intro: st_eq_trans)

lemma prune_whole:
  "st_eq (ch_state (pruneMempoolLocked cr c)) (ch_state c)"
  "gm_invar (ch_state c) \<Longrightarrow> gm_invar (ch_state (pruneMempoolLocked cr c))"
  unfolding pruneMempoolLocked_def by (rule prune_state, rule prune_invar)

lemma chain_invD:
  assumes "chain_inv cr c"
  shows "valid_chain cr (ch_blocks c)" "gm_invar (ch_state c)" "st_eq (ch_state c) (replay cr (ch_blocks c))"
    "ch_totals c = replay_totals cr (ch_blocks c)" "ch_cumWork c = total_work (ch_blocks c)"
    "ch_supply c = supply_of (ch_state c)"
    "\<not> ch_store c \<Longrightarrow> ch_addrTx c = reindexAddrTxLocked cr (ch_blocks c)" "pool_inv cr c"
  using assms unfolding chain_inv_def by blast+

lemma chain_inv_prune: "chain_inv cr c \<Longrightarrow> chain_inv cr (pruneMempoolLocked cr c)"
  by (rule chain_inv_pool_step [where c = c]) (simp_all add: prune_whole chain_invD pool_inv_prune)

lemma chain_inv_mpDel_blocks: "chain_inv cr c \<Longrightarrow> chain_inv cr (foldl (mpDel_block cr) c bs)"
  by (rule chain_inv_pool_step [where c = c]) (simp_all add: chain_invD mpDel_blocks_inv)

lemma chain_inv_mpDel_block: "chain_inv cr c \<Longrightarrow> chain_inv cr (mpDel_block cr c b)"
  by (rule chain_inv_pool_step [where c = c]) (simp_all add: chain_invD mpDel_block_inv)

section \<open>Extending and reorganising\<close>

lemma replay_totals_snoc [simp]: "replay_totals cr (bs @ [b]) = applyBlockToTotals cr (replay_totals cr bs) b"
  by (simp add: replay_totals_def)

lemma reindex_append: "reindexAddrTxLocked cr (bs @ cs) = foldl (indexBlockLocked cr) (reindexAddrTxLocked cr bs) cs"
  by (simp add: reindexAddrTxLocked_def)

lemma core_validate_eq:
  "validateBlock cr pow now c prefix st b = (e, c1) \<Longrightarrow> core_of c1 = core_of c"
  using core_validateBlock [of cr pow now c prefix st b] by simp

lemma chain_inv_AddBlock:
  assumes "chain_inv cr c"
  shows "chain_inv cr (fst (snd (AddBlock cr pow now b c)))"
proof -
  obtain e c1 where v: "validateBlock cr pow now c (ch_blocks c) (ch_state c) b = (e, c1)" by fastforce
  have i1: "chain_inv cr c1" using assms chain_inv_core [OF core_validate_eq [OF v]] by simp
  note f = core_of_fields [OF core_validate_eq [OF v]]
  show ?thesis
  proof (cases "ch_blocks c = [] \<or> blk_PrevHash b \<noteq> Hash cr (last (ch_blocks c)) \<or> e \<noteq> None")
    case True
    then show ?thesis using assms i1 v by (auto simp: AddBlock_def split: option.split)
  next
    case False
    then have "block_sound cr (ch_blocks c) b"
      using v validateBlock_sound [of cr pow now c "ch_blocks c" "ch_state c" b] chain_invD(3) [OF assms] by simp
    then have "valid_chain cr (ch_blocks c @ [b])" by (rule valid_chain.extend [OF chain_invD(1) [OF assms]])
    moreover have "st_eq (applyBlockToState cr (ch_state c) b) (replay cr (ch_blocks c @ [b]))"
      using st_eq_applyBlock [OF chain_invD(3) [OF assms]] by simp
    ultimately have "chain_inv cr (recomputeSupplyLocked
        ((if ch_store c1 then c1\<lparr>ch_blocks := ch_blocks c1 @ [b]\<rparr>
          else c1\<lparr>ch_blocks := ch_blocks c1 @ [b], ch_addrTx := indexBlockLocked cr (ch_addrTx c1) b\<rparr>)
         \<lparr>ch_state := applyBlockToState cr (ch_state c1) b, ch_totals := applyBlockToTotals cr (ch_totals c1) b\<rparr>)
        \<lparr>ch_cumWork := ch_cumWork c1 + work_or_0 b\<rparr>)"
      using chain_invD(4,5,7,8) [OF assms] ledger_simps chain_invD(2) [OF assms]
      by (simp add: chain_inv_def recomputeSupplyLocked_def f reindex_append pool_inv_def pool_ok_def ledger_simps)
    then have "chain_inv cr (pruneMempoolLocked cr (mpDel_block cr (recomputeSupplyLocked
        ((if ch_store c1 then c1\<lparr>ch_blocks := ch_blocks c1 @ [b]\<rparr>
          else c1\<lparr>ch_blocks := ch_blocks c1 @ [b], ch_addrTx := indexBlockLocked cr (ch_addrTx c1) b\<rparr>)
         \<lparr>ch_state := applyBlockToState cr (ch_state c1) b, ch_totals := applyBlockToTotals cr (ch_totals c1) b\<rparr>)
        \<lparr>ch_cumWork := ch_cumWork c1 + work_or_0 b\<rparr>) b))"
      by (intro chain_inv_prune chain_inv_mpDel_block)
    then show ?thesis
      using False v by (simp add: AddBlock_def Let_def recomputeSupplyLocked_def split: if_splits)
  qed
qed

lemma adopt_loop_core: "core_of (snd (adopt_loop cr pow now c cand st tot bs)) = core_of c"
proof (induction bs arbitrary: c cand st tot)
  case (Cons b bs)
  then show ?case
    using core_validate_eq [of cr pow now c cand st b] by (simp split: prod.split option.split)
qed simp

lemma adopt_loop_sound:
  assumes "adopt_loop cr pow now c cand st tot bs = (Inr (cand', st', tot'), c')"
    and "valid_chain cr cand" and "gm_invar st" and "st_eq st (replay cr cand)" and "tot = replay_totals cr cand"
  shows "cand' = cand @ bs \<and> valid_chain cr cand' \<and> gm_invar st' \<and> st_eq st' (replay cr cand')
    \<and> tot' = replay_totals cr cand'"
  using assms
proof (induction bs arbitrary: c cand st tot)
  case (Cons b bs)
  obtain c1 where v: "validateBlock cr pow now c cand st b = (None, c1)"
    and r: "adopt_loop cr pow now c1 (cand @ [b]) (applyBlockToState cr st b) (applyBlockToTotals cr tot b) bs
      = (Inr (cand', st', tot'), c')"
    using Cons.prems(1) by (auto split: prod.splits option.splits)
  have "block_sound cr cand b" using validateBlock_sound [of cr pow now c cand st b] v Cons.prems(4) by simp
  then have "valid_chain cr (cand @ [b])" by (rule valid_chain.extend [OF Cons.prems(2)])
  then show ?case
    using Cons.IH [OF r] Cons.prems(3-5) st_eq_applyBlock [OF Cons.prems(4), of cr b] by (auto simp: ledger_simps)
qed simp

lemma adopt_guards_core: "core_of (snd (adopt_guards cr start nb c)) = core_of c"
  by (simp add: adopt_guards_def case_prod_beta Let_def chain_frame)

lemma fork_choice_core: "core_of d = core_of c \<Longrightarrow> fork_choice cr start nb d = fork_choice cr start nb c"
  by (simp only: fork_choice_def checkpoint_drop_def cand_work_def work_threshold_def tie_break_win_def core_of_fields [of d c])

text \<open>What the guards let through.\<close>

lemma adopt_guards_ok:
  assumes "adopt_guards cr start nb c = (Inr w, c1)"
  shows "nb \<noteq> []" "start \<noteq> 0" "start \<le> blen (ch_blocks c)" "fork_choice cr start nb c = Inr w"
    "ch_MaxReorgDepth c > 0 \<Longrightarrow> length (ch_blocks c) - unat start > ch_MaxReorgDepth c \<Longrightarrow>
      fst (deepRecoveryActiveC c) \<and> candidateMeetsAnchor cr (ch_authAnchor c) start nb"
proof -
  have core: "core_of (snd (deepRecoveryActiveC c)) = core_of c" by (simp add: chain_frame)
  show "nb \<noteq> []" "start \<noteq> 0" "start \<le> blen (ch_blocks c)"
    using assms by (auto simp: adopt_guards_def not_less split: if_splits)
  show "fork_choice cr start nb c = Inr w"
    using assms fork_choice_core [OF core, of cr start nb]
    by (auto simp: adopt_guards_def case_prod_beta Let_def split: if_splits)
  show "fst (deepRecoveryActiveC c) \<and> candidateMeetsAnchor cr (ch_authAnchor c) start nb"
    if "ch_MaxReorgDepth c > 0" "length (ch_blocks c) - unat start > ch_MaxReorgDepth c"
    using assms that core_of_fields(14) [OF core]
    by (auto simp: adopt_guards_def case_prod_beta Let_def split: if_splits)
qed

lemma fork_choice_ok:
  assumes "fork_choice cr start nb c = Inr w"
  shows "checkpoint_drop c start nb = None" "cand_work c (unat start) nb = Inr w"
    "w > work_threshold c (length (ch_blocks c) - unat start)
      \<or> tie_break_win cr c (length (ch_blocks c) - unat start) w nb"
  using assms by (auto simp: fork_choice_def Let_def not_le split: if_splits option.splits sum.splits)

text \<open>The incremental candidate work is the total work of the adopted chain.\<close>

lemma cand_work_total:
  assumes "chain_inv cr c" and "cand_work c n nb = Inr w"
  shows "w = total_work (take n (ch_blocks c) @ nb)"
proof -
  have t: "\<forall>b \<in> set (drop n (ch_blocks c)). target_opt b \<noteq> None"
    using valid_chain_targets [OF chain_invD(1) [OF assms(1)]] by (blast dest: in_set_dropD)
  have "total_work (ch_blocks c) = total_work (take n (ch_blocks c)) + total_work (drop n (ch_blocks c))"
    by (metis append_take_drop_id total_work_simps(3))
  then show ?thesis
    using assms(2) add_work_eq chain_invD(5) [OF assms(1)]
    by (auto simp: cand_work_def sub_work_eq [OF t])
qed

lemma unat_le_blen: "start \<le> blen bs \<Longrightarrow> unat start \<le> length bs"
proof -
  assume "start \<le> blen bs"
  then have "unat start \<le> unat (blen bs)" by (simp add: word_le_nat_alt)
  also have "\<dots> \<le> length bs" by (simp add: unat_of_nat)
  finally show ?thesis .
qed

text \<open>The record that an adoption installs before the mempool is cleaned up.\<close>

definition installed :: "chain \<Rightarrow> block list \<Rightarrow> state \<Rightarrow> totals \<Rightarrow> (string, hist_ref list) gomap \<Rightarrow> int \<Rightarrow> chain" where
  "installed c bs st tot idx w =
     recomputeSupplyLocked (c\<lparr>ch_blocks := bs, ch_addrTx := idx, ch_state := st, ch_totals := tot, ch_cumWork := w\<rparr>)"

lemma installed_fields [simp]:
  "ch_blocks (installed c bs st tot idx w) = bs" "ch_state (installed c bs st tot idx w) = st"
  "ch_cumWork (installed c bs st tot idx w) = w" "ch_addrTx (installed c bs st tot idx w) = idx"
  "ch_totals (installed c bs st tot idx w) = tot" "ch_store (installed c bs st tot idx w) = ch_store c"
  "ch_supply (installed c bs st tot idx w) = supply_of st"
  "pool_inv cr (installed c bs st tot idx w) = pool_inv cr c"
  by (simp_all add: installed_def recomputeSupplyLocked_def pool_inv_def pool_ok_def)

lemma installed_keep:
  "ch_addrTx c = idx \<Longrightarrow>
    recomputeSupplyLocked (c\<lparr>ch_blocks := bs, ch_state := st, ch_totals := tot, ch_cumWork := w\<rparr>)
      = installed c bs st tot idx w"
  by (cases c) (simp add: installed_def recomputeSupplyLocked_def)

lemma chain_inv_installed:
  assumes "pool_inv cr c" and "valid_chain cr bs" and "gm_invar st" and "st_eq st (replay cr bs)"
    and "\<not> ch_store c \<longrightarrow> idx = reindexAddrTxLocked cr bs"
  shows "chain_inv cr (installed c bs st (replay_totals cr bs) idx (total_work bs))"
  using assms by (simp add: chain_inv_def)

lemma TryAdopt_fail:
  assumes "fst (TryAdoptChain cr pow now start nb c) \<noteq> None"
  shows "core_of (fst (snd (TryAdoptChain cr pow now start nb c))) = core_of c
    \<and> snd (snd (TryAdoptChain cr pow now start nb c)) = None"
proof -
  obtain r c1 where g: "adopt_guards cr start nb c = (r, c1)" by fastforce
  then have c1: "core_of c1 = core_of c" using adopt_guards_core [of cr start nb c] by simp
  have l: "core_of c2 = core_of c" if "adopt_loop cr pow now c1 x y z nb = (r', c2)" for x y z r' c2
    using adopt_loop_core [of cr pow now c1 x y z nb] that c1 by simp
  show ?thesis
    using assms g c1 l by (auto simp: TryAdoptChain_def Let_def split: sum.splits prod.splits if_splits)
qed

lemma TryAdopt_ok:
  assumes "fst (TryAdoptChain cr pow now start nb c) = None"
  defines "n \<equiv> unat start"
  obtains w c1 c2 cand st tot idx where "adopt_guards cr start nb c = (Inr w, c1)"
    "(if length (ch_blocks c) - n = 0
      then adopt_loop cr pow now c1 (ch_blocks c) (ch_state c) (ch_totals c) nb
      else adopt_loop cr pow now c1 (take n (ch_blocks c)) (replay cr (take n (ch_blocks c)))
             (replay_totals cr (take n (ch_blocks c))) nb) = (Inr (cand, st, tot), c2)"
    "idx = (if ch_store c then ch_addrTx c
            else if length (ch_blocks c) - n = 0 then foldl (indexBlockLocked cr) (ch_addrTx c) nb
            else reindexAddrTxLocked cr cand)"
    "fst (snd (TryAdoptChain cr pow now start nb c)) = pruneMempoolLocked cr
       (if length (ch_blocks c) - n = 0 then foldl (mpDel_block cr) (installed c2 cand st tot idx w) nb
        else installed c2 cand st tot idx w)"
    "snd (snd (TryAdoptChain cr pow now start nb c)) =
       Some (if length (ch_blocks c) - n = 0 then CommitExtend nb w else CommitReorg n (drop n cand) w)"
proof -
  obtain w c1 where g: "adopt_guards cr start nb c = (Inr w, c1)"
    using assms(1) by (auto simp: TryAdoptChain_def split: prod.splits sum.splits)
  note f1 = core_of_fields [OF trans [OF arg_cong [where f = core_of, OF arg_cong [where f = snd, OF g, simplified, symmetric]]
        adopt_guards_core]]
  show ?thesis
  proof (cases "length (ch_blocks c) - n = 0")
    case True
    obtain cand st tot c2 where l: "adopt_loop cr pow now c1 (ch_blocks c) (ch_state c) (ch_totals c) nb
        = (Inr (cand, st, tot), c2)"
      using assms(1) g True by (auto simp: TryAdoptChain_def Let_def f1 n_def split: prod.splits sum.splits)
    have "core_of c2 = core_of c1" using adopt_loop_core [of cr pow now c1 "ch_blocks c" "ch_state c" "ch_totals c" nb] l by simp
    note f2 = core_of_fields [OF this, unfolded f1]
    show ?thesis
      by (rule that [OF g, of cand st tot c2 "if ch_store c then ch_addrTx c else foldl (indexBlockLocked cr) (ch_addrTx c) nb"])
        (use True l g in \<open>simp_all add: TryAdoptChain_def Let_def f1 f2 n_def installed_keep [OF f2(6)],
          simp_all add: installed_def\<close>)
  next
    case False
    obtain cand st tot c2 where l: "adopt_loop cr pow now c1 (take n (ch_blocks c)) (replay cr (take n (ch_blocks c)))
             (replay_totals cr (take n (ch_blocks c))) nb = (Inr (cand, st, tot), c2)"
      using assms(1) g False by (auto simp: TryAdoptChain_def Let_def f1 n_def split: prod.splits sum.splits)
    have "core_of c2 = core_of c1"
      using adopt_loop_core [of cr pow now c1 "take n (ch_blocks c)" "replay cr (take n (ch_blocks c))"
          "replay_totals cr (take n (ch_blocks c))" nb] l by simp
    note f2 = core_of_fields [OF this, unfolded f1]
    have p: "ch_blocks (pruneMempoolLocked cr (installed c2 cand st tot idx w)) = cand"
        "ch_cumWork (pruneMempoolLocked cr (installed c2 cand st tot idx w)) = w" for idx
      using ledger_part_fields(1,2) [OF ledger_part_prune [of cr "installed c2 cand st tot idx w"]] by simp_all
    show ?thesis
      by (rule that [OF g, of cand st tot c2 "if ch_store c then ch_addrTx c else reindexAddrTxLocked cr cand"])
        (use False l g p in \<open>simp_all add: TryAdoptChain_def Let_def f1 f2 n_def installed_keep [OF f2(6)],
          simp_all add: installed_def\<close>)
  qed
qed

lemma TryAdopt_success:
  assumes inv: "chain_inv cr c" and ok: "fst (TryAdoptChain cr pow now start nb c) = None"
  defines "c' \<equiv> fst (snd (TryAdoptChain cr pow now start nb c))"
  shows "chain_inv cr c'" "ch_blocks c' = take (unat start) (ch_blocks c) @ nb"
    "ch_cumWork c' = total_work (ch_blocks c')"
    "snd (snd (TryAdoptChain cr pow now start nb c)) =
       Some (if length (ch_blocks c) = unat start then CommitExtend nb (ch_cumWork c')
             else CommitReorg (unat start) nb (ch_cumWork c'))"
proof -
  let ?n = "unat start"
  obtain w c1 c2 cand st tot idx where g: "adopt_guards cr start nb c = (Inr w, c1)"
    and l: "(if length (ch_blocks c) - ?n = 0
      then adopt_loop cr pow now c1 (ch_blocks c) (ch_state c) (ch_totals c) nb
      else adopt_loop cr pow now c1 (take ?n (ch_blocks c)) (replay cr (take ?n (ch_blocks c)))
             (replay_totals cr (take ?n (ch_blocks c))) nb) = (Inr (cand, st, tot), c2)"
    and idx: "idx = (if ch_store c then ch_addrTx c
            else if length (ch_blocks c) - ?n = 0 then foldl (indexBlockLocked cr) (ch_addrTx c) nb
            else reindexAddrTxLocked cr cand)"
    and res: "c' = pruneMempoolLocked cr
       (if length (ch_blocks c) - ?n = 0 then foldl (mpDel_block cr) (installed c2 cand st tot idx w) nb
        else installed c2 cand st tot idx w)"
    and com: "snd (snd (TryAdoptChain cr pow now start nb c)) =
       Some (if length (ch_blocks c) - ?n = 0 then CommitExtend nb w else CommitReorg ?n (drop ?n cand) w)"
    by (rule TryAdopt_ok [OF ok, folded c'_def]) (rule that; assumption)
  note v = chain_invD [OF inv]
  note gd = adopt_guards_ok [OF g] fork_choice_ok [OF adopt_guards_ok(4) [OF g]]
  have le: "?n \<le> length (ch_blocks c)" and pos: "0 < ?n"
    using unat_le_blen [OF gd(3)] gd(2) by (simp_all add: unat_gt_0)
  have vt: "valid_chain cr (take ?n (ch_blocks c))" by (rule valid_chain_take [OF v(1) pos])
  have gi: "gm_invar (replay cr bs)" for bs by (rule invar_replay)
  have s: "cand = take ?n (ch_blocks c) @ nb \<and> valid_chain cr cand \<and> gm_invar st \<and> st_eq st (replay cr cand)
      \<and> tot = replay_totals cr cand"
  proof (cases "length (ch_blocks c) - ?n = 0")
    case True
    then have "take ?n (ch_blocks c) = ch_blocks c" by simp
    then show ?thesis using adopt_loop_sound [of cr pow now c1 "ch_blocks c" "ch_state c" "ch_totals c" nb] l True v by auto
  next
    case False
    then show ?thesis
      using adopt_loop_sound [of cr pow now c1 "take ?n (ch_blocks c)"] l vt gi by auto
  qed
  have core: "core_of c2 = core_of c"
  proof -
    have "core_of (snd (if length (ch_blocks c) - ?n = 0
      then adopt_loop cr pow now c1 (ch_blocks c) (ch_state c) (ch_totals c) nb
      else adopt_loop cr pow now c1 (take ?n (ch_blocks c)) (replay cr (take ?n (ch_blocks c)))
             (replay_totals cr (take ?n (ch_blocks c))) nb)) = core_of c1"
      by (simp add: adopt_loop_core)
    then have "core_of c2 = core_of c1" unfolding l by simp
    then show ?thesis using adopt_guards_core [of cr start nb c] g by simp
  qed
  note f2 = core_of_fields [OF core]
  have p2: "pool_inv cr c2" using v(8) f2(7,8) pool_inv_cong by blast
  have w: "w = total_work cand" using cand_work_total [OF inv gd(7)] s by simp
  have ix: "\<not> ch_store c2 \<longrightarrow> idx = reindexAddrTxLocked cr cand"
    using idx s v(7) f2(15) le by (auto simp: reindex_append)
  have i: "chain_inv cr (installed c2 cand st tot idx w)"
  proof -
    have "tot = replay_totals cr cand" using s by blast
    moreover have "valid_chain cr cand" "gm_invar st" "st_eq st (replay cr cand)" using s by blast+
    ultimately show ?thesis using chain_inv_installed [OF p2 _ _ _ ix] w by simp
  qed
  then show "chain_inv cr c'" unfolding res by (simp add: chain_inv_prune chain_inv_mpDel_blocks)
  have part: "ledger_part c' = ledger_part (installed c2 cand st tot idx w)" unfolding res by simp
  show b: "ch_blocks c' = take ?n (ch_blocks c) @ nb" using ledger_part_fields(1) [OF part] s by simp
  have wk: "ch_cumWork c' = w" using ledger_part_fields(2) [OF part] by simp
  show "ch_cumWork c' = total_work (ch_blocks c')" unfolding wk w b using s by (elim conjE) simp
  have "drop ?n cand = nb" using s le by simp
  then show "snd (snd (TryAdoptChain cr pow now start nb c)) =
       Some (if length (ch_blocks c) = ?n then CommitExtend nb (ch_cumWork c')
             else CommitReorg ?n nb (ch_cumWork c'))"
    using com wk le by auto
qed

lemma chain_inv_TryAdopt:
  assumes "chain_inv cr c"
  shows "chain_inv cr (fst (snd (TryAdoptChain cr pow now start nb c)))"
  using TryAdopt_success(1) [OF assms] TryAdopt_fail [of cr pow now start nb c] chain_inv_core assms
  by (cases "fst (TryAdoptChain cr pow now start nb c) = None") blast+

lemma AddTx_state:
  "gm_invar (ch_state c) \<Longrightarrow> gm_invar (ch_state (snd (AddTx cr t c))) \<and> st_eq (ch_state (snd (AddTx cr t c))) (ch_state c)"
proof -
  assume g: "gm_invar (ch_state c)"
  have v: "validateMempoolTxLocked cr t d = (e, d') \<Longrightarrow> ch_state d = ch_state c \<Longrightarrow>
      gm_invar (ch_state d') \<and> st_eq (ch_state d') (ch_state c)" for d d' e
    using validateMempool_frame(4,5) [where cr = cr and t = t and c = d] g by simp
  show ?thesis using g by (auto simp: AddTx_def dest!: v split: option.split prod.split)
qed

lemma chain_inv_AddTx: "chain_inv cr c \<Longrightarrow> chain_inv cr (snd (AddTx cr t c))"
  by (rule chain_inv_pool_step [where c = c]) (simp_all add: AddTx_state chain_invD AddTx_inv)

lemma chain_inv_other:
  assumes "chain_inv cr c"
  shows "chain_inv cr (PreVerifyPoW cr pow start nb c)" "chain_inv cr (PreVerifySigs cr start nb c)"
    "chain_inv cr (snd (ApplyCheckpoint cr cp c))" "chain_inv cr (SetAuthorityAnchor cp c)"
  using assms
  by (simp_all add: PreVerifyPoW_def PreVerifySigs_def ApplyCheckpoint_def SetAuthorityAnchor_def chain_inv_def
      pool_inv_def pool_ok_def Let_def)

section \<open>Reachable chains\<close>

text \<open>The engine right after it started on an empty data directory, and its steps.\<close>

definition fresh_chain :: "crypto \<Rightarrow> bool \<Rightarrow> chain" where
  "fresh_chain cr store =
     (case load_blocks cr [] (open_chain store) of Inr c \<Rightarrow> c | Inl _ \<Rightarrow> open_chain store)"

inductive chain_step :: "crypto \<Rightarrow> pow_fun \<Rightarrow> chain \<Rightarrow> chain \<Rightarrow> bool" for cr pow where
  add_block: "chain_step cr pow c (fst (snd (AddBlock cr pow now b c)))"
| adopt: "chain_step cr pow c (fst (snd (TryAdoptChain cr pow now start nb c)))"
| add_tx: "chain_step cr pow c (snd (AddTx cr t c))"
| pre_pow: "chain_step cr pow c (PreVerifyPoW cr pow start nb c)"
| pre_sigs: "chain_step cr pow c (PreVerifySigs cr start nb c)"
| checkpoint: "chain_step cr pow c (snd (ApplyCheckpoint cr cp c))"
| anchor: "chain_step cr pow c (SetAuthorityAnchor cp c)"

inductive reachable :: "crypto \<Rightarrow> pow_fun \<Rightarrow> bool \<Rightarrow> chain \<Rightarrow> bool" for cr pow store where
  start: "reachable cr pow store (fresh_chain cr store)"
| step: "reachable cr pow store c \<Longrightarrow> chain_step cr pow c d \<Longrightarrow> reachable cr pow store d"

lemma chain_inv_step: "chain_step cr pow c d \<Longrightarrow> chain_inv cr c \<Longrightarrow> chain_inv cr d"
  by (induction rule: chain_step.induct)
    (simp_all add: chain_inv_AddBlock chain_inv_TryAdopt chain_inv_AddTx chain_inv_other)

lemma chain_inv_rebuild:
  assumes "rebuildDerived cr c = Some d" and "valid_chain cr (ch_blocks c)" and "pool_inv cr c"
  shows "chain_inv cr d" "ch_blocks d = ch_blocks c"
proof -
  have w: "work_of_blocks (ch_blocks c) = Some (total_work (ch_blocks c))"
    using valid_chain_targets [OF assms(2)] by (intro work_of_blocks_eq) blast
  let ?c1 = "recomputeSupplyLocked (c\<lparr>ch_state := replay cr (ch_blocks c), ch_totals := replay_totals cr (ch_blocks c),
                   ch_cumWork := total_work (ch_blocks c)\<rparr>)"
  let ?c2 = "snd (lwmaActivationC ?c1 (ch_blocks ?c1))"
  let ?c3 = "snd (feeMarketActivationC ?c2 (ch_blocks ?c2))"
  have "core_of ?c3 = core_of ?c1" by (simp only: core_gates)
  note f = core_of_fields [OF this]
  have c1: "ch_blocks ?c1 = ch_blocks c" "ch_state ?c1 = replay cr (ch_blocks c)"
    "ch_totals ?c1 = replay_totals cr (ch_blocks c)" "ch_cumWork ?c1 = total_work (ch_blocks c)"
    "ch_supply ?c1 = supply_of (replay cr (ch_blocks c))" "ch_mempool ?c1 = ch_mempool c" "ch_bySender ?c1 = ch_bySender c"
    by (simp_all add: recomputeSupplyLocked_def)
  have p: "pool_inv cr ?c3" by (rule pool_inv_cong [THEN iffD2, OF trans [OF f(7) c1(6)] trans [OF f(8) c1(7)] assms(3)])
  have d: "d = (if ch_store ?c3 then ?c3 else ?c3\<lparr>ch_addrTx := reindexAddrTxLocked cr (ch_blocks ?c3)\<rparr>)"
    using assms(1) by (simp only: rebuildDerived_def w option.case Let_def option.inject)
  have pd: "pool_inv cr d"
    by (rule pool_inv_cong [THEN iffD2, OF _ _ p]) (simp_all add: d)
  have fd: "ch_blocks d = ch_blocks c" "ch_state d = replay cr (ch_blocks c)" "ch_totals d = replay_totals cr (ch_blocks c)"
    "ch_cumWork d = total_work (ch_blocks c)" "ch_supply d = supply_of (replay cr (ch_blocks c))"
    unfolding d using f c1 by simp_all
  have ad: "ch_addrTx d = reindexAddrTxLocked cr (ch_blocks c)" if "\<not> ch_store d"
    using that trans [OF f(1) c1(1)] unfolding d by (auto split: if_splits)
  show "ch_blocks d = ch_blocks c" by (rule fd)
  show "chain_inv cr d" using assms(2) pd fd ad invar_replay by (simp add: chain_inv_def)
qed

lemma rebuildDerived_total: "valid_chain cr (ch_blocks c) \<Longrightarrow> \<exists>d. rebuildDerived cr c = Some d"
proof -
  assume v: "valid_chain cr (ch_blocks c)"
  have "work_of_blocks (ch_blocks c) = Some (total_work (ch_blocks c))"
    using valid_chain_targets [OF v] by (intro work_of_blocks_eq) blast
  then show ?thesis by (simp add: rebuildDerived_def Let_def)
qed

lemma pool_inv_mark: "pool_inv cr (markPowVerified h c) = pool_inv cr c"
  by (rule pool_inv_cong) (simp_all add: markPowVerified_def)

lemma chain_inv_fresh: "chain_inv cr (fresh_chain cr store)" "ch_blocks (fresh_chain cr store) = [GenesisBlock cr]"
proof -
  let ?c = "(markPowVerified (Hash cr (GenesisBlock cr)) (open_chain store))\<lparr>ch_blocks := truncate_at_break cr [GenesisBlock cr]\<rparr>"
  have t: "truncate_at_break cr [GenesisBlock cr] = [GenesisBlock cr]" by (simp add: truncate_at_break_def)
  have v: "valid_chain cr (ch_blocks ?c)" by (simp add: t valid_chain.genesis)
  have p: "pool_inv cr ?c"
    using pool_inv_open [of cr store]
    by (subst pool_inv_cong [of ?c "open_chain store"]) (simp_all add: markPowVerified_def)
  obtain d where d: "rebuildDerived cr ?c = Some d" using rebuildDerived_total [OF v] by blast
  then have f: "fresh_chain cr store = d" by (simp add: fresh_chain_def load_blocks_def)
  show "chain_inv cr (fresh_chain cr store)" "ch_blocks (fresh_chain cr store) = [GenesisBlock cr]"
    using chain_inv_rebuild [OF d v p] t by (simp_all add: f)
qed

lemma reachable_inv: "reachable cr pow store c \<Longrightarrow> chain_inv cr c"
  by (induction rule: reachable.induct) (auto intro: chain_inv_fresh chain_inv_step)

end
