(* ===== verification/Core_Consensus.thy ===== *)
theory Core_Consensus
  imports Core_Invariant
begin

text \<open>
  Properties of the chains the engine builds: consistency of everything derived from the blocks,
  no inflation, no replay, atomic failure, fork choice that only moves forward, finality of
  checkpoints, and a disk image that follows memory and recovers it.
\<close>

section \<open>Consistency\<close>

text \<open>The witnesses run on a node that started empty and accepted \<open>block1\<close>.\<close>

lemma checkPow_easy:
  assumes "epochSeedFor cr prefix (blk_Height b) \<noteq> None" and "0 \<le> got"
  shows "fst (checkPow cr easy_pow c prefix b got) = None"
    "gates_ok bs (snd (checkPow cr easy_pow c prefix b got)) = gates_ok bs c"
proof -
  obtain seed e where ep: "epochSeedFor cr prefix (blk_Height b) = Some (seed, e)" using assms(1) by auto
  have m: "HashMeetsTarget (easy_pow vm h x) got" for vm h x
    using assms(2) from_be_replicate0 [of 32 "[]"] by (simp add: easy_pow_def HashMeetsTarget_def from_be_def)
  have g: "gates_ok bs (markPowVerified h d) = gates_ok bs d" "gates_ok bs (vm_store d e' vm sk) = gates_ok bs d" for h d e' vm sk
    by (simp_all add: markPowVerified_def vm_store_def Let_def)
  show "fst (checkPow cr easy_pow c prefix b got) = None"
    "gates_ok bs (snd (checkPow cr easy_pow c prefix b got)) = gates_ok bs c"
    by (auto simp: checkPow_def ep m g vmFor_def Let_def split: option.split)
qed

lemma validateBlock_easy:
  assumes "block_valid cr easy_pow now [] prefix st b" and "gates_ok prefix c" and "length prefix < 2 ^ 64"
    and "ch_Checkpoints c = []" and "ch_sigOK c = []"
  shows "fst (validateBlock cr easy_pow now c prefix st b) = None"
proof -
  let ?c1 = "snd (expectedTargetC c prefix)"
  have v: "prefix \<noteq> []" "blk_Version b = 1" "blk_Height b = blen prefix" "header_fields_ok b"
      "blk_PrevHash b = Hash cr (last prefix)" "medianTime prefix < blk_Time b" "blk_Time b \<le> now + MaxFutureDrift"
      "expectedTarget prefix = target_opt b" "body_valid cr prefix st b"
    using assms(1) unfolding block_valid_def by blast+
  obtain got where got: "TargetInt b = Inr got" "0 \<le> got" "expectedTarget prefix = Some got"
    using assms(1) v(8) TargetInt_range [of b] by (auto simp: block_valid_def target_opt_def split: sum.splits)
  have ep: "epochSeedFor cr prefix (blk_Height b) \<noteq> None" using epochSeedFor_tip [OF assms(3), of cr] v(3) by auto
  let ?p = "checkPow cr easy_pow ?c1 prefix b got"
  have p: "fst ?p = None" "gates_ok prefix (snd ?p)" "ch_sigOK (snd ?p) = []"
    using checkPow_easy [OF ep got(2)] gates_ok_C(4) [OF assms(2)] assms(5)
      core_of_fields(10) [OF core_checkPow [of cr easy_pow ?c1 prefix b got]]
    by (simp_all add: chain_frame)
  have "fst (checkBody cr (snd ?p) prefix st b) = None"
    using checkBody_spec [OF p(2), where V = "{}"] p(3) v(9) by (simp add: sigs.no_collision_def)
  then show ?thesis
    using v(1-7) got p(1) assms(4) expectedTargetC_eq [OF assms(2)]
    by (simp add: validateBlock_def header_fields_ok_def case_prod_beta Let_def not_le not_less split: option.split)
qed

definition chain1 :: chain where
  "chain1 = fst (snd (AddBlock demo_crypto easy_pow 1781136060 block1 (fresh_chain demo_crypto False)))"

lemma fresh_fields:
  "gates_ok [GenesisBlock cr] (fresh_chain cr store)" "ch_Checkpoints (fresh_chain cr store) = []"
  "ch_sigOK (fresh_chain cr store) = []" "ch_store (fresh_chain cr store) = store"
  "ch_mempool (fresh_chain cr store) = []"
proof -
  have t: "truncate_at_break cr [GenesisBlock cr] = [GenesisBlock cr]" by (simp add: truncate_at_break_def)
  have w: "work_of_blocks [GenesisBlock cr] = Some (total_work [GenesisBlock cr])"
    using genesis_target_opt [of cr] by (intro work_of_blocks_eq) simp
  have f: "fresh_chain cr store = the (rebuildDerived cr
      ((markPowVerified (Hash cr (GenesisBlock cr)) (open_chain store))\<lparr>ch_blocks := [GenesisBlock cr]\<rparr>))"
    by (simp add: fresh_chain_def load_blocks_def t rebuildDerived_def w Let_def)
  have l: "lwmaActivation [GenesisBlock cr] = 0" "feeMarketActivation [GenesisBlock cr] = 0"
    by (simp_all add: lwmaActivation_def feeMarketActivation_def activationHeight_def activationHeightWin_def)
  show "gates_ok [GenesisBlock cr] (fresh_chain cr store)" "ch_Checkpoints (fresh_chain cr store) = []"
    "ch_sigOK (fresh_chain cr store) = []" "ch_store (fresh_chain cr store) = store"
    "ch_mempool (fresh_chain cr store) = []"
    by (simp_all add: f rebuildDerived_def w Let_def recomputeSupplyLocked_def chain_frame gates_ok_def
        markPowVerified_def open_chain_def sticky_activation_def l)
qed

lemma block1_added: "fst (AddBlock demo_crypto easy_pow 1781136060 block1 (fresh_chain demo_crypto False)) = None"
proof -
  let ?g = "fresh_chain demo_crypto False"
  have "fst (validateBlock demo_crypto easy_pow 1781136060 ?g (ch_blocks ?g) (ch_state ?g) block1) = None"
    using validateBlock_easy [OF block1_valid, of ?g "ch_state ?g"] fresh_fields [of demo_crypto False]
      chain_inv_fresh(2) [of demo_crypto False] by simp
  moreover have "blk_PrevHash block1 = Hash demo_crypto (GenesisBlock demo_crypto)" by (simp add: block1_def)
  ultimately show ?thesis
    using chain_inv_fresh(2) [of demo_crypto False] by (simp add: AddBlock_def case_prod_beta Let_def split: option.split)
qed

lemma chain1_blocks: "ch_blocks chain1 = [GenesisBlock demo_crypto, block1]"
proof -
  let ?g = "fresh_chain demo_crypto False"
  obtain c1 where v: "validateBlock demo_crypto easy_pow 1781136060 ?g (ch_blocks ?g) (ch_state ?g) block1 = (None, c1)"
    using block1_added chain_inv_fresh(2) [of demo_crypto False]
    by (auto simp: AddBlock_def split: prod.splits option.splits if_splits)
  have b: "ch_blocks c1 = [GenesisBlock demo_crypto]"
    using core_of_fields(1) [OF core_validate_eq [OF v]] chain_inv_fresh(2) [of demo_crypto False] by simp
  have "ch_blocks (pruneMempoolLocked demo_crypto (mpDel_block demo_crypto d block1)) = ch_blocks d" for d
    using ledger_part_fields(1) [of "pruneMempoolLocked demo_crypto (mpDel_block demo_crypto d block1)" d] by simp
  then show ?thesis
    using v b chain_inv_fresh(2) [of demo_crypto False] block1_added
    by (simp add: chain1_def AddBlock_def Let_def recomputeSupplyLocked_def split: if_splits)
qed

lemma chain1_reachable: "reachable demo_crypto easy_pow False chain1"
  unfolding chain1_def by (rule reachable.step [OF reachable.start chain_step.add_block])



section \<open>Issuance\<close>

definition issued :: "nat \<Rightarrow> int" where
  "issued n = (\<Sum>h \<in> {1..<n}. uint (BlockSubsidy (word_of_nat h)))"

lemma uint_subsidy: "h < 2 ^ 64 \<Longrightarrow> uint (BlockSubsidy (word_of_nat h)) = int (subsidy_nat h)"
proof -
  assume "h < 2 ^ 64"
  then have "unat (BlockSubsidy (word_of_nat h)) = subsidy_nat h" by (simp add: unat_BlockSubsidy subsidy_nat_def)
  then show ?thesis by (metis uint_nat)
qed

lemma issued_bound:
  assumes "n \<le> 2 ^ 64"
  shows "0 \<le> issued n \<and> issued n \<le> 105120000 * int CoinUnit"
proof -
  define S where "S = (\<Sum>h \<in> {1..<n}. subsidy_nat h)"
  have "issued n = (\<Sum>h \<in> {1..<n}. int (subsidy_nat h))"
    unfolding issued_def using assms by (intro sum.cong) (simp_all add: uint_subsidy)
  also have "\<dots> = int S" by (simp add: S_def)
  finally have e: "issued n = int S" .
  have "S \<le> (\<Sum>h<n. subsidy_nat h)" unfolding S_def by (rule sum_mono2) auto
  also have "\<dots> \<le> 2 * InitialReward * HalvingInterval" by (rule sum_subsidy_bound)
  finally show ?thesis unfolding e by simp
qed

lemma issued_Suc: "0 < n \<Longrightarrow> issued (Suc n) = issued n + uint (BlockSubsidy (word_of_nat n))"
  by (simp add: issued_def)

lemma wealth_genesis: "wealth (replay cr [GenesisBlock cr]) = 0"
proof -
  have "replay cr [GenesisBlock cr] = st_credit [] (tx_To genesis_coinbase) (tx_Amount genesis_coinbase)"
    by (simp add: replay_def applyBlockToState_def GenesisBlock_def applyTx_def IsCoinbase_def genesis_coinbase_def)
  moreover have "wealth (st_credit [] a 0) = wealth [] + uint (0 :: u64)" for a
    by (rule wealth_credit) (simp_all add: wealth_def gm_total_def)
  ultimately show ?thesis by (simp add: genesis_coinbase_def wealth_def gm_total_def)
qed

lemma valid_chain_wealth: "valid_chain cr bs \<Longrightarrow> length bs \<le> 2 ^ 64 \<Longrightarrow> wealth (replay cr bs) = issued (length bs)"
proof (induction rule: valid_chain.induct)
  case genesis
  then show ?case using wealth_genesis [of cr] by (simp add: issued_def)
next
  case (extend bs b)
  then have len: "length bs < 2 ^ 64" by simp
  have IH: "wealth (replay cr bs) = issued (length bs)" using extend by simp
  have pos: "0 < length bs" using valid_chain_nonempty [OF extend.hyps(1)] by simp
  have h: "blk_Height b = word_of_nat (length bs)" "coinbase_ok b" using extend.hyps(2) by (simp_all add: block_sound_def)
  obtain memo minfee imm w' where v: "validateBody cr memo minfee imm (blk_Height b) [] (replay cr bs) (tl (blk_Txs b)) = (None, w')"
    using extend.hyps(2) unfolding block_sound_def by (metis prod.collapse)
  have "issued (Suc (length bs)) \<le> 105120000 * int CoinUnit" using issued_bound len by (simp add: Suc_le_eq)
  then have lt: "wealth (replay cr bs) + uint (BlockSubsidy (blk_Height b)) < 2 ^ 64"
    using IH issued_Suc [OF pos] h(1) by simp
  show ?case
    using block_issuance_lemma [OF invar_replay h(2) v lt] IH issued_Suc [OF pos] h(1) by simp
qed

lemma supply_wealth: "word_of_int (wealth s) = supply_of s"
proof -
  have "word_of_int (sum_list (map (\<lambda>p. uint (acc_Balance (snd p))) s)) = sum_list (map (\<lambda>p. acc_Balance (snd p)) s)"
    by (induction s) (simp_all add: wi_hom_add [symmetric])
  then show ?thesis by (simp add: wealth_def supply_of_def gm_total_def)
qed

text \<open>(C2)
  No inflation: on every reachable chain the supply the node reports is, as a true integer, exactly
  the sum of the scheduled rewards of its blocks, never more than 105,120,000 CRB, and no account
  holds more than the supply. In particular no 64-bit balance or sum has wrapped.
\<close>

theorem no_inflation:
  assumes "reachable cr pow store c" and "length (ch_blocks c) \<le> 2 ^ 64"
  shows "uint (ch_supply c) = (\<Sum>h \<in> {1..<length (ch_blocks c)}. uint (BlockSubsidy (word_of_nat h)))
    \<and> uint (ch_supply c) \<le> 105120000 * int CoinUnit
    \<and> uint (acc_Balance (acct (ch_state c) a)) \<le> uint (ch_supply c)"
proof -
  note v = chain_invD [OF reachable_inv [OF assms(1)]]
  have w: "wealth (ch_state c) = issued (length (ch_blocks c))"
    using valid_chain_wealth [OF v(1) assms(2)] wealth_cong [OF v(2) invar_replay v(3)] by simp
  have b: "0 \<le> issued (length (ch_blocks c))" "issued (length (ch_blocks c)) \<le> 105120000 * int CoinUnit"
    using issued_bound [OF assms(2)] by simp_all
  have "uint (ch_supply c) = wealth (ch_state c)"
    unfolding v(6) supply_wealth [symmetric] using b w by (simp add: uint_word_of_int)
  then show ?thesis using w b balance_le_wealth [OF v(2), of a] by (simp add: issued_def)
qed

theorem no_inflation_witness: "uint (ch_supply chain1) = 5000000000"
  using no_inflation [OF chain1_reachable, of "[]"] by (simp add: chain1_blocks BlockSubsidy_def)

section \<open>Replay protection\<close>

definition chain_txs :: "block list \<Rightarrow> tx list" where
  "chain_txs bs = concat (map blk_Txs bs)"

lemma sent_by_coinbase: "IsCoinbase t \<Longrightarrow> sent_by cr a [t] = 0"
  by (simp add: sent_by_def)

text \<open>The nonce of every transfer is the number of earlier transfers of its sender.\<close>

lemma valid_chain_nonce:
  "valid_chain cr bs \<Longrightarrow> i < length (chain_txs bs) \<Longrightarrow> \<not> IsCoinbase (chain_txs bs ! i) \<Longrightarrow>
    tx_Nonce (chain_txs bs ! i)
      = of_nat (sent_by cr (from_or_empty cr (chain_txs bs ! i)) (take i (chain_txs bs)))"
proof (induction arbitrary: i rule: valid_chain.induct)
  case genesis
  then show ?case by (simp add: chain_txs_def GenesisBlock_def genesis_coinbase_def IsCoinbase_def)
next
  case (extend bs b)
  have app: "chain_txs (bs @ [b]) = chain_txs bs @ blk_Txs b" by (simp add: chain_txs_def)
  show ?case
  proof (cases "i < length (chain_txs bs)")
    case True
    then show ?thesis using extend.IH [of i] extend.prems by (simp add: app nth_append)
  next
    case False
    define j where "j = i - length (chain_txs bs)"
    have cb: "coinbase_ok b" using extend.hyps(2) by (simp add: block_sound_def)
    then obtain x xs where x: "blk_Txs b = x # xs" "IsCoinbase x" by (auto simp: coinbase_ok_def split: list.splits)
    let ?t = "chain_txs (bs @ [b]) ! i"
    have t: "?t = blk_Txs b ! j" using False by (simp add: app nth_append j_def)
    then have "j \<noteq> 0" using x extend.prems(2) by (cases j) auto
    then obtain k where k: "j = Suc k" by (cases j) auto
    have kl: "k < length xs" using extend.prems(1) False k x by (simp add: app j_def)
    have tk: "?t = xs ! k" using t k x by simp
    obtain memo minfee imm w' where v: "validateBody cr memo minfee imm (blk_Height b) [] (replay cr bs) xs = (None, w')"
      using extend.hyps(2) x(1) unfolding block_sound_def by (metis list.sel(3) prod.collapse)
    let ?a = "from_or_empty cr (xs ! k)"
    have z: "acc_Nonce (acct ([] :: state) ?a) = 0" by (simp add: zero_account_def)
    have "acc_Nonce (acct (replay cr bs) ?a) = of_nat (sent_by cr ?a (chain_txs bs))"
      unfolding replay_flat chain_txs_def [symmetric] nonce_applyTxs z by simp
    moreover have "take i (chain_txs (bs @ [b])) = chain_txs bs @ x # take k xs"
      using False k x by (simp add: app j_def)
    moreover have "sent_by cr ?a (chain_txs bs @ x # take k xs) = sent_by cr ?a (chain_txs bs) + sent_by cr ?a (take k xs)"
      using x(2) by (simp add: sent_by_def)
    ultimately show ?thesis using validateBody_nonces [OF v kl] tk by simp
  qed
qed

lemma transfers_differ:
  assumes "reachable cr pow store c" and "length (chain_txs (ch_blocks c)) < 2 ^ 64"
    and "i < j" and "j < length (chain_txs (ch_blocks c))"
    and "\<not> IsCoinbase (chain_txs (ch_blocks c) ! i)" and "\<not> IsCoinbase (chain_txs (ch_blocks c) ! j)"
    and "from_or_empty cr (chain_txs (ch_blocks c) ! i) = from_or_empty cr (chain_txs (ch_blocks c) ! j)"
  shows "tx_Nonce (chain_txs (ch_blocks c) ! i) \<noteq> tx_Nonce (chain_txs (ch_blocks c) ! j)"
proof -
  let ?x = "chain_txs (ch_blocks c)"
  let ?a = "from_or_empty cr (?x ! i)"
  note v = chain_invD(1) [OF reachable_inv [OF assms(1)]]
  have ni: "tx_Nonce (?x ! i) = of_nat (sent_by cr ?a (take i ?x))"
    using valid_chain_nonce [OF v, of i] assms by simp
  have nj: "tx_Nonce (?x ! j) = of_nat (sent_by cr ?a (take j ?x))"
    using valid_chain_nonce [OF v, of j] assms by simp
  have split: "take j ?x = take i ?x @ ?x ! i # take (j - Suc i) (drop (Suc i) ?x)"
  proof -
    have "take j ?x = take (i + (j - i)) ?x" using assms(3) by simp
    also have "\<dots> = take i ?x @ take (j - i) (drop i ?x)" by (rule take_add)
    also have "drop i ?x = ?x ! i # drop (Suc i) ?x" using assms(3,4) by (simp add: Cons_nth_drop_Suc)
    also have "take (j - i) (?x ! i # drop (Suc i) ?x) = ?x ! i # take (j - Suc i) (drop (Suc i) ?x)"
      using assms(3) by (simp add: Suc_diff_Suc [symmetric])
    finally show ?thesis .
  qed
  let ?k = "Suc (sent_by cr ?a (take (j - Suc i) (drop (Suc i) ?x)))"
  have s: "sent_by cr ?a (take j ?x) = sent_by cr ?a (take i ?x) + ?k"
    unfolding split sent_by_append using assms(5) by (simp add: sent_by_def)
  have "?k \<le> length (take j ?x)" using s sent_by_le [of cr ?a "take j ?x"] by linarith
  then have "?k < 2 ^ 64" using assms(2) by simp
  then have "tx_Nonce (?x ! i) + of_nat ?k \<noteq> tx_Nonce (?x ! i)" by (intro nonce_of_nat_neq) simp_all
  then show ?thesis unfolding nj s of_nat_add ni by metis
qed

lemma distinct_map_filter:
  assumes "\<And>i j. i < j \<Longrightarrow> j < length xs \<Longrightarrow> P (xs ! i) \<Longrightarrow> P (xs ! j) \<Longrightarrow> f (xs ! i) \<noteq> f (xs ! j)"
  shows "distinct (map f (filter P xs))"
  using assms
proof (induction xs)
  case (Cons x xs)
  have "f x \<noteq> f y" if "y \<in> set xs" "P x" "P y" for y
    using that Cons.prems [of 0 "Suc k" for k] by (fastforce simp: in_set_conv_nth)
  moreover have "distinct (map f (filter P xs))" using Cons.prems [of "Suc i" "Suc j" for i j] by (intro Cons.IH) simp
  ultimately show ?case by auto
qed simp

text \<open>(C7)
  No transaction is ever replayed: on a reachable chain no two transfers share sender and nonce, so
  no signed transfer takes effect twice, in the same block or in any two.
\<close>

theorem no_transaction_twice:
  assumes "reachable cr pow store c" and "length (chain_txs (ch_blocks c)) < 2 ^ 64"
  shows "distinct (map (\<lambda>t. (from_or_empty cr t, tx_Nonce t))
    (filter (\<lambda>t. \<not> IsCoinbase t) (chain_txs (ch_blocks c))))"
  using transfers_differ [OF assms] by (intro distinct_map_filter) auto

theorem no_transaction_twice_witness:
  "distinct (map (\<lambda>t. (from_or_empty demo_crypto t, tx_Nonce t))
    (filter (\<lambda>t. \<not> IsCoinbase t) (chain_txs (ch_blocks chain1))))"
  by (rule no_transaction_twice [OF chain1_reachable])
    (simp add: chain1_blocks chain_txs_def block1_def GenesisBlock_def)

end
