(* ===== verification/Core_Template.thy ===== *)
theory Core_Template
  imports Core_Mempool
begin

text \<open>
  Block templates, after \<open>BuildTemplate\<close> in \<^verbatim>\<open>src/core/chain.go\<close>: the greedy, fee-first selection of
  mempool transactions in nonce order per sender, and the unmined block around it. The theorems show
  that a template becomes a valid block as soon as a nonce with enough work is found, and that no
  minable transaction is left out while there is room.
\<close>

section \<open>The selection\<close>

text \<open>The pending transactions by sender, each list in nonce order.\<close>

definition template_groups :: "crypto \<Rightarrow> (string, tx) gomap \<Rightarrow> (string, tx list) gomap" where
  "template_groups cr mp =
     map (\<lambda>(from, s). (from, sort_key tx_Nonce s))
       (foldl (\<lambda>m (i, t). case FromAddr cr t of
                 Inl _ \<Rightarrow> m
               | Inr from \<Rightarrow> AList.update from (gm_get [] m from @ [t]) m) [] mp)"

type_synonym scan_state = "(string, nat) gomap \<times> state \<times> (tx \<times> string) option"

text \<open>\<open>best == nil || t.Fee > best.Fee || (t.Fee == best.Fee && t.ID() < best.ID())\<close>\<close>

definition better_pick :: "crypto \<Rightarrow> tx \<Rightarrow> (tx \<times> string) option \<Rightarrow> bool" where
  "better_pick cr t best =
     (case best of
        None \<Rightarrow> True
      | Some (b, _) \<Rightarrow> tx_Fee t > tx_Fee b \<or> (tx_Fee t = tx_Fee b \<and> ID cr t < ID cr b))"

text \<open>
  One sender of the inner loop: stale nonces are skipped, a nonce gap blocks the sender, and the
  transaction at the frontier competes when it pays the floor and validates.
\<close>

definition scan_sender ::
  "crypto \<Rightarrow> sig_memo \<Rightarrow> u64 \<Rightarrow> (string, u64) gomap \<Rightarrow> u64 \<Rightarrow> scan_state \<Rightarrow> string \<times> tx list \<Rightarrow> scan_state" where
  "scan_sender cr memo minfee imm height acc p =
     (case (acc, p) of ((idx, st, best), (from, s)) \<Rightarrow>
        let i0 = gm_get 0 idx from;
            st1 = (if i0 < length s then snd (st_get st from) else st);
            nonce = acc_Nonce (acct st1 from);
            i = i0 + length (takeWhile (\<lambda>t. tx_Nonce t < nonce) (drop i0 s));
            idx1 = AList.update from i idx
        in if i \<ge> length s then (idx1, st1, best)
           else let t = s ! i in
             if tx_Nonce t \<noteq> nonce then (idx1, st1, best)
             else if tx_Fee t < minfee then (idx1, st1, best)
             else (case validateTxAgainstState cr memo st1 t imm height of
                 (Some _, st2) \<Rightarrow> (idx1, st2, best)
               | (None, st2) \<Rightarrow> (idx1, st2, if better_pick cr t best then Some (t, from) else best)))"

text \<open>The outer loop; its first argument is the room left in the block.\<close>

fun pick_loop ::
  "crypto \<Rightarrow> sig_memo \<Rightarrow> u64 \<Rightarrow> (string, u64) gomap \<Rightarrow> u64 \<Rightarrow> (string, tx list) gomap
    \<Rightarrow> nat \<Rightarrow> (string, nat) gomap \<Rightarrow> state \<Rightarrow> tx list \<Rightarrow> tx list" where
  "pick_loop cr memo minfee imm height groups 0 idx st picked = picked"
| "pick_loop cr memo minfee imm height groups (Suc room) idx st picked =
     (case foldl (scan_sender cr memo minfee imm height) (idx, st, None) groups of
        (idx1, st1, None) \<Rightarrow> picked
      | (idx1, st1, Some (best, bestFrom)) \<Rightarrow>
          pick_loop cr memo minfee imm height groups room
            (AList.update bestFrom (gm_get 0 idx1 bestFrom + 1) idx1)
            (st_credit (st_debit st1 bestFrom (tx_Amount best + tx_Fee best)) (tx_To best) (tx_Amount best))
            (picked @ [best]))"

section \<open>The template\<close>

definition template_pick :: "crypto \<Rightarrow> chain \<Rightarrow> tx list" where
  "template_pick cr c =
     (let height = length (ch_blocks c);
          imm = immatureCoinbase (ch_blocks c) height;
          minfee = (if height \<ge> MinFeeHeight then minFeeForRO c (ch_blocks c) else 0)
      in pick_loop cr (ch_sigOK c) minfee imm (word_of_nat height)
           (template_groups cr (ch_mempool c)) (MaxBlockTxs - 1) [] (ch_state c) [])"

text \<open>\<open>now\<close> and \<open>now'\<close> are the two readings of the clock; an unmined block has no cached hash.\<close>

definition BuildTemplate :: "crypto \<Rightarrow> u64 \<Rightarrow> u64 \<Rightarrow> string \<Rightarrow> chain \<Rightarrow> err + block" where
  "BuildTemplate cr now now' coinbase c =
     (if \<not> ValidAddr coinbase then Inl BadCoinbaseAddress
      else if ch_blocks c = [] then Inl Panic
      else
        let height = blen (ch_blocks c);
            picked = template_pick cr c;
            fees = foldl (\<lambda>f t. f + tx_Fee t) 0 picked;
            cb = \<lparr>tx_FromPub = [], tx_To = coinbase, tx_Amount = BlockSubsidy height + fees, tx_Fee = 0,
                  tx_Nonce = height, tx_Sig = coinbaseTag, tx_id = [], tx_fromAddr = []\<rparr>;
            txs = cb # picked;
            mt = medianTime (ch_blocks c);
            time = (if now \<le> mt then mt + 1 else now)
        in if time > now' + MaxFutureDrift then Inl MedianTooFar
           else (case expectedTargetRO c (ch_blocks c) of
               None \<Rightarrow> Inl Panic
             | Some target \<Rightarrow>
                 (case TargetToHex target of
                    None \<Rightarrow> Inl Panic
                  | Some hex \<Rightarrow>
                      Inr \<lparr>blk_Version = 1, blk_Height = height, blk_Time = time,
                           blk_PrevHash = Hash cr (last (ch_blocks c)), blk_TxRoot = ComputeTxRoot cr txs,
                           blk_Target = hex, blk_Nonce = 0, blk_Txs = txs, blk_hash = []\<rparr>)))"

section \<open>What the groups hold\<close>

lemma groups_fold:
  assumes "gm_invar m"
  shows "gm_invar (foldl (\<lambda>m (i, t). case FromAddr cr t of Inl _ \<Rightarrow> m
               | Inr from \<Rightarrow> AList.update from (gm_get [] m from @ [t]) m) m mp)
    \<and> gm_get [] (foldl (\<lambda>m (i, t). case FromAddr cr t of Inl _ \<Rightarrow> m
               | Inr from \<Rightarrow> AList.update from (gm_get [] m from @ [t]) m) m mp) a
      = gm_get [] m a @ filter (\<lambda>t. tx_from cr t = Some a) (map snd mp)"
  using assms
proof (induction mp arbitrary: m)
  case (Cons p mp)
  obtain i t where p: "p = (i, t)" by (cases p)
  show ?case
  proof (cases "FromAddr cr t")
    case (Inl e)
    then show ?thesis using Cons.IH [OF Cons.prems] by (simp add: p tx_from_def)
  next
    case (Inr b)
    let ?m = "AList.update b (gm_get [] m b @ [t]) m"
    have "gm_invar ?m" using Cons.prems by (rule gmap.invar_put)
    then show ?thesis using Cons.IH [of ?m] Inr by (auto simp: p tx_from_def gm_get_def update_conv')
  qed
qed simp

lemma groups_mem:
  assumes "(a, s) \<in> set (template_groups cr mp)"
  shows "s = sort_key tx_Nonce (filter (\<lambda>t. tx_from cr t = Some a) (map snd mp))"
proof -
  let ?g = "foldl (\<lambda>m (i, t). case FromAddr cr t of Inl _ \<Rightarrow> m
      | Inr from \<Rightarrow> AList.update from (gm_get [] m from @ [t]) m) [] mp"
  note g = groups_fold [of "[]" cr mp, OF gm_invar_Nil]
  obtain u where u: "(a, u) \<in> set ?g" "s = sort_key tx_Nonce u"
    using assms by (auto simp: template_groups_def)
  have "map_of ?g a = Some u" using u(1) g unfolding gm_invar_def by (intro map_of_is_SomeI) auto
  then have "gm_get [] ?g a = u" by (simp add: gm_get_def)
  then show ?thesis using g [THEN conjunct2, of a] u(2) by (simp add: gm_get_def)
qed

lemma groups_key:
  assumes "t \<in> snd ` set mp" and "tx_from cr t = Some a"
  shows "\<exists>s. (a, s) \<in> set (template_groups cr mp)"
proof -
  let ?g = "foldl (\<lambda>m (i, t). case FromAddr cr t of Inl _ \<Rightarrow> m
      | Inr from \<Rightarrow> AList.update from (gm_get [] m from @ [t]) m) [] mp"
  have "t \<in> set (filter (\<lambda>t. tx_from cr t = Some a) (map snd mp))" using assms by simp
  then have "filter (\<lambda>t. tx_from cr t = Some a) (map snd mp) \<noteq> []" by (metis empty_iff list.set(1))
  then have "gm_get [] ?g a \<noteq> []"
    using groups_fold [of "[]" cr mp a, OF gm_invar_Nil] by (simp add: gm_get_def)
  then obtain u where "(a, u) \<in> set ?g" by (auto simp: gm_get_def split: option.splits dest: map_of_SomeD)
  then show ?thesis by (force simp: template_groups_def)
qed

lemma groups_distinct: "distinct (map fst (template_groups cr mp))"
  using groups_fold [of "[]" cr mp, OF gm_invar_Nil]
  by (simp add: template_groups_def gm_invar_def comp_def case_prod_beta)

section \<open>One round\<close>

lemma validateTx_cong:
  assumes "st_eq s u"
  shows "fst (validateTxAgainstState cr memo s t imm h) = fst (validateTxAgainstState cr memo u t imm h)"
  using assms by (simp add: validateTxAgainstState_def case_prod_beta Let_def ledger_simps st_eq_def split: option.split)

lemma validateTx_state: "st_eq (snd (validateTxAgainstState cr memo s t imm h)) s"
  by (simp add: validateTxAgainstState_def case_prod_beta Let_def ledger_simps split: option.split)

text \<open>A transaction competes in a round when it pays the floor and validates as it stands.\<close>

definition can_follow ::
  "crypto \<Rightarrow> sig_memo \<Rightarrow> u64 \<Rightarrow> (string, u64) gomap \<Rightarrow> u64 \<Rightarrow> state \<Rightarrow> tx \<Rightarrow> bool" where
  "can_follow cr memo minfee imm h st t \<longleftrightarrow>
     minfee \<le> tx_Fee t \<and> fst (validateTxAgainstState cr memo st t imm h) = None"

lemma can_follow_cong: "st_eq s u \<Longrightarrow> can_follow cr memo minfee imm h s t = can_follow cr memo minfee imm h u t"
  using validateTx_cong [of s u cr memo t imm h] by (simp add: can_follow_def)

lemma scan_sender_ok:
  assumes "scan_sender cr memo minfee imm h (idx, st, best) (a, s) = (idx1, st1, best1)"
  shows "st_eq st1 st \<and> (best1 = best
    \<or> (\<exists>t. best1 = Some (t, a) \<and> t \<in> set s \<and> can_follow cr memo minfee imm h st t))"
proof -
  define i0 where "i0 = gm_get 0 idx a"
  define st2 where "st2 = (if i0 < length s then snd (st_get st a) else st)"
  define n where "n = acc_Nonce (acct st2 a)"
  define i where "i = i0 + length (takeWhile (\<lambda>t. tx_Nonce t < n) (drop i0 s))"
  have e: "st_eq st2 st" by (simp add: st2_def ledger_simps)
  have v: "st_eq (snd (validateTxAgainstState cr memo st2 (s ! i) imm h)) st"
    using validateTx_state e st_eq_trans by blast
  have c: "fst (validateTxAgainstState cr memo st2 (s ! i) imm h) = fst (validateTxAgainstState cr memo st (s ! i) imm h)"
    by (rule validateTx_cong [OF e])
  have "scan_sender cr memo minfee imm h (idx, st, best) (a, s) =
      (let idx1 = AList.update a i idx
       in if i \<ge> length s then (idx1, st2, best)
          else if tx_Nonce (s ! i) \<noteq> n then (idx1, st2, best)
          else if tx_Fee (s ! i) < minfee then (idx1, st2, best)
          else (case validateTxAgainstState cr memo st2 (s ! i) imm h of
             (Some _, st3) \<Rightarrow> (idx1, st3, best)
           | (None, st3) \<Rightarrow> (idx1, st3, if better_pick cr (s ! i) best then Some (s ! i, a) else best)))"
    by (simp only: scan_sender_def prod.case Let_def i0_def [symmetric] st2_def [symmetric] n_def [symmetric] i_def [symmetric])
  then show ?thesis
    using assms e v c
    by (auto simp: Let_def can_follow_def not_le not_less split: if_splits prod.splits option.splits)
qed

lemma scan_ok:
  assumes "foldl (scan_sender cr memo minfee imm h) (idx, st, best) gs = (idx1, st1, best1)"
  shows "st_eq st1 st \<and> (best1 = best
    \<or> (\<exists>t a s. best1 = Some (t, a) \<and> (a, s) \<in> set gs \<and> t \<in> set s \<and> can_follow cr memo minfee imm h st t))"
  using assms
proof (induction gs arbitrary: idx st best)
  case (Cons g gs)
  obtain a s where g: "g = (a, s)" by (cases g)
  obtain i2 s2 b2 where r: "scan_sender cr memo minfee imm h (idx, st, best) (a, s) = (i2, s2, b2)"
    by (metis prod.collapse)
  note a = scan_sender_ok [OF r]
  have "foldl (scan_sender cr memo minfee imm h) (i2, s2, b2) gs = (idx1, st1, best1)"
    using Cons.prems by (simp add: g r)
  note b = Cons.IH [OF this]
  have cf: "can_follow cr memo minfee imm h s2 t = can_follow cr memo minfee imm h st t" for t
    using a by (intro can_follow_cong) simp
  have "st_eq st1 st" using a b st_eq_trans by blast
  moreover have "best1 = best \<or> (\<exists>t a s. best1 = Some (t, a) \<and> (a, s) \<in> set (g # gs) \<and> t \<in> set s
      \<and> can_follow cr memo minfee imm h st t)"
    using a b unfolding g cf list.set by blast
  ultimately show ?case by blast
qed simp

section \<open>The picked transactions validate in order\<close>

lemma validateBody_state:
  "validateBody cr memo minfee imm h seen w ts = (None, w') \<Longrightarrow>
    st_eq w' (foldl (applyTx cr) w ts) \<and> (\<forall>t \<in> set ts. \<not> IsCoinbase t)"
proof (induction ts arbitrary: seen w)
  case (Cons t ts)
  from Cons.prems show ?case
  proof (rule validateBody_Cons_ok)
    let ?w = "applyTx cr (snd (st_get w (from_or_empty cr t))) t"
    assume nc: "\<not> IsCoinbase t" and r: "validateBody cr memo minfee imm h (ID cr t # seen) ?w ts = (None, w')"
    note IH = Cons.IH [OF r]
    have "st_eq (foldl (applyTx cr) ?w ts) (foldl (applyTx cr) (applyTx cr w t) ts)"
      by (intro st_eq_applyTxs st_eq_applyTx) (simp add: ledger_simps)
    then show ?thesis using IH nc st_eq_trans by auto
  qed
qed simp

lemma validateBody_snoc:
  "validateBody cr memo minfee imm h seen w ts = (None, w1) \<Longrightarrow>
    validateBody cr memo minfee imm h seen w (ts @ [t])
      = validateBody cr memo minfee imm h (rev (map (ID cr) ts) @ seen) w1 [t]"
proof (induction ts arbitrary: seen w)
  case (Cons u ts)
  from Cons.prems show ?case
  proof (rule validateBody_Cons_ok)
    let ?w = "snd (st_get w (from_or_empty cr u))"
    assume a: "\<not> IsCoinbase u" "ID cr u \<notin> set seen" "minfee \<le> tx_Fee u"
      "validateTxAgainstState cr memo w u imm h = (None, ?w)"
      and r: "validateBody cr memo minfee imm h (ID cr u # seen) (applyTx cr ?w u) ts = (None, w1)"
    have "validateBody cr memo minfee imm h seen w (u # ts @ [t])
        = validateBody cr memo minfee imm h (ID cr u # seen) (applyTx cr ?w u) (ts @ [t])"
      using a by (simp add: applyTx_def leD)
    then show ?thesis using Cons.IH [OF r] by simp
  qed
qed simp

lemma validateBody_one:
  assumes "\<not> IsCoinbase t" and "ID cr t \<notin> set seen" and "can_follow cr memo minfee imm h w t"
  shows "validateBody cr memo minfee imm h seen w [t]
    = (None, applyTx cr (snd (st_get w (from_or_empty cr t))) t)"
proof -
  obtain w1 where v: "validateTxAgainstState cr memo w t imm h = (None, w1)"
    using assms(3) by (metis can_follow_def prod.collapse)
  then have "w1 = snd (st_get w (from_or_empty cr t))" using validateTx_ok by blast
  then show ?thesis using assms v by (simp add: can_follow_def applyTx_def leD)
qed

lemma pick_extends:
  assumes "validateBody cr memo minfee imm h [] st0 picked = (None, w)" and "st_eq st w"
    and "can_follow cr memo minfee imm h st t" and "\<not> IsCoinbase t"
    and "inj_on (ID cr) (insert t (set picked))" and "length picked < 2 ^ 64"
  shows "\<exists>w'. validateBody cr memo minfee imm h [] st0 (picked @ [t]) = (None, w') \<and> st_eq (applyTx cr st t) w'"
proof -
  let ?a = "from_or_empty cr t"
  note ws = validateBody_state [OF assms(1)]
  have cf: "can_follow cr memo minfee imm h w t" using assms(2,3) can_follow_cong by blast
  have n: "tx_Nonce t = acc_Nonce (acct w ?a)" using cf validateTx_nonce [of cr memo w t imm h] by (simp add: can_follow_def)
  have "t \<notin> set picked"
  proof
    assume "t \<in> set picked"
    then obtain i where i: "i < length picked" "t = picked ! i" by (metis in_set_conv_nth)
    have "\<not> IsCoinbase (picked ! i)" using assms(4) i(2) by simp
    from replayed_nonce [OF assms(1) i(1) assms(6) this] show False
      using ws n i(2) by (simp add: st_eq_def)
  qed
  then have new: "ID cr t \<notin> set (rev (map (ID cr) picked) @ [])" using assms(5) by (auto simp: inj_on_def)
  let ?w' = "applyTx cr (snd (st_get w ?a)) t"
  have "validateBody cr memo minfee imm h [] st0 (picked @ [t]) = (None, ?w')"
    unfolding validateBody_snoc [OF assms(1)] by (rule validateBody_one [OF assms(4) new cf])
  moreover have "st_eq (applyTx cr st t) ?w'"
    using assms(2) st_eq_trans st_eq_sym st_eq_get by (intro st_eq_applyTx) blast
  ultimately show ?thesis by blast
qed

lemma tx_from_facts: "tx_from cr t = Some a \<Longrightarrow> from_or_empty cr t = a \<and> \<not> IsCoinbase t"
  by (auto simp: tx_from_def from_or_empty_def FromAddr_def split: sum.splits)

lemma pick_loop_ok:
  assumes "\<And>a s t. (a, s) \<in> set groups \<Longrightarrow> t \<in> set s \<Longrightarrow> t \<in> P \<and> tx_from cr t = Some a"
    and "inj_on (ID cr) P" and "set picked \<subseteq> P" and "length picked + room < 2 ^ 64"
    and "validateBody cr memo minfee imm h [] st0 picked = (None, w)" and "st_eq st w"
  shows "(\<exists>w'. validateBody cr memo minfee imm h [] st0
        (pick_loop cr memo minfee imm h groups room idx st picked) = (None, w'))
    \<and> set (pick_loop cr memo minfee imm h groups room idx st picked) \<subseteq> P
    \<and> length (pick_loop cr memo minfee imm h groups room idx st picked) \<le> length picked + room"
  using assms(3-6)
proof (induction room arbitrary: idx st picked w)
  case (Suc room)
  obtain idx1 st1 best where r: "foldl (scan_sender cr memo minfee imm h) (idx, st, None) groups = (idx1, st1, best)"
    by (metis prod.collapse)
  note sc = scan_ok [OF r]
  show ?case
  proof (cases best)
    case None
    then show ?thesis using Suc.prems by (auto simp: r)
  next
    case (Some p)
    obtain t a s where t: "p = (t, a)" "(a, s) \<in> set groups" "t \<in> set s" "can_follow cr memo minfee imm h st t"
      using sc Some by auto
    note tp = assms(1) [OF t(2,3)]
    have tf: "from_or_empty cr t = a" "\<not> IsCoinbase t" using tx_from_facts tp by blast+
    have st1: "st_eq st1 w" using sc Suc.prems(4) st_eq_trans by blast
    have cf: "can_follow cr memo minfee imm h st1 t" using t(4) sc can_follow_cong by blast
    have inj: "inj_on (ID cr) (insert t (set picked))"
      using inj_on_subset [OF assms(2)] Suc.prems(1) tp by blast
    obtain w1 where w1: "validateBody cr memo minfee imm h [] st0 (picked @ [t]) = (None, w1)"
        "st_eq (applyTx cr st1 t) w1"
      using pick_extends [OF Suc.prems(3) st1 cf tf(2) inj] Suc.prems(2) by auto
    have ap: "st_credit (st_debit st1 a (tx_Amount t + tx_Fee t)) (tx_To t) (tx_Amount t) = applyTx cr st1 t"
      using tf by (simp add: applyTx_def)
    have "set (picked @ [t]) \<subseteq> P" "length (picked @ [t]) + room < 2 ^ 64" using Suc.prems(1,2) tp by auto
    from Suc.IH [OF this w1, of "AList.update a (gm_get 0 idx1 a + 1) idx1"]
    show ?thesis by (simp add: r Some t(1) ap)
  qed
qed (auto)

section \<open>Nothing minable is left behind\<close>

definition idx_ok :: "(string, tx list) gomap \<Rightarrow> (string, nat) gomap \<Rightarrow> state \<Rightarrow> bool" where
  "idx_ok groups idx st \<longleftrightarrow> (\<forall>(a, s) \<in> set groups. \<forall>k. k < gm_get 0 idx a \<longrightarrow> k < length s \<longrightarrow>
     tx_Nonce (s ! k) < acc_Nonce (acct st a))"

lemma idx_okD: "idx_ok groups idx st \<Longrightarrow> (a, s) \<in> set groups \<Longrightarrow> k < gm_get 0 idx a \<Longrightarrow> k < length s \<Longrightarrow>
    tx_Nonce (s ! k) < acc_Nonce (acct st a)"
  by (auto simp: idx_ok_def)

lemma can_follow_nonce: "can_follow cr memo minfee imm h st t \<Longrightarrow> tx_Nonce t = acc_Nonce (acct st (from_or_empty cr t))"
  using validateTx_nonce [of cr memo st t imm h] by (simp add: can_follow_def)

lemma scan_sender_idx:
  assumes "scan_sender cr memo minfee imm h (idx, st, best) (a, s) = (idx1, st1, best1)"
    and "sorted_wrt (\<lambda>x y. tx_Nonce x < tx_Nonce y) s" and "\<forall>t \<in> set s. from_or_empty cr t = a"
    and "\<And>k. k < gm_get 0 idx a \<Longrightarrow> k < length s \<Longrightarrow> tx_Nonce (s ! k) < acc_Nonce (acct st a)"
  shows "(\<forall>b. b \<noteq> a \<longrightarrow> gm_get 0 idx1 b = gm_get 0 idx b)
    \<and> (\<forall>k. k < gm_get 0 idx1 a \<longrightarrow> k < length s \<longrightarrow> tx_Nonce (s ! k) < acc_Nonce (acct st a))
    \<and> (best1 = None \<longrightarrow> best = None \<and> (\<forall>t \<in> set s. \<not> can_follow cr memo minfee imm h st t))
    \<and> (best1 = best \<or> gm_get 0 idx1 a < length s \<and> best1 = Some (s ! gm_get 0 idx1 a, a)
        \<and> tx_Nonce (s ! gm_get 0 idx1 a) = acc_Nonce (acct st a))"
proof -
  define i0 where "i0 = gm_get 0 idx a"
  define st2 where "st2 = (if i0 < length s then snd (st_get st a) else st)"
  define n where "n = acc_Nonce (acct st2 a)"
  define i where "i = i0 + length (takeWhile (\<lambda>t. tx_Nonce t < n) (drop i0 s))"
  have e: "st_eq st2 st" by (simp add: st2_def ledger_simps)
  then have n: "n = acc_Nonce (acct st a)" by (simp add: n_def st_eq_def)
  have before: "tx_Nonce (s ! k) < n" if "k < i" "k < length s" for k
  proof (cases "k < i0")
    case True
    then show ?thesis using assms(4) that(2) unfolding n i0_def by blast
  next
    case False
    let ?w = "takeWhile (\<lambda>t. tx_Nonce t < n) (drop i0 s)"
    have l: "k - i0 < length ?w" using False that by (simp add: i_def)
    have "?w ! (k - i0) = s ! k" using takeWhile_nth [OF l] False that(2) by simp
    then show ?thesis using nth_mem [OF l] by (metis set_takeWhileD)
  qed
  have nth: "\<not> tx_Nonce (s ! i) < n" if "i < length s"
    using that nth_length_takeWhile [of "\<lambda>t. tx_Nonce t < n" "drop i0 s"] by (simp add: i_def)
  have after: "n < tx_Nonce (s ! k)" if "i < k" "k < length s" for k
  proof -
    have "n \<le> tx_Nonce (s ! i)" using nth that by (simp add: not_less)
    moreover have "tx_Nonce (s ! i) < tx_Nonce (s ! k)" using sorted_wrt_nth_less [OF assms(2) that] .
    ultimately show ?thesis by (rule le_less_trans)
  qed
  have cf: "tx_Nonce t = n" if "t \<in> set s" "can_follow cr memo minfee imm h st t" for t
    using can_follow_nonce [OF that(2)] assms(3) that(1) n by simp
  have none: "\<not> can_follow cr memo minfee imm h st t" if t: "t \<in> set s" "length s \<le> i \<or> \<not> can_follow cr memo minfee imm h st (s ! i)" for t
  proof
    assume c: "can_follow cr memo minfee imm h st t"
    obtain k where k: "k < length s" "t = s ! k" using t(1) by (metis in_set_conv_nth)
    have "tx_Nonce (s ! k) = n" using cf [OF t(1) c] k by simp
    then have "\<not> k < i" "\<not> i < k" using before [of k] after [of k] k(1) by auto
    then have "k = i" by simp
    then show False using t(2) k c by auto
  qed
  have c: "fst (validateTxAgainstState cr memo st2 (s ! i) imm h) = fst (validateTxAgainstState cr memo st (s ! i) imm h)"
    by (rule validateTx_cong [OF e])
  have g: "gm_get 0 (AList.update a i idx) b = (if b = a then i else gm_get 0 idx b)" for b
    by (simp add: gm_get_def update_conv')
  have r: "(let idx1 = AList.update a i idx
       in if i \<ge> length s then (idx1, st2, best)
          else if tx_Nonce (s ! i) \<noteq> n then (idx1, st2, best)
          else if tx_Fee (s ! i) < minfee then (idx1, st2, best)
          else (case validateTxAgainstState cr memo st2 (s ! i) imm h of
             (Some _, st3) \<Rightarrow> (idx1, st3, best)
           | (None, st3) \<Rightarrow> (idx1, st3, if better_pick cr (s ! i) best then Some (s ! i, a) else best)))
      = (idx1, st1, best1)"
    using assms(1)
    by (simp only: scan_sender_def prod.case Let_def i0_def [symmetric] st2_def [symmetric] n_def [symmetric] i_def [symmetric])
  have idx1: "idx1 = AList.update a i idx"
    using r by (auto simp: Let_def split: if_splits prod.splits option.splits)
  have "best1 = best \<or> i < length s \<and> best1 = Some (s ! i, a) \<and> tx_Nonce (s ! i) = n"
    using r by (auto simp: Let_def split: if_splits prod.splits option.splits)
  moreover have "best1 = None \<longrightarrow> best = None \<and> (\<forall>t \<in> set s. \<not> can_follow cr memo minfee imm h st t)"
  proof
    assume b1: "best1 = None"
    have b: "best = None" using r b1 by (auto simp: Let_def split: if_splits prod.splits option.splits)
    have "length s \<le> i \<or> \<not> can_follow cr memo minfee imm h st (s ! i)"
    proof (rule ccontr)
      assume x: "\<not> (length s \<le> i \<or> \<not> can_follow cr memo minfee imm h st (s ! i))"
      then have "tx_Nonce (s ! i) = n" "minfee \<le> tx_Fee (s ! i)"
          "fst (validateTxAgainstState cr memo st2 (s ! i) imm h) = None"
        using cf [of "s ! i"] c by (auto simp: can_follow_def)
      then show False
        using r x b b1 by (auto simp: Let_def better_pick_def leD split: if_splits prod.splits option.splits)
    qed
    then show "best = None \<and> (\<forall>t \<in> set s. \<not> can_follow cr memo minfee imm h st t)" using b none by blast
  qed
  ultimately show ?thesis using before by (simp add: idx1 g n)
qed

definition groups_ok :: "crypto \<Rightarrow> (string, tx list) gomap \<Rightarrow> bool" where
  "groups_ok cr gs \<longleftrightarrow> distinct (map fst gs)
     \<and> (\<forall>(a, s) \<in> set gs. sorted_wrt (\<lambda>x y. tx_Nonce x < tx_Nonce y) s \<and> (\<forall>t \<in> set s. tx_from cr t = Some a))"

lemma idx_ok_Cons: "idx_ok ((a, s) # gs) idx st \<longleftrightarrow>
    (\<forall>k. k < gm_get 0 idx a \<longrightarrow> k < length s \<longrightarrow> tx_Nonce (s ! k) < acc_Nonce (acct st a)) \<and> idx_ok gs idx st"
  by (simp add: idx_ok_def)

lemma idx_ok_cong:
  assumes "\<And>a. a \<in> fst ` set gs \<Longrightarrow> gm_get 0 idx a = gm_get 0 idx' a" and "st_eq st st'"
  shows "idx_ok gs idx st = idx_ok gs idx' st'"
  using assms by (fastforce simp: idx_ok_def st_eq_def)

lemma scan_idx:
  assumes "foldl (scan_sender cr memo minfee imm h) (idx, st, best) gs = (idx1, st1, best1)"
    and "groups_ok cr gs" and "idx_ok gs idx st"
  shows "(\<forall>b. b \<notin> fst ` set gs \<longrightarrow> gm_get 0 idx1 b = gm_get 0 idx b) \<and> idx_ok gs idx1 st
    \<and> (best1 = None \<longrightarrow> best = None \<and> (\<forall>(a, s) \<in> set gs. \<forall>t \<in> set s. \<not> can_follow cr memo minfee imm h st t))
    \<and> (best1 = best \<or> (\<exists>a s. (a, s) \<in> set gs \<and> gm_get 0 idx1 a < length s
        \<and> best1 = Some (s ! gm_get 0 idx1 a, a) \<and> tx_Nonce (s ! gm_get 0 idx1 a) = acc_Nonce (acct st a)))"
  using assms
proof (induction gs arbitrary: idx st best)
  case (Cons g gs)
  obtain a s where g: "g = (a, s)" by (cases g)
  obtain i2 s2 b2 where r: "scan_sender cr memo minfee imm h (idx, st, best) (a, s) = (i2, s2, b2)"
    by (metis prod.collapse)
  have st: "st_eq s2 st" using scan_sender_ok [OF r] by blast
  have gk: "sorted_wrt (\<lambda>x y. tx_Nonce x < tx_Nonce y) s" "\<forall>t \<in> set s. from_or_empty cr t = a" "groups_ok cr gs"
      "a \<notin> fst ` set gs"
    using Cons.prems(2) tx_from_facts by (auto simp: g groups_ok_def)
  have ia: "tx_Nonce (s ! k) < acc_Nonce (acct st a)" if "k < gm_get 0 idx a" "k < length s" for k
    using Cons.prems(3) that by (simp add: g idx_ok_Cons)
  note one = scan_sender_idx [OF r gk(1,2) ia]
  have rest: "foldl (scan_sender cr memo minfee imm h) (i2, s2, b2) gs = (idx1, st1, best1)"
    using Cons.prems(1) by (simp add: g r)
  have "idx_ok gs i2 s2 = idx_ok gs idx st"
    using one gk(4) st by (intro idx_ok_cong) auto
  then have "idx_ok gs i2 s2" using Cons.prems(3) by (simp add: g idx_ok_Cons)
  note IH = Cons.IH [OF rest gk(3) this]
  have cf: "can_follow cr memo minfee imm h s2 t = can_follow cr memo minfee imm h st t" for t
    by (rule can_follow_cong [OF st])
  have ac: "acct s2 b = acct st b" for b using st by (simp add: st_eq_def)
  have ia1: "gm_get 0 idx1 a = gm_get 0 i2 a" using IH gk(4) by blast
  have "idx_ok gs idx1 st" using IH idx_ok_cong [of gs idx1 idx1 s2 st] st by simp
  then have 1: "idx_ok (g # gs) idx1 st" using one ia1 by (simp add: g idx_ok_Cons)
  have 2: "\<forall>b. b \<notin> fst ` set (g # gs) \<longrightarrow> gm_get 0 idx1 b = gm_get 0 idx b" using IH one by (simp add: g)
  have 3: "best1 = None \<longrightarrow> best = None \<and> (\<forall>(a, s) \<in> set (g # gs). \<forall>t \<in> set s. \<not> can_follow cr memo minfee imm h st t)"
    using IH one unfolding cf by (simp add: g)
  have "best1 = best \<or> (\<exists>a s. (a, s) \<in> set (g # gs) \<and> gm_get 0 idx1 a < length s
        \<and> best1 = Some (s ! gm_get 0 idx1 a, a) \<and> tx_Nonce (s ! gm_get 0 idx1 a) = acc_Nonce (acct st a))"
  proof (cases "best1 = b2")
    case True
    have "best1 = best \<or> gm_get 0 idx1 a < length s \<and> best1 = Some (s ! gm_get 0 idx1 a, a)
        \<and> tx_Nonce (s ! gm_get 0 idx1 a) = acc_Nonce (acct st a)"
      using one unfolding True ia1 by blast
    then show ?thesis
    proof
      assume x: "gm_get 0 idx1 a < length s \<and> best1 = Some (s ! gm_get 0 idx1 a, a)
        \<and> tx_Nonce (s ! gm_get 0 idx1 a) = acc_Nonce (acct st a)"
      have "(a, s) \<in> set (g # gs)" by (simp add: g)
      then show ?thesis using x by blast
    qed blast
  next
    case False
    then obtain a' s' where x: "(a', s') \<in> set gs" "gm_get 0 idx1 a' < length s' \<and> best1 = Some (s' ! gm_get 0 idx1 a', a')
        \<and> tx_Nonce (s' ! gm_get 0 idx1 a') = acc_Nonce (acct st a')"
      using IH unfolding ac by blast
    have "(a', s') \<in> set (g # gs)" using x(1) by simp
    then show ?thesis using x(2) by blast
  qed
  then show ?case using 1 2 3 by blast
qed (simp add: idx_ok_def)

lemma pick_loop_complete:
  assumes "groups_ok cr groups" and "idx_ok groups idx st"
    and "\<forall>a. unat (acc_Nonce (acct st a)) + room < 2 ^ 64"
    and "length (pick_loop cr memo minfee imm h groups room idx st picked) < length picked + room"
    and "(a, s) \<in> set groups" and "t \<in> set s"
  shows "take (length picked) (pick_loop cr memo minfee imm h groups room idx st picked) = picked
    \<and> \<not> can_follow cr memo minfee imm h
        (foldl (applyTx cr) st (drop (length picked) (pick_loop cr memo minfee imm h groups room idx st picked))) t"
  using assms(2-4)
proof (induction room arbitrary: idx st picked)
  case (Suc room)
  obtain idx1 st1 best where r: "foldl (scan_sender cr memo minfee imm h) (idx, st, None) groups = (idx1, st1, best)"
    by (metis prod.collapse)
  note si = scan_idx [OF r assms(1) Suc.prems(1)]
  have st: "st_eq st1 st" using scan_ok [OF r] by blast
  show ?case
  proof (cases best)
    case None
    then show ?thesis using si assms(5,6) by (auto simp: r)
  next
    case (Some p)
    obtain b u where b: "(b, u) \<in> set groups" "gm_get 0 idx1 b < length u" "p = (u ! gm_get 0 idx1 b, b)"
        "tx_Nonce (u ! gm_get 0 idx1 b) = acc_Nonce (acct st b)"
      using si Some by auto
    define x where "x = u ! gm_get 0 idx1 b"
    define idx2 where "idx2 = AList.update b (gm_get 0 idx1 b + 1) idx1"
    have xu: "x \<in> set u" using b(2) by (simp add: x_def)
    have xf: "from_or_empty cr x = b" "\<not> IsCoinbase x"
      using assms(1) b(1) xu tx_from_facts by (fastforce simp: groups_ok_def)+
    have ap: "st_credit (st_debit st1 b (tx_Amount x + tx_Fee x)) (tx_To x) (tx_Amount x) = applyTx cr st1 x"
      using xf by (simp add: applyTx_def)
    have eq: "st_eq (applyTx cr st1 x) (applyTx cr st x)" by (rule st_eq_applyTx [OF st])
    have na: "acc_Nonce (acct (applyTx cr st1 x) d) = acc_Nonce (acct st d) + (if d = b then 1 else 0)" for d
      using eq nonce_applyTx [of cr st x d] xf by (simp add: st_eq_def)
    have un: "unat (acc_Nonce (acct st d) + 1) = unat (acc_Nonce (acct st d)) + 1" for d
    proof -
      have "unat (acc_Nonce (acct st d)) + 1 < 2 ^ 64" using Suc.prems(2) [rule_format, of d] by linarith
      then show ?thesis by (simp add: unat_word_ariths)
    qed
    have nb: "\<forall>d. unat (acc_Nonce (acct (applyTx cr st1 x) d)) + room < 2 ^ 64"
    proof
      fix d
      have "unat (acc_Nonce (acct st d)) + Suc room < 2 ^ 64" using Suc.prems(2) by blast
      then show "unat (acc_Nonce (acct (applyTx cr st1 x) d)) + room < 2 ^ 64"
        using un [of d] by (cases "d = b") (simp_all add: na)
    qed
    have idx2: "idx_ok groups idx2 (applyTx cr st1 x)"
      unfolding idx_ok_def
    proof (safe)
      fix d v k assume d: "(d, v) \<in> set groups" "k < gm_get 0 idx2 d" "k < length v"
      have g2: "gm_get 0 idx2 d = (if d = b then gm_get 0 idx1 b + 1 else gm_get 0 idx1 d)"
        by (simp add: idx2_def gm_get_def update_conv')
      have le: "acc_Nonce (acct st d) \<le> acc_Nonce (acct (applyTx cr st1 x) d)"
        using un [of d] by (cases "d = b") (simp_all add: na word_le_nat_alt)
      show "tx_Nonce (v ! k) < acc_Nonce (acct (applyTx cr st1 x) d)"
      proof (cases "k < gm_get 0 idx1 d")
        case True
        then have "tx_Nonce (v ! k) < acc_Nonce (acct st d)" using si idx_okD d by blast
        then show ?thesis using le by (rule less_le_trans)
      next
        case False
        then have k: "d = b" "k = gm_get 0 idx1 b" using d(2) g2 by (auto split: if_splits)
        have "v = u" using d(1) b(1) assms(1) k(1) by (auto simp: groups_ok_def dest: eq_key_imp_eq_value)
        then show ?thesis using b(4) un [of b] by (simp add: k na word_less_nat_alt)
      qed
    qed
    have out: "pick_loop cr memo minfee imm h groups (Suc room) idx st picked
        = pick_loop cr memo minfee imm h groups room idx2 (applyTx cr st1 x) (picked @ [x])"
      using ap by (simp add: r Some b(3) idx2_def x_def)
    let ?o = "pick_loop cr memo minfee imm h groups room idx2 (applyTx cr st1 x) (picked @ [x])"
    have "length ?o < length (picked @ [x]) + room" using Suc.prems(3) unfolding out by simp
    note IH = Suc.IH [OF idx2 nb this]
    then have o: "?o = (picked @ [x]) @ drop (Suc (length picked)) ?o" by (metis append_take_drop_id length_append_singleton)
    have dr: "drop (length picked) ?o = x # drop (Suc (length picked)) ?o" by (subst o) simp
    have tk: "take (length picked) ?o = picked" by (subst o) simp
    have "st_eq (foldl (applyTx cr) (applyTx cr st1 x) (drop (Suc (length picked)) ?o))
        (foldl (applyTx cr) st (drop (length picked) ?o))"
      unfolding dr foldl_Cons by (rule st_eq_applyTxs [OF eq])
    from can_follow_cong [OF this] show ?thesis using IH tk unfolding out by simp
  qed
qed simp

section \<open>Properties\<close>

lemma template_pick_ok:
  assumes "pool_ok cr c"
  shows "(\<exists>w. validateBody cr (ch_sigOK c)
        (if length (ch_blocks c) \<ge> MinFeeHeight then minFeeForRO c (ch_blocks c) else 0)
        (immatureCoinbase (ch_blocks c) (length (ch_blocks c))) (blen (ch_blocks c)) [] (ch_state c)
        (template_pick cr c) = (None, w))
    \<and> set (template_pick cr c) \<subseteq> snd ` set (ch_mempool c) \<and> length (template_pick cr c) \<le> MaxBlockTxs - 1"
proof -
  let ?P = "snd ` set (ch_mempool c)"
  have id: "map_of (ch_mempool c) (ID cr t) = Some t" if t: "t \<in> ?P" for t
  proof -
    obtain i where i: "(i, t) \<in> set (ch_mempool c)" using t by auto
    then have "map_of (ch_mempool c) i = Some t"
      using pool_okD(6) [OF assms] by (simp add: gm_invar_def)
    then show ?thesis using pool_okD(3) [OF assms] by metis
  qed
  have g: "t \<in> ?P \<and> tx_from cr t = Some a" if "(a, s) \<in> set (template_groups cr (ch_mempool c))" "t \<in> set s" for a s t
    using groups_mem [OF that(1)] that(2) by auto
  have inj: "inj_on (ID cr) ?P" by (rule inj_onI) (metis id option.inject)
  show ?thesis
    unfolding template_pick_def Let_def
    using pick_loop_ok [where groups = "template_groups cr (ch_mempool c)" and P = ?P and picked = "[]"
        and room = "MaxBlockTxs - 1" and st = "ch_state c" and w = "ch_state c" and cr = cr, OF g inj]
    by simp
qed

lemma foldl_fees: "\<forall>t \<in> set ts. \<not> IsCoinbase t \<Longrightarrow> foldl (\<lambda>f t. f + tx_Fee t) a ts = a + fees_of ts"
  by (induction ts arbitrary: a) (simp_all add: fees_of_def add.assoc)

lemma BuildTemplate_fields:
  assumes "BuildTemplate cr now now' coinbase c = Inr b"
  obtains target h where "ValidAddr coinbase" "ch_blocks c \<noteq> []" "expectedTargetRO c (ch_blocks c) = Some target"
    "TargetToHex target = Some h" "blk_Time b \<le> now' + MaxFutureDrift"
    "b = \<lparr>blk_Version = 1, blk_Height = blen (ch_blocks c),
       blk_Time = (if now \<le> medianTime (ch_blocks c) then medianTime (ch_blocks c) + 1 else now),
       blk_PrevHash = Hash cr (last (ch_blocks c)), blk_TxRoot = ComputeTxRoot cr (blk_Txs b), blk_Target = h,
       blk_Nonce = 0, blk_Txs = blk_Txs b, blk_hash = []\<rparr>"
    "blk_Txs b = \<lparr>tx_FromPub = [], tx_To = coinbase,
       tx_Amount = BlockSubsidy (blen (ch_blocks c)) + foldl (\<lambda>f t. f + tx_Fee t) 0 (template_pick cr c), tx_Fee = 0,
       tx_Nonce = blen (ch_blocks c), tx_Sig = coinbaseTag, tx_id = [], tx_fromAddr = []\<rparr> # template_pick cr c"
  using assms by (auto simp: BuildTemplate_def Let_def not_less split: if_splits option.splits)

lemma template_header:
  assumes "BuildTemplate cr now now' coinbase c = Inr b" and "gates_ok (ch_blocks c) c"
    and "digest32 cr" and "valid64Hex (Hash cr (last (ch_blocks c)))"
  shows "header_fields_ok (b\<lparr>blk_Nonce := n\<rparr>) \<and> expectedTarget (ch_blocks c) = target_opt (b\<lparr>blk_Nonce := n\<rparr>)
    \<and> target_opt (b\<lparr>blk_Nonce := n\<rparr>) \<noteq> None"
proof -
  from assms(1) show ?thesis
  proof (rule BuildTemplate_fields)
    fix target h
    assume t: "expectedTargetRO c (ch_blocks c) = Some target" "TargetToHex target = Some h"
      and b: "b = \<lparr>blk_Version = 1, blk_Height = blen (ch_blocks c),
       blk_Time = (if now \<le> medianTime (ch_blocks c) then medianTime (ch_blocks c) + 1 else now),
       blk_PrevHash = Hash cr (last (ch_blocks c)), blk_TxRoot = ComputeTxRoot cr (blk_Txs b), blk_Target = h,
       blk_Nonce = 0, blk_Txs = blk_Txs b, blk_hash = []\<rparr>"
    have e: "expectedTarget (ch_blocks c) = Some target" using t(1) expectedTargetRO_eq [OF assms(2)] by simp
    obtain raw where raw: "length raw = 32" "int (from_be raw) = target" "TargetToHex target = Some (hex_encode raw)"
      using expected.rule_fits [OF e] by (metis TargetToHex_decode)
    have h: "h = hex_encode raw" using t(2) raw(3) by simp
    have bf: "blk_PrevHash b = Hash cr (last (ch_blocks c))" "blk_TxRoot b = ComputeTxRoot cr (blk_Txs b)" "blk_Target b = h"
      by (subst b, simp)+
    have x: "valid64Hex (blk_TxRoot b)" unfolding bf ComputeTxRoot_def by (rule valid64Hex_digest [OF assms(3)])
    have y: "valid64Hex h" using raw(1) by (simp add: h valid64Hex_def)
    have z: "TargetInt (b\<lparr>blk_Nonce := n\<rparr>) = Inr target" using raw(1,2) by (simp add: TargetInt_def bf h)
    show ?thesis using x y z e assms(4) by (simp add: header_fields_ok_def bf target_opt_def)
  qed
qed

lemma template_valid:
  assumes "BuildTemplate cr now now' coinbase c = Inr b" and "pool_ok cr c" and "gates_ok (ch_blocks c) c"
    and "length (ch_blocks c) < 2 ^ 64" and "digest32 cr" and "valid64Hex (Hash cr (last (ch_blocks c)))"
    and "map_of (ch_Checkpoints c) (blen (ch_blocks c)) = None"
    and "\<forall>t \<in> snd ` set (ch_mempool c).
      (ID cr t, blen (ch_blocks c)) \<in> set (ch_sigOK c) \<longrightarrow> CheckSigAt cr t (blen (ch_blocks c)) = None"
    and "medianTime (ch_blocks c) \<noteq> - 1" and "now' \<le> later" and "later \<le> later + MaxFutureDrift"
    and "pow_passes pow (fst (the (epochSeedFor cr (ch_blocks c) (blk_Height b)))) (b\<lparr>blk_Nonce := n\<rparr>)"
  shows "block_valid cr pow later (ch_Checkpoints c) (ch_blocks c) (ch_state c) (b\<lparr>blk_Nonce := n\<rparr>)"
proof -
  note hd = template_header [OF assms(1,3,5,6), of n]
  note pk = template_pick_ok [OF assms(2)]
  from assms(1) show ?thesis
  proof (rule BuildTemplate_fields)
    fix target h
    assume va: "ValidAddr coinbase" and ne: "ch_blocks c \<noteq> []" and tm: "blk_Time b \<le> now' + MaxFutureDrift"
      and b: "b = \<lparr>blk_Version = 1, blk_Height = blen (ch_blocks c),
       blk_Time = (if now \<le> medianTime (ch_blocks c) then medianTime (ch_blocks c) + 1 else now),
       blk_PrevHash = Hash cr (last (ch_blocks c)), blk_TxRoot = ComputeTxRoot cr (blk_Txs b), blk_Target = h,
       blk_Nonce = 0, blk_Txs = blk_Txs b, blk_hash = []\<rparr>"
      and tx: "blk_Txs b = \<lparr>tx_FromPub = [], tx_To = coinbase,
       tx_Amount = BlockSubsidy (blen (ch_blocks c)) + foldl (\<lambda>f t. f + tx_Fee t) 0 (template_pick cr c), tx_Fee = 0,
       tx_Nonce = blen (ch_blocks c), tx_Sig = coinbaseTag, tx_id = [], tx_fromAddr = []\<rparr> # template_pick cr c"
    have bf: "blk_Version b = 1" "blk_Height b = blen (ch_blocks c)" "blk_PrevHash b = Hash cr (last (ch_blocks c))"
        "blk_TxRoot b = ComputeTxRoot cr (blk_Txs b)"
        "blk_Time b = (if now \<le> medianTime (ch_blocks c) then medianTime (ch_blocks c) + 1 else now)"
      by (subst b, simp)+
    have un: "unat (blen (ch_blocks c)) = length (ch_blocks c)" using assms(4) by (simp add: unat_of_nat)
    have time: "medianTime (ch_blocks c) < blk_Time b" unfolding bf
      using assms(9) by (simp add: not_le word_less_inc)
    have "MaxFutureDrift \<le> MaxFutureDrift + later"
      using assms(11) unfolding no_olen_add by (simp only: add.commute)
    then have "MaxFutureDrift + now' \<le> MaxFutureDrift + later" by (rule word_plus_mono_right [OF assms(10)])
    then have "now' + MaxFutureDrift \<le> later + MaxFutureDrift" by (simp only: add.commute)
    then have time2: "blk_Time b \<le> later + MaxFutureDrift" using tm by (rule order_trans [rotated])
    obtain w where w: "validateBody cr (ch_sigOK c)
        (if length (ch_blocks c) \<ge> MinFeeHeight then minFeeForRO c (ch_blocks c) else 0)
        (immatureCoinbase (ch_blocks c) (length (ch_blocks c))) (blen (ch_blocks c)) [] (ch_state c)
        (template_pick cr c) = (None, w)" using pk by blast
    have nc: "\<forall>t \<in> set (template_pick cr c). \<not> IsCoinbase t" using validateBody_state [OF w] by blast
    have "\<forall>t \<in> set (template_pick cr c).
        (ID cr t, blen (ch_blocks c)) \<in> set (ch_sigOK c) \<longrightarrow> CheckSigAt cr t (blen (ch_blocks c)) = None"
      by (intro ballI bspec [OF assms(8)] subsetD [OF pk [THEN conjunct2, THEN conjunct1]])
    from validateBody_memo [OF this] w
    have w': "validateBody cr [] (if length (ch_blocks c) \<ge> MinFeeHeight then minFeeFor (ch_blocks c) else 0)
        (immatureCoinbase (ch_blocks c) (length (ch_blocks c))) (blen (ch_blocks c)) [] (ch_state c)
        (template_pick cr c) = (None, w)"
      unfolding minFeeForRO_eq [OF assms(3)] by simp
    let ?cb = "hd (blk_Txs b)"
    have cb: "IsCoinbase ?cb" "tx_Nonce ?cb = blen (ch_blocks c)" "tx_To ?cb = coinbase"
        "tx_Amount ?cb = BlockSubsidy (blen (ch_blocks c)) + fees_of (template_pick cr c)"
        "blk_Txs b = ?cb # template_pick cr c"
      using foldl_fees [OF nc, of 0] by (simp_all add: tx IsCoinbase_def)
    have "TotalFees (b\<lparr>blk_Nonce := n\<rparr>) = fees_of (?cb # template_pick cr c)" unfolding TotalFees_eq using cb(5) by simp
    then have fees: "TotalFees (b\<lparr>blk_Nonce := n\<rparr>) = fees_of (template_pick cr c)" using cb(1) by (simp add: fees_of_def)
    have len: "length (blk_Txs b) \<le> MaxBlockTxs" using pk by (subst cb(5)) simp
    have txs: "blk_Txs (b\<lparr>blk_Nonce := n\<rparr>) = ?cb # template_pick cr c" using cb(5) by simp
    have "body_valid cr (ch_blocks c) (ch_state c) (b\<lparr>blk_Nonce := n\<rparr>)"
      unfolding body_valid_def txs list.case fees
      using w' va un len cb bf(2,4) by simp
    then show ?thesis
      using hd time time2 ne bf(1-3) assms(7,12) by (simp add: block_valid_def)
  qed
qed

text \<open>(C13)
  Templates are valid work: when \<open>BuildTemplate\<close> hands out a block, then whatever nonce meets the target
  turns it into a valid next block of the chain, for a clock no earlier than the second reading. The
  hypotheses: the mempool and activation caches are coherent, the signature memo is sound for the
  pending transactions, the tip's hash is a digest, and the clock does not overflow.
\<close>

theorem template_becomes_valid:
  assumes "BuildTemplate cr now now' coinbase c = Inr b" and "pool_ok cr c" and "gates_ok (ch_blocks c) c"
    and "length (ch_blocks c) < 2 ^ 64" and "digest32 cr" and "valid64Hex (Hash cr (last (ch_blocks c)))"
    and "map_of (ch_Checkpoints c) (blen (ch_blocks c)) = None"
    and "\<forall>t \<in> snd ` set (ch_mempool c).
      (ID cr t, blen (ch_blocks c)) \<in> set (ch_sigOK c) \<longrightarrow> CheckSigAt cr t (blen (ch_blocks c)) = None"
    and "medianTime (ch_blocks c) \<noteq> - 1" and "now' \<le> later" and "later \<le> later + MaxFutureDrift"
    and "pow_passes pow (fst (the (epochSeedFor cr (ch_blocks c) (blk_Height b)))) (b\<lparr>blk_Nonce := n\<rparr>)"
  shows "block_valid cr pow later (ch_Checkpoints c) (ch_blocks c) (ch_state c) (b\<lparr>blk_Nonce := n\<rparr>)"
  by (rule template_valid [OF assms])

lemma template_groups_ok:
  assumes "pool_ok cr c"
  shows "groups_ok cr (template_groups cr (ch_mempool c))"
  unfolding groups_ok_def
proof (intro conjI ballI, simp only: groups_distinct, clarify, intro conjI)
  fix a s assume g: "(a, s) \<in> set (template_groups cr (ch_mempool c))"
  let ?l = "filter (\<lambda>t. tx_from cr t = Some a) (map snd (ch_mempool c))"
  note s = groups_mem [OF g]
  show "\<forall>t \<in> set s. tx_from cr t = Some a" using s by auto
  have d: "distinct (map fst (ch_mempool c))" using pool_okD(6) [OF assms] by (simp add: gm_invar_def)
  have id: "ID cr (snd p) = fst p" if p: "p \<in> set (ch_mempool c)" for p
    using pool_okD(3) [OF assms, of "fst p" "snd p"] d p by (cases p) simp
  have m: "map (ID cr) (map snd (ch_mempool c)) = map fst (ch_mempool c)" using id by simp
  have "distinct (map (ID cr) (map snd (ch_mempool c)))" unfolding m by (rule d)
  then have "distinct (map snd (ch_mempool c))" using distinct_map by blast
  then have dl: "distinct s" unfolding s by simp
  have look: "map_of (ch_mempool c) (ID cr t) = Some t" if t: "t \<in> set s" for t
  proof -
    have "t \<in> snd ` set (ch_mempool c)" using t s by auto
    then obtain p where p: "p \<in> set (ch_mempool c)" "t = snd p" by blast
    then show ?thesis using d id [OF p(1)] by (metis map_of_eq_Some_iff prod.collapse)
  qed
  have "inj_on tx_Nonce (set s)"
  proof (rule inj_onI)
    fix x y assume x: "x \<in> set s" and y: "y \<in> set s" and n: "tx_Nonce x = tx_Nonce y"
    have "tx_from cr x = Some a" "tx_from cr y = Some a" using x y s by auto
    then have m: "x \<in> set (gm_get [] (ch_bySender c) a)" "y \<in> set (gm_get [] (ch_bySender c) a)"
      using look x y unfolding pool_okD(2) [OF assms] by blast+
    have "sorted_wrt (\<lambda>x y. tx_Nonce x < tx_Nonce y) (gm_get [] (ch_bySender c) a)" by (rule pool_okD(1) [OF assms])
    then have "sorted_wrt (<) (map tx_Nonce (gm_get [] (ch_bySender c) a))" by (simp add: sorted_wrt_map)
    then have "distinct (map tx_Nonce (gm_get [] (ch_bySender c) a))" by (simp only: strict_sorted_iff)
    then show "x = y" using m n by (auto simp: distinct_map inj_on_def)
  qed
  then have "distinct (map tx_Nonce s)" using dl by (simp add: distinct_map)
  moreover have "sorted (map tx_Nonce s)" unfolding s by simp
  ultimately have "sorted_wrt (<) (map tx_Nonce s)" by (simp only: strict_sorted_iff)
  then show "sorted_wrt (\<lambda>x y. tx_Nonce x < tx_Nonce y) s" by (simp add: sorted_wrt_map)
qed

text \<open>(C29)
  Nothing minable is left out: when the template has room left, no pending transaction could follow
  the picked ones - each either pays less than the floor or fails validation in the state they lead
  to. The hypothesis on nonces excludes accounts within 199 transactions of the 64-bit wrap.
\<close>

theorem template_leaves_nothing:
  assumes "pool_ok cr c" and "\<forall>a. unat (acc_Nonce (acct (ch_state c) a)) + 199 < 2 ^ 64"
    and "length (template_pick cr c) < 199" and "t \<in> snd ` set (ch_mempool c)"
  shows "\<not> can_follow cr (ch_sigOK c)
    (if length (ch_blocks c) \<ge> MinFeeHeight then minFeeForRO c (ch_blocks c) else 0)
    (immatureCoinbase (ch_blocks c) (length (ch_blocks c))) (blen (ch_blocks c))
    (foldl (applyTx cr) (ch_state c) (template_pick cr c)) t"
proof -
  obtain p where p: "p \<in> set (ch_mempool c)" "t = snd p" using assms(4) by blast
  have "map_of (ch_mempool c) (fst p) = Some t"
    using p pool_okD(6) [OF assms(1)] unfolding gm_invar_def by (metis map_of_eq_Some_iff prod.collapse)
  then obtain a where a: "tx_from cr t = Some a" using pool_okD(4) [OF assms(1)] by auto
  then obtain s where s: "(a, s) \<in> set (template_groups cr (ch_mempool c))"
    using groups_key [OF assms(4)] by blast
  have ts: "t \<in> set s" using groups_mem [OF s] a assms(4) by auto
  have i: "idx_ok (template_groups cr (ch_mempool c)) [] (ch_state c)" by (simp add: idx_ok_def gm_get_def)
  have room: "\<forall>a. unat (acc_Nonce (acct (ch_state c) a)) + (MaxBlockTxs - 1) < 2 ^ 64" using assms(2) by simp
  have len: "length (template_pick cr c) < length ([] :: tx list) + (MaxBlockTxs - 1)" using assms(3) by simp
  show ?thesis
    using pick_loop_complete [OF template_groups_ok [OF assms(1)] i room len [unfolded template_pick_def Let_def] s ts]
    by (simp add: template_pick_def Let_def)
qed

section \<open>An instance\<close>

text \<open>The witnesses run on a node that holds genesis, a funded account and one pending transfer.\<close>

definition pool_chain :: chain where
  "pool_chain = pay_chain\<lparr>ch_mempool := [(ID demo_crypto pay_tx, pay_tx)],
     ch_bySender := [(AddrFromPub demo_crypto (ed_public demo_crypto [1, 2, 3]), [pay_tx])]\<rparr>"

lemma pay_tx_from: "tx_from demo_crypto pay_tx = Some (AddrFromPub demo_crypto (ed_public demo_crypto [1, 2, 3]))"
  using pay_tx_simps(2) by (auto simp: tx_from_def from_or_empty_def AddrFromPub_def split: sum.splits)

lemma pool_chain_simps [simp]:
  "ch_blocks pool_chain = [GenesisBlock demo_crypto]" "ch_state pool_chain = pay_state" "ch_sigOK pool_chain = []"
  "ch_Checkpoints pool_chain = []" "ch_mempool pool_chain = [(ID demo_crypto pay_tx, pay_tx)]"
  by (simp_all add: pool_chain_def pay_chain_def open_chain_def)

lemma pool_chain_ok [simp]: "pool_ok demo_crypto pool_chain" "gates_ok [GenesisBlock demo_crypto] pool_chain"
proof -
  show "pool_ok demo_crypto pool_chain"
    using pay_tx_from
    by (auto simp: pool_ok_def pool_chain_def gm_invar_def gm_get_def split: if_splits)
  show "gates_ok [GenesisBlock demo_crypto] pool_chain"
    by (simp add: gates_ok_def pool_chain_def pay_chain_def open_chain_def)
qed

lemma pool_chain_groups:
  "template_groups demo_crypto (ch_mempool pool_chain)
    = [(AddrFromPub demo_crypto (ed_public demo_crypto [1, 2, 3]), [pay_tx])]"
  using pay_tx_from by (simp add: template_groups_def tx_from_def gm_get_def split: sum.splits)

lemma pay_acct: "acct pay_state (AddrFromPub demo_crypto (ed_public demo_crypto [1, 2, 3])) = \<lparr>acc_Balance = 5000, acc_Nonce = 0\<rparr>"
  by (simp add: pay_state_def gm_get_def)

lemma pay_get: "st_get pay_state (AddrFromPub demo_crypto (ed_public demo_crypto [1, 2, 3]))
    = (\<lparr>acc_Balance = 5000, acc_Nonce = 0\<rparr>, pay_state)"
  by (simp add: st_get_def pay_state_def)

lemma pool_chain_pick: "template_pick demo_crypto pool_chain = [pay_tx]"
proof -
  let ?a = "AddrFromPub demo_crypto (ed_public demo_crypto [1, 2, 3])"
  let ?st = "applyTx demo_crypto pay_state pay_tx"
  have v: "validateTxAgainstState demo_crypto [] pay_state pay_tx [] 1 = (None, pay_state)"
    using pay_tx_at1 by (simp add: validateTxAgainstState_def pay_get gm_get_def spendable_def)
  have ap: "st_credit (st_debit pay_state ?a 6) (tx_To demo_tx) 5 = ?st" by (simp add: applyTx_def)
  have n: "acc_Nonce (acct ?st ?a) = 1" by (simp add: nonce_applyTx pay_acct)
  have r1: "scan_sender demo_crypto [] 0 [] 1 ([], pay_state, None) (?a, [pay_tx]) = ([(?a, 0)], pay_state, Some (pay_tx, ?a))"
    by (simp add: scan_sender_def Let_def gm_get_def [of 0] pay_get pay_acct v better_pick_def)
  have r2: "scan_sender demo_crypto [] 0 [] 1 ([(?a, Suc 0)], ?st, None) (?a, [pay_tx]) = ([(?a, Suc 0)], ?st, None)"
    by (simp add: scan_sender_def Let_def gm_get_def [of 0])
  have room: "MaxBlockTxs - 1 = Suc (Suc 197)" by simp
  show ?thesis
    unfolding template_pick_def Let_def pool_chain_groups room pick_loop.simps
    by (simp add: immatureCoinbase_def r1 r2 ap gm_get_def [of 0])
qed

theorem template_becomes_valid_witness:
  "\<exists>b. BuildTemplate demo_crypto 1781136060 1781136060 (AddrFromPub demo_crypto [9]) pool_chain = Inr b
    \<and> tl (blk_Txs b) = [pay_tx]
    \<and> block_valid demo_crypto easy_pow 1781136060 [] [GenesisBlock demo_crypto] pay_state (b\<lparr>blk_Nonce := 7\<rparr>)"
proof -
  have e: "expectedTargetRO pool_chain (ch_blocks pool_chain) = Some GenesisTarget"
    using expectedTargetRO_eq [of "ch_blocks pool_chain" pool_chain] expectedTarget_genesis by simp
  have "0 \<le> GenesisTarget" "GenesisTarget < 2 ^ 256" by (simp_all add: GenesisTarget_def)
  then obtain raw where raw: "length raw = 32" "int (from_be raw) = GenesisTarget" "TargetToHex GenesisTarget = Some (hex_encode raw)"
    by (rule TargetToHex_decode)
  have va: "ValidAddr (AddrFromPub demo_crypto [9])" by (rule ValidAddr_AddrFromPub [OF digest32_demo])
  obtain b where b: "BuildTemplate demo_crypto 1781136060 1781136060 (AddrFromPub demo_crypto [9]) pool_chain = Inr b"
      "blk_Target b = hex_encode raw" "tl (blk_Txs b) = [pay_tx]"
    using e raw(3) va by (simp add: BuildTemplate_def Let_def medianTime_single pool_chain_pick) (simp add: GenesisBlock_def)
  have p: "pow_passes easy_pow seed (b\<lparr>blk_Nonce := 7\<rparr>)" for seed
    using raw(1,2) from_be_replicate0 [of 32 "[]"]
    by (simp add: pow_passes_def TargetInt_def b(2) easy_pow_def HashMeetsTarget_def GenesisTarget_def from_be_def)
  have h: "valid64Hex (Hash demo_crypto (last (ch_blocks pool_chain)))"
    by (simp add: Hash_def computeHash_def GenesisBlock_def valid64Hex_digest)
  have m: "medianTime (ch_blocks pool_chain) \<noteq> - 1" by (simp add: medianTime_single) (simp add: GenesisBlock_def)
  have "block_valid demo_crypto easy_pow 1781136060 (ch_Checkpoints pool_chain) (ch_blocks pool_chain)
      (ch_state pool_chain) (b\<lparr>blk_Nonce := 7\<rparr>)"
    by (rule template_becomes_valid [OF b(1) _ _ _ _ h _ _ m _ _ p]) simp_all
  then show ?thesis using b by auto
qed

theorem template_leaves_nothing_witness:
  "\<not> can_follow demo_crypto [] 0 [] 1 (applyTx demo_crypto pay_state pay_tx) pay_tx"
proof -
  have n: "\<forall>a. unat (acc_Nonce (acct (ch_state pool_chain) a)) + 199 < 2 ^ 64"
    by (simp add: pay_state_def gm_get_def zero_account_def)
  show ?thesis
    using template_leaves_nothing [OF pool_chain_ok(1) n, of pay_tx]
    by (simp add: pool_chain_pick immatureCoinbase_def)
qed

end
