(* ===== verification/Core_Views.thy ===== *)
theory Core_Views
  imports Core_Consensus "HOL-Library.Product_Lexorder"
begin

text \<open>
  The read-only views of the chain, after the section "views" of \<^verbatim>\<open>src/core/chain.go\<close>: tip, blocks,
  accounts, mempool, fees, per-address history with paging, transaction lookup, the rich list. In
  bbolt mode \<open>History\<close>, \<open>FindTx\<close> and \<open>BlockByHash\<close> ask the store; its answer is an argument here and
  \<open>Core_Store\<close> provides it. The theorems relate the indexed history to a scan of the whole chain and
  its paging to slices of that scan.
\<close>

section \<open>Chain and accounts\<close>

text \<open>\<open>None\<close> stands for a run-time panic (an empty chain, a negative slice length).\<close>

definition Height :: "chain \<Rightarrow> u64" where
  "Height c = blen (ch_blocks c) - 1"

definition Tip :: "chain \<Rightarrow> block option" where
  "Tip c = (if ch_blocks c = [] then None else Some (last (ch_blocks c)))"

definition coinbase_count :: "(string, nat) gomap \<Rightarrow> block \<Rightarrow> (string, nat) gomap" where
  "coinbase_count counts b =
     (case blk_Txs b of
        [] \<Rightarrow> counts
      | cb # _ \<Rightarrow> AList.update (tx_To cb) (gm_get 0 counts (tx_To cb) + 1) counts)"

text \<open>The share is \<open>float64(top) / float64(window)\<close>, rounded.\<close>

definition RecentCoinbaseShare :: "chain \<Rightarrow> int \<Rightarrow> rat \<times> nat" where
  "RecentCoinbaseShare c window0 =
     (let n = length (ch_blocks c); window = (if window0 > int n then int n else window0) in
      if window \<le> 0 then (0, 0)
      else let counts = foldl coinbase_count [] (drop (n - nat window) (ch_blocks c));
               top = foldl (\<lambda>top (_, cnt). if cnt > top then cnt else top) 0 counts
           in (f64_round (of_nat top / of_int window), length counts))"

definition CumWork :: "chain \<Rightarrow> int" where
  "CumWork c = ch_cumWork c"

definition BlockAt :: "chain \<Rightarrow> u64 \<Rightarrow> block option" where
  "BlockAt c h = (if h \<ge> blen (ch_blocks c) then None else Some (ch_blocks c ! unat h))"

definition Blocks :: "chain \<Rightarrow> u64 \<Rightarrow> int \<Rightarrow> block list option" where
  "Blocks c frm cnt =
     (if frm \<ge> blen (ch_blocks c) then Some []
      else let end0 = frm + word_of_int cnt;
               end = (if end0 > blen (ch_blocks c) then blen (ch_blocks c) else end0)
           in if end < frm then None
              else Some (take (unat end - unat frm) (drop (unat frm) (ch_blocks c))))"

definition Account :: "chain \<Rightarrow> string \<Rightarrow> account" where
  "Account c addr = gm_get zero_account (ch_state c) addr"

definition SpendableBalance :: "chain \<Rightarrow> string \<Rightarrow> u64" where
  "SpendableBalance c addr =
     (let bal = acc_Balance (gm_get zero_account (ch_state c) addr);
          imm = immatureCoinbase (ch_blocks c) (length (ch_blocks c))
      in spendable bal (gm_get 0 imm addr))"

definition MempoolTxs :: "crypto \<Rightarrow> chain \<Rightarrow> tx list" where
  "MempoolTxs cr c = sortedMempoolLocked cr c"

definition MempoolLen :: "chain \<Rightarrow> nat" where
  "MempoolLen c = length (ch_mempool c)"

definition Supply :: "chain \<Rightarrow> u64" where
  "Supply c = ch_supply c"

definition MinedBlocks :: "chain \<Rightarrow> string \<Rightarrow> nat" where
  "MinedBlocks c addr =
     foldl (\<lambda>n b. case blk_Txs b of [] \<Rightarrow> n | cb # _ \<Rightarrow> if tx_To cb = addr then n + 1 else n) 0 (ch_blocks c)"

definition AddrTotals :: "chain \<Rightarrow> string \<Rightarrow> u64 \<times> u64 \<times> u64 \<times> int" where
  "AddrTotals c addr =
     (case map_of (ch_totals c) addr of
        Some t \<Rightarrow> (at_Received t, at_Mined t, at_Sent t, at_Txn t)
      | None \<Rightarrow> (0, 0, 0, 0))"

section \<open>Fees\<close>

definition fee_active_cached :: "chain \<Rightarrow> bool" where
  "fee_active_cached c \<longleftrightarrow> ch_feeAct c \<noteq> 0 \<and> length (ch_blocks c) \<ge> ch_feeAct c"

definition SuggestedFee :: "chain \<Rightarrow> u64" where
  "SuggestedFee c =
     (let feeActive = fee_active_cached c; flr = minFeeForActive (ch_blocks c) feeActive in
      if \<not> feeActive then flr else suggestFee (map (\<lambda>p. tx_Fee (snd p)) (ch_mempool c)) flr)"

definition FeeFloor :: "chain \<Rightarrow> u64" where
  "FeeFloor c = minFeeForActive (ch_blocks c) (fee_active_cached c)"

section \<open>History\<close>

record history_item =
  hi_TxID :: string
  hi_Height :: u64
  hi_Time :: u64
  hi_From :: string
  hi_To :: string
  hi_Amount :: u64
  hi_Fee :: u64

definition history_item_of :: "crypto \<Rightarrow> block \<Rightarrow> tx \<Rightarrow> history_item" where
  "history_item_of cr b t =
     \<lparr>hi_TxID = ID cr t, hi_Height = blk_Height b, hi_Time = blk_Time b,
      hi_From = (if IsCoinbase t then ''coinbase'' else from_or_empty cr t), hi_To = tx_To t,
      hi_Amount = tx_Amount t, hi_Fee = tx_Fee t\<rparr>"

definition ref_ok :: "block list \<Rightarrow> hist_ref \<Rightarrow> bool" where
  "ref_ok blocks r \<longleftrightarrow> 0 \<le> fst r \<and> fst r < int (length blocks)
     \<and> 0 \<le> snd r \<and> snd r < int (length (blk_Txs (blocks ! nat (fst r))))"

text \<open>One turn of the inner loop: stops at the limit, skips dangling references and the offset.\<close>

definition hist_emit ::
  "crypto \<Rightarrow> block list \<Rightarrow> nat \<Rightarrow> nat \<Rightarrow> nat \<times> history_item list \<Rightarrow> hist_ref \<Rightarrow> nat \<times> history_item list" where
  "hist_emit cr blocks limit offset acc r =
     (case acc of (skipped, out) \<Rightarrow>
        if length out \<ge> limit then acc
        else if \<not> ref_ok blocks r then acc
        else if skipped < offset then (skipped + 1, out)
        else let b = blocks ! nat (fst r)
             in (skipped, out @ [history_item_of cr b (blk_Txs b ! nat (snd r))]))"

text \<open>
  The walk over the references below position \<open>j\<close>: newest block first, the transactions of a block
  in ascending order.
\<close>

function hist_walk ::
  "crypto \<Rightarrow> block list \<Rightarrow> nat \<Rightarrow> nat \<Rightarrow> hist_ref list \<Rightarrow> nat \<Rightarrow> nat \<times> history_item list \<Rightarrow> nat \<times> history_item list" where
  "hist_walk cr blocks limit offset refs j acc =
     (if j = 0 \<or> length (snd acc) \<ge> limit then acc
      else let bi = fst (refs ! (j - 1));
               k = j - 1 - length (takeWhile (\<lambda>r. fst r = bi) (rev (take (j - 1) refs)))
           in hist_walk cr blocks limit offset refs k
                (foldl (hist_emit cr blocks limit offset) acc (drop k (take j refs))))"
  by pat_completeness auto

termination by (relation "measure (\<lambda>(_, _, _, _, _, j, _). j)") auto

declare hist_walk.simps [simp del]

definition History ::
  "crypto \<Rightarrow> (string \<Rightarrow> int \<Rightarrow> int \<Rightarrow> history_item list option) \<Rightarrow> chain \<Rightarrow> string \<Rightarrow> int \<Rightarrow> int \<Rightarrow> history_item list option" where
  "History cr stored c addr limit offset =
     (if ch_store c then stored addr limit offset
      else if limit < 0 then None
      else let refs = gm_get [] (ch_addrTx c) addr
           in Some (snd (hist_walk cr (ch_blocks c) (nat limit) (nat offset) refs (length refs) (0, []))))"

section \<open>Transaction lookup\<close>

record tx_location =
  tl_Found :: bool
  tl_Pending :: bool
  tl_TxID :: string
  tl_Height :: u64
  tl_BlockHash :: string
  tl_Time :: u64
  tl_From :: string
  tl_To :: string
  tl_Amount :: u64
  tl_Fee :: u64
  tl_Nonce :: u64
  tl_Coinbase :: bool

definition txToLocation :: "crypto \<Rightarrow> tx \<Rightarrow> tx_location" where
  "txToLocation cr t =
     \<lparr>tl_Found = True, tl_Pending = False, tl_TxID = ID cr t, tl_Height = 0, tl_BlockHash = [], tl_Time = 0,
      tl_From = (if IsCoinbase t then ''coinbase'' else from_or_empty cr t), tl_To = tx_To t,
      tl_Amount = tx_Amount t, tl_Fee = tx_Fee t, tl_Nonce = tx_Nonce t, tl_Coinbase = IsCoinbase t\<rparr>"

definition no_location :: "string \<Rightarrow> tx_location" where
  "no_location txid =
     \<lparr>tl_Found = False, tl_Pending = False, tl_TxID = txid, tl_Height = 0, tl_BlockHash = [], tl_Time = 0,
      tl_From = [], tl_To = [], tl_Amount = 0, tl_Fee = 0, tl_Nonce = 0, tl_Coinbase = False\<rparr>"

text \<open>The location of a confirmed transaction, and the scan of the blocks (given newest first).\<close>

definition confirmed_location :: "crypto \<Rightarrow> block \<Rightarrow> tx \<Rightarrow> tx_location" where
  "confirmed_location cr b t = (txToLocation cr t)
     \<lparr>tl_Height := blk_Height b, tl_BlockHash := Hash cr b, tl_Time := blk_Time b\<rparr>"

fun find_confirmed :: "crypto \<Rightarrow> string \<Rightarrow> block list \<Rightarrow> tx_location option" where
  "find_confirmed cr txid [] = None"
| "find_confirmed cr txid (b # bs) =
     (case find (\<lambda>t. ID cr t = txid) (blk_Txs b) of
        Some t \<Rightarrow> Some (confirmed_location cr b t)
      | None \<Rightarrow> find_confirmed cr txid bs)"

definition FindTx :: "crypto \<Rightarrow> (string \<Rightarrow> tx_location option) \<Rightarrow> chain \<Rightarrow> string \<Rightarrow> tx_location" where
  "FindTx cr stored c txid =
     (case (if ch_store c then stored txid else find_confirmed cr txid (rev (ch_blocks c))) of
        Some loc \<Rightarrow> loc
      | None \<Rightarrow>
          (case map_of (ch_mempool c) txid of
             Some t \<Rightarrow> (txToLocation cr t)\<lparr>tl_Pending := True\<rparr>
           | None \<Rightarrow> no_location txid))"

definition BlockByHash :: "crypto \<Rightarrow> (string \<Rightarrow> block option) \<Rightarrow> chain \<Rightarrow> string \<Rightarrow> block option" where
  "BlockByHash cr stored c hash =
     (if ch_store c then stored hash else find (\<lambda>b. Hash cr b = hash) (ch_blocks c))"

section \<open>Rich list\<close>

record rich_entry =
  re_Address :: string
  re_Balance :: u64
  re_Nonce :: u64

definition rich_sorted :: "chain \<Rightarrow> rich_entry list" where
  "rich_sorted c =
     sort_key (\<lambda>e. (- uint (re_Balance e), re_Address e))
       (map (\<lambda>(addr, a). \<lparr>re_Address = addr, re_Balance = acc_Balance a, re_Nonce = acc_Nonce a\<rparr>)
          (filter (\<lambda>(addr, a). acc_Balance a \<noteq> 0) (ch_state c)))"

definition RichList :: "chain \<Rightarrow> int \<Rightarrow> int \<Rightarrow> rich_entry list" where
  "RichList c n offset0 =
     (let list = rich_sorted c; offset = (if offset0 < 0 then 0 else offset0) in
      if offset \<ge> int (length list) then []
      else let rest = drop (nat offset) list
           in if n > 0 \<and> int (length rest) > n then take (nat n) rest else rest)"

definition AddrCount :: "chain \<Rightarrow> nat" where
  "AddrCount c = foldl (\<lambda>n (_, a). if acc_Balance a > 0 then n + 1 else n) 0 (ch_state c)"

section \<open>What the history returns\<close>

text \<open>The reference: a scan of the whole chain, newest block first, each block in its own order.\<close>

definition touches :: "crypto \<Rightarrow> string \<Rightarrow> tx \<Rightarrow> bool" where
  "touches cr a t \<longleftrightarrow> (if IsCoinbase t then tx_To t = a
     else case FromAddr cr t of Inl _ \<Rightarrow> False | Inr f \<Rightarrow> f = a \<or> tx_To t = a)"

definition history_scan :: "crypto \<Rightarrow> string \<Rightarrow> block list \<Rightarrow> history_item list" where
  "history_scan cr a bs = concat (map (\<lambda>b. map (history_item_of cr b) (filter (touches cr a) (blk_Txs b))) (rev bs))"

definition block_refs :: "crypto \<Rightarrow> string \<Rightarrow> block \<Rightarrow> hist_ref list" where
  "block_refs cr a b = map (\<lambda>p. (sint (blk_Height b), int (fst p)))
     (filter (\<lambda>p. touches cr a (snd p)) (enumerate 0 (blk_Txs b)))"

lemma get_hist_add: "gm_get [] (hist_add b r m) a = gm_get [] m a @ (if a = b then [r] else [])"
  by (simp add: hist_add_def gm_get_def update_conv')

lemma get_index_tx:
  "gm_get [] (index_tx cr bi m (ti, t)) a = gm_get [] m a @ (if touches cr a t then [(bi, int ti)] else [])"
  by (auto simp: index_tx_def touches_def get_hist_add Let_def split: sum.split)

lemma get_index_txs:
  "gm_get [] (foldl (index_tx cr bi) m ps) a
     = gm_get [] m a @ map (\<lambda>p. (bi, int (fst p))) (filter (\<lambda>p. touches cr a (snd p)) ps)"
  by (induction ps arbitrary: m) (auto simp: get_index_tx)

lemma get_index_block:
  "gm_get [] (indexBlockLocked cr m b) a = gm_get [] m a @ block_refs cr a b"
  by (simp add: indexBlockLocked_def get_index_txs block_refs_def)

lemma get_reindex: "gm_get [] (reindexAddrTxLocked cr bs) a = concat (map (block_refs cr a) bs)"
proof -
  have "gm_get [] (foldl (indexBlockLocked cr) m bs) a = gm_get [] m a @ concat (map (block_refs cr a) bs)" for m
    by (induction bs arbitrary: m) (simp_all add: get_index_block)
  then show ?thesis by (simp add: reindexAddrTxLocked_def gm_get_def)
qed

lemma emit_stop: "length out \<ge> limit \<Longrightarrow> foldl (hist_emit cr blocks limit offset) (k, out) rs = (k, out)"
  by (induction rs) (simp_all add: hist_emit_def)

lemma emit_all:
  assumes "\<forall>r \<in> set rs. ref_ok blocks r" and "k \<le> offset" and "k < offset \<longrightarrow> out = []" and "length out \<le> limit"
  shows "snd (foldl (hist_emit cr blocks limit offset) (k, out) rs) =
    take limit (out @ drop (offset - k) (map (\<lambda>r. history_item_of cr (blocks ! nat (fst r))
      (blk_Txs (blocks ! nat (fst r)) ! nat (snd r))) rs))"
  using assms
proof (induction rs arbitrary: k out)
  case (Cons r rs)
  show ?case
  proof (cases "length out < limit")
    case False
    then show ?thesis using Cons.prems by (simp only: emit_stop not_less) simp
  next
    case True
    then show ?thesis
    proof (cases "k < offset")
      case less: True
      then have "offset - k = Suc (offset - Suc k)" by simp
      moreover have "hist_emit cr blocks limit offset (k, out) r = (Suc k, out)"
        using less True Cons.prems by (simp add: hist_emit_def)
      ultimately show ?thesis using Cons.IH [of "Suc k" out] Cons.prems less by simp
    next
      case False
      let ?x = "history_item_of cr (blocks ! nat (fst r)) (blk_Txs (blocks ! nat (fst r)) ! nat (snd r))"
      have k: "k = offset" using False Cons.prems by simp
      have e: "hist_emit cr blocks limit offset (offset, out) r = (offset, out @ [?x])"
        using True Cons.prems by (simp add: hist_emit_def Let_def)
      have "limit - length out = Suc (limit - Suc (length out))" using True by simp
      then show ?thesis using Cons.IH [of offset "out @ [?x]"] Cons.prems True by (simp add: e k)
    qed
  qed
qed simp

lemma hist_walk_concat:
  assumes "\<And>i r. r \<in> set (R i) \<Longrightarrow> fst r = int i" and "refs = concat (map R [0..<N])" and "n \<le> N"
  shows "hist_walk cr blocks limit offset refs (length (concat (map R [0..<n]))) acc
    = foldl (hist_emit cr blocks limit offset) acc (concat (map R (rev [0..<n])))"
  using assms(3)
proof (induction n arbitrary: acc)
  case (Suc n)
  let ?pre = "concat (map R [0..<n])"
  show ?case
  proof (cases "length (snd acc) \<ge> limit")
    case True
    then show ?thesis
      using emit_stop [of limit "snd acc" cr blocks offset "fst acc"] by (subst hist_walk.simps) simp
  next
    case limit: False
  show ?thesis
  proof (cases "R n = []")
    case True
    then show ?thesis using Suc by simp
  next
    case False
    let ?j = "length (?pre @ R n)"
    have up: "[0..<N] = [0..<n] @ n # [Suc n..<N]"
      using Suc.prems upt_add_eq_append [of 0 n "N - n"] by (simp add: upt_conv_Cons)
    have tk: "take ?j refs = ?pre @ R n" unfolding assms(2) up by simp
    obtain us x where R: "R n = us @ [x]" using False by (metis rev_exhaust)
    have tk1: "take (?j - 1) refs = ?pre @ us"
    proof -
      have "take (?j - 1) refs = take (?j - 1) (take ?j refs)" by (simp add: min_def)
      then show ?thesis unfolding tk by (simp add: R)
    qed
    have jx: "refs ! (?j - 1) = x"
    proof -
      have "refs ! (?j - 1) = take ?j refs ! (?j - 1)" using R by simp
      then show ?thesis unfolding tk by (simp add: R nth_append)
    qed
    have x: "fst x = int n" using assms(1) [of x n] R by simp
    have us: "\<forall>r \<in> set (rev us). fst r = int n" using assms(1) [of _ n] R by simp
    have pre: "takeWhile (\<lambda>r. fst r = int n) (rev ?pre) = []"
    proof (cases "rev ?pre")
      case (Cons y ys)
      then have "y \<in> set ?pre" by (metis list.set_intros(1) set_rev)
      then obtain i where "i < n" "y \<in> set (R i)" by auto
      then show ?thesis using assms(1) [of y i] Cons by simp
    next
      case Nil
      then show ?thesis by (simp only: takeWhile.simps)
    qed
    have tw: "length (takeWhile (\<lambda>r. fst r = fst (refs ! (?j - 1))) (rev (take (?j - 1) refs))) = length us"
      unfolding tk1 jx x rev_append using us pre by (subst takeWhile_append2) simp_all
    let ?k = "?j - 1 - length (takeWhile (\<lambda>r. fst r = fst (refs ! (?j - 1))) (rev (take (?j - 1) refs)))"
    have k: "?k = length ?pre" unfolding tw by (simp add: R)
    have "hist_walk cr blocks limit offset refs ?j acc
        = (if ?j = 0 \<or> length (snd acc) \<ge> limit then acc
           else hist_walk cr blocks limit offset refs ?k (foldl (hist_emit cr blocks limit offset) acc (drop ?k (take ?j refs))))"
      by (subst hist_walk.simps) (simp only: Let_def)
    then have "hist_walk cr blocks limit offset refs ?j acc
        = hist_walk cr blocks limit offset refs (length ?pre) (foldl (hist_emit cr blocks limit offset) acc (R n))"
      unfolding k tk using limit False by simp
    then show ?thesis using Suc by simp
  qed
  qed
qed (subst hist_walk.simps, simp)

text \<open>Heights are positions on a valid chain.\<close>

lemma valid_chain_height: "valid_chain cr bs \<Longrightarrow> i < length bs \<Longrightarrow> blk_Height (bs ! i) = word_of_nat i"
proof (cases i)
  case 0
  assume v: "valid_chain cr bs" "i < length bs"
  then have "bs ! 0 = GenesisBlock cr" using valid_chain_hd by (metis hd_conv_nth valid_chain_nonempty)
  then show ?thesis using 0 by (simp add: GenesisBlock_def)
next
  case (Suc j)
  assume v: "valid_chain cr bs" "i < length bs"
  then have "block_sound cr (take i bs) (bs ! i)" using valid_chain_nth Suc by blast
  then show ?thesis using v(2) by (simp add: block_sound_def)
qed

lemma sint_word_of_nat: "n < 2 ^ 63 \<Longrightarrow> sint (word_of_nat n :: u64) = int n"
  by (simp add: signed_of_nat signed_take_bit_int_eq_self)

lemma history_refs:
  assumes "valid_chain cr bs" and "length bs < 2 ^ 63"
  shows "concat (map (block_refs cr a) bs)
    = concat (map (\<lambda>i. map (\<lambda>p. (int i, int (fst p))) (filter (\<lambda>p. touches cr a (snd p)) (enumerate 0 (blk_Txs (bs ! i)))))
        [0..<length bs])"
proof -
  have "map (block_refs cr a) bs = map (\<lambda>i. block_refs cr a (bs ! i)) [0..<length bs]"
    using map_map [of "block_refs cr a" "(!) bs" "[0..<length bs]"] by (simp only: map_nth comp_def)
  also have "\<dots> = map (\<lambda>i. map (\<lambda>p. (int i, int (fst p)))
      (filter (\<lambda>p. touches cr a (snd p)) (enumerate 0 (blk_Txs (bs ! i))))) [0..<length bs]"
    using assms valid_chain_height [OF assms(1)] by (intro map_cong) (simp_all add: block_refs_def sint_word_of_nat)
  finally show ?thesis by simp
qed

lemma filter_enumerate:
  "map (\<lambda>p. g (ts ! (fst p - n))) (filter (\<lambda>p. P (snd p)) (enumerate n ts)) = map g (filter P ts)"
proof (induction ts arbitrary: n)
  case (Cons t ts)
  have "map (\<lambda>p. g ((t # ts) ! (fst p - n))) (filter (\<lambda>p. P (snd p)) (enumerate (Suc n) ts))
      = map (\<lambda>p. g (ts ! (fst p - Suc n))) (filter (\<lambda>p. P (snd p)) (enumerate (Suc n) ts))"
    by (rule map_cong) (auto simp: in_set_enumerate_eq Suc_le_eq nth_Cons' less_diff_conv)
  then show ?case using Cons.IH [of "Suc n"] by simp
qed simp

text \<open>(C31)
  The indexed history is the chain scan: in jsonl mode on a reachable chain, one page of
  \<open>History\<close> is the corresponding slice of a scan of all blocks, newest block first, so pages put
  together give every transaction touching the address exactly once and in the same order.
\<close>

theorem history_is_scan_slice:
  assumes "reachable cr pow False c" and "length (ch_blocks c) < 2 ^ 63" and "\<not> ch_store c" and "0 \<le> limit"
  shows "History cr stored c a limit offset
    = Some (take (nat limit) (drop (nat offset) (history_scan cr a (ch_blocks c))))"
proof -
  let ?bs = "ch_blocks c"
  note ci = chain_invD [OF reachable_inv [OF assms(1)]]
  define R where "R i = map (\<lambda>p. (int i, int (fst p)))
      (filter (\<lambda>p. touches cr a (snd p)) (enumerate 0 (blk_Txs (?bs ! i))))" for i
  have refs: "gm_get [] (ch_addrTx c) a = concat (map R [0..<length ?bs])"
    using history_refs [OF ci(1) assms(2), of a] by (simp add: ci(7) [OF assms(3)] get_reindex R_def [abs_def])
  have fst: "fst r = int i" if "r \<in> set (R i)" for i r using that by (auto simp: R_def)
  have ok: "\<forall>r \<in> set (concat (map R (rev [0..<length ?bs]))). ref_ok ?bs r"
    by (auto simp: R_def ref_ok_def in_set_enumerate_eq)
  have items: "map (\<lambda>r. history_item_of cr (?bs ! nat (fst r)) (blk_Txs (?bs ! nat (fst r)) ! nat (snd r))) (R i)
      = map (history_item_of cr (?bs ! i)) (filter (touches cr a) (blk_Txs (?bs ! i)))" for i
    using filter_enumerate [of "history_item_of cr (?bs ! i)" "blk_Txs (?bs ! i)" 0 "touches cr a"]
    by (simp add: R_def comp_def)
  have scan: "map (\<lambda>r. history_item_of cr (?bs ! nat (fst r)) (blk_Txs (?bs ! nat (fst r)) ! nat (snd r)))
      (concat (map R (rev [0..<length ?bs]))) = history_scan cr a ?bs"
  proof -
    have "rev ?bs = map (\<lambda>i. ?bs ! i) (rev [0..<length ?bs])"
      using rev_map [of "(!) ?bs" "[0..<length ?bs]"] by (simp only: map_nth)
    then show ?thesis
      by (simp add: history_scan_def map_concat items comp_def)
  qed
  have e: "snd (foldl (hist_emit cr ?bs (nat limit) (nat offset)) (0, []) (concat (map R (rev [0..<length ?bs]))))
      = take (nat limit) (drop (nat offset) (history_scan cr a ?bs))"
    using emit_all [OF ok, where k = 0 and offset = "nat offset" and out = "[]" and limit = "nat limit" and cr = cr]
    unfolding scan by simp
  have "hist_walk cr ?bs (nat limit) (nat offset) (concat (map R [0..<length ?bs]))
      (length (concat (map R [0..<length ?bs]))) (0, [])
      = foldl (hist_emit cr ?bs (nat limit) (nat offset)) (0, []) (concat (map R (rev [0..<length ?bs])))"
    by (rule hist_walk_concat [OF fst refl order_refl])
  then have "snd (hist_walk cr ?bs (nat limit) (nat offset) (gm_get [] (ch_addrTx c) a)
      (length (gm_get [] (ch_addrTx c) a)) (0, [])) = take (nat limit) (drop (nat offset) (history_scan cr a ?bs))"
    unfolding refs by (simp only: e)
  then show ?thesis using assms(3,4) by (simp add: History_def Let_def)
qed

lemma chain1_store: "\<not> ch_store chain1"
proof -
  let ?g = "fresh_chain demo_crypto False"
  obtain c1 where v: "validateBlock demo_crypto easy_pow 1781136060 ?g (ch_blocks ?g) (ch_state ?g) block1 = (None, c1)"
    using block1_added chain_inv_fresh(2) [of demo_crypto False]
    by (auto simp: AddBlock_def split: prod.splits option.splits if_splits)
  have s: "\<not> ch_store c1"
    using core_of_fields(15) [OF core_validate_eq [OF v]] fresh_fields(4) [of demo_crypto False] by simp
  have "ch_store (pruneMempoolLocked cr (mpDel_block cr d block1)) = ch_store d" for cr d
    using ledger_part_fields(6) [of "pruneMempoolLocked cr (mpDel_block cr d block1)" d] by simp
  then show ?thesis
    using v s chain_inv_fresh(2) [of demo_crypto False] block1_added
    by (simp add: chain1_def AddBlock_def Let_def recomputeSupplyLocked_def split: if_splits)
qed

theorem history_is_scan_slice_witness:
  "History demo_crypto (\<lambda>_ _ _. None) chain1 (AddrFromPub demo_crypto (ed_public demo_crypto [1, 2, 3])) 1 0
    = Some [history_item_of demo_crypto block1 coinbase1]"
proof -
  have t: "touches demo_crypto (AddrFromPub demo_crypto (ed_public demo_crypto [1, 2, 3])) coinbase1"
    by (simp add: touches_def) (simp add: coinbase1_def)
  have b: "blk_Txs block1 = [coinbase1]" "blk_Txs (GenesisBlock demo_crypto) = [genesis_coinbase]"
    by (simp_all add: block1_def GenesisBlock_def)
  have s: "take 1 (history_scan demo_crypto (AddrFromPub demo_crypto (ed_public demo_crypto [1, 2, 3])) (ch_blocks chain1))
      = [history_item_of demo_crypto block1 coinbase1]"
    by (simp add: history_scan_def chain1_blocks b t)
  have l: "length (ch_blocks chain1) < 2 ^ 63" by (simp add: chain1_blocks)
  show ?thesis
    using history_is_scan_slice [OF chain1_reachable l chain1_store, of 1 "\<lambda>_ _ _. None"
        "AddrFromPub demo_crypto (ed_public demo_crypto [1, 2, 3])" 0] s by simp
qed

lemma totals_count_tx:
  assumes "IsCoinbase t \<or> tx_from cr t \<noteq> None"
  shows "at_Txn (tots (applyTxToTotals cr m t) a) = at_Txn (tots m a) + (if touches cr a t then 1 else 0)"
  using assms
  by (auto simp: applyTxToTotals_def touches_def Let_def ledger_simps tx_from_def from_or_empty_def split: sum.splits)

lemma totals_count_txs:
  assumes "\<forall>t \<in> set ts. IsCoinbase t \<or> tx_from cr t \<noteq> None"
  shows "at_Txn (tots (foldl (applyTxToTotals cr) m ts) a) = at_Txn (tots m a) + int (length (filter (touches cr a) ts))"
  using assms by (induction ts arbitrary: m) (auto simp: totals_count_tx)

lemma length_history_scan: "length (history_scan cr a bs) = length (filter (touches cr a) (chain_txs bs))"
proof -
  have "length (history_scan cr a bs) = sum_list (map (\<lambda>b. length (filter (touches cr a) (blk_Txs b))) (rev bs))"
    by (simp add: history_scan_def length_concat comp_def)
  also have "\<dots> = sum_list (map (\<lambda>b. length (filter (touches cr a) (blk_Txs b))) bs)"
    by (simp flip: rev_map)
  also have "\<dots> = length (filter (touches cr a) (chain_txs bs))"
    by (simp add: chain_txs_def filter_concat length_concat comp_def)
  finally show ?thesis .
qed

text \<open>
  The transaction count of an address is the length of its history: on a reachable chain whose
  transfers all name a sender, the \<open>Txn\<close> total that \<open>AddrTotals\<close> reports, which pages of \<open>History\<close>
  are counted by, is the number of transactions of the scan.
\<close>

theorem history_count:
  assumes "reachable cr pow store c"
    and "\<forall>t \<in> set (chain_txs (ch_blocks c)). IsCoinbase t \<or> tx_from cr t \<noteq> None"
  shows "snd (snd (snd (AddrTotals c a))) = int (length (history_scan cr a (ch_blocks c)))"
proof -
  have "ch_totals c = replay_totals cr (ch_blocks c)" by (rule chain_invD(4) [OF reachable_inv [OF assms(1)]])
  then have "snd (snd (snd (AddrTotals c a))) = at_Txn (tots (replay_totals cr (ch_blocks c)) a)"
    by (simp add: AddrTotals_def gm_get_def zero_totals_def split: option.split)
  also have "\<dots> = int (length (filter (touches cr a) (chain_txs (ch_blocks c))))"
    using totals_count_txs [OF assms(2), of "[]" a]
    by (simp add: replay_totals_flat chain_txs_def gm_get_def zero_totals_def)
  finally show ?thesis by (simp add: length_history_scan)
qed

section \<open>Pages of blocks and accounts\<close>

lemma rich_sorted_order: "sorted_wrt (\<lambda>x y. re_Balance x \<ge> re_Balance y) (rich_sorted c)"
proof -
  have "sorted (map (\<lambda>e. (- uint (re_Balance e), re_Address e)) (rich_sorted c))"
    unfolding rich_sorted_def by simp
  then have "sorted_wrt (\<lambda>x y. (- uint (re_Balance x), re_Address x) \<le> (- uint (re_Balance y), re_Address y)) (rich_sorted c)"
    by (simp add: sorted_wrt_map)
  then show ?thesis by (rule sorted_wrt_mono_rel [rotated]) (auto simp: less_eq_prod_def word_le_def)
qed

lemma AddrCount_eq: "AddrCount c = length (rich_sorted c)"
proof -
  have "foldl (\<lambda>n (_, a). if acc_Balance a > 0 then n + 1 else n) k s
      = k + length (filter (\<lambda>(addr, a). acc_Balance a \<noteq> 0) s)" for k and s :: state
    by (induction s arbitrary: k) (auto simp: word_gt_0)
  then show ?thesis by (simp add: AddrCount_def rich_sorted_def)
qed

text \<open>
  The rich list pages through every funded address once, richest first: a page is a slice of one
  sorted list whose length is \<open>AddrCount\<close>.
\<close>

theorem rich_list_pages:
  "RichList c (int (Suc n)) (int k) = take (Suc n) (drop k (rich_sorted c))
   \<and> length (rich_sorted c) = AddrCount c
   \<and> mset (map re_Address (rich_sorted c)) = mset (map fst (filter (\<lambda>(addr, a). acc_Balance a \<noteq> 0) (ch_state c)))
   \<and> sorted_wrt (\<lambda>x y. re_Balance x \<ge> re_Balance y) (rich_sorted c)"
proof (intro conjI)
  show "RichList c (int (Suc n)) (int k) = take (Suc n) (drop k (rich_sorted c))"
    using nat_int_add [of 1 n] by (auto simp: RichList_def Let_def nat_add_distrib)
  show "mset (map re_Address (rich_sorted c)) = mset (map fst (filter (\<lambda>(addr, a). acc_Balance a \<noteq> 0) (ch_state c)))"
    by (simp add: rich_sorted_def image_mset.compositionality comp_def case_prod_beta)
qed (simp_all add: AddrCount_eq rich_sorted_order)

text \<open>
  \<open>Blocks\<close> never slices out of range for the counts the node passes: with a chain and a count below
  \<open>2^63\<close> the end does not wrap and the answer is the slice of the chain; a negative count, whose
  \<open>uint64\<close> conversion wraps, makes it panic unless it reaches below height 0.
\<close>

theorem Blocks_slice:
  assumes "length (ch_blocks c) < 2 ^ 63" and "cnt < 2 ^ 63" and "- (2 ^ 63) \<le> cnt"
  shows "Blocks c frm cnt =
    (if unat frm \<ge> length (ch_blocks c) then Some []
     else if 0 \<le> cnt then Some (take (nat cnt) (drop (unat frm) (ch_blocks c)))
     else if - cnt \<le> int (unat frm) then None else Some (drop (unat frm) (ch_blocks c)))"
proof -
  let ?n = "length (ch_blocks c)" and ?f = "uint frm"
  define e where "e = frm + word_of_int cnt"
  have n: "uint (blen (ch_blocks c)) = int ?n" using assms(1) by (simp add: uint_nat unat_of_nat)
  have f: "int (unat frm) = ?f" "0 \<le> ?f" "?f < 2 ^ 64"
    using uint_lt2p [of frm] uint_nat [of frm, symmetric] by simp_all
  have e: "uint e = (?f + cnt) mod 2 ^ 64"
    by (simp add: e_def uint_word_ariths uint_word_of_int mod_simps)
  have ge: "frm \<ge> blen (ch_blocks c) \<longleftrightarrow> int ?n \<le> ?f" by (simp add: word_le_def n)
  show ?thesis
  proof (cases "int ?n \<le> ?f")
    case True
    then have "?n \<le> unat frm" using f(1) by linarith
    then show ?thesis using ge True by (simp add: Blocks_def)
  next
    case False
    then have nf: "\<not> frm \<ge> blen (ch_blocks c)" "\<not> length (ch_blocks c) \<le> unat frm" using ge f(1) by (blast, linarith)
    define stop where "stop = (if e > blen (ch_blocks c) then blen (ch_blocks c) else e)"
    have B: "Blocks c frm cnt = (if stop < frm then None
        else Some (take (unat stop - unat frm) (drop (unat frm) (ch_blocks c))))"
      using nf(1) by (simp add: Blocks_def Let_def stop_def e_def)
    have gt: "e > blen (ch_blocks c) \<longleftrightarrow> int ?n < uint e" by (simp add: word_less_def n)
    have lt: "e < frm \<longleftrightarrow> uint e < ?f" by (simp add: word_less_def)
    have un: "unat (blen (ch_blocks c)) = ?n" using n by (metis nat_int unat_eq_nat_uint)
    consider "0 \<le> cnt" | "cnt < 0" "0 \<le> ?f + cnt" | "cnt < 0" "?f + cnt < 0" by linarith
    then show ?thesis
    proof cases
      case 1
      then have u: "uint e = ?f + cnt" using e False assms(1,2) f by simp
      then have "int (unat e) = int (unat frm) + cnt" using f(1) uint_nat [of e] by linarith
      then have ue: "unat e = unat frm + nat cnt" using 1 by linarith
      have "\<not> stop < frm"
      proof (cases "e > blen (ch_blocks c)")
        case True
        then show ?thesis using nf(1) by (simp add: stop_def not_less not_le less_imp_le)
      next
        case False
        then show ?thesis using lt u 1 by (simp add: stop_def)
      qed
      moreover have "take (unat stop - unat frm) (drop (unat frm) (ch_blocks c)) = take (nat cnt) (drop (unat frm) (ch_blocks c))"
      proof (cases "e > blen (ch_blocks c)")
        case True
        then have "unat stop = ?n" by (simp add: stop_def un)
        moreover have "?n \<le> unat e" using True un by (metis less_imp_le word_less_nat_alt)
        ultimately show ?thesis by (simp add: ue)
      qed (simp add: stop_def ue)
      ultimately show ?thesis using B nf(2) 1 by simp
    next
      case 2
      then have u: "uint e = ?f + cnt" using e f by simp
      then have "stop = e" "e < frm" using 2 False gt lt by (simp_all add: stop_def)
      moreover have "- cnt \<le> int (unat frm)" using 2 f(1) by linarith
      ultimately show ?thesis using B nf(2) 2(1) by simp
    next
      case 3
      have "(?f + cnt) mod 2 ^ 64 = (?f + cnt + 2 ^ 64) mod 2 ^ 64" by simp
      also have "\<dots> = ?f + cnt + 2 ^ 64"
      proof (rule mod_pos_pos_trivial)
        have "0 \<le> cnt + 2 ^ 64" using assms(3) by simp
        then show "0 \<le> ?f + cnt + 2 ^ 64" using f(2) by linarith
        show "?f + cnt + 2 ^ 64 < 2 ^ 64" using 3(2) by linarith
      qed
      finally have "(?f + cnt) mod 2 ^ 64 = ?f + cnt + 2 ^ 64" .
      then have ue: "uint e = ?f + cnt + 2 ^ 64" using e by simp
      have "int ?n < 2 ^ 63" "2 ^ 63 \<le> cnt + 2 ^ 64" using assms(1,3) by simp_all
      then have "int ?n < uint e" using ue f(2) by linarith
      then have "stop = blen (ch_blocks c)" using gt by (simp add: stop_def)
      moreover have "\<not> - cnt \<le> int (unat frm)" using 3 f(1) by linarith
      moreover have "\<not> blen (ch_blocks c) < frm" using nf(1) by auto
      ultimately show ?thesis using B nf(2) 3(1) un by simp
    qed
  qed
qed

theorem history_count_witness:
  "snd (snd (snd (AddrTotals chain1 (AddrFromPub demo_crypto (ed_public demo_crypto [1, 2, 3])))))
    = int (length (history_scan demo_crypto (AddrFromPub demo_crypto (ed_public demo_crypto [1, 2, 3]))
        [GenesisBlock demo_crypto, block1]))"
proof -
  have "\<forall>t \<in> set (chain_txs (ch_blocks chain1)). IsCoinbase t \<or> tx_from demo_crypto t \<noteq> None"
    by (simp add: chain1_blocks chain_txs_def block1_def GenesisBlock_def)
      (simp add: IsCoinbase_def genesis_coinbase_def)
  from history_count [OF chain1_reachable this] show ?thesis by (simp add: chain1_blocks)
qed

theorem Blocks_slice_witness: "Blocks chain1 1 50 = Some [block1] \<and> Blocks chain1 1 (- 1) = None"
  using Blocks_slice [of chain1 50 1] Blocks_slice [of chain1 "- 1" 1] by (simp add: chain1_blocks)

end
