(* ===== verification/Core_Store.thy ===== *)
theory Core_Store
  imports Core_Views
begin

text \<open>
  The bbolt block store, after \<^verbatim>\<open>src/core/bbolt_store.go\<close>: keys and row codec, the atomic writes of a
  block with its indexes, truncation and the batched reorganisation, and the queries served from the
  indexes. bbolt itself is an argument: a record of the bucket operations with the laws of an ordered
  key-value map (\<open>kv_ok\<close>); \<^verbatim>\<open>encoding/json\<close> on blocks is a record \<open>json\<close> whose law says that decoding
  an encoded block yields its fields with both caches recomputed. A transaction is a partial function
  on the database: it commits as a whole or leaves no trace.
\<close>

section \<open>bbolt and JSON as arguments\<close>

record 'b kv =
  kv_empty :: 'b
  kv_get :: "'b \<Rightarrow> bytes \<Rightarrow> bytes option"
  kv_put :: "bytes \<Rightarrow> bytes \<Rightarrow> 'b \<Rightarrow> 'b"
  kv_del :: "bytes \<Rightarrow> 'b \<Rightarrow> 'b"
  kv_keys :: "'b \<Rightarrow> bytes list"

text \<open>\<open>kv_keys\<close> is the order in which a cursor walks the bucket.\<close>

definition kv_ok :: "'b kv \<Rightarrow> bool" where
  "kv_ok kv \<longleftrightarrow> (\<forall>k. kv_get kv (kv_empty kv) k = None)
     \<and> (\<forall>b k v. kv_get kv (kv_put kv k v b) = (kv_get kv b)(k \<mapsto> v))
     \<and> (\<forall>b k. kv_get kv (kv_del kv k b) = (kv_get kv b)(k := None))
     \<and> (\<forall>b. set (kv_keys kv b) = dom (kv_get kv b) \<and> sorted_wrt (<) (kv_keys kv b))"

record json =
  marshal :: "block \<Rightarrow> bytes"
  unmarshal :: "bytes \<Rightarrow> block option"

definition reload_tx :: "crypto \<Rightarrow> tx \<Rightarrow> tx" where
  "reload_tx cr t = the (tx_UnmarshalJSON cr (Some (t\<lparr>tx_id := [], tx_fromAddr := []\<rparr>)))"

definition reload :: "crypto \<Rightarrow> block \<Rightarrow> block" where
  "reload cr b = the (block_UnmarshalJSON cr (Some (b\<lparr>blk_Txs := map (reload_tx cr) (blk_Txs b), blk_hash := []\<rparr>)))"

text \<open>
  The law is stated for ASCII strings, which is what addresses, hashes, targets, keys and signatures are;
  \<^verbatim>\<open>encoding/json\<close> replaces bytes that are not UTF-8.
\<close>

definition ascii :: "string \<Rightarrow> bool" where
  "ascii s = list_all (\<lambda>c. (of_char c :: nat) < 128) s"

definition tx_ascii :: "tx \<Rightarrow> bool" where
  "tx_ascii t \<longleftrightarrow> ascii (tx_FromPub t) \<and> ascii (tx_To t) \<and> ascii (tx_Sig t)"

definition block_ascii :: "block \<Rightarrow> bool" where
  "block_ascii b \<longleftrightarrow> ascii (blk_PrevHash b) \<and> ascii (blk_TxRoot b) \<and> ascii (blk_Target b) \<and> list_all tx_ascii (blk_Txs b)"

definition json_ok :: "crypto \<Rightarrow> json \<Rightarrow> bool" where
  "json_ok cr js \<longleftrightarrow> (\<forall>b. block_ascii b \<longrightarrow> unmarshal js (marshal js b) = Some (reload cr b))"

section \<open>Rows and keys\<close>

definition u64be :: "u64 \<Rightarrow> bytes" where "u64be x = be_bytes 8 x"
definition u32be :: "u32 \<Rightarrow> bytes" where "u32be x = be_bytes 4 x"

definition appendLPStr :: "bytes \<Rightarrow> string \<Rightarrow> bytes" where
  "appendLPStr b s = b @ word_of_nat (length s) # str_bytes s"

definition readLPStr :: "bytes \<Rightarrow> (string \<times> bytes) option" where
  "readLPStr b =
     (case b of
        [] \<Rightarrow> None
      | n # r \<Rightarrow> if length r < unat n then None else Some (bytes_str (take (unat n) r), drop (unat n) r))"

definition encodeHistRow :: "history_item \<Rightarrow> bytes" where
  "encodeHistRow it =
     appendLPStr (appendLPStr (appendLPStr
       (u64be (hi_Time it) @ u64be (hi_Amount it) @ u64be (hi_Fee it)) (hi_TxID it)) (hi_From it)) (hi_To it)"

definition read_u64 :: "bytes \<Rightarrow> u64" where
  "read_u64 b = word_of_nat (from_be (take 8 b))"

definition decodeHistRow :: "bytes \<Rightarrow> u64 \<Rightarrow> history_item option" where
  "decodeHistRow v height =
     (if length v < 24 then None
      else case readLPStr (drop 24 v) of
        None \<Rightarrow> None
      | Some (txid, r1) \<Rightarrow>
          (case readLPStr r1 of
             None \<Rightarrow> None
           | Some (frm, r2) \<Rightarrow>
               (case readLPStr r2 of
                  None \<Rightarrow> None
                | Some (dest, _) \<Rightarrow>
                    Some \<lparr>hi_TxID = txid, hi_Height = height, hi_Time = read_u64 v,
                          hi_From = frm, hi_To = dest, hi_Amount = read_u64 (drop 8 v),
                          hi_Fee = read_u64 (drop 16 v)\<rparr>)))"

definition txLocBytes :: "u64 \<Rightarrow> nat \<Rightarrow> bytes" where
  "txLocBytes height idx = u64be height @ u32be (word_of_nat idx)"

definition addrTxKey :: "string \<Rightarrow> u64 \<Rightarrow> nat \<Rightarrow> bytes" where
  "addrTxKey addr height idx = str_bytes addr @ u64be height @ u32be (word_of_nat idx)"

section \<open>The database and its transactions\<close>

text \<open>The buckets in use; \<open>state\<close>, \<open>code\<close> and \<open>storage\<close> are created and stay empty.\<close>

record 'b store =
  bk_meta :: 'b
  bk_blocks :: 'b
  bk_blockHash :: 'b
  bk_txIndex :: 'b
  bk_addrTx :: 'b

abbreviation (input) storeSchemaVersion :: u64 where "storeSchemaVersion \<equiv> 2"

definition schema :: "'b kv \<Rightarrow> 'b store \<Rightarrow> u64" where
  "schema kv db =
     (case kv_get kv (bk_meta db) (str_bytes ''schema'') of
        None \<Rightarrow> 0
      | Some b \<Rightarrow> if length b = 8 then read_u64 b else 0)"

definition setSchema :: "'b kv \<Rightarrow> u64 \<Rightarrow> 'b store \<Rightarrow> 'b store" where
  "setSchema kv v db = db\<lparr>bk_meta := kv_put kv (str_bytes ''schema'') (u64be v) (bk_meta db)\<rparr>"

text \<open>\<open>openBlockStore\<close> on an existing database (\<open>None\<close>: a new file).\<close>

definition openBlockStore :: "'b kv \<Rightarrow> 'b store option \<Rightarrow> 'b store" where
  "openBlockStore kv file =
     (let db = (case file of
          None \<Rightarrow> \<lparr>bk_meta = kv_empty kv, bk_blocks = kv_empty kv, bk_blockHash = kv_empty kv,
                   bk_txIndex = kv_empty kv, bk_addrTx = kv_empty kv\<rparr>
        | Some db \<Rightarrow> db)
      in if kv_get kv (bk_meta db) (str_bytes ''schema'') = None then setSchema kv storeSchemaVersion db else db)"

text \<open>The rows of one transaction: under its sender and its recipient, once for a self-send.\<close>

definition addr_keys :: "crypto \<Rightarrow> u64 \<Rightarrow> nat \<times> tx \<Rightarrow> bytes list" where
  "addr_keys cr height p =
     (case p of (i, t) \<Rightarrow>
        if IsCoinbase t then [addrTxKey (tx_To t) height i]
        else case FromAddr cr t of
          Inl _ \<Rightarrow> []
        | Inr frm \<Rightarrow> addrTxKey frm height i # (if tx_To t \<noteq> frm then [addrTxKey (tx_To t) height i] else []))"

definition putAddrRows :: "'b kv \<Rightarrow> crypto \<Rightarrow> block \<Rightarrow> 'b \<Rightarrow> 'b" where
  "putAddrRows kv cr b rows =
     foldl (\<lambda>r p. foldl (\<lambda>r k. kv_put kv k (encodeHistRow (history_item_of cr b (snd p))) r) r
              (addr_keys cr (blk_Height b) p)) rows (enumerate 0 (blk_Txs b))"

definition putBlockTx :: "'b kv \<Rightarrow> json \<Rightarrow> crypto \<Rightarrow> block \<Rightarrow> 'b store \<Rightarrow> 'b store" where
  "putBlockTx kv js cr b db =
     (let h = u64be (blk_Height b) in
      db\<lparr>bk_blocks := kv_put kv h (marshal js b) (bk_blocks db),
         bk_blockHash := kv_put kv (str_bytes (Hash cr b)) h (bk_blockHash db),
         bk_txIndex := foldl (\<lambda>x (i, t). kv_put kv (str_bytes (ID cr t)) (txLocBytes (blk_Height b) i) x)
                         (bk_txIndex db) (enumerate 0 (blk_Txs b)),
         bk_addrTx := putAddrRows kv cr b (bk_addrTx db)\<rparr>)"

definition putMeta :: "'b kv \<Rightarrow> int \<Rightarrow> 'b store \<Rightarrow> 'b store" where
  "putMeta kv cumwork db =
     (let m = (case rev (kv_keys kv (bk_blocks db)) of
                 [] \<Rightarrow> bk_meta db
               | k # _ \<Rightarrow> kv_put kv (str_bytes ''tip'') k (bk_meta db))
      in db\<lparr>bk_meta := kv_put kv (str_bytes ''cumwork'') (big_bytes cumwork) m\<rparr>)"

definition putBlocks :: "'b kv \<Rightarrow> json \<Rightarrow> crypto \<Rightarrow> block list \<Rightarrow> 'b store \<Rightarrow> 'b store" where
  "putBlocks kv js cr bs db = foldl (\<lambda>db b. putBlockTx kv js cr b db) db bs"

definition deleteBlockTx :: "'b kv \<Rightarrow> crypto \<Rightarrow> block \<Rightarrow> 'b store \<Rightarrow> 'b store" where
  "deleteBlockTx kv cr b db =
     db\<lparr>bk_blocks := kv_del kv (u64be (blk_Height b)) (bk_blocks db),
        bk_blockHash := kv_del kv (str_bytes (Hash cr b)) (bk_blockHash db),
        bk_txIndex := foldl (\<lambda>x t. kv_del kv (str_bytes (ID cr t)) x) (bk_txIndex db) (blk_Txs b),
        bk_addrTx := foldl (\<lambda>r p. foldl (\<lambda>r k. kv_del kv k r) r (addr_keys cr (blk_Height b) p))
                       (bk_addrTx db) (enumerate 0 (blk_Txs b))\<rparr>"

text \<open>\<open>deleteRangeTx\<close> over the heights \<open>lo..hi\<close>; \<open>None\<close> is the error that rolls the transaction back.\<close>

fun delete_heights :: "'b kv \<Rightarrow> json \<Rightarrow> crypto \<Rightarrow> nat list \<Rightarrow> 'b store \<Rightarrow> 'b store option" where
  "delete_heights kv js cr [] db = Some db"
| "delete_heights kv js cr (h # hs) db =
     (case kv_get kv (bk_blocks db) (u64be (word_of_nat h)) of
        None \<Rightarrow> delete_heights kv js cr hs db
      | Some raw \<Rightarrow>
          (case unmarshal js raw of
             None \<Rightarrow> None
           | Some b \<Rightarrow> delete_heights kv js cr hs (deleteBlockTx kv cr b db)))"

definition deleteRangeTx :: "'b kv \<Rightarrow> json \<Rightarrow> crypto \<Rightarrow> nat \<Rightarrow> nat \<Rightarrow> 'b store \<Rightarrow> 'b store option" where
  "deleteRangeTx kv js cr lo hi db = delete_heights kv js cr [lo..<Suc hi] db"

definition tipHeight :: "'b kv \<Rightarrow> 'b store \<Rightarrow> u64 option" where
  "tipHeight kv db = (case rev (kv_keys kv (bk_blocks db)) of [] \<Rightarrow> None | k # _ \<Rightarrow> Some (read_u64 k))"

definition store_cumWork :: "'b kv \<Rightarrow> 'b store \<Rightarrow> int" where
  "store_cumWork kv db =
     (case kv_get kv (bk_meta db) (str_bytes ''cumwork'') of None \<Rightarrow> 0 | Some v \<Rightarrow> int (from_be v))"

section \<open>Writes as sequences of transactions\<close>

text \<open>
  Every write is the list of transactions it runs in order. A crash or a disk error stops it after
  some number of commits: \<open>run_txns n\<close> is the database after at most \<open>n\<close> of them.
\<close>

type_synonym 'b txn = "'b store \<Rightarrow> 'b store option"

fun run_txns :: "nat \<Rightarrow> 'b txn list \<Rightarrow> 'b store \<Rightarrow> 'b store" where
  "run_txns n [] db = db"
| "run_txns 0 (f # fs) db = db"
| "run_txns (Suc n) (f # fs) db = (case f db of None \<Rightarrow> db | Some db' \<Rightarrow> run_txns n fs db')"

function chunks :: "nat \<Rightarrow> 'a list \<Rightarrow> 'a list list" where
  "chunks n xs = (if xs = [] \<or> n = 0 then [] else take n xs # chunks n (drop n xs))"
  by pat_completeness auto

termination by (relation "measure (\<lambda>(n, xs). length xs)") auto

declare chunks.simps [simp del]

definition appendBlocks :: "'b kv \<Rightarrow> json \<Rightarrow> crypto \<Rightarrow> block list \<Rightarrow> int \<Rightarrow> 'b txn list" where
  "appendBlocks kv js cr blocks cumwork = [\<lambda>db. Some (putMeta kv cumwork (putBlocks kv js cr blocks db))]"

text \<open>The bounds of the top-down deletion batches: \<open>hi\<close> is exclusive here.\<close>

function delete_batches :: "nat \<Rightarrow> nat \<Rightarrow> nat \<Rightarrow> (nat \<times> nat) list" where
  "delete_batches batch frm stop =
     (if stop \<le> frm \<or> batch = 0 then []
      else let lo = max frm (stop - batch) in (lo, stop - 1) # delete_batches batch frm lo)"
  by pat_completeness auto

termination by (relation "measure (\<lambda>(batch, frm, stop). stop)") auto

declare delete_batches.simps [simp del]

definition truncateAndAppend ::
  "'b kv \<Rightarrow> json \<Rightarrow> crypto \<Rightarrow> nat \<Rightarrow> block list \<Rightarrow> int \<Rightarrow> 'b store \<Rightarrow> 'b txn list" where
  "truncateAndAppend kv js cr fromHeight blocks cumwork db =
     (let batch = 1000;
          stop = (case tipHeight kv db of None \<Rightarrow> 0 | Some tip \<Rightarrow> unat tip + 1);
          toDelete = (if stop > fromHeight then stop - fromHeight else 0)
      in if toDelete + length blocks \<le> batch
         then [\<lambda>db. case (if toDelete > 0 then deleteRangeTx kv js cr fromHeight (stop - 1) db else Some db) of
                      None \<Rightarrow> None
                    | Some db1 \<Rightarrow> Some (putMeta kv cumwork (putBlocks kv js cr blocks db1))]
         else map (\<lambda>(lo, hi) db. deleteRangeTx kv js cr lo hi db) (delete_batches batch fromHeight stop)
              @ map (\<lambda>chunk db. Some (putBlocks kv js cr chunk db)) (chunks batch blocks)
              @ [\<lambda>db. Some (putMeta kv cumwork db)])"

definition clear_blocks :: "'b kv \<Rightarrow> 'b store \<Rightarrow> 'b store" where
  "clear_blocks kv db = db\<lparr>bk_blocks := kv_empty kv, bk_blockHash := kv_empty kv,
     bk_txIndex := kv_empty kv, bk_addrTx := kv_empty kv\<rparr>"

definition store_rebuild :: "'b kv \<Rightarrow> json \<Rightarrow> crypto \<Rightarrow> block list \<Rightarrow> int \<Rightarrow> 'b txn list" where
  "store_rebuild kv js cr blocks cumwork =
     (\<lambda>db. Some (clear_blocks kv db))
     # map (\<lambda>chunk db. Some (putBlocks kv js cr chunk db)) (chunks 1000 blocks)
     @ [\<lambda>db. Some (putMeta kv cumwork db)]"

definition backfillRows :: "'b kv \<Rightarrow> crypto \<Rightarrow> block list \<Rightarrow> 'b txn list" where
  "backfillRows kv cr blocks =
     map (\<lambda>chunk db. Some (db\<lparr>bk_addrTx := foldl (\<lambda>r b. putAddrRows kv cr b r) (bk_addrTx db) chunk\<rparr>))
       (chunks 500 blocks)"

text \<open>
  \<open>migrateFromJSONL\<close>: refused on a populated store; a line that does not decode stops the import
  after the full batches before it, as does a block whose target does not decode.
\<close>

fun migrate_scan :: "block option list \<Rightarrow> int \<Rightarrow> block list \<Rightarrow> err option \<times> int \<times> block list" where
  "migrate_scan [] work bs = (None, work, bs)"
| "migrate_scan (None # ls) work bs = (Some CorruptStore, work, bs)"
| "migrate_scan (Some b # ls) work bs =
     (case TargetInt b of Inl e \<Rightarrow> (Some e, work, bs) | Inr t \<Rightarrow> migrate_scan ls (work + WorkOf t) (bs @ [b]))"

definition migrateFromJSONL ::
  "'b kv \<Rightarrow> json \<Rightarrow> crypto \<Rightarrow> block option list \<Rightarrow> 'b store \<Rightarrow> err option \<times> 'b txn list" where
  "migrateFromJSONL kv js cr lines db =
     (if tipHeight kv db \<noteq> None then (Some CorruptStore, [])
      else let (e, work, bs) = migrate_scan lines 0 [];
               full = (case e of None \<Rightarrow> bs | Some _ \<Rightarrow> take (1000 * (length bs div 1000)) bs)
           in (e, map (\<lambda>chunk db. Some (putBlocks kv js cr chunk db)) (chunks 1000 full)
                  @ (if e = None then [\<lambda>db. Some (putMeta kv work db)] else [])))"

section \<open>Reads\<close>

definition forEachBlock :: "'b kv \<Rightarrow> json \<Rightarrow> 'b store \<Rightarrow> block list option" where
  "forEachBlock kv js db =
     those (map (\<lambda>k. unmarshal js (the (kv_get kv (bk_blocks db) k))) (kv_keys kv (bk_blocks db)))"

definition getBlock :: "'b kv \<Rightarrow> json \<Rightarrow> 'b store \<Rightarrow> u64 \<Rightarrow> block option" where
  "getBlock kv js db height =
     (case kv_get kv (bk_blocks db) (u64be height) of None \<Rightarrow> None | Some raw \<Rightarrow> unmarshal js raw)"

definition findTxLoc :: "'b kv \<Rightarrow> 'b store \<Rightarrow> string \<Rightarrow> (u64 \<times> nat) option" where
  "findTxLoc kv db txid =
     (case kv_get kv (bk_txIndex db) (str_bytes txid) of
        None \<Rightarrow> None
      | Some v \<Rightarrow> if length v \<noteq> 12 then None else Some (read_u64 v, from_be (drop 8 v)))"

definition store_findTx :: "'b kv \<Rightarrow> json \<Rightarrow> crypto \<Rightarrow> 'b store \<Rightarrow> string \<Rightarrow> tx_location option" where
  "store_findTx kv js cr db txid =
     (case findTxLoc kv db txid of
        None \<Rightarrow> None
      | Some (h, idx) \<Rightarrow>
          (case getBlock kv js db h of
             None \<Rightarrow> None
           | Some b \<Rightarrow> if idx \<ge> length (blk_Txs b) then None else Some (confirmed_location cr b (blk_Txs b ! idx))))"

definition store_blockByHash :: "'b kv \<Rightarrow> json \<Rightarrow> 'b store \<Rightarrow> string \<Rightarrow> block option" where
  "store_blockByHash kv js db hash =
     (case kv_get kv (bk_blockHash db) (str_bytes hash) of
        None \<Rightarrow> None
      | Some hv \<Rightarrow> (case kv_get kv (bk_blocks db) hv of None \<Rightarrow> None | Some raw \<Rightarrow> unmarshal js raw))"

text \<open>
  The history query. \<open>hist_state\<close> holds the loop's variables: entries skipped so far, the page, the
  current block's entries in descending order, its height, and the block loaded for the fallback.
  \<open>flush_run\<close> is the inner loop of \<open>flush\<close>, from the smallest index up; its first result is false
  when the page is full.
\<close>

record hist_state =
  hs_skipped :: nat
  hs_out :: "history_item list"
  hs_run :: "(nat \<times> bytes) list"
  hs_runH :: u64
  hs_blk :: "block option"

text \<open>The fallback: load the block of the run unless it is the one in hand.\<close>

definition load_fallback :: "'b kv \<Rightarrow> json \<Rightarrow> 'b store \<Rightarrow> hist_state \<Rightarrow> hist_state \<times> block option" where
  "load_fallback kv js db s =
     (case hs_blk s of
        Some b \<Rightarrow> if blk_Height b = hs_runH s then (s, Some b)
          else (case getBlock kv js db (hs_runH s) of None \<Rightarrow> (s, None) | Some b' \<Rightarrow> (s\<lparr>hs_blk := Some b'\<rparr>, Some b'))
      | None \<Rightarrow> (case getBlock kv js db (hs_runH s) of None \<Rightarrow> (s, None) | Some b' \<Rightarrow> (s\<lparr>hs_blk := Some b'\<rparr>, Some b')))"

definition emit_entry :: "'b kv \<Rightarrow> json \<Rightarrow> crypto \<Rightarrow> 'b store \<Rightarrow> hist_state \<Rightarrow> nat \<times> bytes \<Rightarrow> hist_state" where
  "emit_entry kv js cr db s e =
     (case decodeHistRow (snd e) (hs_runH s) of
        Some it \<Rightarrow> s\<lparr>hs_out := hs_out s @ [it]\<rparr>
      | None \<Rightarrow>
          (case load_fallback kv js db s of
             (s1, None) \<Rightarrow> s1
           | (s1, Some b) \<Rightarrow>
               if fst e \<ge> length (blk_Txs b) then s1
               else s1\<lparr>hs_out := hs_out s1 @ [history_item_of cr b (blk_Txs b ! fst e)]\<rparr>))"

fun flush_run ::
  "'b kv \<Rightarrow> json \<Rightarrow> crypto \<Rightarrow> 'b store \<Rightarrow> nat \<Rightarrow> nat \<Rightarrow> (nat \<times> bytes) list \<Rightarrow> hist_state \<Rightarrow> bool \<times> hist_state" where
  "flush_run kv js cr db limit offset [] s = (length (hs_out s) < limit, s\<lparr>hs_run := []\<rparr>)"
| "flush_run kv js cr db limit offset (e # es) s =
     (if hs_skipped s < offset then flush_run kv js cr db limit offset es (s\<lparr>hs_skipped := hs_skipped s + 1\<rparr>)
      else if length (hs_out s) \<ge> limit then (False, s\<lparr>hs_run := []\<rparr>)
      else flush_run kv js cr db limit offset es (emit_entry kv js cr db s e))"

definition flush :: "'b kv \<Rightarrow> json \<Rightarrow> crypto \<Rightarrow> 'b store \<Rightarrow> nat \<Rightarrow> nat \<Rightarrow> hist_state \<Rightarrow> bool \<times> hist_state" where
  "flush kv js cr db limit offset s =
     (if hs_run s = [] then (True, s) else flush_run kv js cr db limit offset (rev (hs_run s)) s)"

text \<open>The cursor loop over the keys below the address's upper bound, last key first.\<close>

fun hist_loop ::
  "'b kv \<Rightarrow> json \<Rightarrow> crypto \<Rightarrow> 'b store \<Rightarrow> bytes \<Rightarrow> nat \<Rightarrow> nat \<Rightarrow> bytes list \<Rightarrow> hist_state \<Rightarrow> hist_state" where
  "hist_loop kv js cr db prefix limit offset [] s = snd (flush kv js cr db limit offset s)"
| "hist_loop kv js cr db prefix limit offset (k # ks) s =
     (let lp = length prefix in
      if length k < lp + 12 \<or> take lp k \<noteq> prefix then snd (flush kv js cr db limit offset s)
      else
        let h = read_u64 (drop lp k); idx = from_be (take 4 (drop (lp + 8) k));
            (go, s1) = (if hs_run s \<noteq> [] \<and> h \<noteq> hs_runH s
                        then (case flush kv js cr db limit offset s of (g, s') \<Rightarrow> (g, if g then s'\<lparr>hs_blk := None\<rparr> else s'))
                        else (True, s))
        in if \<not> go then s1
           else hist_loop kv js cr db prefix limit offset ks
                  (s1\<lparr>hs_runH := h, hs_run := hs_run s1 @ [(idx, the (kv_get kv (bk_addrTx db) k))]\<rparr>))"

definition addrHistory ::
  "'b kv \<Rightarrow> json \<Rightarrow> crypto \<Rightarrow> 'b store \<Rightarrow> string \<Rightarrow> int \<Rightarrow> int \<Rightarrow> history_item list option" where
  "addrHistory kv js cr db addr limit offset =
     (if limit < 0 then None
      else
        let prefix = str_bytes addr; upper = prefix @ replicate 12 255;
            ks = rev (takeWhile (\<lambda>k. k < upper) (kv_keys kv (bk_addrTx db)))
        in Some (hs_out (hist_loop kv js cr db prefix (nat limit) (nat offset) ks
             \<lparr>hs_skipped = 0, hs_out = [], hs_run = [], hs_runH = 0, hs_blk = None\<rparr>)))"

end
