(* ===== verification/Core_Store_Index.thy ===== *)
theory Core_Store_Index
  imports Core_Store
begin

text \<open>
  Correctness of the block store: the row codec and the order of the keys, the store as a map of the
  rows of its blocks, appends and reorganisations as operations on the list of blocks with every crash
  point between their transactions, and the queries, which answer as the in-memory chain does.
\<close>

section \<open>Bytes in key order\<close>

lemma from_be_Cons: "from_be (b # bs) = unat b * 256 ^ length bs + from_be bs"
  by (simp add: from_be_eq_from_le from_le_append)

lemma from_be_order: "length x = length y \<Longrightarrow> x < y \<longleftrightarrow> from_be x < from_be y"
proof (induction x arbitrary: y)
  case (Cons a x)
  then obtain b y' where y: "y = b # y'" "length x = length y'" by (cases y) auto
  have lx: "from_be x < 256 ^ length x" and ly: "from_be y' < 256 ^ length x"
    using from_be_less [of x] from_be_less [of y'] y(2) by simp_all
  consider "a < b" | "a = b" | "b < a" by (rule linorder_cases)
  then show ?case
  proof cases
    case 1
    then have "(unat a + 1) * 256 ^ length x \<le> unat b * 256 ^ length x"
      by (intro mult_right_mono) (simp_all add: word_less_nat_alt)
    then have "from_be (a # x) < from_be (b # y')"
      using lx y(2) by (simp add: from_be_Cons algebra_simps)
    then show ?thesis using 1 y(1) by simp
  next
    case 2
    then show ?thesis using Cons.IH [OF y(2)] y by (simp add: from_be_Cons)
  next
    case 3
    then have "(unat b + 1) * 256 ^ length x \<le> unat a * 256 ^ length x"
      by (intro mult_right_mono) (simp_all add: word_less_nat_alt)
    then have "\<not> from_be (a # x) < from_be (b # y')"
      using ly y(2) by (simp add: from_be_Cons algebra_simps)
    then show ?thesis using 3 y(1) by auto
  qed
qed simp

lemma append_order: "length p = length q \<Longrightarrow> p @ x < q @ y \<longleftrightarrow> p < q \<or> p = q \<and> x < (y :: bytes)"
proof (induction p arbitrary: q)
  case (Cons a p)
  then obtain b q' where "q = b # q'" "length p = length q'" by (cases q) auto
  then show ?case using Cons.IH [of q'] by auto
qed simp

lemma length_u64be [simp]: "length (u64be x) = 8" and length_u32be [simp]: "length (u32be y) = 4"
  by (simp_all add: u64be_def u32be_def)

lemma from_be_u64be [simp]: "from_be (u64be x) = unat x"
  by (simp add: u64be_def from_be_be_bytes)

lemma from_be_u32be [simp]: "from_be (u32be x) = unat x"
  by (simp add: u32be_def from_be_be_bytes)

lemma u64be_order [simp]: "u64be x < u64be y \<longleftrightarrow> x < y"
  using from_be_order [of "u64be x" "u64be y"] by (simp add: word_less_nat_alt)

lemma u64be_inj [simp]: "u64be x = u64be y \<longleftrightarrow> x = y"
  by (metis from_be_u64be word_unat_eq_iff)

lemma read_u64be [simp]: "read_u64 (u64be x @ r) = x"
  by (simp add: read_u64_def)

lemma unat_u32_nat: "n < 2 ^ 32 \<Longrightarrow> unat (word_of_nat n :: u32) = n"
  by (simp add: unat_of_nat)

section \<open>The row codec\<close>

lemma readLPStr_append:
  "length s < 256 \<Longrightarrow> readLPStr (word_of_nat (length s) # str_bytes s @ r) = Some (s, r)"
  "length s < 256 \<Longrightarrow> readLPStr (word_of_nat (length s) # str_bytes s) = Some (s, [])"
  by (simp_all add: readLPStr_def unat_of_nat)

text \<open>History rows survive the store: a row whose identifier and addresses have fewer than 256 characters
  decodes to the item it was made from, with the height taken from the key; and a value too short to be
  a row, such as the nil values of schema 1, is recognised and sends the reader to the block.
\<close>

theorem history_row_roundtrip:
  assumes "length (hi_TxID it) < 256" and "length (hi_From it) < 256" and "length (hi_To it) < 256"
  shows "decodeHistRow (encodeHistRow it) h = Some (it\<lparr>hi_Height := h\<rparr>)
    \<and> decodeHistRow (take 23 (encodeHistRow it)) h = None"
proof -
  let ?e = "u64be (hi_Time it) @ u64be (hi_Amount it) @ u64be (hi_Fee it)"
  let ?r = "word_of_nat (length (hi_TxID it)) # str_bytes (hi_TxID it)
      @ word_of_nat (length (hi_From it)) # str_bytes (hi_From it)
      @ word_of_nat (length (hi_To it)) # str_bytes (hi_To it) @ []"
  have e: "encodeHistRow it = ?e @ ?r" by (simp add: encodeHistRow_def appendLPStr_def)
  have d: "drop 24 (?e @ ?r) = ?r" "drop 8 (?e @ ?r) = u64be (hi_Amount it) @ u64be (hi_Fee it) @ ?r"
      "drop 16 (?e @ ?r) = u64be (hi_Fee it) @ ?r" "24 \<le> length (?e @ ?r)"
    by simp_all
  have "decodeHistRow (?e @ ?r) h = Some (it\<lparr>hi_Height := h\<rparr>)"
    unfolding decodeHistRow_def d(1-3) using d(4) readLPStr_append assms by simp
  then show ?thesis by (simp add: e decodeHistRow_def)
qed

theorem history_row_roundtrip_witness:
  "decodeHistRow (encodeHistRow (history_item_of demo_crypto block1 coinbase1)) 1
    = Some (history_item_of demo_crypto block1 coinbase1)"
proof -
  let ?it = "history_item_of demo_crypto block1 coinbase1"
  have "length (hi_TxID ?it) < 256" "length (hi_From ?it) < 256" "length (hi_To ?it) < 256"
    using digest32D [OF digest32_demo]
    by (simp_all add: history_item_of_def) (simp_all add: coinbase1_def genesis_coinbase_def ID_def computeID_def AddrFromPub_def)
  from history_row_roundtrip [OF this, of 1] show ?thesis by (simp add: history_item_of_def block1_def)
qed

section \<open>Reloaded blocks\<close>

definition block_coherent :: "crypto \<Rightarrow> block \<Rightarrow> bool" where
  "block_coherent cr b \<longleftrightarrow> (blk_hash b = [] \<or> blk_hash b = computeHash cr b) \<and> (\<forall>t \<in> set (blk_Txs b). tx_coherent cr t)"

lemma reload_tx_wire [simp]:
  "tx_FromPub (reload_tx cr t) = tx_FromPub t" "tx_To (reload_tx cr t) = tx_To t"
  "tx_Amount (reload_tx cr t) = tx_Amount t" "tx_Fee (reload_tx cr t) = tx_Fee t"
  "tx_Nonce (reload_tx cr t) = tx_Nonce t" "tx_Sig (reload_tx cr t) = tx_Sig t"
  "IsCoinbase (reload_tx cr t) = IsCoinbase t"
  by (simp_all add: reload_tx_def tx_UnmarshalJSON_def IsCoinbase_def)

lemma reload_tx_ID:
  assumes "tx_coherent cr t"
  shows "ID cr (reload_tx cr t) = ID cr t"
proof -
  have "computeID cr (t\<lparr>tx_id := [], tx_fromAddr := []\<rparr>) = computeID cr t" by simp
  moreover have "computeID cr (reload_tx cr t) = computeID cr t"
    by (simp add: computeID_def SigningPayload_def)
  ultimately show ?thesis
    using ID_coherent [OF assms] by (simp add: ID_def [of cr "reload_tx cr t"]) (simp add: reload_tx_def tx_UnmarshalJSON_def)
qed

lemma reload_tx_FromAddr:
  assumes "tx_coherent cr t"
  shows "FromAddr cr (reload_tx cr t) = FromAddr cr t"
proof -
  have "tx_coherent cr (reload_tx cr t)"
    unfolding reload_tx_def
    by (rule unmarshal_coherent [of "t\<lparr>tx_id := [], tx_fromAddr := []\<rparr>"]) (simp_all add: tx_UnmarshalJSON_def)
  then have "FromAddr cr (reload_tx cr t) = FromAddr cr ((reload_tx cr t)\<lparr>tx_fromAddr := []\<rparr>)"
    by (rule FromAddr_coherent)
  also have "\<dots> = FromAddr cr (t\<lparr>tx_fromAddr := []\<rparr>)" by (simp add: FromAddr_def IsCoinbase_def)
  also have "\<dots> = FromAddr cr t" by (rule FromAddr_coherent [OF assms, symmetric])
  finally show ?thesis .
qed

lemma reload_fields [simp]:
  "blk_Height (reload cr b) = blk_Height b" "blk_Time (reload cr b) = blk_Time b"
  "blk_Txs (reload cr b) = map (reload_tx cr) (blk_Txs b)"
  by (simp_all add: reload_def block_UnmarshalJSON_def)

lemma reload_Hash: "block_coherent cr b \<Longrightarrow> Hash cr (reload cr b) = Hash cr b"
  by (auto simp: block_coherent_def Hash_def reload_def block_UnmarshalJSON_def computeHash_def HeaderBytes_def)

lemma reload_item:
  assumes "tx_coherent cr t"
  shows "history_item_of cr (reload cr b) (reload_tx cr t) = history_item_of cr b t"
    "block_coherent cr b \<Longrightarrow> confirmed_location cr (reload cr b) (reload_tx cr t) = confirmed_location cr b t"
  using reload_tx_ID [OF assms] reload_tx_FromAddr [OF assms]
  by (simp_all add: history_item_of_def confirmed_location_def txToLocation_def from_or_empty_def reload_Hash)

section \<open>Buckets as the rows of the blocks\<close>

definition block_row :: "json \<Rightarrow> block \<Rightarrow> (bytes \<times> bytes) list" where
  "block_row js b = [(u64be (blk_Height b), marshal js b)]"

definition hash_row :: "crypto \<Rightarrow> block \<Rightarrow> (bytes \<times> bytes) list" where
  "hash_row cr b = [(str_bytes (Hash cr b), u64be (blk_Height b))]"

definition tx_rows :: "crypto \<Rightarrow> block \<Rightarrow> (bytes \<times> bytes) list" where
  "tx_rows cr b = map (\<lambda>(i, t). (str_bytes (ID cr t), txLocBytes (blk_Height b) i)) (enumerate 0 (blk_Txs b))"

definition addr_rows :: "crypto \<Rightarrow> block \<Rightarrow> (bytes \<times> bytes) list" where
  "addr_rows cr b = concat (map (\<lambda>p. map (\<lambda>k. (k, encodeHistRow (history_item_of cr b (snd p))))
     (addr_keys cr (blk_Height b) p)) (enumerate 0 (blk_Txs b)))"

definition rows_of :: "(block \<Rightarrow> (bytes \<times> bytes) list) \<Rightarrow> block list \<Rightarrow> (bytes \<times> bytes) list" where
  "rows_of f bs = concat (map f bs)"

lemma rows_of_simps [simp]:
  "rows_of f [] = []" "rows_of f (b # bs) = f b @ rows_of f bs" "rows_of f (xs @ ys) = rows_of f xs @ rows_of f ys"
  by (simp_all add: rows_of_def)

text \<open>The store holds a list of blocks when each bucket is the map of their rows.\<close>

definition store_holds :: "'b kv \<Rightarrow> json \<Rightarrow> crypto \<Rightarrow> 'b store \<Rightarrow> block list \<Rightarrow> bool" where
  "store_holds kv js cr db bs \<longleftrightarrow>
     kv_get kv (bk_blocks db) = map_of (rows_of (block_row js) bs)
     \<and> kv_get kv (bk_blockHash db) = map_of (rows_of (hash_row cr) bs)
     \<and> kv_get kv (bk_txIndex db) = map_of (rows_of (tx_rows cr) bs)
     \<and> kv_get kv (bk_addrTx db) = map_of (rows_of (addr_rows cr) bs)"

lemma kv_laws:
  assumes "kv_ok kv"
  shows "kv_get kv (kv_empty kv) k = None" "kv_get kv (kv_put kv k v b) = (kv_get kv b)(k \<mapsto> v)"
    "kv_get kv (kv_del kv k b) = (kv_get kv b)(k := None)" "set (kv_keys kv b) = dom (kv_get kv b)"
    "sorted_wrt (<) (kv_keys kv b)"
  using assms by (simp_all add: kv_ok_def)

lemma map_of_snoc: "distinct (map fst (xs @ [(k, v)])) \<Longrightarrow> map_of (xs @ [(k, v)]) = (map_of xs)(k \<mapsto> v)"
proof -
  assume "distinct (map fst (xs @ [(k, v)]))"
  then have "map_of xs k = None" by (simp add: map_of_eq_None_iff)
  then show ?thesis by (intro ext) (simp add: map_add_def split: option.split)
qed

lemma kv_put_rows:
  assumes "kv_ok kv" and "kv_get kv b = map_of rows" and "distinct (map fst (rows @ new))"
  shows "kv_get kv (foldl (\<lambda>b p. kv_put kv (fst p) (snd p) b) b new) = map_of (rows @ new)"
  using assms(2,3)
proof (induction new arbitrary: b rows)
  case (Cons p new)
  have "distinct (map fst (rows @ [(fst p, snd p)]))" using Cons.prems(2) by simp
  then have "kv_get kv (kv_put kv (fst p) (snd p) b) = map_of (rows @ [p])"
    using map_of_snoc [of rows "fst p" "snd p"] Cons.prems(1) by (simp add: kv_laws [OF assms(1)])
  from Cons.IH [OF this] show ?case using Cons.prems(2) by simp
qed simp

lemma map_of_drop_one:
  assumes "distinct (map fst (pre @ p # post))"
  shows "(map_of (pre @ p # post))(fst p := None) = map_of (pre @ post)"
proof
  fix k
  have "fst p \<notin> fst ` set (pre @ post)" using assms by auto
  then have "map_of (pre @ post) (fst p) = None" using map_of_eq_None_iff by metis
  then show "((map_of (pre @ p # post))(fst p := None)) k = map_of (pre @ post) k"
    by (cases p) (auto simp: map_add_def split: option.splits)
qed

lemma kv_del_rows:
  assumes "kv_ok kv" and "kv_get kv b = map_of (pre @ mid @ post)" and "distinct (map fst (pre @ mid @ post))"
  shows "kv_get kv (foldl (\<lambda>b k. kv_del kv k b) b (map fst mid)) = map_of (pre @ post)"
  using assms(2,3)
proof (induction mid arbitrary: b)
  case (Cons p mid)
  have "kv_get kv (kv_del kv (fst p) b) = map_of (pre @ mid @ post)"
    using map_of_drop_one [of pre p "mid @ post"] Cons.prems by (simp add: kv_laws [OF assms(1)])
  from Cons.IH [OF this] show ?case using Cons.prems(2) by simp
qed simp

section \<open>Well-formed lists of blocks\<close>

text \<open>
  What the store relies on: heights are positions, no two blocks share a hash and no two transactions
  an identifier, addresses have 44 characters, blocks have fewer than \<open>2^32\<close> transactions, and cached
  hashes, identifiers and senders are what they cache, and strings are ASCII.
\<close>

definition store_wf :: "crypto \<Rightarrow> block list \<Rightarrow> bool" where
  "store_wf cr bs \<longleftrightarrow> length bs < 2 ^ 63 \<and> (\<forall>i < length bs. blk_Height (bs ! i) = word_of_nat i)
     \<and> distinct (map (Hash cr) bs) \<and> distinct (map (ID cr) (chain_txs bs))
     \<and> (\<forall>b \<in> set bs. block_coherent cr b \<and> block_ascii b \<and> length (blk_Txs b) < 2 ^ 32
         \<and> (\<forall>t \<in> set (blk_Txs b). length (tx_To t) = 44 \<and> (\<forall>a. FromAddr cr t = Inr a \<longrightarrow> length a = 44)))"

lemma store_wf_take: "store_wf cr bs \<Longrightarrow> store_wf cr (take n bs)"
proof -
  assume w: "store_wf cr bs"
  have "chain_txs bs = chain_txs (take n bs) @ chain_txs (drop n bs)"
    unfolding chain_txs_def by (metis append_take_drop_id concat_append map_append)
  then show ?thesis using w by (auto simp: store_wf_def take_map [symmetric] distinct_take dest: in_set_takeD)
qed

lemma store_wf_heights:
  assumes "store_wf cr bs"
  shows "map blk_Height bs = map word_of_nat [0..<length bs]" and "distinct (map blk_Height bs)"
proof -
  show h: "map blk_Height bs = map word_of_nat [0..<length bs]"
    using assms by (intro nth_equalityI) (simp_all add: store_wf_def)
  have "inj_on (word_of_nat :: nat \<Rightarrow> u64) {0..<length bs}"
  proof (rule inj_onI)
    fix x y assume a: "x \<in> {0..<length bs}" "y \<in> {0..<length bs}" "(word_of_nat x :: u64) = word_of_nat y"
    have "length bs < 2 ^ 63" using assms by (simp add: store_wf_def)
    then have "x < 2 ^ 64" "y < 2 ^ 64" using a(1,2) by simp_all
    then have u: "unat (word_of_nat x :: u64) = x" "unat (word_of_nat y :: u64) = y" by (simp_all add: unat_of_nat)
    show "x = y" using arg_cong [OF a(3), of unat] unfolding u .
  qed
  then show "distinct (map blk_Height bs)" by (simp add: h distinct_map)
qed

lemma distinct_concat_map:
  assumes "\<And>x. x \<in> set xs \<Longrightarrow> distinct (f x)" and "distinct (map g xs)"
    and "\<And>x y z. x \<in> set xs \<Longrightarrow> y \<in> set xs \<Longrightarrow> z \<in> set (f x) \<Longrightarrow> z \<in> set (f y) \<Longrightarrow> g x = g y"
  shows "distinct (concat (map f xs))"
  using assms
proof (induction xs)
  case (Cons x xs)
  have "set (f x) \<inter> set (concat (map f xs)) = {}"
  proof (rule ccontr)
    assume "\<not> ?thesis"
    then obtain z y where "z \<in> set (f x)" "y \<in> set xs" "z \<in> set (f y)" by auto
    then show False using Cons.prems(2) Cons.prems(3) [of x y z] by force
  qed
  moreover have "distinct (concat (map f xs))"
    by (rule Cons.IH) (use Cons.prems in \<open>auto\<close>)
  ultimately show ?case using Cons.prems(1) [of x] by simp
qed simp

lemma addrTxKey_inj:
  assumes "addrTxKey a h i = addrTxKey a' h' i'" and "length a = length a'" and "i < 2 ^ 32" and "i' < 2 ^ 32"
  shows "a = a' \<and> h = h' \<and> i = i'"
proof -
  have "str_bytes a = str_bytes a' \<and> u64be h @ u32be (word_of_nat i) = u64be h' @ u32be (word_of_nat i')"
    using assms(1,2) by (simp add: addrTxKey_def)
  then have e: "a = a'" "u64be h = u64be h'" "u32be (word_of_nat i) = u32be (word_of_nat i')" by simp_all
  then have "(word_of_nat i :: u32) = word_of_nat i'" by (metis from_be_u32be word_unat_eq_iff)
  then have "unat (word_of_nat i :: u32) = unat (word_of_nat i' :: u32)" by (rule arg_cong)
  then have "i = i'" unfolding unat_u32_nat [OF assms(3)] unat_u32_nat [OF assms(4)] .
  then show ?thesis using e(1,2) by simp
qed

lemma addr_keys_mem:
  assumes "k \<in> set (addr_keys cr h (i, t))"
    and "length (tx_To t) = 44 \<and> (\<forall>a. FromAddr cr t = Inr a \<longrightarrow> length a = 44)"
  shows "\<exists>a. k = addrTxKey a h i \<and> length a = 44"
  using assms by (auto simp: addr_keys_def split: if_splits sum.splits)

lemma addr_keys_distinct:
  assumes "length (tx_To t) = 44 \<and> (\<forall>a. FromAddr cr t = Inr a \<longrightarrow> length a = 44)"
  shows "distinct (addr_keys cr h (i, t))"
  using assms by (auto simp: addr_keys_def addrTxKey_def split: sum.split)

lemma map_fst_addr_rows:
  "map fst (addr_rows cr b) = concat (map (addr_keys cr (blk_Height b)) (enumerate 0 (blk_Txs b)))"
  by (simp add: addr_rows_def map_concat comp_def)

lemma addr_rows_distinct:
  assumes "store_wf cr bs"
  shows "distinct (map fst (rows_of (addr_rows cr) bs))"
proof -
  have wt: "length (tx_To t) = 44 \<and> (\<forall>a. FromAddr cr t = Inr a \<longrightarrow> length a = 44)" "length (blk_Txs b) < 2 ^ 32"
    if "b \<in> set bs" "t \<in> set (blk_Txs b)" for b t
    using assms that unfolding store_wf_def by blast+
  have mem: "i < length ts \<and> t \<in> set ts" if "(i, t) \<in> set (enumerate 0 ts)" for i and t :: tx and ts
    using that by (auto simp: in_set_enumerate_eq)
  have key: "\<exists>a. z = addrTxKey a (blk_Height b) i \<and> length a = 44 \<and> i < 2 ^ 32"
    if "b \<in> set bs" "(i, t) \<in> set (enumerate 0 (blk_Txs b))" "z \<in> set (addr_keys cr (blk_Height b) (i, t))" for b i t z
    using addr_keys_mem [OF that(3)] wt [OF that(1)] mem [OF that(2)] by (meson order_less_trans)
  have one: "distinct (map fst (addr_rows cr b))" if b: "b \<in> set bs" for b
    unfolding map_fst_addr_rows
  proof (rule distinct_concat_map [where g = fst])
    fix p assume p: "p \<in> set (enumerate 0 (blk_Txs b))"
    obtain i t where it: "p = (i, t)" by (cases p)
    then have "t \<in> set (blk_Txs b)" using mem p by blast
    from addr_keys_distinct [OF wt(1) [OF b this]] show "distinct (addr_keys cr (blk_Height b) p)" by (simp only: it)
  next
    fix p q z
    assume "p \<in> set (enumerate 0 (blk_Txs b))" "q \<in> set (enumerate 0 (blk_Txs b))"
      "z \<in> set (addr_keys cr (blk_Height b) p)" "z \<in> set (addr_keys cr (blk_Height b) q)"
    then show "fst p = fst q"
      using key [OF b, of "fst p" "snd p" z] key [OF b, of "fst q" "snd q" z] addrTxKey_inj by fastforce
  qed simp
  have "distinct (concat (map (\<lambda>b. map fst (addr_rows cr b)) bs))"
  proof (rule distinct_concat_map [where g = blk_Height])
    show "distinct (map blk_Height bs)" by (rule store_wf_heights(2) [OF assms])
  next
    fix b c z
    assume a: "b \<in> set bs" "c \<in> set bs" "z \<in> set (map fst (addr_rows cr b))" "z \<in> set (map fst (addr_rows cr c))"
    obtain p where p: "p \<in> set (enumerate 0 (blk_Txs b))" "z \<in> set (addr_keys cr (blk_Height b) p)"
      using a(3) unfolding map_fst_addr_rows by auto
    obtain q where q: "q \<in> set (enumerate 0 (blk_Txs c))" "z \<in> set (addr_keys cr (blk_Height c) q)"
      using a(4) unfolding map_fst_addr_rows by auto
    show "blk_Height b = blk_Height c"
      using key [OF a(1), of "fst p" "snd p" z] key [OF a(2), of "fst q" "snd q" z] p q addrTxKey_inj by fastforce
  qed (rule one)
  then show ?thesis by (simp add: rows_of_def map_concat comp_def)
qed

lemma rows_distinct:
  assumes "store_wf cr bs"
  shows "distinct (map fst (rows_of (block_row js) bs))" "distinct (map fst (rows_of (hash_row cr) bs))"
    "distinct (map fst (rows_of (tx_rows cr) bs))" "distinct (map fst (rows_of (addr_rows cr) bs))"
proof -
  have "map fst (rows_of (block_row js) bs) = map u64be (map blk_Height bs)"
    by (induction bs) (simp_all add: block_row_def)
  then show "distinct (map fst (rows_of (block_row js) bs))"
    using store_wf_heights(2) [OF assms] by (simp only: distinct_map) (simp add: inj_on_def)
  have "map fst (rows_of (hash_row cr) bs) = map str_bytes (map (Hash cr) bs)"
    by (induction bs) (simp_all add: hash_row_def)
  then show "distinct (map fst (rows_of (hash_row cr) bs))"
    using assms by (simp only: distinct_map) (simp add: store_wf_def distinct_map inj_on_def)
  have one: "map fst (tx_rows cr b) = map (\<lambda>t. str_bytes (ID cr t)) (blk_Txs b)" for b
  proof -
    have "map fst (tx_rows cr b) = map (\<lambda>t. str_bytes (ID cr t)) (map snd (enumerate 0 (blk_Txs b)))"
      by (simp add: tx_rows_def case_prod_beta del: map_snd_enumerate)
    then show ?thesis by simp
  qed
  have "map fst (rows_of (tx_rows cr) bs) = map str_bytes (map (ID cr) (chain_txs bs))"
    by (induction bs) (simp_all add: one chain_txs_def)
  then show "distinct (map fst (rows_of (tx_rows cr) bs))"
    using assms by (simp only: distinct_map) (simp add: store_wf_def distinct_map inj_on_def)
qed (rule addr_rows_distinct [OF assms])

section \<open>Writing and deleting blocks\<close>

definition rows_ok :: "json \<Rightarrow> crypto \<Rightarrow> block list \<Rightarrow> bool" where
  "rows_ok js cr bs \<longleftrightarrow>
     distinct (map fst (rows_of (block_row js) bs)) \<and> distinct (map fst (rows_of (hash_row cr) bs))
     \<and> distinct (map fst (rows_of (tx_rows cr) bs)) \<and> distinct (map fst (rows_of (addr_rows cr) bs))
     \<and> (\<forall>b \<in> set bs. block_coherent cr b \<and> block_ascii b)"

lemma rows_ok_wf: "store_wf cr bs \<Longrightarrow> rows_ok js cr bs"
  using rows_distinct [where cr = cr and bs = bs] by (auto simp: rows_ok_def store_wf_def)

lemma rows_ok_drop: "rows_ok js cr (pre @ b # post) \<Longrightarrow> rows_ok js cr (pre @ post)"
  by (auto simp: rows_ok_def)

lemma put_tx_index:
  "foldl (\<lambda>x (i, t). kv_put kv (str_bytes (ID cr t)) (txLocBytes (blk_Height b) i) x) x (enumerate 0 (blk_Txs b))
    = foldl (\<lambda>b p. kv_put kv (fst p) (snd p) b) x (tx_rows cr b)"
  by (simp add: tx_rows_def foldl_map case_prod_unfold)

lemma put_addr_index:
  "putAddrRows kv cr b rows = foldl (\<lambda>b p. kv_put kv (fst p) (snd p) b) rows (addr_rows cr b)"
proof -
  have "foldl (\<lambda>r p. foldl (\<lambda>r k. kv_put kv k (v p) r) r (ks p)) rows ps
      = foldl (\<lambda>b p. kv_put kv (fst p) (snd p) b) rows (concat (map (\<lambda>p. map (\<lambda>k. (k, v p)) (ks p)) ps))"
    for v ks and ps :: "(nat \<times> tx) list"
    by (induction ps arbitrary: rows) (simp_all add: foldl_map)
  then show ?thesis by (simp add: putAddrRows_def addr_rows_def)
qed

lemma del_addr_index:
  "foldl (\<lambda>r p. foldl (\<lambda>r k. kv_del kv k r) r (addr_keys cr (blk_Height b) p)) rows (enumerate 0 (blk_Txs b))
    = foldl (\<lambda>b k. kv_del kv k b) rows (map fst (addr_rows cr b))"
proof -
  have "foldl (\<lambda>r p. foldl (\<lambda>r k. kv_del kv k r) r (ks p)) rows ps
      = foldl (\<lambda>b k. kv_del kv k b) rows (concat (map ks ps))" for ks and ps :: "(nat \<times> tx) list"
    by (induction ps arbitrary: rows) simp_all
  then show ?thesis by (simp add: map_fst_addr_rows)
qed

lemma map_fst_tx_rows: "map fst (tx_rows cr b) = map (\<lambda>t. str_bytes (ID cr t)) (blk_Txs b)"
proof -
  have "map fst (tx_rows cr b) = map (\<lambda>t. str_bytes (ID cr t)) (map snd (enumerate 0 (blk_Txs b)))"
    by (simp add: tx_rows_def case_prod_beta del: map_snd_enumerate)
  then show ?thesis by simp
qed

lemma holds_put:
  assumes "kv_ok kv" and "store_holds kv js cr db bs" and "rows_ok js cr (bs @ [b])"
  shows "store_holds kv js cr (putBlockTx kv js cr b db) (bs @ [b])"
proof -
  have 1: "kv_get kv (kv_put kv (u64be (blk_Height b)) (marshal js b) (bk_blocks db)) = map_of (rows_of (block_row js) bs @ block_row js b)"
    using kv_put_rows [OF assms(1), of "bk_blocks db" "rows_of (block_row js) bs" "block_row js b"] assms(2,3)
    by (simp add: store_holds_def rows_ok_def block_row_def)
  have 2: "kv_get kv (kv_put kv (str_bytes (Hash cr b)) (u64be (blk_Height b)) (bk_blockHash db)) = map_of (rows_of (hash_row cr) bs @ hash_row cr b)"
    using kv_put_rows [OF assms(1), of "bk_blockHash db" "rows_of (hash_row cr) bs" "hash_row cr b"] assms(2,3)
    by (simp add: store_holds_def rows_ok_def hash_row_def)
  have 3: "kv_get kv (foldl (\<lambda>b p. kv_put kv (fst p) (snd p) b) (bk_txIndex db) (tx_rows cr b))
      = map_of (rows_of (tx_rows cr) bs @ tx_rows cr b)"
    using assms(2,3) by (intro kv_put_rows [OF assms(1)]) (simp_all add: store_holds_def rows_ok_def)
  have 4: "kv_get kv (foldl (\<lambda>b p. kv_put kv (fst p) (snd p) b) (bk_addrTx db) (addr_rows cr b))
      = map_of (rows_of (addr_rows cr) bs @ addr_rows cr b)"
    using assms(2,3) by (intro kv_put_rows [OF assms(1)]) (simp_all add: store_holds_def rows_ok_def)
  show ?thesis
    unfolding store_holds_def rows_of_simps append_Nil2
    by (simp add: putBlockTx_def Let_def put_tx_index put_addr_index 1 2 3 4)
qed

lemma holds_puts:
  assumes "kv_ok kv"
  shows "store_holds kv js cr db bs \<Longrightarrow> rows_ok js cr (bs @ cs) \<Longrightarrow>
    store_holds kv js cr (putBlocks kv js cr cs db) (bs @ cs)"
proof (induction cs arbitrary: db bs)
  case (Cons c cs)
  have "rows_ok js cr (bs @ [c])" using Cons.prems(2) by (auto simp: rows_ok_def)
  from holds_put [OF assms Cons.prems(1) this] Cons.prems(2)
  show ?case using Cons.IH [of "putBlockTx kv js cr c db" "bs @ [c]"] by (simp add: putBlocks_def)
qed (simp add: putBlocks_def)

lemma map_enumerate: "enumerate n (map f xs) = map (\<lambda>(i, x). (i, f x)) (enumerate n xs)"
  by (induction xs arbitrary: n) simp_all

lemma reload_keys:
  assumes "block_coherent cr b"
  shows "map fst (block_row js (reload cr b)) = map fst (block_row js b)"
    "map fst (hash_row cr (reload cr b)) = map fst (hash_row cr b)"
    "map fst (tx_rows cr (reload cr b)) = map fst (tx_rows cr b)"
    "map fst (addr_rows cr (reload cr b)) = map fst (addr_rows cr b)"
proof -
  have c: "tx_coherent cr t" if "t \<in> set (blk_Txs b)" for t using assms that by (simp add: block_coherent_def)
  show "map fst (block_row js (reload cr b)) = map fst (block_row js b)"
    "map fst (hash_row cr (reload cr b)) = map fst (hash_row cr b)"
    using reload_Hash [OF assms] by (simp_all add: block_row_def hash_row_def)
  show "map fst (tx_rows cr (reload cr b)) = map fst (tx_rows cr b)"
    using c by (simp add: map_fst_tx_rows reload_tx_ID)
  have k: "addr_keys cr h (i, reload_tx cr t) = addr_keys cr h (i, t)" if "t \<in> set (blk_Txs b)" for h i t
    using reload_tx_FromAddr [OF c [OF that]] by (simp add: addr_keys_def split: sum.split)
  have "map (addr_keys cr h) (enumerate 0 (map (reload_tx cr) (blk_Txs b))) = map (addr_keys cr h) (enumerate 0 (blk_Txs b))" for h
    unfolding map_enumerate map_map
    by (rule map_cong) (auto simp: k in_set_enumerate_eq)
  then show "map fst (addr_rows cr (reload cr b)) = map fst (addr_rows cr b)" by (simp add: map_fst_addr_rows)
qed

lemma holds_delete:
  assumes "kv_ok kv" and "store_holds kv js cr db (pre @ b # post)" and "rows_ok js cr (pre @ b # post)"
  shows "store_holds kv js cr (deleteBlockTx kv cr (reload cr b) db) (pre @ post)"
proof -
  have co: "block_coherent cr b" using assms(3) by (simp add: rows_ok_def)
  have D: "deleteBlockTx kv cr (reload cr b) db =
     db\<lparr>bk_blocks := foldl (\<lambda>b k. kv_del kv k b) (bk_blocks db) (map fst (block_row js b)),
        bk_blockHash := foldl (\<lambda>b k. kv_del kv k b) (bk_blockHash db) (map fst (hash_row cr b)),
        bk_txIndex := foldl (\<lambda>b k. kv_del kv k b) (bk_txIndex db) (map fst (tx_rows cr b)),
        bk_addrTx := foldl (\<lambda>b k. kv_del kv k b) (bk_addrTx db) (map fst (addr_rows cr b))\<rparr>"
    unfolding reload_keys(1) [OF co, of js, symmetric] reload_keys(2-4) [OF co, symmetric]
    unfolding deleteBlockTx_def del_addr_index map_fst_tx_rows
    by (simp add: block_row_def hash_row_def foldl_map)
  have 1: "kv_get kv (foldl (\<lambda>b k. kv_del kv k b) (bk_blocks db) (map fst (block_row js b)))
      = map_of (rows_of (block_row js) pre @ rows_of (block_row js) post)"
    using assms(2,3) by (intro kv_del_rows [OF assms(1)]) (simp_all add: store_holds_def rows_ok_def)
  have 2: "kv_get kv (foldl (\<lambda>b k. kv_del kv k b) (bk_blockHash db) (map fst (hash_row cr b)))
      = map_of (rows_of (hash_row cr) pre @ rows_of (hash_row cr) post)"
    using assms(2,3) by (intro kv_del_rows [OF assms(1)]) (simp_all add: store_holds_def rows_ok_def)
  have 3: "kv_get kv (foldl (\<lambda>b k. kv_del kv k b) (bk_txIndex db) (map fst (tx_rows cr b)))
      = map_of (rows_of (tx_rows cr) pre @ rows_of (tx_rows cr) post)"
    using assms(2,3) by (intro kv_del_rows [OF assms(1)]) (simp_all add: store_holds_def rows_ok_def)
  have 4: "kv_get kv (foldl (\<lambda>b k. kv_del kv k b) (bk_addrTx db) (map fst (addr_rows cr b)))
      = map_of (rows_of (addr_rows cr) pre @ rows_of (addr_rows cr) post)"
    using assms(2,3) by (intro kv_del_rows [OF assms(1)]) (simp_all add: store_holds_def rows_ok_def)
  show ?thesis
    unfolding store_holds_def D rows_of_simps by (simp add: 1 2 3 4 del: rows_of_simps list.map)
qed

lemma delete_heights_holds:
  assumes "kv_ok kv" and "json_ok cr js"
  shows "store_holds kv js cr db (pre @ mid) \<Longrightarrow> rows_ok js cr (pre @ mid) \<Longrightarrow>
    map blk_Height mid = map word_of_nat hs \<Longrightarrow>
    \<exists>db'. delete_heights kv js cr hs db = Some db' \<and> store_holds kv js cr db' pre"
proof (induction mid arbitrary: db hs)
  case (Cons b mid)
  obtain h hs' where hs: "hs = h # hs'" "blk_Height b = word_of_nat h" "map blk_Height mid = map word_of_nat hs'"
    using Cons.prems(3) by (cases hs) auto
  have "(u64be (blk_Height b), marshal js b) \<in> set (rows_of (block_row js) (pre @ b # mid))"
    by (simp add: block_row_def)
  then have "map_of (rows_of (block_row js) (pre @ b # mid)) (u64be (word_of_nat h)) = Some (marshal js b)"
    using Cons.prems(2) unfolding hs(2) rows_ok_def by (intro map_of_is_SomeI) blast+
  then have g: "kv_get kv (bk_blocks db) (u64be (word_of_nat h)) = Some (marshal js b)"
    using Cons.prems(1) by (simp only: store_holds_def)
  have "unmarshal js (marshal js b) = Some (reload cr b)" using assms(2) Cons.prems(2) by (simp add: json_ok_def rows_ok_def)
  then have d: "delete_heights kv js cr hs db = delete_heights kv js cr hs' (deleteBlockTx kv cr (reload cr b) db)"
    using g by (simp add: hs(1))
  show ?case
    using Cons.IH [OF holds_delete [OF assms(1) Cons.prems(1,2)] rows_ok_drop [OF Cons.prems(2)] hs(3)]
    unfolding d .
qed simp

lemma strict_sorted_heights:
  "n < 2 ^ 63 \<Longrightarrow> sorted_wrt (<) (map (\<lambda>i. u64be (word_of_nat i)) [0..<n])"
proof (induction n)
  case (Suc n)
  have "(word_of_nat i :: u64) < word_of_nat n" if "i < n" for i
    using that Suc.prems by (simp add: word_less_nat_alt unat_of_nat)
  then show ?case using Suc by (simp add: sorted_wrt_append)
qed simp

lemma store_keys:
  assumes "kv_ok kv" and "store_holds kv js cr db bs" and "store_wf cr bs"
  shows "kv_keys kv (bk_blocks db) = map (\<lambda>i. u64be (word_of_nat i)) [0..<length bs]"
proof (rule strict_sorted_equal)
  show "sorted_wrt (<) (map (\<lambda>i. u64be (word_of_nat i)) [0..<length bs])"
    using assms(3) by (intro strict_sorted_heights) (simp add: store_wf_def)
  show "sorted_wrt (<) (kv_keys kv (bk_blocks db))" by (rule kv_laws(5) [OF assms(1)])
  have "map fst (rows_of (block_row js) bs) = map u64be (map blk_Height bs)"
    by (induction bs) (simp_all add: block_row_def)
  then have "dom (map_of (rows_of (block_row js) bs)) = set (map u64be (map blk_Height bs))"
    by (metis dom_map_of_conv_image_fst list.set_map)
  then show "set (kv_keys kv (bk_blocks db)) = set (map (\<lambda>i. u64be (word_of_nat i)) [0..<length bs])"
    using assms(2) unfolding kv_laws(4) [OF assms(1)] store_wf_heights(1) [OF assms(3)]
    by (simp add: store_holds_def image_image)
qed

lemma tipHeight_holds:
  assumes "kv_ok kv" and "store_holds kv js cr db bs" and "store_wf cr bs"
  shows "tipHeight kv db = (if bs = [] then None else Some (word_of_nat (length bs - 1)))"
proof (cases bs rule: rev_cases)
  case Nil
  then show ?thesis by (simp add: tipHeight_def store_keys [OF assms])
next
  case (snoc xs b)
  then have "rev (map (\<lambda>i. u64be (word_of_nat i)) [0..<length bs])
      = u64be (word_of_nat (length bs - 1)) # rev (map (\<lambda>i. u64be (word_of_nat i)) [0..<length bs - 1])"
    by simp
  then show ?thesis
    using snoc read_u64be [of _ "[]"] by (simp only: tipHeight_def store_keys [OF assms]) simp
qed

end
