(* ===== verification/Core_Store_Demo.thy ===== *)
theory Core_Store_Demo
  imports Core_Store_Index "HOL-Library.RBT"
begin

text \<open>
  A concrete key-value store (red-black trees), a concrete block codec and a store of two blocks: the
  hypotheses of the block store's theorems hold for them, and the witnesses apply the theorems there.
\<close>

section \<open>Buckets as red-black trees\<close>

definition demo_kv :: "(bytes, bytes) rbt kv" where
  "demo_kv = \<lparr>kv_empty = RBT.empty, kv_get = RBT.lookup, kv_put = RBT.insert, kv_del = RBT.delete, kv_keys = RBT.keys\<rparr>"

lemma demo_kv_ok [simp]: "kv_ok demo_kv"
  using RBT.sorted_keys RBT.distinct_keys
  by (auto simp: kv_ok_def demo_kv_def RBT.lookup_keys strict_sorted_iff)

section \<open>A block codec\<close>

text \<open>Numbers big-endian, ASCII strings closed by the byte 255, the transaction count in unary.\<close>

definition put_str :: "string \<Rightarrow> bytes" where
  "put_str s = str_bytes s @ [255]"

definition get_str :: "bytes \<Rightarrow> string \<times> bytes" where
  "get_str b = (bytes_str (takeWhile (\<lambda>x. x \<noteq> 255) b), tl (dropWhile (\<lambda>x. x \<noteq> 255) b))"

definition get_u64 :: "bytes \<Rightarrow> u64 \<times> bytes" where
  "get_u64 b = (read_u64 b, drop 8 b)"

definition put_tx :: "tx \<Rightarrow> bytes" where
  "put_tx t = put_str (tx_FromPub t) @ put_str (tx_To t) @ u64be (tx_Amount t) @ u64be (tx_Fee t)
     @ u64be (tx_Nonce t) @ put_str (tx_Sig t)"

definition get_tx :: "bytes \<Rightarrow> tx \<times> bytes" where
  "get_tx b =
     (let (f, b1) = get_str b; (d, b2) = get_str b1; (a, b3) = get_u64 b2; (e, b4) = get_u64 b3;
          (n, b5) = get_u64 b4; (s, b6) = get_str b5
      in (\<lparr>tx_FromPub = f, tx_To = d, tx_Amount = a, tx_Fee = e, tx_Nonce = n, tx_Sig = s, tx_id = [], tx_fromAddr = []\<rparr>, b6))"

primrec get_txs :: "nat \<Rightarrow> bytes \<Rightarrow> tx list" where
  "get_txs 0 b = []"
| "get_txs (Suc n) b = (let (t, r) = get_tx b in t # get_txs n r)"

definition put_block :: "block \<Rightarrow> bytes" where
  "put_block b = u32be (blk_Version b) @ u64be (blk_Height b) @ u64be (blk_Time b) @ put_str (blk_PrevHash b)
     @ put_str (blk_TxRoot b) @ put_str (blk_Target b) @ u64be (blk_Nonce b)
     @ replicate (length (blk_Txs b)) 1 @ 0 # concat (map put_tx (blk_Txs b))"

definition get_block :: "bytes \<Rightarrow> block" where
  "get_block b =
     (let (h, b1) = get_u64 (drop 4 b); (m, b2) = get_u64 b1; (p, b3) = get_str b2; (r, b4) = get_str b3;
          (g, b5) = get_str b4; (n, b6) = get_u64 b5
      in \<lparr>blk_Version = word_of_nat (from_be (take 4 b)), blk_Height = h, blk_Time = m, blk_PrevHash = p,
          blk_TxRoot = r, blk_Target = g, blk_Nonce = n,
          blk_Txs = get_txs (length (takeWhile (\<lambda>x. x = 1) b6)) (tl (dropWhile (\<lambda>x. x = 1) b6)), blk_hash = []\<rparr>)"

definition demo_json :: "crypto \<Rightarrow> json" where
  "demo_json cr = \<lparr>marshal = put_block,
     unmarshal = (\<lambda>b. let d = get_block b in block_UnmarshalJSON cr (Some (d\<lparr>blk_Txs := map (reload_tx cr) (blk_Txs d)\<rparr>)))\<rparr>"

lemma get_put_str [simp]: "ascii s \<Longrightarrow> get_str (put_str s @ r) = (s, r)"
proof -
  assume "ascii s"
  then have n: "x \<noteq> 255" if x: "x \<in> set (str_bytes s)" for x :: u8
  proof -
    obtain c where c: "c \<in> set s" "x = of_char c" using x by (auto simp: str_bytes_def)
    have "char_of (unat x) = c" unfolding c(2) by (rule char_of_unat_of_char)
    moreover have "char_of (unat (255 :: u8)) \<noteq> c" using c(1) \<open>ascii s\<close> by (auto simp: ascii_def list_all_iff)
    ultimately show ?thesis by auto
  qed
  then show ?thesis by (simp add: get_str_def put_str_def takeWhile_append2 dropWhile_append2)
qed

lemma get_put_u64 [simp]: "get_u64 (u64be x @ r) = (x, r)"
  by (simp add: get_u64_def)

lemma get_put_tx: "tx_ascii t \<Longrightarrow> get_tx (put_tx t @ r) = (t\<lparr>tx_id := [], tx_fromAddr := []\<rparr>, r)"
  by (simp add: get_tx_def put_tx_def tx_ascii_def)

lemma get_put_txs: "list_all tx_ascii ts \<Longrightarrow> get_txs (length ts) (concat (map put_tx ts))
    = map (\<lambda>t. t\<lparr>tx_id := [], tx_fromAddr := []\<rparr>) ts"
  by (induction ts) (simp_all add: get_put_tx)

lemma get_put_block:
  assumes "block_ascii b"
  shows "get_block (put_block b) = b\<lparr>blk_Txs := map (\<lambda>t. t\<lparr>tx_id := [], tx_fromAddr := []\<rparr>) (blk_Txs b), blk_hash := []\<rparr>"
proof -
  have "takeWhile (\<lambda>x. x = 1) (replicate n 1 @ 0 # r) = replicate n 1" "dropWhile (\<lambda>x. x = 1) (replicate n 1 @ 0 # r) = 0 # r"
    for n and r :: bytes by (induction n) simp_all
  then show ?thesis
    using assms by (simp add: get_block_def put_block_def block_ascii_def get_put_txs)
qed

lemma demo_json_ok [simp]: "json_ok cr (demo_json cr)"
  by (simp add: json_ok_def demo_json_def get_put_block reload_def block_UnmarshalJSON_def Let_def)
    (simp add: reload_tx_def computeHash_def HeaderBytes_def)

section \<open>Two blocks\<close>

text \<open>A digest of the last 32 bytes, so that the headers and transactions below have different ones.\<close>

definition tail_crypto :: crypto where
  "tail_crypto = demo_crypto\<lparr>sha256 := \<lambda>m. drop (length m) (replicate 32 0 @ m)\<rparr>"

lemma digest32_tail [simp]: "digest32 tail_crypto"
  by (simp add: digest32_def tail_crypto_def) arith

definition stored_tx :: "string \<Rightarrow> tx" where
  "stored_tx s = \<lparr>tx_FromPub = [], tx_To = AddrPrefix @ replicate 40 (CHR ''0''), tx_Amount = 5, tx_Fee = 0,
     tx_Nonce = 0, tx_Sig = s, tx_id = [], tx_fromAddr = []\<rparr>"

definition stored_block :: "u64 \<Rightarrow> u64 \<Rightarrow> string \<Rightarrow> block" where
  "stored_block h n s = \<lparr>blk_Version = 1, blk_Height = h, blk_Time = 60 * h, blk_PrevHash = [], blk_TxRoot = [],
     blk_Target = [], blk_Nonce = n, blk_Txs = [stored_tx s], blk_hash = []\<rparr>"

definition demo_blocks :: "block list" where
  "demo_blocks = [stored_block 0 0 ''0'', stored_block 1 (- 1) ''1'']"

definition demo_branch :: "block list" where
  "demo_branch = [stored_block 1 (- 1) ''2'']"

lemma last_tail: "m \<noteq> [] \<Longrightarrow> last (sha256 tail_crypto m) = last m"
  by (simp add: tail_crypto_def last_drop del: drop_append)

lemma stored_ID: "s \<noteq> [] \<Longrightarrow> t \<noteq> [] \<Longrightarrow> last s \<noteq> last t \<Longrightarrow> ID tail_crypto (stored_tx s) \<noteq> ID tail_crypto (stored_tx t)"
proof -
  assume a: "s \<noteq> []" "t \<noteq> []" "last s \<noteq> last t"
  have "last (sha256 tail_crypto (p @ str_bytes (''|'' @ s))) = of_char (last s)" if "s \<noteq> []" for p s
    using that by (simp add: last_tail str_bytes_def last_map)
  moreover have "(of_char (last s) :: u8) \<noteq> of_char (last t)"
    using a(3) char_of_unat_of_char by metis
  ultimately have "sha256 tail_crypto (SigningPayload (stored_tx s) @ str_bytes (''|'' @ s))
     \<noteq> sha256 tail_crypto (SigningPayload (stored_tx t) @ str_bytes (''|'' @ t))" using a by metis
  then show ?thesis by (simp add: ID_def computeID_def stored_tx_def)
qed

lemma stored_Hash: "Hash tail_crypto (stored_block h 0 s) \<noteq> Hash tail_crypto (stored_block k (- 1) t)"
proof -
  have "last (HeaderBytes (stored_block h n s)) = last (le_bytes 8 n)" "HeaderBytes (stored_block h n s) \<noteq> []" for h n s
    by (simp_all add: HeaderBytes_def stored_block_def flip: length_greater_0_conv)
  moreover have "last (le_bytes 8 (0 :: u64)) \<noteq> last (le_bytes 8 (- 1 :: u64))" by code_simp
  ultimately have "sha256 tail_crypto (HeaderBytes (stored_block h 0 s)) \<noteq> sha256 tail_crypto (HeaderBytes (stored_block k (- 1) t))"
    using last_tail by metis
  then show ?thesis by (simp add: Hash_def computeHash_def stored_block_def)
qed

lemma stored_wf: "length s = 1 \<Longrightarrow> ascii s \<Longrightarrow> s \<noteq> ''0'' \<Longrightarrow> store_wf tail_crypto [stored_block 0 0 ''0'', stored_block 1 (- 1) s]"
proof -
  assume s: "length s = 1" "ascii s" "s \<noteq> ''0''"
  have "last ''0'' \<noteq> last s" "s \<noteq> []" using s(1,3) by (cases s; simp)+
  then have "ID tail_crypto (stored_tx ''0'') \<noteq> ID tail_crypto (stored_tx s)" by (intro stored_ID) simp_all
  then show ?thesis
    using stored_Hash [of 0 "''0''" 1 s] s(2)
    by (simp add: store_wf_def chain_txs_def nth_Cons less_Suc_eq_0_disj All_less_Suc2)
      (simp add: stored_block_def stored_tx_def block_coherent_def tx_coherent_def block_ascii_def tx_ascii_def ascii_def list_all_iff
        FromAddr_def IsCoinbase_def)
qed

lemma demo_wf [simp]: "store_wf tail_crypto demo_blocks"
  "store_wf tail_crypto (take 1 demo_blocks @ demo_branch)"
  using stored_wf [of "''1''"] stored_wf [of "''2''"] by (simp_all add: demo_blocks_def demo_branch_def ascii_def)

definition demo_db :: "(bytes, bytes) rbt store" where
  "demo_db = putBlocks demo_kv (demo_json tail_crypto) tail_crypto demo_blocks (openBlockStore demo_kv None)"

lemma demo_holds [simp]: "store_holds demo_kv (demo_json tail_crypto) tail_crypto demo_db demo_blocks"
proof -
  have "store_holds demo_kv (demo_json tail_crypto) tail_crypto (openBlockStore demo_kv None) []"
    by (simp add: store_holds_def openBlockStore_def setSchema_def kv_laws [OF demo_kv_ok] fun_eq_iff)
  from holds_puts [OF demo_kv_ok this, of demo_blocks] show ?thesis
    using rows_ok_wf [OF demo_wf(1)] by (simp add: demo_db_def)
qed

end
