(* ===== verification/Core_Store_Reorg.thy ===== *)
theory Core_Store_Reorg
  imports Core_Store_Demo
begin

text \<open>
  Writes to the block store as sequences of transactions, and every state a crash can leave: a
  reorganisation leaves a prefix of the old chain above the fork or the common part with a prefix of
  the new branch, an import leaves a prefix of the imported blocks.
\<close>

section \<open>Runs of transactions\<close>

text \<open>\<open>R\<close> is what a run establishes; its argument says whether the run may have stopped early.\<close>

lemma run_txns_step:
  assumes "f db = Some db'" and "\<And>n. R (n < length fs) (run_txns n fs db')" and "R True db"
  shows "R (n < length (f # fs)) (run_txns n (f # fs) db)"
  using assms by (cases n) auto

lemma holds_meta [simp]: "store_holds kv js cr (putMeta kv w db) bs \<longleftrightarrow> store_holds kv js cr db bs"
  by (simp add: store_holds_def putMeta_def Let_def split: list.split)

lemma cumWork_putMeta: "kv_ok kv \<Longrightarrow> 0 \<le> w \<Longrightarrow> store_cumWork kv (putMeta kv w db) = w"
  by (simp add: store_cumWork_def putMeta_def kv_laws Let_def split: list.split)

lemma concat_chunks: "n \<noteq> 0 \<Longrightarrow> concat (chunks n xs) = xs"
  by (induction n xs rule: chunks.induct) (subst chunks.simps, simp)

lemma chunks_bound: "c \<in> set (chunks n xs) \<Longrightarrow> length c \<le> n"
  by (induction n xs rule: chunks.induct) (subst (asm) (2) chunks.simps, auto split: if_splits)

text \<open>Batches of puts: every intermediate state holds the blocks of the batches before it.\<close>

lemma run_puts:
  assumes "kv_ok kv" and "rows_ok js cr (pre @ concat css)"
    and "store_holds kv js cr db pre"
    and early: "\<And>db m. store_holds kv js cr db (pre @ take m (concat css)) \<Longrightarrow> R True db"
    and rest: "\<And>db n. store_holds kv js cr db (pre @ concat css) \<Longrightarrow> R (n < length fs) (run_txns n fs db)"
  shows "R (n < length (map (\<lambda>c db. Some (putBlocks kv js cr c db)) css @ fs))
     (run_txns n (map (\<lambda>c db. Some (putBlocks kv js cr c db)) css @ fs) db)"
  using assms(2-5)
proof (induction css arbitrary: db pre n)
  case (Cons c css)
  have ok: "rows_ok js cr (pre @ c)" using Cons.prems(1) by (auto simp: rows_ok_def)
  have h: "store_holds kv js cr (putBlocks kv js cr c db) (pre @ c)"
    by (rule holds_puts [OF assms(1) Cons.prems(2) ok])
  show ?case
    unfolding list.map append_Cons
  proof (rule run_txns_step [OF refl])
    show "R True db" by (rule Cons.prems(3) [where m = 0]) (simp add: Cons.prems(2))
    fix n
    show "R (n < length (map (\<lambda>c db. Some (putBlocks kv js cr c db)) css @ fs))
       (run_txns n (map (\<lambda>c db. Some (putBlocks kv js cr c db)) css @ fs) (putBlocks kv js cr c db))"
    proof (rule Cons.IH [of "pre @ c", OF _ h])
      show "rows_ok js cr ((pre @ c) @ concat css)" using Cons.prems(1) by simp
    next
      fix db m assume "store_holds kv js cr db ((pre @ c) @ take m (concat css))"
      then show "R True db" by (intro Cons.prems(3) [where m = "length c + m"]) simp
    next
      fix db n assume "store_holds kv js cr db ((pre @ c) @ concat css)"
      then show "R (n < length fs) (run_txns n fs db)" by (intro Cons.prems(4)) simp
    qed
  qed
qed simp

lemma heights_between:
  assumes "store_wf cr bs" and "lo \<le> hi" and "hi \<le> length bs"
  shows "map blk_Height (drop lo (take hi bs)) = map word_of_nat [lo..<hi]"
  using arg_cong [OF store_wf_heights(1) [OF assms(1)], of "\<lambda>xs. drop lo (take hi xs)"] assms(2,3)
  by (simp add: take_map drop_map)

lemma deleteRange_holds:
  assumes "kv_ok kv" and "json_ok cr js" and "store_wf cr bs" and "lo < hi" and "hi \<le> length bs"
    and "store_holds kv js cr db (take hi bs)"
  shows "\<exists>db'. deleteRangeTx kv js cr lo (hi - 1) db = Some db' \<and> store_holds kv js cr db' (take lo bs)"
proof -
  have t: "take hi bs = take lo bs @ drop lo (take hi bs)"
    using assms(4) by (metis append_take_drop_id min.absorb2 min.commute order_less_imp_le take_take)
  have ok: "rows_ok js cr (take hi bs)" by (rule rows_ok_wf [OF store_wf_take [OF assms(3)]])
  have "Suc (hi - 1) = hi" using assms(4) by simp
  then show ?thesis
    using delete_heights_holds [OF assms(1,2), of db "take lo bs" "drop lo (take hi bs)" "[lo..<hi]"]
      assms(6) ok heights_between [OF assms(3) _ assms(5), of lo] assms(4)
    by (simp add: deleteRangeTx_def t [symmetric])
qed

lemma run_deletes:
  assumes "kv_ok kv" and "json_ok cr js" and "store_wf cr bs"
    and "frm \<le> stop" and "stop \<le> length bs" and "batch \<noteq> 0" and "store_holds kv js cr db (take stop bs)"
    and early: "\<And>db m. frm \<le> m \<Longrightarrow> store_holds kv js cr db (take m bs) \<Longrightarrow> R True db"
    and rest: "\<And>db n. store_holds kv js cr db (take frm bs) \<Longrightarrow> R (n < length fs) (run_txns n fs db)"
  shows "R (n < length (map (\<lambda>(lo, hi) db. deleteRangeTx kv js cr lo hi db) (delete_batches batch frm stop) @ fs))
     (run_txns n (map (\<lambda>(lo, hi) db. deleteRangeTx kv js cr lo hi db) (delete_batches batch frm stop) @ fs) db)"
  using assms(4,5,7)
proof (induction stop arbitrary: db n rule: less_induct)
  case (less stop)
  show ?case
  proof (cases "stop \<le> frm")
    case True
    then have "stop = frm" using less.prems(1) by simp
    moreover have "delete_batches batch frm frm = []" by (subst delete_batches.simps) simp
    ultimately show ?thesis using rest less.prems(3) by simp
  next
    case False
    define lo where "lo = max frm (stop - batch)"
    have lo: "lo < stop" "frm \<le> lo" "lo \<le> length bs" using False assms(6) less.prems(2) by (auto simp: lo_def)
    have b: "delete_batches batch frm stop = (lo, stop - 1) # delete_batches batch frm lo"
      using False assms(6) by (subst delete_batches.simps) (simp add: lo_def Let_def)
    obtain db' where d: "deleteRangeTx kv js cr lo (stop - 1) db = Some db'" "store_holds kv js cr db' (take lo bs)"
      using deleteRange_holds [OF assms(1-3) lo(1) less.prems(2,3)] by blast
    show ?thesis
      unfolding b list.map append_Cons split
      by (rule run_txns_step [where f = "\<lambda>db. deleteRangeTx kv js cr lo (stop - 1) db", OF d(1)])
        (rule less.IH [OF lo(1,2,3) d(2)], rule early [OF less.prems(1,3)])
  qed
qed

section \<open>The writes of the store\<close>

lemma stop_height:
  assumes "kv_ok kv" and "store_holds kv js cr db bs" and "store_wf cr bs"
  shows "(case tipHeight kv db of None \<Rightarrow> 0 | Some tip \<Rightarrow> unat tip + 1) = length bs"
proof -
  have "length bs < 2 ^ 63" using assms(3) by (simp add: store_wf_def)
  then show ?thesis by (simp add: tipHeight_holds [OF assms] unat_of_nat)
qed

text \<open>(C10)
  A reorganisation is safe against crashes at every point. On a store holding the chain \<open>bs\<close>, replacing
  the blocks from height \<open>frm\<close> on by \<open>branch\<close>, in one transaction or in the batches of a long one,
  leaves after any number of committed transactions all four indexes exactly those of a valid chain: a
  prefix of the old chain that keeps everything below \<open>frm\<close>, or the common part followed by a prefix of
  the branch. When all have committed the store holds the new chain and its work.
\<close>

theorem reorg_commit_crash_safe:
  assumes "kv_ok kv" and "json_ok cr js" and "store_holds kv js cr db bs"
    and "store_wf cr bs" and "store_wf cr (take frm bs @ branch)" and "frm \<le> length bs" and "0 \<le> w"
  shows "let txns = truncateAndAppend kv js cr frm branch w db; db' = run_txns n txns db in
     if n < length txns
     then \<exists>m. store_holds kv js cr db' (take (frm + m) bs) \<or> store_holds kv js cr db' (take frm bs @ take m branch)
     else store_holds kv js cr db' (take frm bs @ branch) \<and> store_cumWork kv db' = w"
proof -
  define R where "R = (\<lambda>early db'. if early
     then \<exists>m. store_holds kv js cr db' (take (frm + m) bs) \<or> store_holds kv js cr db' (take frm bs @ take m branch)
     else store_holds kv js cr db' (take frm bs @ branch) \<and> store_cumWork kv db' = w)"
  have old: "R True db" if "frm \<le> m" "store_holds kv js cr db (take m bs)" for db m
    using that by (auto simp: R_def intro!: exI [of _ "m - frm"])
  have new: "R True db" if "store_holds kv js cr db (take frm bs @ take m branch)" for db m
    using that by (auto simp: R_def)
  have start: "R True db" using old [of "length bs" db] assms(3,6) by simp
  have ok: "rows_ok js cr (take frm bs @ branch)" by (rule rows_ok_wf [OF assms(5)])
  have fin: "R False (putMeta kv w db)" if "store_holds kv js cr db (take frm bs @ branch)" for db
    using that cumWork_putMeta [OF assms(1,7)] by (simp add: R_def)
  have stop: "(case tipHeight kv db of None \<Rightarrow> 0 | Some tip \<Rightarrow> unat tip + 1) = length bs"
    by (rule stop_height [OF assms(1,3,4)])
  have "R (n < length (truncateAndAppend kv js cr frm branch w db)) (run_txns n (truncateAndAppend kv js cr frm branch w db) db)"
  proof (cases "(if length bs > frm then length bs - frm else 0) + length branch \<le> 1000")
    case True
    obtain db1 where d: "(if (if length bs > frm then length bs - frm else 0) > 0
         then deleteRangeTx kv js cr frm (length bs - 1) db else Some db) = Some db1"
       "store_holds kv js cr db1 (take frm bs)"
      using deleteRange_holds [OF assms(1,2,4), of frm "length bs" db] assms(3,6) by (cases "frm < length bs") auto
    show ?thesis
      unfolding truncateAndAppend_def Let_def stop if_P [OF True]
      by (rule run_txns_step [where fs = "[]"])
        (use d fin [OF holds_puts [OF assms(1) d(2) ok]] start in \<open>simp_all\<close>)
  next
    case False
    have last: "R (n < length [\<lambda>db. Some (putMeta kv w db)]) (run_txns n [\<lambda>db. Some (putMeta kv w db)] db)"
      if "store_holds kv js cr db (take frm bs @ concat (chunks 1000 branch))" for db n
      using that fin [of db] new [of db "length branch"] by (cases n) (simp_all add: concat_chunks)
    have puts: "R (n < length (map (\<lambda>c db. Some (putBlocks kv js cr c db)) (chunks 1000 branch) @ [\<lambda>db. Some (putMeta kv w db)]))
        (run_txns n (map (\<lambda>c db. Some (putBlocks kv js cr c db)) (chunks 1000 branch) @ [\<lambda>db. Some (putMeta kv w db)]) db)"
      if "store_holds kv js cr db (take frm bs)" for db n
      by (rule run_puts [where R = R and pre = "take frm bs", OF assms(1) _ that]) (use ok new last in \<open>simp_all add: concat_chunks\<close>)
    show ?thesis
      unfolding truncateAndAppend_def Let_def stop if_not_P [OF False]
      by (rule run_deletes [where R = R, OF assms(1,2,4,6)]) (use assms(3) old puts in simp_all)
  qed
  then show ?thesis by (simp only: R_def Let_def)
qed

theorem reorg_commit_crash_safe_witness:
  "(let txns = truncateAndAppend demo_kv (demo_json tail_crypto) tail_crypto 1 demo_branch 7 demo_db
    in store_holds demo_kv (demo_json tail_crypto) tail_crypto (run_txns (length txns) txns demo_db)
         (take 1 demo_blocks @ demo_branch) \<and> store_cumWork demo_kv (run_txns (length txns) txns demo_db) = 7)"
proof -
  have "1 \<le> length demo_blocks" "0 \<le> (7 :: int)" by (simp_all add: demo_blocks_def)
  from reorg_commit_crash_safe [OF demo_kv_ok demo_json_ok demo_holds demo_wf this,
    of "length (truncateAndAppend demo_kv (demo_json tail_crypto) tail_crypto 1 demo_branch 7 demo_db)"]
  show ?thesis by (simp add: Let_def)
qed

text \<open>(C24)
  Importing or rebuilding the store is safe against crashes: from any database, after the first
  transaction has cleared the buckets every state holds a prefix of the blocks with all their indexes,
  and at the end all of them and the chain's work.
\<close>

theorem rebuild_crash_safe:
  assumes "kv_ok kv" and "store_wf cr bs" and "0 \<le> w"
  shows "let txns = store_rebuild kv js cr bs w; db' = run_txns (Suc n) txns db in
     if Suc n < length txns then \<exists>m. store_holds kv js cr db' (take m bs)
     else store_holds kv js cr db' bs \<and> store_cumWork kv db' = w"
proof -
  define R where "R = (\<lambda>early db'. if early then \<exists>m. store_holds kv js cr db' (take m bs)
     else store_holds kv js cr db' bs \<and> store_cumWork kv db' = w)"
  let ?fs = "map (\<lambda>c db. Some (putBlocks kv js cr c db)) (chunks 1000 bs) @ [\<lambda>db. Some (putMeta kv w db)]"
  have early: "R True db" if "store_holds kv js cr db (take m bs)" for db m using that by (auto simp: R_def)
  have last: "R (n < length [\<lambda>db. Some (putMeta kv w db)]) (run_txns n [\<lambda>db. Some (putMeta kv w db)] db)"
    if "store_holds kv js cr db ([] @ concat (chunks 1000 bs))" for db n
    using that cumWork_putMeta [OF assms(1,3)] early [of db "length bs"]
    by (cases n) (simp_all add: concat_chunks R_def)
  have clear: "store_holds kv js cr (clear_blocks kv db) []"
    by (simp add: store_holds_def clear_blocks_def) (simp add: fun_eq_iff kv_laws [OF assms(1)])
  have "R (n < length ?fs) (run_txns n ?fs (clear_blocks kv db))"
    by (rule run_puts [where R = R and pre = "[]", OF assms(1) _ clear])
      (use rows_ok_wf [OF assms(2), of js] early last in \<open>simp_all add: concat_chunks\<close>)
  then show ?thesis by (simp add: store_rebuild_def R_def Let_def cong: if_cong split del: if_split)
qed

theorem rebuild_crash_safe_witness:
  "(let txns = store_rebuild demo_kv (demo_json tail_crypto) tail_crypto demo_blocks 7
    in store_holds demo_kv (demo_json tail_crypto) tail_crypto (run_txns (Suc (length txns)) txns demo_db) demo_blocks)"
  using rebuild_crash_safe [where w = 7 and js = "demo_json tail_crypto" and db = demo_db
    and n = "length (store_rebuild demo_kv (demo_json tail_crypto) tail_crypto demo_blocks 7)",
    OF demo_kv_ok demo_wf(1)]
  by (simp add: Let_def)

end
