(* ===== verification/Core_Store_Query.thy ===== *)
theory Core_Store_Query
  imports Core_Store_Reorg
begin

text \<open>
  Reads of the block store: on a store that holds a list of blocks they return what the in-memory
  chain computes from the same blocks.
\<close>

section \<open>Blocks\<close>

lemma rows_of_mem: "b \<in> set bs \<Longrightarrow> r \<in> set (f b) \<Longrightarrow> r \<in> set (rows_of f bs)"
  by (auto simp: rows_of_def)

lemma store_get_block:
  assumes "kv_ok kv" and "store_holds kv js cr db bs" and "store_wf cr bs" and "i < length bs"
  shows "kv_get kv (bk_blocks db) (u64be (word_of_nat i)) = Some (marshal js (bs ! i))"
proof -
  have "blk_Height (bs ! i) = word_of_nat i" using assms(3,4) by (simp add: store_wf_def)
  moreover have "block_row js (bs ! i) = [(u64be (blk_Height (bs ! i)), marshal js (bs ! i))]" by (simp add: block_row_def)
  ultimately have "(u64be (word_of_nat i), marshal js (bs ! i)) \<in> set (rows_of (block_row js) bs)"
    using rows_of_mem [OF nth_mem [OF assms(4)], of _ "block_row js"] by simp
  then show ?thesis using assms(2) rows_distinct(1) [OF assms(3)] by (simp add: store_holds_def)
qed

lemma unmarshal_stored:
  "json_ok cr js \<Longrightarrow> store_wf cr bs \<Longrightarrow> b \<in> set bs \<Longrightarrow> unmarshal js (marshal js b) = Some (reload cr b)"
  by (simp add: json_ok_def store_wf_def)

lemma those_loaded: "those (map (\<lambda>x. Some (f x)) xs) = Some (map f xs)"
  by (induction xs) simp_all

text \<open>What was stored is what a restarted node loads: walking the blocks bucket yields every block of the
  chain in height order, each with its caches recomputed.
\<close>

theorem forEachBlock_loads_chain:
  assumes "kv_ok kv" and "json_ok cr js" and "store_holds kv js cr db bs" and "store_wf cr bs"
  shows "forEachBlock kv js db = Some (map (reload cr) bs)"
proof -
  have "map (\<lambda>k. unmarshal js (the (kv_get kv (bk_blocks db) k))) (kv_keys kv (bk_blocks db))
      = map (\<lambda>i. Some (reload cr (bs ! i))) [0..<length bs]"
    unfolding store_keys [OF assms(1,3,4)] map_map
    using store_get_block [OF assms(1,3,4)] unmarshal_stored [OF assms(2,4)] by (intro map_cong) simp_all
  moreover have "map (\<lambda>i. reload cr (bs ! i)) [0..<length bs] = map (reload cr) bs"
    by (rule nth_equalityI) simp_all
  ultimately show ?thesis by (simp add: forEachBlock_def those_loaded)
qed

theorem forEachBlock_loads_chain_witness:
  "forEachBlock demo_kv (demo_json tail_crypto) demo_db = Some (map (reload tail_crypto) demo_blocks)"
  by (rule forEachBlock_loads_chain [OF demo_kv_ok demo_json_ok demo_holds demo_wf(1)])

lemma getBlock_holds:
  assumes "kv_ok kv" and "json_ok cr js" and "store_holds kv js cr db bs" and "store_wf cr bs" and "i < length bs"
  shows "getBlock kv js db (word_of_nat i) = Some (reload cr (bs ! i))"
  using store_get_block [OF assms(1,3,4,5)] unmarshal_stored [OF assms(2,4)] assms(5) by (simp add: getBlock_def)

section \<open>Transactions and hashes\<close>

lemma distinct_concat_rev: "distinct (map f (concat (rev xss))) \<longleftrightarrow> distinct (map f (concat xss))"
  by (induction xss) auto

lemma find_confirmed_unique:
  "distinct (map (ID cr) (concat (map blk_Txs bs))) \<Longrightarrow> b \<in> set bs \<Longrightarrow> t \<in> set (blk_Txs b) \<Longrightarrow>
    find_confirmed cr (ID cr t) bs = Some (confirmed_location cr b t)"
proof (induction bs)
  case (Cons c bs)
  show ?case
  proof (cases "\<exists>u \<in> set (blk_Txs c). ID cr u = ID cr t")
    case True
    then obtain u where f: "find (\<lambda>u. ID cr u = ID cr t) (blk_Txs c) = Some u"
      by (metis (mono_tags, lifting) find_None_iff option.exhaust)
    then have u: "u \<in> set (blk_Txs c)" "ID cr u = ID cr t" by (auto simp: find_Some_iff)
    have "ID cr t \<notin> ID cr ` set (concat (map blk_Txs bs))"
    proof
      assume "ID cr t \<in> ID cr ` set (concat (map blk_Txs bs))"
      moreover have "ID cr t \<in> ID cr ` set (blk_Txs c)" using u by (metis imageI)
      ultimately have "set (map (ID cr) (blk_Txs c)) \<inter> set (map (ID cr) (concat (map blk_Txs bs))) \<noteq> {}"
        unfolding set_map by blast
      then show False using Cons.prems(1) unfolding list.map concat.simps map_append distinct_append by blast
    qed
    then have b: "b = c" using Cons.prems(2,3) by auto
    have "inj_on (ID cr) (set (blk_Txs c))" using Cons.prems(1) by (simp add: distinct_map)
    then have "b = c \<and> u = t" using b u Cons.prems(3) by (auto dest: inj_onD)
    then show ?thesis using f by simp
  next
    case False
    then have "find (\<lambda>u. ID cr u = ID cr t) (blk_Txs c) = None" by (simp add: find_None_iff)
    then show ?thesis using Cons False by auto
  qed
qed simp

lemma find_confirmed_None:
  "(\<forall>b \<in> set bs. \<forall>t \<in> set (blk_Txs b). ID cr t \<noteq> txid) \<Longrightarrow> find_confirmed cr txid bs = None"
proof (induction bs)
  case (Cons b bs)
  then have "find (\<lambda>t. ID cr t = txid) (blk_Txs b) = None" by (simp add: find_None_iff)
  then show ?case using Cons by simp
qed simp
lemma txLocBytes_parts [simp]:
  "length (txLocBytes h i) = 12" "read_u64 (txLocBytes h i) = h"
  "i < 2 ^ 32 \<Longrightarrow> from_be (drop 8 (txLocBytes h i)) = i"
  by (simp_all add: txLocBytes_def unat_u32_nat)

text \<open>Transaction lookup: a store holding a chain finds a transaction exactly when the in-memory walk from
  the tip does, at the same height, position and block hash.
\<close>

theorem store_findTx_correct:
  assumes "kv_ok kv" and "json_ok cr js" and "store_holds kv js cr db bs" and "store_wf cr bs"
  shows "store_findTx kv js cr db txid = find_confirmed cr txid (rev bs)"
proof (cases "\<exists>b \<in> set bs. \<exists>t \<in> set (blk_Txs b). ID cr t = txid")
  case True
  then obtain b t where bt: "b \<in> set bs" "t \<in> set (blk_Txs b)" "ID cr t = txid" by blast
  obtain i where i: "i < length bs" "bs ! i = b" using bt(1) by (auto simp: in_set_conv_nth)
  obtain j where j: "j < length (blk_Txs b)" "blk_Txs b ! j = t" using bt(2) by (auto simp: in_set_conv_nth)
  have h: "blk_Height b = word_of_nat i" and co: "block_coherent cr b" and small: "length (blk_Txs b) < 2 ^ 32"
    using assms(4) i bt(1) by (auto simp: store_wf_def)
  have "(str_bytes txid, txLocBytes (blk_Height b) j) \<in> set (tx_rows cr b)"
    unfolding tx_rows_def using j bt(3) by (force simp: in_set_enumerate_eq)
  from map_of_is_SomeI [OF rows_distinct(3) [OF assms(4)] rows_of_mem [where f = "tx_rows cr", OF bt(1) this]]
  have "kv_get kv (bk_txIndex db) (str_bytes txid) = Some (txLocBytes (blk_Height b) j)"
    using assms(3) by (simp add: store_holds_def)
  then have "findTxLoc kv db txid = Some (blk_Height b, j)"
    using j(1) small by (simp add: findTxLoc_def)
  then have "store_findTx kv js cr db txid = Some (confirmed_location cr (reload cr b) (reload_tx cr t))"
    using getBlock_holds [OF assms i(1)] i(2) j by (simp add: store_findTx_def h)
  moreover have "tx_coherent cr t" using co bt(2) by (simp add: block_coherent_def)
  moreover have "find_confirmed cr txid (rev bs) = Some (confirmed_location cr b t)"
    using find_confirmed_unique [of cr "rev bs" b t] assms(4) bt distinct_concat_rev [of "ID cr" "map blk_Txs bs"]
    by (simp add: store_wf_def chain_txs_def rev_map)
  ultimately show ?thesis using reload_item(2) co by metis
next
  case False
  have "str_bytes txid \<notin> fst ` set (rows_of (tx_rows cr) bs)"
    using False by (auto simp: rows_of_def tx_rows_def in_set_enumerate_eq) (metis nth_mem)
  then have "kv_get kv (bk_txIndex db) (str_bytes txid) = None"
    using assms(3) by (simp add: store_holds_def map_of_eq_None_iff)
  then have "store_findTx kv js cr db txid = None" by (simp add: store_findTx_def findTxLoc_def)
  moreover have "find_confirmed cr txid (rev bs) = None" using False by (intro find_confirmed_None) simp
  ultimately show ?thesis by simp
qed

theorem store_findTx_correct_witness:
  "store_findTx demo_kv (demo_json tail_crypto) tail_crypto demo_db (ID tail_crypto (stored_tx ''1''))
    = Some (confirmed_location tail_crypto (stored_block 1 (- 1) ''1'') (stored_tx ''1''))"
  by (subst store_findTx_correct [OF demo_kv_ok demo_json_ok demo_holds demo_wf(1)])
    (simp add: demo_blocks_def, simp add: stored_block_def)

text \<open>Block lookup by hash: the store returns the block of the chain with that hash and nothing else.
\<close>

theorem store_blockByHash_correct:
  assumes "kv_ok kv" and "json_ok cr js" and "store_holds kv js cr db bs" and "store_wf cr bs"
  shows "store_blockByHash kv js db hash = map_option (reload cr) (find (\<lambda>b. Hash cr b = hash) bs)"
proof (cases "find (\<lambda>b. Hash cr b = hash) bs")
  case None
  then have "\<forall>b \<in> set bs. Hash cr b \<noteq> hash" by (simp add: find_None_iff)
  then have "str_bytes hash \<notin> fst ` set (rows_of (hash_row cr) bs)"
    by (auto simp: rows_of_def hash_row_def)
  then have "kv_get kv (bk_blockHash db) (str_bytes hash) = None"
    using assms(3) by (simp add: store_holds_def map_of_eq_None_iff)
  then show ?thesis by (simp add: store_blockByHash_def None)
next
  case (Some b)
  then obtain i where i: "i < length bs" "bs ! i = b" "Hash cr b = hash" by (auto simp: find_Some_iff)
  have b: "b \<in> set bs" using nth_mem [OF i(1)] i(2) by simp
  have h: "blk_Height b = word_of_nat i" using assms(4) i by (auto simp: store_wf_def)
  have "(str_bytes hash, u64be (blk_Height b)) \<in> set (hash_row cr b)" by (simp add: hash_row_def i(3))
  from map_of_is_SomeI [OF rows_distinct(2) [OF assms(4)] rows_of_mem [where f = "hash_row cr", OF b this]]
  have "kv_get kv (bk_blockHash db) (str_bytes hash) = Some (u64be (word_of_nat i))"
    using assms(3) by (simp add: store_holds_def h)
  then show ?thesis
    using store_get_block [OF assms(1,3,4) i(1)] unmarshal_stored [OF assms(2,4) b] i(2)
    by (simp add: store_blockByHash_def Some)
qed

theorem store_blockByHash_correct_witness:
  "store_blockByHash demo_kv (demo_json tail_crypto) demo_db (Hash tail_crypto (stored_block 1 (- 1) ''1''))
    = Some (reload tail_crypto (stored_block 1 (- 1) ''1''))"
  using store_blockByHash_correct [OF demo_kv_ok demo_json_ok demo_holds demo_wf(1)] stored_Hash
  by (simp add: demo_blocks_def)

end
