(* ===== verification/Core_Store_History.thy ===== *)
theory Core_Store_History
  imports Core_Store_Query
begin

text \<open>
  The history query of the block store: the cursor walk over an address's keys, block by block and
  last key first, returns the page of the address's history that the in-memory index returns.
\<close>

section \<open>Pages\<close>

text \<open>After the items \<open>L\<close> have been offered, the page holds its slice of them.\<close>

definition page_inv :: "nat \<Rightarrow> nat \<Rightarrow> history_item list \<Rightarrow> hist_state \<Rightarrow> bool" where
  "page_inv limit offset L s \<longleftrightarrow> hs_out s = take limit (drop offset L) \<and> hs_skipped s = min offset (length L)"

lemma page_inv_update [simp]:
  "page_inv limit offset L (s\<lparr>hs_run := r\<rparr>) = page_inv limit offset L s"
  "page_inv limit offset L (s\<lparr>hs_runH := h\<rparr>) = page_inv limit offset L s"
  "page_inv limit offset L (s\<lparr>hs_blk := b\<rparr>) = page_inv limit offset L s"
  by (simp_all add: page_inv_def)

lemma page_full: "page_inv limit offset L s \<Longrightarrow> limit \<le> length (hs_out s) \<Longrightarrow> offset \<le> hs_skipped s \<Longrightarrow>
    page_inv limit offset (L @ M) s"
  by (auto simp: page_inv_def)

lemma flush_run_page:
  assumes "page_inv limit offset L s" and "\<And>e. e \<in> set es \<Longrightarrow> decodeHistRow (snd e) (hs_runH s) = Some (f e)"
  shows "page_inv limit offset (L @ map f es) (snd (flush_run kv js cr db limit offset es s))
    \<and> fst (flush_run kv js cr db limit offset es s) =
        (length (hs_out (snd (flush_run kv js cr db limit offset es s))) < limit)
    \<and> hs_run (snd (flush_run kv js cr db limit offset es s)) = []"
  using assms
proof (induction es arbitrary: s L)
  case (Cons e es)
  have d: "decodeHistRow (snd e) (hs_runH s) = Some (f e)" using Cons.prems(2) by simp
  consider "hs_skipped s < offset" | "\<not> hs_skipped s < offset" "limit \<le> length (hs_out s)"
    | "\<not> hs_skipped s < offset" "length (hs_out s) < limit" by linarith
  then show ?case
  proof cases
    case 1
    have "page_inv limit offset (L @ [f e]) (s\<lparr>hs_skipped := hs_skipped s + 1\<rparr>)"
      using Cons.prems(1) 1 by (auto simp: page_inv_def min_def split: if_splits)
    from Cons.IH [OF this] Cons.prems(2) show ?thesis using 1 by simp
  next
    case 2
    then show ?thesis using page_full [OF Cons.prems(1), of "map f (e # es)"] by simp
  next
    case 3
    have "page_inv limit offset (L @ [f e]) (s\<lparr>hs_out := hs_out s @ [f e]\<rparr>)"
      using Cons.prems(1) 3 by (auto simp: page_inv_def min_def split: if_splits)
    from Cons.IH [OF this] Cons.prems(2) show ?thesis using 3 by (simp add: emit_entry_def d)
  qed
qed (auto simp: page_inv_def)

lemma flush_page:
  assumes "page_inv limit offset L s" and "\<And>e. e \<in> set (hs_run s) \<Longrightarrow> decodeHistRow (snd e) (hs_runH s) = Some (f e)"
  obtains go s' where "flush kv js cr db limit offset s = (go, s')" "page_inv limit offset (L @ map f (rev (hs_run s))) s'"
    "hs_run s' = []" "hs_run s \<noteq> [] \<Longrightarrow> go = (length (hs_out s') < limit)" "hs_run s = [] \<Longrightarrow> go"
proof (cases "hs_run s = []")
  case True
  then show thesis using assms(1) that by (simp add: flush_def)
next
  case False
  have e: "decodeHistRow (snd e) (hs_runH s) = Some (f e)" if "e \<in> set (rev (hs_run s))" for e
    using assms(2) that by simp
  note r = flush_run_page [OF assms(1) e, where kv = kv and js = js and cr = cr and db = db and es = "rev (hs_run s)"]
  show thesis
    by (rule that [of "fst (flush kv js cr db limit offset s)" "snd (flush kv js cr db limit offset s)"])
      (use r False in \<open>simp_all add: flush_def prod_eq_iff\<close>)
qed

lemma page_done:
  "page_inv limit offset L s \<Longrightarrow> \<not> length (hs_out s) < limit \<Longrightarrow> hs_out s = take limit (drop offset (L @ M))"
  by (auto simp: page_inv_def)

section \<open>The cursor loop\<close>

text \<open>The items in the order of the loop: the entries of one block, which come in descending order, reversed.\<close>

fun regroup :: "u64 \<Rightarrow> 'x list \<Rightarrow> (u64 \<times> 'x) list \<Rightarrow> 'x list" where
  "regroup h run [] = rev run"
| "regroup h run ((h', x) # es) =
     (if run \<noteq> [] \<and> h' \<noteq> h then rev run @ regroup h' [x] es else regroup h' (run @ [x]) es)"

lemma regroup_same: "regroup h run (map (Pair h) g @ es) = regroup h (run @ g) es"
  by (induction g arbitrary: run) simp_all

lemma regroup_groups:
  "distinct (map fst gs) \<Longrightarrow> run = [] \<or> h \<notin> fst ` set gs \<Longrightarrow>
    regroup h run (concat (map (\<lambda>(h, g). map (Pair h) g) gs)) = rev run @ concat (map (\<lambda>(h, g). rev g) gs)"
proof (induction gs arbitrary: h run)
  case (Cons hg gs)
  obtain h' g where hg: "hg = (h', g)" by (cases hg)
  show ?case
  proof (cases g)
    case Nil
    then show ?thesis using Cons by (auto simp: hg)
  next
    case (Cons x g')
    have r: "regroup h' [x] (map (Pair h') g' @ concat (map (\<lambda>(h, g). map (Pair h) g) gs))
        = rev g' @ x # concat (map (\<lambda>(h, g). rev g) gs)"
      unfolding regroup_same using Cons.IH [of "[x] @ g'" h'] Cons.prems by (auto simp: hg)
    then show ?thesis using Cons.prems by (auto simp: hg Cons)
  qed
qed simp

text \<open>A key of the address: its height, its index and the item its row decodes to.\<close>

definition key_ok :: "'b kv \<Rightarrow> 'b store \<Rightarrow> bytes \<Rightarrow> (u64 \<Rightarrow> nat \<times> bytes \<Rightarrow> history_item) \<Rightarrow> bytes \<Rightarrow> bool" where
  "key_ok kv db prefix f k \<longleftrightarrow> length prefix + 12 \<le> length k \<and> take (length prefix) k = prefix
     \<and> (let h = read_u64 (drop (length prefix) k); idx = from_be (take 4 (drop (length prefix + 8) k));
            v = the (kv_get kv (bk_addrTx db) k)
        in decodeHistRow v h = Some (f h (idx, v)))"

definition key_entry :: "'b kv \<Rightarrow> 'b store \<Rightarrow> bytes \<Rightarrow> bytes \<Rightarrow> u64 \<times> nat \<times> bytes" where
  "key_entry kv db prefix k = (read_u64 (drop (length prefix) k),
     from_be (take 4 (drop (length prefix + 8) k)), the (kv_get kv (bk_addrTx db) k))"

lemma hist_loop_page:
  assumes "page_inv limit offset L s" and "\<And>e. e \<in> set (hs_run s) \<Longrightarrow> decodeHistRow (snd e) (hs_runH s) = Some (f (hs_runH s) e)"
    and "\<And>k. k \<in> set ks \<Longrightarrow> key_ok kv db prefix f k" and "rest = [] \<or> take (length prefix) (hd rest) \<noteq> prefix"
  shows "hs_out (hist_loop kv js cr db prefix limit offset (ks @ rest) s) = take limit (drop offset
    (L @ regroup (hs_runH s) (map (f (hs_runH s)) (hs_run s)) (map (\<lambda>k. case key_entry kv db prefix k of (h, e) \<Rightarrow> (h, f h e)) ks)))"
  using assms(1-3)
proof (induction ks arbitrary: s L)
  case Nil
  obtain go s' where fl: "flush kv js cr db limit offset s = (go, s')"
    "page_inv limit offset (L @ map (f (hs_runH s)) (rev (hs_run s))) s'"
    using flush_page [OF Nil.prems(1,2)] by metis
  have "hist_loop kv js cr db prefix limit offset rest s = snd (flush kv js cr db limit offset s)"
    using assms(4) by (cases rest) auto
  then show ?case using fl by (simp add: page_inv_def rev_map)
next
  case (Cons k ks)
  define h e where "h = read_u64 (drop (length prefix) k)"
    and "e = (from_be (take 4 (drop (length prefix + 8) k)), the (kv_get kv (bk_addrTx db) k))"
  have ke: "key_entry kv db prefix k = (h, e)" by (simp add: key_entry_def h_def e_def)
  have k: "length prefix + 12 \<le> length k" "take (length prefix) k = prefix" "decodeHistRow (snd e) h = Some (f h e)"
    using Cons.prems(3) [of k] by (simp_all add: key_ok_def h_def e_def Let_def)
  have step: "hist_loop kv js cr db prefix limit offset ((k # ks) @ rest) s =
     (case (if hs_run s \<noteq> [] \<and> h \<noteq> hs_runH s
            then (case flush kv js cr db limit offset s of (g, s') \<Rightarrow> (g, if g then s'\<lparr>hs_blk := None\<rparr> else s'))
            else (True, s)) of (go, s1) \<Rightarrow>
        if \<not> go then s1
        else hist_loop kv js cr db prefix limit offset (ks @ rest) (s1\<lparr>hs_runH := h, hs_run := hs_run s1 @ [e]\<rparr>))"
    using k(1,2) unfolding h_def e_def by (simp add: Let_def)
  have ks: "key_ok kv db prefix f k" if "k \<in> set ks" for k using Cons.prems(3) that by simp
  show ?case
  proof (cases "hs_run s \<noteq> [] \<and> h \<noteq> hs_runH s")
    case False
    have p: "page_inv limit offset L (s\<lparr>hs_runH := h, hs_run := hs_run s @ [e]\<rparr>)" using Cons.prems(1) by (simp add: page_inv_def)
    have "decodeHistRow (snd e') h = Some (f h e')" if "e' \<in> set (hs_run s @ [e])" for e'
      using that False Cons.prems(2) [of e'] k(3) by (cases "e' \<in> set (hs_run s)") auto
    then show ?thesis
      using Cons.IH [OF p _ ks] False unfolding step by (auto simp: ke)
  next
    case True
    obtain go s' where fl: "flush kv js cr db limit offset s = (go, s')"
      "page_inv limit offset (L @ map (f (hs_runH s)) (rev (hs_run s))) s'" "hs_run s' = []"
      "go = (length (hs_out s') < limit)"
      using flush_page [OF Cons.prems(1,2)] True by metis
    show ?thesis
    proof (cases go)
      case False
      then show ?thesis using page_done [OF fl(2)] fl(1,4) True unfolding step by (simp add: ke rev_map)
    next
      case go: True
      have p: "page_inv limit offset (L @ map (f (hs_runH s)) (rev (hs_run s))) (s'\<lparr>hs_blk := None, hs_runH := h, hs_run := [e]\<rparr>)"
        using fl(2) by (simp add: page_inv_def)
      show ?thesis
        using Cons.IH [OF p _ ks] k(3) True go fl(1,3) unfolding step by (simp add: ke rev_map)
    qed
  qed
qed

section \<open>The keys of an address\<close>

definition block_keys :: "crypto \<Rightarrow> string \<Rightarrow> block \<Rightarrow> bytes list" where
  "block_keys cr a b = map (\<lambda>p. addrTxKey a (blk_Height b) (fst p)) (filter (\<lambda>p. touches cr a (snd p)) (enumerate 0 (blk_Txs b)))"

lemma addrTxKey_parts [simp]:
  "length (addrTxKey a h i) = length a + 12" "length a = n \<Longrightarrow> take n (addrTxKey a h i) = str_bytes a"
  "read_u64 (drop (length a) (addrTxKey a h i)) = h"
  "i < 2 ^ 32 \<Longrightarrow> from_be (take 4 (drop (length a + 8) (addrTxKey a h i))) = i"
  "i < 2 ^ 32 \<Longrightarrow> from_be (drop (length a + 8) (addrTxKey a h i)) = i"
  by (simp_all add: addrTxKey_def unat_u32_nat)

lemma addrTxKey_order:
  assumes "length a = length a'"
  shows "addrTxKey a h i < addrTxKey a' h' i' \<longleftrightarrow> str_bytes a < str_bytes a'
    \<or> a = a' \<and> (h < h' \<or> h = h' \<and> (word_of_nat i :: u32) < word_of_nat i')"
proof -
  have "u32be x < u32be y \<longleftrightarrow> x < y" for x y
    using from_be_order [of "u32be x" "u32be y"] by (simp add: word_less_nat_alt)
  then show ?thesis using assms by (simp add: addrTxKey_def append_order)
qed

lemma upper_key: "length a = length a' \<Longrightarrow> h < 2 ^ 63 \<Longrightarrow>
    addrTxKey a h i < str_bytes a' @ replicate 12 255 \<longleftrightarrow> str_bytes a < str_bytes a' \<or> a = a'"
proof -
  assume a: "length a = length a'" and h: "h < 2 ^ 63"
  have u: "replicate 12 255 = u64be (- 1) @ replicate 4 255" by code_simp
  have "(2 ^ 63 :: u64) < - 1" by simp
  then have "h < - 1" using h by (rule order_less_trans [rotated])
  then show ?thesis using a by (simp add: addrTxKey_def u append_order)
qed

lemma touches_key: "addrTxKey a h i \<in> set (addr_keys cr h (i, t)) \<longleftrightarrow> touches cr a t"
  by (auto simp: addr_keys_def touches_def addrTxKey_def split: sum.split)

lemma sorted_concat_upt:
  assumes "\<And>i. i < n \<Longrightarrow> sorted_wrt P (K i)" and "\<And>i j x y. i < j \<Longrightarrow> j < n \<Longrightarrow> x \<in> set (K i) \<Longrightarrow> y \<in> set (K j) \<Longrightarrow> P x y"
  shows "sorted_wrt P (concat (map K [0..<n]))"
  using assms
proof (induction n)
  case (Suc n)
  have "sorted_wrt P (concat (map K [0..<n]))" using Suc.prems by (intro Suc.IH) auto
  then show ?case using Suc.prems by (auto simp: sorted_wrt_append)
qed simp

lemma sorted_enumerate:
  "n + length ts < 2 ^ 32 \<Longrightarrow> sorted_wrt (\<lambda>p q. (word_of_nat (fst p) :: u32) < word_of_nat (fst q)) (enumerate n ts)"
proof (induction ts arbitrary: n)
  case (Cons t ts)
  have "(word_of_nat n :: u32) < word_of_nat m" if "n < m" "m < 2 ^ 32" for m
    using that by (simp add: word_less_nat_alt unat_of_nat)
  then show ?case using Cons by (auto simp: in_set_enumerate_eq)
qed simp

lemma block_keys_sorted:
  assumes "length (blk_Txs b) < 2 ^ 32"
  shows "sorted_wrt (<) (block_keys cr a b)"
  using sorted_enumerate [of 0 "blk_Txs b"] assms
  by (auto simp: block_keys_def sorted_wrt_map addrTxKey_order intro!: sorted_wrt_filter)

lemma nth_upt_map: "map f bs = map (\<lambda>i. f (bs ! i)) [0..<length bs]"
  by (rule nth_equalityI) simp_all

lemma address_keys_sorted:
  assumes "store_wf cr bs"
  shows "sorted_wrt (<) (concat (map (block_keys cr a) bs))"
  unfolding nth_upt_map [of "block_keys cr a"]
proof (rule sorted_concat_upt)
  fix i assume "i < length bs"
  then show "sorted_wrt (<) (block_keys cr a (bs ! i))"
    using assms nth_mem by (intro block_keys_sorted) (auto simp: store_wf_def)
next
  fix i j x y assume ij: "i < j" "j < length bs" and xy: "x \<in> set (block_keys cr a (bs ! i))" "y \<in> set (block_keys cr a (bs ! j))"
  have n: "length bs < 2 ^ 63" and h: "blk_Height (bs ! i) = word_of_nat i" "blk_Height (bs ! j) = word_of_nat j"
    using assms ij by (simp_all add: store_wf_def)
  have "(word_of_nat i :: u64) < word_of_nat j" using ij n by (simp add: word_less_nat_alt unat_of_nat)
  then show "x < y" using xy by (auto simp: block_keys_def addrTxKey_order h)
qed

text \<open>The store's keys of the address, in order, are those of the blocks that touch it.\<close>

lemma store_addr_row:
  assumes "store_holds kv js cr db bs" and "store_wf cr bs" and "b \<in> set bs"
    and "(i, t) \<in> set (enumerate 0 (blk_Txs b))" and "touches cr a t"
  shows "kv_get kv (bk_addrTx db) (addrTxKey a (blk_Height b) i) = Some (encodeHistRow (history_item_of cr b t))"
proof -
  have "(addrTxKey a (blk_Height b) i, encodeHistRow (history_item_of cr b t)) \<in> set (addr_rows cr b)"
    unfolding addr_rows_def using assms(4,5) touches_key [of a "blk_Height b" i cr t] by force
  from map_of_is_SomeI [OF rows_distinct(4) [OF assms(2)] rows_of_mem [where f = "addr_rows cr", OF assms(3) this]]
  show ?thesis using assms(1) by (simp add: store_holds_def)
qed

lemma store_addr_key:
  assumes "store_holds kv js cr db bs" and "store_wf cr bs" and "k \<in> dom (kv_get kv (bk_addrTx db))"
  shows "\<exists>b i t a. b \<in> set bs \<and> (i, t) \<in> set (enumerate 0 (blk_Txs b)) \<and> k = addrTxKey a (blk_Height b) i
    \<and> length a = 44 \<and> touches cr a t \<and> blk_Height b < 2 ^ 63"
proof -
  have "k \<in> fst ` set (rows_of (addr_rows cr) bs)"
    using assms(1,3) by (metis dom_map_of_conv_image_fst store_holds_def)
  then obtain b where b: "b \<in> set bs" "k \<in> fst ` set (addr_rows cr b)" by (auto simp: rows_of_def)
  then have "k \<in> set (map fst (addr_rows cr b))" by simp
  then obtain p where p: "p \<in> set (enumerate 0 (blk_Txs b))" "k \<in> set (addr_keys cr (blk_Height b) p)"
    unfolding map_fst_addr_rows by auto
  obtain i t where it: "p = (i, t)" by (cases p)
  have "t \<in> set (blk_Txs b)" using p(1) by (auto simp: it in_set_enumerate_eq)
  then have "length (tx_To t) = 44 \<and> (\<forall>a. FromAddr cr t = Inr a \<longrightarrow> length a = 44)"
    using assms(2) b(1) by (auto simp: store_wf_def)
  then obtain a where a: "k = addrTxKey a (blk_Height b) i" "length a = 44"
    using addr_keys_mem [of k cr "blk_Height b" i t] p(2) by (auto simp: it)
  have "touches cr a t" using p(2) touches_key [of a "blk_Height b" i cr t] by (simp add: it a(1))
  moreover have "blk_Height b < 2 ^ 63"
  proof -
    obtain j where "j < length bs" "bs ! j = b" using b(1) by (auto simp: in_set_conv_nth)
    then have "blk_Height b = word_of_nat j" "j < 2 ^ 63" using assms(2) by (auto simp: store_wf_def)
    then show ?thesis by (simp add: word_less_nat_alt unat_of_nat)
  qed
  ultimately show ?thesis using b(1) p(1) a it by blast
qed

lemma filter_addr_keys:
  assumes "kv_ok kv" and "store_holds kv js cr db bs" and "store_wf cr bs" and "length a = 44"
  shows "filter (\<lambda>k. take 44 k = str_bytes a) (kv_keys kv (bk_addrTx db)) = concat (map (block_keys cr a) bs)"
proof (rule strict_sorted_equal)
  show "sorted_wrt (<) (concat (map (block_keys cr a) bs))" by (rule address_keys_sorted [OF assms(3)])
  show "sorted_wrt (<) (filter (\<lambda>k. take 44 k = str_bytes a) (kv_keys kv (bk_addrTx db)))"
    by (intro sorted_wrt_filter kv_laws(5) [OF assms(1)])
  have "k \<in> set (concat (map (block_keys cr a) bs))"
    if k: "k \<in> dom (kv_get kv (bk_addrTx db))" "take 44 k = str_bytes a" for k
  proof -
    obtain b i t a' where b: "b \<in> set bs" "(i, t) \<in> set (enumerate 0 (blk_Txs b))" "k = addrTxKey a' (blk_Height b) i"
      "length a' = 44" "touches cr a' t"
      using store_addr_key [OF assms(2,3) k(1)] by blast
    have "a' = a" using k(2) b(3,4) by simp
    then have "k \<in> set (block_keys cr a b)" using b(2,3,5) by (force simp: block_keys_def)
    then show ?thesis using b(1) by auto
  qed
  moreover have "k \<in> dom (kv_get kv (bk_addrTx db)) \<and> take 44 k = str_bytes a"
    if k: "k \<in> set (concat (map (block_keys cr a) bs))" for k
    using k store_addr_row [OF assms(2,3)] assms(4) by (auto simp: block_keys_def)
  ultimately show "set (filter (\<lambda>k. take 44 k = str_bytes a) (kv_keys kv (bk_addrTx db))) = set (concat (map (block_keys cr a) bs))"
    unfolding set_filter kv_laws(4) [OF assms(1)] by blast
qed

lemma takeWhile_sorted: "sorted_wrt (<) xs \<Longrightarrow> takeWhile (\<lambda>x. x < (u :: 'x :: order)) xs = filter (\<lambda>x. x < u) xs"
proof (induction xs)
  case (Cons x xs)
  have "filter (\<lambda>y. y < u) xs = []" if "\<not> x < u" using that Cons.prems by (force simp: filter_empty_conv)
  then show ?case using Cons by simp
qed simp

lemma filter_split:
  assumes "sorted_wrt (<) xs" and "\<And>x y. x \<in> set xs \<Longrightarrow> y \<in> set xs \<Longrightarrow> P x \<Longrightarrow> Q y \<Longrightarrow> (x :: 'x :: linorder) < y"
  shows "filter (\<lambda>x. P x \<or> Q x) xs = filter P xs @ filter Q xs"
  using assms
proof (induction xs)
  case (Cons x xs)
  have "filter P xs = []" if "Q x"
    using that Cons.prems by (force simp: filter_empty_conv)
  moreover have "\<not> (P x \<and> Q x)" using Cons.prems(2) [of x x] by auto
  ultimately show ?case using Cons by auto
qed simp

lemma cursor_keys:
  assumes "kv_ok kv" and "store_holds kv js cr db bs" and "store_wf cr bs" and "length a = 44"
  obtains rest where "rev (takeWhile (\<lambda>k. k < str_bytes a @ replicate 12 255) (kv_keys kv (bk_addrTx db)))
      = rev (concat (map (block_keys cr a) bs)) @ rest"
    "rest = [] \<or> take 44 (hd rest) \<noteq> str_bytes a"
proof -
  let ?ks = "kv_keys kv (bk_addrTx db)"
  have key: "\<exists>a' h i. k = addrTxKey a' h i \<and> length a' = 44 \<and> h < 2 ^ 63" if "k \<in> set ?ks" for k
    using store_addr_key [OF assms(2,3), of k] that unfolding kv_laws(4) [OF assms(1)] by blast
  have "takeWhile (\<lambda>k. k < str_bytes a @ replicate 12 255) ?ks = filter (\<lambda>k. k < str_bytes a @ replicate 12 255) ?ks"
    by (rule takeWhile_sorted [OF kv_laws(5) [OF assms(1)]])
  also have "\<dots> = filter (\<lambda>k. take 44 k < str_bytes a \<or> take 44 k = str_bytes a) ?ks"
    using key upper_key assms(4) by (intro filter_cong) fastforce+
  also have "\<dots> = filter (\<lambda>k. take 44 k < str_bytes a) ?ks @ filter (\<lambda>k. take 44 k = str_bytes a) ?ks"
  proof (rule filter_split [OF kv_laws(5) [OF assms(1)]])
    fix x y assume "x \<in> set ?ks" "y \<in> set ?ks" "take 44 x < str_bytes a" "take 44 y = str_bytes a"
    then show "x < y" using key [of x] key [of y] by (auto simp: addrTxKey_order)
  qed
  finally have e: "rev (takeWhile (\<lambda>k. k < str_bytes a @ replicate 12 255) ?ks)
     = rev (concat (map (block_keys cr a) bs)) @ rev (filter (\<lambda>k. take 44 k < str_bytes a) ?ks)"
    by (simp add: filter_addr_keys [OF assms])
  have "take 44 k \<noteq> str_bytes a" if "k \<in> set (rev (filter (\<lambda>k. take 44 k < str_bytes a) ?ks))" for k
    using that by auto
  then show thesis using that [OF e] by (metis hd_in_set)
qed

section \<open>The query\<close>

lemma ID_short: "digest32 cr \<Longrightarrow> tx_coherent cr t \<Longrightarrow> length (ID cr t) = 64"
  by (simp add: ID_coherent computeID_def digest32D)

lemma row_decodes:
  assumes "digest32 cr" and "store_wf cr bs" and "b \<in> set bs" and "t \<in> set (blk_Txs b)"
  shows "decodeHistRow (encodeHistRow (history_item_of cr b t)) (blk_Height b) = Some (history_item_of cr b t)"
proof -
  have t: "tx_coherent cr t" "length (tx_To t) = 44" "\<forall>a. FromAddr cr t = Inr a \<longrightarrow> length a = 44"
    using assms(2-4) by (auto simp: store_wf_def block_coherent_def)
  have "length (from_or_empty cr t) < 256" using t(3) by (simp add: from_or_empty_def split: sum.split)
  then show ?thesis
    using history_row_roundtrip [of "history_item_of cr b t" "blk_Height b"] ID_short [OF assms(1) t(1)] t(2)
    by (simp add: history_item_of_def)
qed

definition row_item :: "u64 \<Rightarrow> nat \<times> bytes \<Rightarrow> history_item" where
  "row_item h e = the (decodeHistRow (snd e) h)"

definition block_items :: "crypto \<Rightarrow> string \<Rightarrow> block \<Rightarrow> history_item list" where
  "block_items cr a b = map (history_item_of cr b) (filter (touches cr a) (blk_Txs b))"

lemma block_items_enumerate:
  "map (\<lambda>p. history_item_of cr b (snd p)) (filter (\<lambda>p. touches cr a (snd p)) (enumerate n ts))
     = map (history_item_of cr b) (filter (touches cr a) ts)"
  by (induction ts arbitrary: n) simp_all

lemma address_key:
  assumes "digest32 cr" and "store_holds kv js cr db bs" and "store_wf cr bs" and "length a = 44" and "b \<in> set bs"
    and "(i, t) \<in> set (enumerate 0 (blk_Txs b))" and "touches cr a t"
  shows "key_ok kv db (str_bytes a) row_item (addrTxKey a (blk_Height b) i)"
    "key_entry kv db (str_bytes a) (addrTxKey a (blk_Height b) i)
       = (blk_Height b, i, encodeHistRow (history_item_of cr b t))"
proof -
  have t: "t \<in> set (blk_Txs b)" "i < 2 ^ 32" using assms(3,5,6) by (auto simp: in_set_enumerate_eq store_wf_def)
  note g = store_addr_row [OF assms(2,3,5,6,7)]
  note d = row_decodes [OF assms(1,3,5) t(1)]
  have l: "length (str_bytes a) = length a" by simp
  show "key_entry kv db (str_bytes a) (addrTxKey a (blk_Height b) i)
       = (blk_Height b, i, encodeHistRow (history_item_of cr b t))"
    unfolding key_entry_def l using t(2) by (simp add: g)
  show "key_ok kv db (str_bytes a) row_item (addrTxKey a (blk_Height b) i)"
    unfolding key_ok_def Let_def l using t(2) by (simp add: g d row_item_def)
qed

lemma block_entries:
  assumes "digest32 cr" and "store_holds kv js cr db bs" and "store_wf cr bs" and "length a = 44" and "b \<in> set bs"
  shows "map (\<lambda>k. case key_entry kv db (str_bytes a) k of (h, e) \<Rightarrow> (h, row_item h e)) (block_keys cr a b)
    = map (Pair (blk_Height b)) (block_items cr a b)"
proof -
  have "map (\<lambda>k. case key_entry kv db (str_bytes a) k of (h, e) \<Rightarrow> (h, row_item h e)) (block_keys cr a b)
      = map (\<lambda>p. (blk_Height b, history_item_of cr b (snd p))) (filter (\<lambda>p. touches cr a (snd p)) (enumerate 0 (blk_Txs b)))"
    unfolding block_keys_def map_map
  proof (rule map_cong [OF refl])
    fix p assume p: "p \<in> set (filter (\<lambda>p. touches cr a (snd p)) (enumerate 0 (blk_Txs b)))"
    then have m: "(fst p, snd p) \<in> set (enumerate 0 (blk_Txs b))" "touches cr a (snd p)" by simp_all
    have "snd p \<in> set (blk_Txs b)" using m(1) by (auto simp: in_set_enumerate_eq) (metis nth_mem)
    then show "((\<lambda>k. case key_entry kv db (str_bytes a) k of (h, e) \<Rightarrow> (h, row_item h e)) \<circ> (\<lambda>p. addrTxKey a (blk_Height b) (fst p))) p
       = (blk_Height b, history_item_of cr b (snd p))"
      using address_key(2) [OF assms m] row_decodes [OF assms(1,3,5)] by (simp add: row_item_def)
  qed
  also have "\<dots> = map (Pair (blk_Height b)) (block_items cr a b)"
    unfolding block_items_def block_items_enumerate [symmetric, of cr b a "blk_Txs b" 0] map_map by (simp add: comp_def)
  finally show ?thesis .
qed

text \<open>(C16)
  The history query of the store returns the page that the in-memory chain returns: the slice from
  \<open>offset\<close> of at most \<open>limit\<close> entries of the address's whole history, newest block first and in order
  within a block. A negative limit is refused as the code's slice allocation panics.
\<close>

theorem addrHistory_is_scan_slice:
  assumes "kv_ok kv" and "digest32 cr" and "store_holds kv js cr db bs" and "store_wf cr bs" and "length a = 44"
  shows "addrHistory kv js cr db a limit offset = (if limit < 0 then None
    else Some (take (nat limit) (drop (nat offset) (history_scan cr a bs))))"
proof (cases "limit < 0")
  case False
  let ?p = "str_bytes a"
  let ?s = "\<lparr>hs_skipped = 0, hs_out = [], hs_run = [], hs_runH = 0, hs_blk = None\<rparr>"
  let ?e = "\<lambda>k. case key_entry kv db ?p k of (h, e) \<Rightarrow> (h, row_item h e)"
  obtain rest where rest: "rev (takeWhile (\<lambda>k. k < ?p @ replicate 12 255) (kv_keys kv (bk_addrTx db)))
      = rev (concat (map (block_keys cr a) bs)) @ rest" "rest = [] \<or> take (length ?p) (hd rest) \<noteq> ?p"
    using cursor_keys [OF assms(1,3,4,5)] assms(5) by (metis length_str_bytes)
  have ok: "key_ok kv db ?p row_item k" if "k \<in> set (rev (concat (map (block_keys cr a) bs)))" for k
    using that address_key(1) [OF assms(2-5)] by (auto simp: block_keys_def)
  let ?gs = "map (\<lambda>b. (blk_Height b, rev (block_items cr a b))) (rev bs)"
  have "map ?e (rev (concat (map (block_keys cr a) bs))) = rev (concat (map (\<lambda>b. map ?e (block_keys cr a b)) bs))"
    unfolding rev_map [symmetric] map_concat map_map comp_def ..
  also have "\<dots> = rev (concat (map (\<lambda>b. map (Pair (blk_Height b)) (block_items cr a b)) bs))"
    using block_entries [OF assms(2-5)] by (simp cong: map_cong)
  also have "\<dots> = concat (map (\<lambda>(h, g). map (Pair h) g) ?gs)"
    by (simp add: rev_concat rev_map comp_def)
  finally have es: "map ?e (rev (concat (map (block_keys cr a) bs))) = concat (map (\<lambda>(h, g). map (Pair h) g) ?gs)" .
  have "distinct (map fst ?gs)" using store_wf_heights(2) [OF assms(4)] by (simp add: comp_def rev_map [symmetric])
  from regroup_groups [OF this disjI1 [OF refl], of 0]
  have "regroup 0 [] (map ?e (rev (concat (map (block_keys cr a) bs)))) = history_scan cr a bs"
    unfolding es by (simp add: history_scan_def block_items_def comp_def)
  then have "hs_out (hist_loop kv js cr db ?p (nat limit) (nat offset) (rev (concat (map (block_keys cr a) bs)) @ rest) ?s)
     = take (nat limit) (drop (nat offset) (history_scan cr a bs))"
    using hist_loop_page [where L = "[]" and s = ?s and f = row_item and js = js and cr = cr
      and limit = "nat limit" and offset = "nat offset"
      and ks = "rev (concat (map (block_keys cr a) bs))", OF _ _ ok rest(2)]
    by (simp add: page_inv_def)
  then show ?thesis using False by (simp add: addrHistory_def Let_def rest(1))
qed (simp add: addrHistory_def)

theorem addrHistory_is_scan_slice_witness:
  "addrHistory demo_kv (demo_json tail_crypto) tail_crypto demo_db (AddrPrefix @ replicate 40 (CHR ''0'')) 1 1
    = Some [history_item_of tail_crypto (stored_block 0 0 ''0'') (stored_tx ''0'')]"
proof -
  let ?a = "AddrPrefix @ replicate 40 (CHR ''0'')"
  have "length ?a = 44" by simp
  from addrHistory_is_scan_slice [OF demo_kv_ok digest32_tail demo_holds demo_wf(1) this, of 1 1]
  have "addrHistory demo_kv (demo_json tail_crypto) tail_crypto demo_db ?a 1 1
      = Some (take 1 (drop 1 (history_scan tail_crypto ?a demo_blocks)))" by simp
  then show ?thesis
    by (simp add: history_scan_def demo_blocks_def stored_block_def touches_def stored_tx_def IsCoinbase_def)
qed

end
