(* ===== verification/Float64_Bits.thy ===== *)
theory Float64_Bits
  imports Float64
begin

unbundle bit_operations_syntax

text \<open>
  Go's \<open>float64\<close> as IEEE 754 bit patterns: decoding, rounding to nearest with ties to even including
  subnormal results and overflow to infinity, addition, multiplication, division and square root. The
  bits of a NaN result depend on the platform and are the argument \<open>nan\<close>.
\<close>

section \<open>Patterns\<close>

definition f64_inf :: u64 where "f64_inf = 0x7FF0000000000000"
definition f64_abs :: "u64 \<Rightarrow> u64" where "f64_abs x = x AND 0x7FFFFFFFFFFFFFFF"
definition f64_neg :: "u64 \<Rightarrow> bool" where "f64_neg x \<longleftrightarrow> bit x 63"
definition f64_is_nan :: "u64 \<Rightarrow> bool" where "f64_is_nan x \<longleftrightarrow> f64_abs x > f64_inf"
definition f64_is_inf :: "u64 \<Rightarrow> bool" where "f64_is_inf x \<longleftrightarrow> f64_abs x = f64_inf"
definition f64_is_zero :: "u64 \<Rightarrow> bool" where "f64_is_zero x \<longleftrightarrow> f64_abs x = 0"

text \<open>The magnitude of a finite pattern: the fraction with its hidden bit, scaled by the exponent.\<close>

definition f64_mag :: "u64 \<Rightarrow> rat" where
  "f64_mag x =
     (let a = unat (f64_abs x); e = a div 2 ^ 52; m = a mod 2 ^ 52
      in if e = 0 then of_nat m * 2 powi (- 1074)
         else of_nat (2 ^ 52 + m) * 2 powi (int e - 1075))"

definition f64_val :: "u64 \<Rightarrow> rat" where
  "f64_val x = (if f64_neg x then - f64_mag x else f64_mag x)"

definition f64_sign :: "bool \<Rightarrow> u64 \<Rightarrow> u64" where
  "f64_sign s x = (if s then x OR 0x8000000000000000 else x)"

text \<open>
  Rounding a magnitude: \<open>e\<close> is the exponent of the last place plus 52. Adding the rounded fraction with
  its hidden bit to the exponent field carries a fraction that rounds up into the exponent.
\<close>

definition f64_pack :: "rat \<Rightarrow> u64" where
  "f64_pack x =
     (if x = 0 then 0
      else let e = max (f64_exp x) (- 1022);
               b = (e + 1022) * 2 ^ 52 + rne (x / 2 powi (e - 52))
           in if b \<ge> uint f64_inf then f64_inf else word_of_int b)"

section \<open>Operations\<close>

definition f64_add :: "u64 \<Rightarrow> u64 \<Rightarrow> u64 \<Rightarrow> u64" where
  "f64_add nan a b =
     (if f64_is_nan a \<or> f64_is_nan b then nan
      else if f64_is_inf a then (if f64_is_inf b \<and> f64_neg a \<noteq> f64_neg b then nan else a)
      else if f64_is_inf b then b
      else let x = f64_val a + f64_val b
           in if x = 0 then f64_sign (f64_neg a \<and> f64_neg b) 0
              else f64_sign (x < 0) (f64_pack \<bar>x\<bar>))"

definition f64_mul :: "u64 \<Rightarrow> u64 \<Rightarrow> u64 \<Rightarrow> u64" where
  "f64_mul nan a b =
     (let s = (f64_neg a \<noteq> f64_neg b) in
      if f64_is_nan a \<or> f64_is_nan b then nan
      else if f64_is_inf a \<or> f64_is_inf b
      then (if f64_is_zero a \<or> f64_is_zero b then nan else f64_sign s f64_inf)
      else f64_sign s (f64_pack (f64_mag a * f64_mag b)))"

definition f64_div :: "u64 \<Rightarrow> u64 \<Rightarrow> u64 \<Rightarrow> u64" where
  "f64_div nan a b =
     (let s = (f64_neg a \<noteq> f64_neg b) in
      if f64_is_nan a \<or> f64_is_nan b then nan
      else if f64_is_inf a then (if f64_is_inf b then nan else f64_sign s f64_inf)
      else if f64_is_inf b then f64_sign s 0
      else if f64_is_zero b then (if f64_is_zero a then nan else f64_sign s f64_inf)
      else f64_sign s (f64_pack (f64_mag a / f64_mag b)))"

text \<open>The integer square root, bit by bit from \<open>2^(k-1)\<close> down, and its rounding to nearest.\<close>

fun isqrt :: "nat \<Rightarrow> nat \<Rightarrow> nat \<Rightarrow> nat" where
  "isqrt n 0 acc = acc"
| "isqrt n (Suc k) acc = isqrt n k (if (acc + 2 ^ k) ^ 2 \<le> n then acc + 2 ^ k else acc)"

definition rne_sqrt :: "rat \<Rightarrow> int" where
  "rne_sqrt y =
     (let f = int (isqrt (nat \<lfloor>y\<rfloor>) 54 0); h = (of_int f + 1 / 2) ^ 2
      in if y < h then f else if y > h then f + 1 else if even f then f else f + 1)"

text \<open>The root of a finite positive pattern is normal: \<open>e\<close> is its exponent.\<close>

definition f64_sqrt :: "u64 \<Rightarrow> u64 \<Rightarrow> u64" where
  "f64_sqrt nan a =
     (if f64_is_nan a then nan
      else if f64_is_zero a then a
      else if f64_neg a then nan
      else if f64_is_inf a then a
      else let e = f64_exp (f64_mag a) div 2
           in word_of_int ((e + 1022) * 2 ^ 52 + rne_sqrt (f64_mag a / 2 powi (2 * (e - 52)))))"

section \<open>Patterns of results\<close>

lemma f64_abs_take: "f64_abs x = take_bit 63 x"
  by (simp add: f64_abs_def take_bit_eq_mask mask_eq_exp_minus_1)

lemma f64_abs_small: "x \<le> f64_inf \<Longrightarrow> f64_abs x = x"
  unfolding f64_abs_take f64_inf_def
  by (simp add: word_unat_eq_iff unsigned_take_bit_eq take_bit_nat_eq_self word_le_nat_alt)

lemma f64_abs_sign: "x \<le> f64_inf \<Longrightarrow> f64_abs (f64_sign s x) = x"
proof -
  assume x: "x \<le> f64_inf"
  have "take_bit 63 (0x8000000000000000 :: u64) = 0" by simp
  then show ?thesis using f64_abs_small [OF x] by (simp add: f64_sign_def f64_abs_take take_bit_or)
qed

lemma f64_pack_le_inf: "0 \<le> x \<Longrightarrow> f64_pack x \<le> f64_inf"
proof (cases "x = 0")
  case False
  assume "0 \<le> x"
  define e where "e = max (f64_exp x) (- 1022)"
  define b where "b = (e + 1022) * 2 ^ 52 + rne (x / 2 powi (e - 52))"
  have "rne 0 \<le> rne (x / 2 powi (e - 52))" using \<open>0 \<le> x\<close> by (intro rne_mono) simp
  moreover have "rne 0 = 0" using rne_of_int [of 0] by simp
  ultimately have b: "0 \<le> b" by (simp add: b_def e_def)
  have p: "f64_pack x = (if b \<ge> uint f64_inf then f64_inf else word_of_int b)"
    using False by (simp add: f64_pack_def b_def e_def Let_def)
  have "word_of_int b \<le> f64_inf" if "\<not> b \<ge> uint f64_inf"
  proof -
    have "b < 2 ^ 64" using that uint_bounded [of f64_inf] by simp
    then have "uint (word_of_int b :: u64) = b" using b by (simp add: unsigned_of_int take_bit_int_eq_self)
    then show ?thesis using that by (simp add: word_le_def)
  qed
  then show ?thesis by (simp add: p)
qed (simp add: f64_pack_def)

lemma f64_pack_nonzero:
  assumes "2 powi (- 1074) \<le> x"
  shows "f64_pack x \<noteq> 0"
proof -
  have x: "0 < x" by (rule order_less_le_trans [OF _ assms]) simp
  define e where "e = max (f64_exp x) (- 1022)"
  define b where "b = (e + 1022) * 2 ^ 52 + rne (x / 2 powi (e - 52))"
  have p: "f64_pack x = (if b \<ge> uint f64_inf then f64_inf else word_of_int b)"
    using x by (simp add: f64_pack_def b_def e_def Let_def)
  have "1 \<le> b"
  proof (cases "e = - 1022")
    case True
    have "(of_int 1 :: rat) \<le> x / 2 powi (e - 52)" using assms by (simp add: True pos_le_divide_eq)
    from rne_mono [OF this] show ?thesis by (simp only: rne_of_int b_def True) simp
  next
    case False
    have "rne 0 \<le> rne (x / 2 powi (e - 52))" using x by (intro rne_mono) simp
    moreover have "rne 0 = 0" using rne_of_int [of 0] by simp
    moreover have "- 1022 < e" using False by (simp add: e_def)
    ultimately show ?thesis by (simp add: b_def)
  qed
  moreover have "(word_of_int b :: u64) \<noteq> 0" if "1 \<le> b" "\<not> b \<ge> uint f64_inf"
  proof -
    have "b < 2 ^ 64" using that uint_bounded [of f64_inf] by simp
    then have "uint (word_of_int b :: u64) = b" using that by (simp add: unsigned_of_int take_bit_int_eq_self)
    then show ?thesis using that(1) by auto
  qed
  ultimately show ?thesis by (simp add: p f64_inf_def)
qed

lemma f64_mag_nonneg: "0 \<le> f64_mag x"
  by (simp add: f64_mag_def Let_def del: of_nat_unat)

lemma f64_mag_min: "\<not> f64_is_zero x \<Longrightarrow> 2 powi (- 1074) \<le> f64_mag x"
proof -
  assume "\<not> f64_is_zero x"
  then have a: "unat (f64_abs x) \<noteq> 0" by (simp add: f64_is_zero_def unat_eq_0)
  let ?a = "unat (f64_abs x)"
  show ?thesis
  proof (cases "?a div 2 ^ 52 = 0")
    case True
    then have "1 \<le> ?a mod 2 ^ 52" using a by (metis One_nat_def Suc_leI div_mod_decomp gr0I mult_zero_left add_0)
    then have "(of_nat 1 :: rat) \<le> of_nat (?a mod 2 ^ 52)" by (rule of_nat_mono)
    then have "(1 :: rat) \<le> of_nat (?a mod 2 ^ 52)" by (simp only: of_nat_1)
    then have "1 * 2 powi (- 1074) \<le> of_nat (?a mod 2 ^ 52) * (2 powi (- 1074) :: rat)"
      by (rule mult_right_mono) simp
    then show ?thesis using True by (simp only: f64_mag_def Let_def simp_thms if_True mult_1)
  next
    case False
    have "(2 powi (- 1074) :: rat) \<le> 2 powi (int (?a div 2 ^ 52) - 1075)"
      using False by (intro power_int_increasing) simp_all
    also have "\<dots> = 1 * 2 powi (int (?a div 2 ^ 52) - 1075)" by simp
    also have "\<dots> \<le> of_nat (2 ^ 52 + ?a mod 2 ^ 52) * 2 powi (int (?a div 2 ^ 52) - 1075)"
      by (intro mult_right_mono) (simp_all add: of_nat_mono)
    finally show ?thesis using False by (simp add: f64_mag_def Let_def)
  qed
qed

text \<open>An operation either does not depend on the platform's NaN or returns it.\<close>

lemma f64_nan_result:
  "f64_add n a b = f64_add n' a b \<or> f64_add n a b = n \<and> f64_add n' a b = n'"
  "f64_mul n a b = f64_mul n' a b \<or> f64_mul n a b = n \<and> f64_mul n' a b = n'"
  "f64_div n a b = f64_div n' a b \<or> f64_div n a b = n \<and> f64_div n' a b = n'"
  "f64_sqrt n a = f64_sqrt n' a \<or> f64_sqrt n a = n \<and> f64_sqrt n' a = n'"
  by (simp_all add: f64_add_def f64_mul_def f64_div_def f64_sqrt_def Let_def)

text \<open>Multiplying by a factor of at least one keeps a number away from zero and from NaN.\<close>

lemma f64_mul_stays:
  assumes "\<not> f64_is_nan a" and "\<not> f64_is_zero a" and "\<not> f64_is_nan b" and "\<not> f64_is_inf b" and "1 \<le> f64_mag b"
    and "\<not> f64_is_zero b"
  shows "\<not> f64_is_nan (f64_mul n a b)" and "\<not> f64_is_zero (f64_mul n a b)" and "f64_mul n a b = f64_mul n' a b"
proof -
  have inf: "f64_inf \<le> f64_inf" "f64_inf \<noteq> 0" by (simp_all add: f64_inf_def)
  have m: "2 powi (- 1074) \<le> f64_mag a * f64_mag b"
  proof -
    have "2 powi (- 1074) \<le> f64_mag a * 1" using f64_mag_min [OF assms(2)] by simp
    also have "\<dots> \<le> f64_mag a * f64_mag b" using assms(5) f64_mag_nonneg by (intro mult_left_mono)
    finally show ?thesis .
  qed
  have le: "f64_pack (f64_mag a * f64_mag b) \<le> f64_inf"
    by (intro f64_pack_le_inf mult_nonneg_nonneg f64_mag_nonneg)
  have v: "f64_mul n a b = f64_sign (f64_neg a \<noteq> f64_neg b)
      (if f64_is_inf a then f64_inf else f64_pack (f64_mag a * f64_mag b))" for n
    using assms by (simp add: f64_mul_def Let_def)
  show "\<not> f64_is_nan (f64_mul n a b)" "\<not> f64_is_zero (f64_mul n a b)" "f64_mul n a b = f64_mul n' a b"
    using f64_pack_nonzero [OF m] f64_abs_sign [OF le] f64_abs_sign [OF inf(1)] le inf
    by (simp_all add: v f64_is_nan_def f64_is_zero_def not_less)
qed

end
