(* ===== verification/NeuroMorph.thy ===== *)
theory NeuroMorph
  imports Float64_Bits
begin

unbundle bit_operations_syntax

text \<open>
  The NeuroMorph proof of work, after \<^verbatim>\<open>src/neuromorph/neuromorph.go\<close>: the parameters of an epoch, the
  scratchpad and dataset filled by AES, the random program, the register machine with its bounded
  branches, and the hash. AES-128 on one block is the argument \<open>enc key block\<close>; the bits of a NaN are the
  argument \<open>nan\<close>. Registers and memory are lists of 64-bit words; floating-point registers hold bit
  patterns.
\<close>

section \<open>Constants and opcodes\<close>

definition scratchWords :: nat where "scratchWords = 262144"
definition scratchMask :: u64 where "scratchMask = 2097144"
definition datasetWords :: nat where "datasetWords = 8388608"
definition datasetMask :: u64 where "datasetMask = 67108856"
abbreviation (input) numOps :: nat where "numOps \<equiv> 15"
abbreviation (input) datasetReadsPerLoop :: nat where "datasetReadsPerLoop \<equiv> 64"
abbreviation (input) DatasetHeight :: u64 where "DatasetHeight \<equiv> 240"

abbreviation (input) opIADD :: nat where "opIADD \<equiv> 0"
abbreviation (input) opIMUL :: nat where "opIMUL \<equiv> 1"
abbreviation (input) opIMULH :: nat where "opIMULH \<equiv> 2"
abbreviation (input) opIXOR :: nat where "opIXOR \<equiv> 3"
abbreviation (input) opIROTR :: nat where "opIROTR \<equiv> 4"
abbreviation (input) opINEG :: nat where "opINEG \<equiv> 5"
abbreviation (input) opFADD :: nat where "opFADD \<equiv> 6"
abbreviation (input) opFMUL :: nat where "opFMUL \<equiv> 7"
abbreviation (input) opFDIV :: nat where "opFDIV \<equiv> 8"
abbreviation (input) opFSQRT :: nat where "opFSQRT \<equiv> 9"
abbreviation (input) opLOAD :: nat where "opLOAD \<equiv> 10"
abbreviation (input) opSTORE :: nat where "opSTORE \<equiv> 11"
abbreviation (input) opCBRANCH :: nat where "opCBRANCH \<equiv> 12"
abbreviation (input) opAESR :: nat where "opAESR \<equiv> 13"
abbreviation (input) opXDOM :: nat where "opXDOM \<equiv> 14"

definition read_le64 :: "bytes \<Rightarrow> u64" where
  "read_le64 b = word_of_nat (from_le (take 8 b))"

section \<open>Epoch parameters\<close>

record params =
  ProgSize :: nat
  Loops :: nat
  BranchMask :: u64
  RotSalt :: u64
  OpTable :: "nat list"
  AesKey :: bytes
  DatasetKey :: bytes

definition EpochSeed0 :: "crypto \<Rightarrow> bytes" where
  "EpochSeed0 cr = sha256 cr (str_bytes ''cerebra/neuromorph/v1/epoch0/2026-06-11'')"

text \<open>The opcode table: each opcode's share, the last one's being the rest, and a filler.\<close>

definition op_weights :: "bytes \<Rightarrow> nat list" where
  "op_weights wh = map (\<lambda>i. 1 + unat (wh ! i) mod 8) [0..<numOps]"

definition table_step :: "nat list \<Rightarrow> nat list \<Rightarrow> nat \<Rightarrow> nat list" where
  "table_step ws tbl op =
     (let n = (if op = numOps - 1 then 256 - length tbl else ws ! op * 256 div sum_list ws)
      in tbl @ replicate (min n (256 - length tbl)) op)"

definition op_table :: "bytes \<Rightarrow> nat list" where
  "op_table wh =
     (let tbl = foldl (table_step (op_weights wh)) [] [0..<numOps]
      in tbl @ map (\<lambda>i. unat (wh ! (i mod 32)) mod numOps) [length tbl..<256])"

definition DeriveParams :: "crypto \<Rightarrow> bytes \<Rightarrow> params" where
  "DeriveParams cr epochSeed =
     (let h = sha256 cr (str_bytes ''nm-params|'' @ epochSeed);
          dk = sha256 cr (str_bytes ''nm-dataset|'' @ epochSeed);
          wh = sha256 cr (str_bytes ''nm-weights|'' @ epochSeed)
      in \<lparr>ProgSize = 384 + from_le (take 2 h) mod 385, Loops = 32 + unat (h ! 2) mod 33,
          BranchMask = push_bit (unat (h ! 3) mod 24) 0xFF, RotSalt = read_le64 (drop 4 h),
          OpTable = op_table wh, AesKey = take 16 (drop 12 h), DatasetKey = take 16 dk\<rparr>)"

section \<open>Memory\<close>

record instr =
  ins_op :: nat
  ins_dst :: u8
  ins_src :: u8
  ins_imm :: u32

record VM =
  vm_params :: params
  vm_scratch :: "u64 list"
  vm_prog :: "instr list"
  vm_taken :: "nat list"
  vm_dataset :: "u64 list option"

definition NewVM :: "params \<Rightarrow> VM" where
  "NewVM p = \<lparr>vm_params = p, vm_scratch = replicate scratchWords 0,
     vm_prog = replicate (ProgSize p) \<lparr>ins_op = 0, ins_dst = 0, ins_src = 0, ins_imm = 0\<rparr>,
     vm_taken = replicate (ProgSize p) 0, vm_dataset = None\<rparr>"

definition genDataset :: "(bytes \<Rightarrow> bytes \<Rightarrow> bytes) \<Rightarrow> bytes \<Rightarrow> u64 list" where
  "genDataset enc key = concat (map (\<lambda>i.
     let out = enc key (le_bytes 8 (word_of_nat (2 * i) :: u64) @ replicate 8 0)
     in [read_le64 out, read_le64 (drop 8 out)]) [0..<datasetWords div 2])"

text \<open>
  The shared cache of datasets, at most four: the map's first key in iteration order, which Go leaves
  open, is the first of the list.
\<close>

type_synonym ds_cache = "(bytes \<times> u64 list) list"

definition getDataset ::
  "(bytes \<Rightarrow> bytes \<Rightarrow> bytes) \<Rightarrow> bytes \<Rightarrow> ds_cache \<Rightarrow> u64 list \<times> ds_cache" where
  "getDataset enc key cache =
     (case map_of cache key of
        Some d \<Rightarrow> (d, cache)
      | None \<Rightarrow>
          let d = genDataset enc key;
              cache1 = (if length cache \<ge> 4 then tl cache else cache)
          in (d, AList.update key d cache1))"

definition fill_words :: "(bytes \<Rightarrow> bytes) \<Rightarrow> u64 list \<Rightarrow> nat \<Rightarrow> u64 list" where
  "fill_words block scratch i =
     (let out = block (le_bytes 8 (word_of_nat (2 * i) :: u64))
      in scratch[2 * i := read_le64 out, 2 * i + 1 := read_le64 (drop 8 out)])"

definition fillScratch ::
  "(bytes \<Rightarrow> bytes \<Rightarrow> bytes) \<Rightarrow> crypto \<Rightarrow> bytes \<Rightarrow> u64 list \<Rightarrow> u64 list" where
  "fillScratch enc cr seed scratch =
     (let key = sha256 cr (seed @ [0x53]);
          ctr = drop 16 key
      in foldl (fill_words (\<lambda>i. enc (take 16 key) (i @ drop 8 ctr))) scratch [0..<scratchWords div 2])"

text \<open>The program stream: AES in feedback with a counter in the low half, 16 bytes at a time.\<close>

primrec prog_stream :: "(bytes \<Rightarrow> bytes) \<Rightarrow> nat \<Rightarrow> bytes \<Rightarrow> bytes" where
  "prog_stream block 0 inp = []"
| "prog_stream block (Suc n) inp =
     (let out = block inp
      in out @ prog_stream block n (le_bytes 8 (read_le64 out + 1) @ drop 8 out))"

definition decode_instr :: "params \<Rightarrow> bytes \<Rightarrow> instr" where
  "decode_instr p b = \<lparr>ins_op = OpTable p ! unat (b ! 0), ins_dst = b ! 1, ins_src = b ! 2,
     ins_imm = word_of_nat (from_le (take 4 (drop 4 b)))\<rparr>"

definition genProgram ::
  "(bytes \<Rightarrow> bytes \<Rightarrow> bytes) \<Rightarrow> crypto \<Rightarrow> params \<Rightarrow> bytes \<Rightarrow> instr list \<Rightarrow> instr list" where
  "genProgram enc cr p seed prog =
     (let key = sha256 cr (seed @ [0x50]);
          stream = prog_stream (enc (take 16 key)) ((ProgSize p * 8 + 15) div 16) (take 16 (drop 16 key))
      in foldl (\<lambda>pr i. pr[i := decode_instr p (take 8 (drop (8 * i) stream))]) prog [0..<ProgSize p])"

section \<open>The register machine\<close>

definition normFloat :: "u64 \<Rightarrow> u64" where
  "normFloat x = (push_bit 52 1023) OR (x AND 0x000FFFFFFFFFFFFF)"

record regs =
  rg_r :: "u64 list"
  rg_f :: "u64 list"
  rg_scratch :: "u64 list"
  rg_taken :: "nat list"

abbreviation mem_addr :: "u64 \<Rightarrow> nat" where
  "mem_addr a \<equiv> unat (drop_bit 3 a)"

text \<open>One instruction other than the branch, without the repair of the floating-point result.\<close>

definition exec_op ::
  "u64 \<Rightarrow> (bytes \<Rightarrow> bytes) \<Rightarrow> params \<Rightarrow> nat \<Rightarrow> instr \<Rightarrow> regs \<Rightarrow> regs" where
  "exec_op nan aes p loop ins st =
     (let d = unat (ins_dst ins) mod 16; s = unat (ins_src ins) mod 16;
          r = rg_r st; f = rg_f st; sc = rg_scratch st;
          imm = ucast (ins_imm ins) :: u64; op = ins_op ins;
          setr = (\<lambda>v. st\<lparr>rg_r := r[d := v]\<rparr>);
          setf = (\<lambda>v. st\<lparr>rg_f := f[d mod 8 := v]\<rparr>)
      in if op = opIADD then setr (r ! d + (r ! s + imm))
         else if op = opIMUL then setr (r ! d * (r ! s OR 1))
         else if op = opIMULH then setr (word_of_nat (unat (r ! d) * unat (r ! s) div 2 ^ 64) XOR imm)
         else if op = opIXOR then setr (r ! d XOR (r ! s + RotSalt p))
         else if op = opIROTR then setr (word_rotr (unat ((r ! s XOR imm) AND 63)) (r ! d))
         else if op = opINEG then setr (NOT (r ! d) + imm)
         else if op = opFADD then setf (f64_add nan (f ! (d mod 8)) (f ! (s mod 8)))
         else if op = opFMUL then setf (f64_mul nan (f ! (d mod 8)) (f ! (s mod 8)))
         else if op = opFDIV then setf (f64_div nan (f ! (d mod 8)) (normFloat (f ! (s mod 8))))
         else if op = opFSQRT then setf (f64_sqrt nan (f64_abs (f ! (d mod 8))))
         else if op = opLOAD then
           setr (r ! d XOR sc ! mem_addr ((r ! s + imm) AND scratchMask))
         else if op = opSTORE then
           (let a = mem_addr ((r ! d + imm) AND scratchMask)
            in st\<lparr>rg_scratch := sc[a := sc ! a XOR (r ! s + word_of_nat loop)]\<rparr>)
         else if op = opAESR then
           (let w = mem_addr ((r ! s + imm) AND scratchMask AND NOT 15);
                out = aes (le_bytes 8 (sc ! w) @ le_bytes 8 (sc ! (w + 1)));
                sc1 = sc[w := read_le64 out, w + 1 := read_le64 (drop 8 out)]
            in st\<lparr>rg_scratch := sc1, rg_r := r[d := r ! d XOR sc1 ! w]\<rparr>)
         else if op = opXDOM then
           (if ins_imm ins AND 1 = 0 then setr (r ! d XOR f ! (s mod 8))
            else setf (f64_mul nan (f ! (d mod 8)) (normFloat (r ! s))))
         else st)"

text \<open>\<open>Keep floats finite without branching on hardware flags.\<close>\<close>

definition repair_float :: "instr \<Rightarrow> regs \<Rightarrow> regs" where
  "repair_float ins st =
     (let d = unat (ins_dst ins) mod 16; v = rg_f st ! (d mod 8)
      in if opFADD \<le> ins_op ins \<and> ins_op ins \<le> opFSQRT \<and> (f64_is_nan v \<or> f64_is_inf v \<or> f64_is_zero v)
         then st\<lparr>rg_f := (rg_f st)[d mod 8 := normFloat (rg_r st ! d OR 1)]\<rparr> else st)"

text \<open>The conditional branch: taken at most eight times at each place in a loop.\<close>

definition takes_branch :: "params \<Rightarrow> instr \<Rightarrow> nat \<Rightarrow> regs \<Rightarrow> bool" where
  "takes_branch p ins pc st \<longleftrightarrow> ins_op ins = opCBRANCH
     \<and> (rg_r st ! (unat (ins_dst ins) mod 16) + ucast (ins_imm ins)) AND BranchMask p = 0
     \<and> rg_taken st ! pc < 8"

definition exec_instr ::
  "u64 \<Rightarrow> (bytes \<Rightarrow> bytes) \<Rightarrow> params \<Rightarrow> instr list \<Rightarrow> nat \<Rightarrow> nat \<times> regs \<Rightarrow> nat \<times> regs" where
  "exec_instr nan aes p prog loop c =
     (case c of (pc, st) \<Rightarrow>
        let ins = prog ! pc in
        if takes_branch p ins pc st
        then (pc - (unat (ins_imm ins) mod 31 + 1), st\<lparr>rg_taken := (rg_taken st)[pc := rg_taken st ! pc + 1]\<rparr>)
        else (pc + 1, repair_float ins (exec_op nan aes p loop ins st)))"

text \<open>
  What is left to execute: 32 for every branch that may still be taken, and the way to the end. A
  program runs while the counter is inside it.
\<close>

definition fuel_left :: "params \<Rightarrow> nat \<times> regs \<Rightarrow> nat" where
  "fuel_left p c = 32 * (\<Sum>t \<leftarrow> take (ProgSize p) (rg_taken (snd c)). 8 - t) + (ProgSize p - fst c)"

lemma taken_exec [simp]:
  "rg_taken (exec_op nan aes p loop ins st) = rg_taken st" "rg_taken (repair_float ins st) = rg_taken st"
  by (simp_all add: exec_op_def repair_float_def Let_def)

lemma sum_list_branch:
  "pc < length ts \<Longrightarrow> (ts ! pc :: nat) < 8 \<Longrightarrow>
    (\<Sum>t \<leftarrow> ts[pc := ts ! pc + 1]. 8 - t) + 1 = (\<Sum>t \<leftarrow> ts. 8 - t)"
proof (induction ts arbitrary: pc)
  case (Cons t ts)
  then show ?case by (cases pc) auto
qed simp

lemma fuel_decreases:
  assumes "fst c < ProgSize p" and "fst c < length (rg_taken (snd c))"
  shows "fuel_left p (exec_instr nan aes p prog loop c) < fuel_left p c"
proof (cases "takes_branch p (prog ! fst c) (fst c) (snd c)")
  case False
  then show ?thesis using assms by (cases c) (simp add: exec_instr_def fuel_left_def Let_def)
next
  case True
  let ?ts = "rg_taken (snd c)" and ?dist = "unat (ins_imm (prog ! fst c)) mod 31 + 1"
  have "?ts ! fst c < 8" using True by (simp add: takes_branch_def)
  then have "(\<Sum>t \<leftarrow> (take (ProgSize p) ?ts)[fst c := ?ts ! fst c + 1]. 8 - t) + 1 = (\<Sum>t \<leftarrow> take (ProgSize p) ?ts. 8 - t)"
    using sum_list_branch [of "fst c" "take (ProgSize p) ?ts"] assms by simp
  moreover have "take (ProgSize p) (?ts[fst c := ?ts ! fst c + 1]) = (take (ProgSize p) ?ts)[fst c := ?ts ! fst c + 1]"
    by (simp add: take_update_swap)
  moreover have "ProgSize p - (fst c - ?dist) \<le> ProgSize p - fst c + 31"
  proof -
    have "?dist \<le> 31" using mod_less_divisor [of 31 "unat (ins_imm (prog ! fst c))"] by linarith
    then show ?thesis by linarith
  qed
  ultimately show ?thesis using True by (cases c) (simp add: exec_instr_def fuel_left_def Let_def)
qed

text \<open>The interpreter loop; \<open>None\<close> is an index out of range in the program or the branch counters.\<close>

function vm_run ::
  "u64 \<Rightarrow> (bytes \<Rightarrow> bytes) \<Rightarrow> params \<Rightarrow> instr list \<Rightarrow> nat \<Rightarrow> nat \<times> regs \<Rightarrow> regs option" where
  "vm_run nan aes p prog loop c =
     (if fst c \<ge> ProgSize p then Some (snd c)
      else if fst c \<ge> length prog \<or> fst c \<ge> length (rg_taken (snd c)) then None
      else vm_run nan aes p prog loop (exec_instr nan aes p prog loop c))"
  by pat_completeness auto

termination
  by (relation "measure (\<lambda>(nan, aes, p, prog, loop, c). fuel_left p c)") (auto intro!: fuel_decreases)

declare vm_run.simps [simp del]

section \<open>The hash\<close>

definition ds_read :: "u64 list \<Rightarrow> nat \<Rightarrow> u64 \<times> u64 list \<Rightarrow> nat \<Rightarrow> u64 \<times> u64 list" where
  "ds_read dataset loop ar k =
     (case ar of (addr, r) \<Rightarrow>
        let v = dataset ! mem_addr addr;
            r1 = r[k mod 16 := r ! (k mod 16) XOR v]
        in ((v + r1 ! ((k + 1) mod 16) + word_of_nat loop) AND datasetMask, r1))"

definition ds_walk :: "params \<Rightarrow> u64 list \<Rightarrow> nat \<Rightarrow> u64 list \<Rightarrow> u64 list" where
  "ds_walk p dataset loop r =
     snd (foldl (ds_read dataset loop) ((r ! 1 XOR RotSalt p) AND datasetMask, r) [0..<datasetReadsPerLoop])"

definition fold_registers :: "nat \<Rightarrow> regs \<Rightarrow> regs" where
  "fold_registers loop st =
     (let r = rg_r st;
          base = mem_addr ((r ! 0 XOR word_of_nat loop * 0x9E3779B97F4A7C15) AND scratchMask);
          sc = foldl (\<lambda>sc i. let j = (base + i) mod scratchWords in sc[j := sc ! j XOR r ! i])
                 (rg_scratch st) [0..<16];
          r1 = foldl (\<lambda>r i. r[i + 8 := r ! (i + 8) XOR rg_f st ! i]) r [0..<8]
      in st\<lparr>rg_r := r1, rg_scratch := sc\<rparr>)"

definition vm_loop ::
  "u64 \<Rightarrow> (bytes \<Rightarrow> bytes) \<Rightarrow> params \<Rightarrow> instr list \<Rightarrow> u64 list option \<Rightarrow> nat \<Rightarrow> regs \<Rightarrow> regs option" where
  "vm_loop nan aes p prog ds loop st =
     (case vm_run nan aes p prog loop (0, st\<lparr>rg_taken := replicate (length (rg_taken st)) 0\<rparr>) of
        None \<Rightarrow> None
      | Some st1 \<Rightarrow>
          Some (fold_registers loop
            (case ds of None \<Rightarrow> st1 | Some d \<Rightarrow> st1\<lparr>rg_r := ds_walk p d loop (rg_r st1)\<rparr>)))"

fun vm_loops ::
  "u64 \<Rightarrow> (bytes \<Rightarrow> bytes) \<Rightarrow> params \<Rightarrow> instr list \<Rightarrow> u64 list option \<Rightarrow> nat list \<Rightarrow> regs \<Rightarrow> regs option" where
  "vm_loops nan aes p prog ds [] st = Some st"
| "vm_loops nan aes p prog ds (loop # ls) st =
     (case vm_loop nan aes p prog ds loop st of None \<Rightarrow> None | Some st1 \<Rightarrow> vm_loops nan aes p prog ds ls st1)"

definition init_regs :: "params \<Rightarrow> bytes \<Rightarrow> u64 list \<Rightarrow> nat list \<Rightarrow> regs" where
  "init_regs p seed scratch taken =
     \<lparr>rg_r = map (\<lambda>i. read_le64 (drop (8 * i) seed)) [0..<4] @ map (\<lambda>i. scratch ! i XOR RotSalt p) [4..<16],
      rg_f = map (\<lambda>i. normFloat (scratch ! (16 + i))) [0..<8], rg_scratch = scratch, rg_taken = taken\<rparr>"

definition xor_fold :: "u64 list \<Rightarrow> u64 list" where
  "xor_fold scratch =
     map (\<lambda>j. foldl (\<lambda>a i. a XOR scratch ! (8 * i + j)) 0 [0..<scratchWords div 8]) [0..<8]"

definition final_digest :: "crypto \<Rightarrow> bytes \<Rightarrow> regs \<Rightarrow> bytes" where
  "final_digest cr seed st =
     sha256 cr (str_bytes ''NMv1'' @ seed @ concat (map (le_bytes 8) (rg_r st))
       @ concat (map (le_bytes 8) (rg_f st)) @ concat (map (le_bytes 8) (xor_fold (rg_scratch st))))"

text \<open>The machine's dataset, fetched from the shared cache when the block needs it first.\<close>

definition need_dataset ::
  "(bytes \<Rightarrow> bytes \<Rightarrow> bytes) \<Rightarrow> bool \<Rightarrow> VM \<Rightarrow> ds_cache \<Rightarrow> VM \<times> ds_cache" where
  "need_dataset enc useDS vm cache =
     (if useDS \<and> vm_dataset vm = None
      then (case getDataset enc (DatasetKey (vm_params vm)) cache of (d, ca) \<Rightarrow> (vm\<lparr>vm_dataset := Some d\<rparr>, ca))
      else (vm, cache))"

definition VM_Hash ::
  "crypto \<Rightarrow> (bytes \<Rightarrow> bytes \<Rightarrow> bytes) \<Rightarrow> u64 \<Rightarrow> VM \<Rightarrow> bytes \<Rightarrow> u64 \<Rightarrow> ds_cache
    \<Rightarrow> (bytes \<times> VM \<times> ds_cache) option" where
  "VM_Hash cr enc nan vm header height cache =
     (let p = vm_params vm;
          seed = sha256 cr (str_bytes ''nm-seed|'' @ header);
          useDS = (height \<ge> DatasetHeight);
          (vm1, cache1) = need_dataset enc useDS vm cache;
          sc = fillScratch enc cr seed (vm_scratch vm1);
          prog = genProgram enc cr p seed (vm_prog vm1)
      in case vm_loops nan (enc (AesKey p)) p prog (if useDS then vm_dataset vm1 else None) [0..<Loops p]
                (init_regs p seed sc (vm_taken vm1)) of
           None \<Rightarrow> None
         | Some st \<Rightarrow> Some (final_digest cr seed st,
             vm1\<lparr>vm_scratch := rg_scratch st, vm_prog := prog, vm_taken := rg_taken st\<rparr>, cache1))"

end
