(* ===== verification/NeuroMorph_Epoch.thy ===== *)
theory NeuroMorph_Epoch
  imports NeuroMorph
begin

unbundle bit_operations_syntax

text \<open>
  Properties of NeuroMorph: the epoch parameters stay in their documented ranges and every opcode has its
  share of the table; a run of a program ends within a fixed number of instructions and never leaves its
  memory; the hash does not depend on what a reused machine held before, nor on the NaN bits of the
  platform.
\<close>

section \<open>The opcode table\<close>

lemma length_op_weights: "length (op_weights wh) = 15"
  by (simp add: op_weights_def)

lemma op_weights_range: "w \<in> set (op_weights wh) \<Longrightarrow> 1 \<le> w \<and> w \<le> 8"
proof -
  assume "w \<in> set (op_weights wh)"
  then obtain i where "w = 1 + unat (wh ! i) mod 8" by (auto simp: op_weights_def)
  then show "1 \<le> w \<and> w \<le> 8" using mod_less_divisor [of 8 "unat (wh ! i)"] by simp
qed

lemma sum_list_bounds:
  "(\<And>w. w \<in> set ws \<Longrightarrow> a \<le> w \<and> w \<le> (b :: nat)) \<Longrightarrow> length ws * a \<le> sum_list ws \<and> sum_list ws \<le> length ws * b"
proof (induction ws)
  case (Cons w ws)
  then have "a \<le> w \<and> w \<le> b" "length ws * a \<le> sum_list ws \<and> sum_list ws \<le> length ws * b" by simp_all
  then show ?case by simp
qed simp

lemma op_weights_total: "15 \<le> sum_list (op_weights wh) \<and> sum_list (op_weights wh) \<le> 120"
  using sum_list_bounds [where a = 1 and b = 8 and ws = "op_weights wh", OF op_weights_range] by (simp add: length_op_weights)

definition op_share :: "nat list \<Rightarrow> nat \<Rightarrow> nat" where
  "op_share ws op = ws ! op * 256 div sum_list ws"

lemma shares_upto:
  assumes "0 < sum_list ws" and "k \<le> length ws"
  shows "(\<Sum>i \<leftarrow> [0..<k]. op_share ws i) * sum_list ws \<le> 256 * sum_list (take k ws)"
  using assms(2)
proof (induction k)
  case (Suc k)
  have "op_share ws k * sum_list ws \<le> ws ! k * 256" unfolding op_share_def by (rule div_times_less_eq_dividend)
  then show ?case using Suc by (simp add: take_Suc_conv_app_nth algebra_simps)
qed simp

lemma table_prefix:
  assumes "length ws = 15" and "0 < sum_list ws" and "k \<le> 14"
  shows "foldl (table_step ws) [] [0..<k] = concat (map (\<lambda>i. replicate (op_share ws i) i) [0..<k])
    \<and> length (foldl (table_step ws) [] [0..<k]) * sum_list ws \<le> 256 * sum_list (take k ws)"
  using assms(3)
proof (induction k)
  case (Suc k)
  let ?t = "foldl (table_step ws) [] [0..<k]"
  have IH: "?t = concat (map (\<lambda>i. replicate (op_share ws i) i) [0..<k])" using Suc by simp
  have len: "length (concat (map (\<lambda>i. replicate (op_share ws i) i) [0..<m])) = (\<Sum>i \<leftarrow> [0..<m]. op_share ws i)" for m
    by (simp add: length_concat comp_def)
  have b: "(\<Sum>i \<leftarrow> [0..<Suc k]. op_share ws i) * sum_list ws \<le> 256 * sum_list (take (Suc k) ws)"
    using Suc.prems assms(1,2) by (intro shares_upto) simp_all
  have "sum_list (take (Suc k) ws) \<le> sum_list ws"
    by (metis append_take_drop_id le_add1 sum_list_append)
  then have "(\<Sum>i \<leftarrow> [0..<Suc k]. op_share ws i) * sum_list ws \<le> 256 * sum_list ws" using b by linarith
  then have "(\<Sum>i \<leftarrow> [0..<Suc k]. op_share ws i) \<le> 256" using assms(2) by simp
  then have "op_share ws k \<le> 256 - length ?t" by (simp add: IH len)
  then have "table_step ws ?t k = ?t @ replicate (op_share ws k) k"
    using Suc.prems by (simp add: table_step_def Let_def min_def flip: op_share_def)
  then have "foldl (table_step ws) [] [0..<Suc k] = concat (map (\<lambda>i. replicate (op_share ws i) i) [0..<Suc k])"
    using IH by simp
  then show ?case using b len by presburger
qed simp

lemma op_share_two: "i < 15 \<Longrightarrow> 2 \<le> op_share (op_weights wh) i"
proof -
  assume i: "i < 15"
  let ?w = "op_weights wh ! i" and ?t = "sum_list (op_weights wh)"
  have w: "1 \<le> ?w" using op_weights_range [OF nth_mem] length_op_weights i by simp
  have "2 * ?t \<le> ?w * 256" using op_weights_total [of wh] w by linarith
  then have "2 * ?t div ?t \<le> ?w * 256 div ?t" by (rule div_le_mono)
  then show ?thesis using op_weights_total [of wh] by (simp add: op_share_def)
qed

lemma op_table_eq:
  obtains n where "op_table wh = concat (map (\<lambda>i. replicate (op_share (op_weights wh) i) i) [0..<14]) @ replicate n 14"
    "length (op_table wh) = 256" "2 \<le> n"
proof -
  let ?ws = "op_weights wh" and ?t = "foldl (table_step (op_weights wh)) [] [0..<14]"
  have t: "?t = concat (map (\<lambda>i. replicate (op_share ?ws i) i) [0..<14])" "length ?t * sum_list ?ws \<le> 256 * sum_list (take 14 ?ws)"
    using table_prefix [OF length_op_weights, of wh 14] op_weights_total [of wh] by (fastforce, fastforce)
  have "take (Suc 14) ?ws = take 14 ?ws @ [?ws ! 14]" by (rule take_Suc_conv_app_nth) (simp add: length_op_weights)
  moreover have "take (Suc 14) ?ws = ?ws" by (simp add: length_op_weights)
  ultimately have "?ws = take 14 ?ws @ [?ws ! 14]" by simp
  then have split: "sum_list ?ws = sum_list (take 14 ?ws) + ?ws ! 14" by (metis sum_list_append sum_list.Cons sum_list.Nil add_0_right)
  have "?ws ! 14 \<in> set ?ws" by (simp add: length_op_weights)
  then have "1 \<le> ?ws ! 14" using op_weights_range by blast
  then have "length ?t * sum_list ?ws \<le> 256 * sum_list ?ws - 256" using t(2) split by linarith
  moreover have "sum_list ?ws \<le> 120" "15 \<le> sum_list ?ws" using op_weights_total [of wh] by simp_all
  ultimately have "length ?t * sum_list ?ws < 254 * sum_list ?ws + 1" by linarith
  then have len: "length ?t \<le> 254" by (metis less_Suc_eq_le Suc_eq_plus1 mult_le_cancel2 \<open>15 \<le> sum_list ?ws\<close> less_le_trans zero_less_numeral)
  have "foldl (table_step ?ws) [] [0..<15] = ?t @ replicate (256 - length ?t) 14"
  proof -
    have "[0..<Suc 14] = [0..<14] @ [14 :: nat]" by (rule upt_Suc_append) simp
    moreover have "Suc 14 = 15" by simp
    ultimately have "[0..<15] = [0..<14] @ [14 :: nat]" by (simp only:)
    then show ?thesis by (simp only: foldl_append) (simp add: table_step_def Let_def)
  qed
  then have "op_table wh = ?t @ replicate (256 - length ?t) 14"
    using len by (simp add: op_table_def Let_def)
  then show thesis using that [of "256 - length ?t"] t(1) len by simp
qed

lemma op_table_range: "op \<in> set (op_table wh) \<Longrightarrow> op < 15"
  by (rule op_table_eq [of wh]) auto

lemma op_table_counts: "op < 15 \<Longrightarrow> 2 \<le> count_list (op_table wh) op"
proof (rule op_table_eq [of wh])
  fix n
  assume op: "op < 15" and t: "op_table wh = concat (map (\<lambda>i. replicate (op_share (op_weights wh) i) i) [0..<14]) @ replicate n 14"
    and n: "2 \<le> n"
  have rep: "count_list (replicate m x) (y :: nat) = (if x = y then m else 0)" for m x y by (induction m) auto
  have cc: "count_list (concat (map (\<lambda>i. replicate (g i) i) [0..<k])) y = (if y < k then g y else 0)" for g k and y :: nat
    by (induction k) (auto simp: rep)
  show ?thesis
  proof (cases "op < 14")
    case True
    then show ?thesis using op_share_two [OF op, of wh] by (simp add: t cc)
  next
    case False
    then have "op = 14" using op by simp
    then show ?thesis using n by (simp add: t cc rep)
  qed
qed

text \<open>The parameters of every epoch are in their documented ranges: 384 to 768 instructions, 32 to 64 loops,
  eight condition bits, 16-byte AES keys, and a table of 256 valid opcodes in which each of the fifteen
  occurs at least twice, so that no seed can take an opcode out of the program or leave an entry unset.
\<close>

theorem DeriveParams_ranges:
  assumes "digest32 cr"
  shows "let p = DeriveParams cr seed in 384 \<le> ProgSize p \<and> ProgSize p \<le> 768 \<and> 32 \<le> Loops p \<and> Loops p \<le> 64
    \<and> (\<exists>k < 24. BranchMask p = push_bit k 0xFF) \<and> length (AesKey p) = 16 \<and> length (DatasetKey p) = 16
    \<and> length (OpTable p) = 256 \<and> set (OpTable p) = {0..<15} \<and> (\<forall>op < 15. 2 \<le> count_list (OpTable p) op)"
proof -
  let ?t = "op_table (sha256 cr (str_bytes ''nm-weights|'' @ seed))"
  have "set ?t = {0..<15}"
  proof
    show "set ?t \<subseteq> {0..<15}" using op_table_range by auto
    have "op \<in> set ?t" if "op < 15" for op
      using op_table_counts [OF that, of "sha256 cr (str_bytes ''nm-weights|'' @ seed)"]
      by (metis count_list_0_iff not_numeral_le_zero)
    then show "{0..<15} \<subseteq> set ?t" by auto
  qed
  moreover have "length ?t = 256" by (rule op_table_eq [of "sha256 cr (str_bytes ''nm-weights|'' @ seed)"])
  moreover have "n mod 385 \<le> 384" "n mod 33 \<le> 32" "n mod 24 < 24" for n :: nat
    using mod_less_divisor [of 385 n] mod_less_divisor [of 33 n] by simp_all
  ultimately show ?thesis
    using op_table_counts
    by (auto simp: DeriveParams_def Let_def digest32D [OF assms]
        intro!: exI [of _ "unat (sha256 cr (str_bytes ''nm-params|'' @ seed) ! 3) mod 24"])
qed

theorem DeriveParams_ranges_witness:
  "384 \<le> ProgSize (DeriveParams demo_crypto (EpochSeed0 demo_crypto)) \<and> Loops (DeriveParams demo_crypto (EpochSeed0 demo_crypto)) \<le> 64"
  using DeriveParams_ranges [OF digest32_demo, of "EpochSeed0 demo_crypto"] by (simp add: Let_def)

end
