(* ===== verification/NeuroMorph_Machine.thy ===== *)
theory NeuroMorph_Machine
  imports NeuroMorph_Epoch
begin

unbundle bit_operations_syntax

text \<open>
  The register machine and the hash: bounded runs, memory accesses inside the buffers, registers that are
  never NaN or zero, independence from the platform's NaN, and reuse of a machine's buffers.
\<close>

section \<open>Bounded runs\<close>

text \<open>The number of instructions a run executes.\<close>

function vm_steps ::
  "u64 \<Rightarrow> (bytes \<Rightarrow> bytes) \<Rightarrow> params \<Rightarrow> instr list \<Rightarrow> nat \<Rightarrow> nat \<times> regs \<Rightarrow> nat" where
  "vm_steps nan aes p prog loop c =
     (if fst c \<ge> ProgSize p \<or> fst c \<ge> length prog \<or> fst c \<ge> length (rg_taken (snd c)) then 0
      else Suc (vm_steps nan aes p prog loop (exec_instr nan aes p prog loop c)))"
  by pat_completeness auto

termination
  by (relation "measure (\<lambda>(nan, aes, p, prog, loop, c). fuel_left p c)") (auto intro!: fuel_decreases)

declare vm_steps.simps [simp del]

lemma vm_steps_fuel: "vm_steps nan aes p prog loop c \<le> fuel_left p c"
proof (induction nan aes p prog loop c rule: vm_steps.induct)
  case (1 nan aes p prog loop c)
  show ?case
  proof (cases "fst c \<ge> ProgSize p \<or> fst c \<ge> length prog \<or> fst c \<ge> length (rg_taken (snd c))")
    case False
    then have "fuel_left p (exec_instr nan aes p prog loop c) < fuel_left p c" by (intro fuel_decreases) simp_all
    then show ?thesis using 1 False by (subst vm_steps.simps) simp
  qed (subst vm_steps.simps, simp)
qed

text \<open>(C30)
  Random programs halt: whatever the program, the registers and the memory, one loop of the machine
  executes at most 257 instructions for each instruction of the program, the branches included. With at
  most 768 instructions and 64 loops a hash is bounded.
\<close>

theorem program_run_bounded:
  "vm_steps nan aes p prog loop (0, st\<lparr>rg_taken := replicate (ProgSize p) 0\<rparr>) \<le> 257 * ProgSize p"
proof -
  have "(\<Sum>t \<leftarrow> replicate n (0 :: nat). 8 - t) = 8 * n" for n by (induction n) simp_all
  then show ?thesis
    using vm_steps_fuel [of nan aes p prog loop "(0, st\<lparr>rg_taken := replicate (ProgSize p) 0\<rparr>)"]
    by (simp add: fuel_left_def)
qed

section \<open>Memory accesses\<close>

lemma unat_drop3: "mem_addr a = unat a div 8"
  by (simp add: drop_bit_eq_div unat_div)

lemma and_mask_le: "unat (a AND m) \<le> unat (m :: u64)"
  using word_and_le1 [of a m] by (simp add: word_le_nat_alt)

text \<open>No access leaves its buffer: an address of a load or store, the two words of an AES round, and an
  address of the dataset walk are inside the scratchpad and the dataset for every register content.
\<close>

theorem memory_in_bounds:
  "mem_addr (a AND scratchMask) < scratchWords \<and> mem_addr (a AND scratchMask AND NOT 15) + 1 < scratchWords
    \<and> mem_addr (a AND datasetMask) < datasetWords"
proof -
  have m: "unat scratchMask = 2097144" "unat datasetMask = 67108856" by (simp_all add: scratchMask_def datasetMask_def)
  have e: "a AND scratchMask AND NOT 15 = (a AND NOT 15) AND scratchMask"
    by (simp only: and.assoc and.commute [of scratchMask])
  have s: "unat (a AND scratchMask) \<le> 2097144" "unat (a AND scratchMask AND NOT 15) \<le> 2097144"
    using and_mask_le [of a scratchMask] and_mask_le [of "a AND NOT 15" scratchMask] unfolding m e by auto
  have d: "unat (a AND datasetMask) \<le> 67108856"
    using and_mask_le [of a datasetMask] unfolding m .
  have "take_bit 4 (a AND scratchMask AND NOT 15) = 0"
  proof -
    have "(15 :: u64) = mask 4" by (simp add: mask_eq_exp_minus_1)
    then show ?thesis by (simp add: bit_eq_iff bit_simps)
  qed
  then have "unat (take_bit 4 (a AND scratchMask AND NOT 15)) = 0" by simp
  then have "take_bit 4 (unat (a AND scratchMask AND NOT 15)) = 0" by (simp only: unsigned_take_bit_eq)
  then have "unat (a AND scratchMask AND NOT 15) mod 16 = 0" by (simp add: take_bit_eq_mod)
  then show ?thesis using s d unfolding unat_drop3 scratchWords_def datasetWords_def by presburger
qed

section \<open>Registers\<close>

definition f_num :: "u64 \<Rightarrow> bool" where
  "f_num v \<longleftrightarrow> \<not> f64_is_nan v \<and> \<not> f64_is_zero v"

definition regs_ok :: "params \<Rightarrow> regs \<Rightarrow> bool" where
  "regs_ok p st \<longleftrightarrow> length (rg_r st) = 16 \<and> length (rg_f st) = 8 \<and> list_all f_num (rg_f st)
     \<and> length (rg_scratch st) = scratchWords \<and> length (rg_taken st) = ProgSize p"

lemma normFloat_plus: "normFloat x = 0x3FF0000000000000 + take_bit 52 x"
proof -
  have "x AND 0x000FFFFFFFFFFFFF = take_bit 52 x" by (simp add: take_bit_eq_mask mask_eq_exp_minus_1)
  then have n: "normFloat x = push_bit 52 1023 OR take_bit 52 x" by (simp add: normFloat_def)
  have "push_bit 52 m + take_bit 52 x = push_bit 52 m OR take_bit 52 x" for m :: u64
    by (intro disjunctive_add_eq_or bit_eqI) (simp add: bit_simps)
  from this [of 1023] have "push_bit 52 1023 + take_bit 52 x = (push_bit 52 1023 :: u64) OR take_bit 52 x" .
  moreover have "push_bit 52 1023 = (0x3FF0000000000000 :: u64)" by simp
  ultimately show ?thesis using n by metis
qed

lemma unat_normFloat: "unat (normFloat x) = 0x3FF0000000000000 + unat x mod 2 ^ 52"
proof -
  have t: "unat (take_bit 52 x) = unat x mod 2 ^ 52" by (simp only: unsigned_take_bit_eq) (simp add: take_bit_eq_mod)
  have "unat (0x3FF0000000000000 :: u64) + unat (take_bit 52 x) < 2 ^ 64"
    unfolding t using mod_less_divisor [of "2 ^ 52" "unat x"] by simp
  then show ?thesis unfolding normFloat_plus t [symmetric] by (subst unat_plus_simple [THEN iffD1]) (simp_all add: no_olen_add_nat)
qed

lemma normFloat_num:
  "\<not> f64_is_nan (normFloat x)" "\<not> f64_is_inf (normFloat x)" "\<not> f64_is_zero (normFloat x)" "1 \<le> f64_mag (normFloat x)" "f_num (normFloat x)"
proof -
  have u: "unat (normFloat x) < 0x4000000000000000" "0x3FF0000000000000 \<le> unat (normFloat x)"
    using mod_less_divisor [of "2 ^ 52" "unat x"] by (simp_all add: unat_normFloat)
  have le: "normFloat x \<le> f64_inf" using u(1) by (simp add: f64_inf_def word_le_nat_alt)
  note a = f64_abs_small [OF le]
  have "normFloat x < f64_inf" using u(1) by (simp add: f64_inf_def word_less_nat_alt)
  then show n: "\<not> f64_is_nan (normFloat x)" "\<not> f64_is_inf (normFloat x)"
    by (auto simp: f64_is_nan_def f64_is_inf_def a)
  show z: "\<not> f64_is_zero (normFloat x)" using u(2) by (auto simp: f64_is_zero_def a)
  then show "f_num (normFloat x)" using n by (simp add: f_num_def)
  have "unat (normFloat x) div 2 ^ 52 = 1023" "unat (normFloat x) mod 2 ^ 52 = unat x mod 2 ^ 52"
  proof -
    have "(1023 * k + m) div k = 1023 \<and> (1023 * k + m) mod k = m" if "m < k" for k m :: nat
      using that by simp
    from this [of "unat x mod 2 ^ 52" "2 ^ 52"]
    show "unat (normFloat x) div 2 ^ 52 = 1023" "unat (normFloat x) mod 2 ^ 52 = unat x mod 2 ^ 52"
      by (simp_all add: unat_normFloat)
  qed
  then have "f64_mag (normFloat x) = of_nat (2 ^ 52 + unat x mod 2 ^ 52) * 2 powi (- 52)"
    by (simp add: f64_mag_def a Let_def)
  moreover have "(of_nat (2 ^ 52) :: rat) * 2 powi (- 52) \<le> of_nat (2 ^ 52 + unat x mod 2 ^ 52) * 2 powi (- 52)"
    by (intro mult_right_mono of_nat_mono) simp_all
  moreover have "(of_nat (2 ^ 52) :: rat) * 2 powi (- 52) = 1" by (simp add: power_int_minus)
  ultimately show "1 \<le> f64_mag (normFloat x)" by simp
qed

lemma f_num_mul: "f_num a \<Longrightarrow> f_num (f64_mul n a (normFloat x)) \<and> f64_mul n a (normFloat x) = f64_mul n' a (normFloat x)"
  using f64_mul_stays(1,2) [of a "normFloat x" n] f64_mul_stays(3) [of a "normFloat x" n n'] normFloat_num [of x]
  by (simp add: f_num_def)

lemma list_all_update: "list_all P xs \<Longrightarrow> P v \<Longrightarrow> list_all P (xs[i := v])"
  by (auto simp: list_all_iff dest!: set_update_subset_insert [THEN subsetD])

text \<open>The repaired result of a floating-point operation: the same on every platform and a number.\<close>

lemma repair_set:
  assumes "regs_ok p st" and "opFADD \<le> ins_op ins \<and> ins_op ins \<le> opFSQRT"
    and "x = x' \<or> f64_is_nan x \<and> f64_is_nan x'"
  shows "repair_float ins (st\<lparr>rg_f := (rg_f st)[unat (ins_dst ins) mod 16 mod 8 := x]\<rparr>)
      = repair_float ins (st\<lparr>rg_f := (rg_f st)[unat (ins_dst ins) mod 16 mod 8 := x']\<rparr>)"
    "regs_ok p (repair_float ins (st\<lparr>rg_f := (rg_f st)[unat (ins_dst ins) mod 16 mod 8 := x]\<rparr>))"
proof -
  have l: "length (rg_f st) = 8" "list_all f_num (rg_f st)" using assms(1) by (simp_all add: regs_ok_def)
  have d: "unat (ins_dst ins) mod 16 mod 8 < 8" by simp
  show "repair_float ins (st\<lparr>rg_f := (rg_f st)[unat (ins_dst ins) mod 16 mod 8 := x]\<rparr>)
      = repair_float ins (st\<lparr>rg_f := (rg_f st)[unat (ins_dst ins) mod 16 mod 8 := x']\<rparr>)"
    using assms(2,3) l d by (auto simp: repair_float_def Let_def)
  show "regs_ok p (repair_float ins (st\<lparr>rg_f := (rg_f st)[unat (ins_dst ins) mod 16 mod 8 := x]\<rparr>))"
  proof -
    have "list_all f_num ((rg_f st)[i := normFloat y])" for i y by (rule list_all_update [OF l(2) normFloat_num(5)])
    moreover have "list_all f_num ((rg_f st)[i := x])" if "\<not> f64_is_nan x" "\<not> f64_is_zero x" for i
      by (rule list_all_update [OF l(2)]) (simp add: f_num_def that)
    ultimately show ?thesis using assms(1,2) l(1) by (simp add: repair_float_def Let_def regs_ok_def)
  qed
qed

lemma exec_lengths:
  "length (rg_r (exec_op n aes p loop ins st)) = length (rg_r st)"
  "length (rg_f (exec_op n aes p loop ins st)) = length (rg_f st)"
  "length (rg_scratch (exec_op n aes p loop ins st)) = length (rg_scratch st)"
  by (simp_all add: exec_op_def Let_def)

lemma exec_no_float:
  assumes "ins_op ins \<notin> {opFADD, opFMUL, opFDIV, opFSQRT, opXDOM}"
  shows "exec_op n aes p loop ins st = exec_op n' aes p loop ins st" "rg_f (exec_op n aes p loop ins st) = rg_f st"
  using assms by (simp_all add: exec_op_def Let_def)

lemma exec_ok:
  assumes "regs_ok p st" and "f64_is_nan n" and "f64_is_nan n'"
  shows "repair_float ins (exec_op n aes p loop ins st) = repair_float ins (exec_op n' aes p loop ins st)
    \<and> regs_ok p (repair_float ins (exec_op n aes p loop ins st))"
proof -
  let ?d = "unat (ins_dst ins) mod 16" and ?s = "unat (ins_src ins) mod 16"
  let ?f = "rg_f st"
  have l: "length ?f = 8" "list_all f_num ?f" using assms(1) by (simp_all add: regs_ok_def)
  have nan: "x = x' \<or> f64_is_nan x \<and> f64_is_nan x'" if "x = x' \<or> x = n \<and> x' = n'" for x x' using that assms(2,3) by auto
  consider "ins_op ins = opFADD" | "ins_op ins = opFMUL" | "ins_op ins = opFDIV" | "ins_op ins = opFSQRT"
    | "ins_op ins = opXDOM" | "ins_op ins \<notin> {opFADD, opFMUL, opFDIV, opFSQRT, opXDOM}" by blast
  then show ?thesis
  proof cases
    case 1
    then show ?thesis
      using repair_set [OF assms(1) _ nan [OF f64_nan_result(1)], of ins "?f ! (?d mod 8)" "?f ! (?s mod 8)"]
      by (simp add: exec_op_def Let_def)
  next
    case 2
    then show ?thesis
      using repair_set [OF assms(1) _ nan [OF f64_nan_result(2)], of ins "?f ! (?d mod 8)" "?f ! (?s mod 8)"]
      by (simp add: exec_op_def Let_def)
  next
    case 3
    then show ?thesis
      using repair_set [OF assms(1) _ nan [OF f64_nan_result(3)], of ins "?f ! (?d mod 8)" "normFloat (?f ! (?s mod 8))"]
      by (simp add: exec_op_def Let_def)
  next
    case 4
    then show ?thesis
      using repair_set [OF assms(1) _ nan [OF f64_nan_result(4)], of ins "f64_abs (?f ! (?d mod 8))"]
      by (simp add: exec_op_def Let_def)
  next
    case 5
    have "f_num (?f ! (?d mod 8))" using l by (simp add: list_all_length)
    then show ?thesis
      using 5 assms(1) f_num_mul [of "?f ! (?d mod 8)" n "rg_r st ! ?s" n']
        f_num_mul [THEN conjunct1, of "?f ! (?d mod 8)" n' "rg_r st ! ?s"]
      by (simp add: exec_op_def Let_def repair_float_def regs_ok_def list_all_update)
  next
    case 6
    have "ins_op ins \<noteq> 6" "ins_op ins \<noteq> 7" "ins_op ins \<noteq> 8" "ins_op ins \<noteq> 9" using 6 by simp_all
    then have "\<not> (6 \<le> ins_op ins \<and> ins_op ins \<le> 9)" by arith
    then have "repair_float ins s = s" for s by (auto simp: repair_float_def Let_def)
    then show ?thesis
      using assms(1) exec_no_float(1) [OF 6, of n aes p loop st n'] exec_no_float(2) [OF 6, of n aes p loop st]
      by (simp only: regs_ok_def exec_lengths taken_exec simp_thms)
  qed
qed

lemma exec_instr_ok:
  assumes "regs_ok p (snd c)" and "f64_is_nan n" and "f64_is_nan n'"
  shows "exec_instr n aes p prog loop c = exec_instr n' aes p prog loop c \<and> regs_ok p (snd (exec_instr n aes p prog loop c))"
proof (cases "takes_branch p (prog ! fst c) (fst c) (snd c)")
  case True
  then show ?thesis using assms(1) by (cases c) (simp add: exec_instr_def Let_def regs_ok_def)
next
  case False
  then show ?thesis using exec_ok [OF assms, of "prog ! fst c" aes loop]
      exec_ok [THEN conjunct2, OF assms(1,3,2), of "prog ! fst c" aes loop] by (cases c) (simp add: exec_instr_def Let_def)
qed

lemma vm_run_ok:
  assumes "f64_is_nan n" and "f64_is_nan n'" and "length prog = ProgSize p"
  shows "regs_ok p (snd c) \<Longrightarrow> \<exists>st. vm_run n aes p prog loop c = Some st \<and> vm_run n' aes p prog loop c = Some st \<and> regs_ok p st"
proof (induction "fuel_left p c" arbitrary: c rule: less_induct)
  case less
  have t: "length (rg_taken (snd c)) = ProgSize p" using less.prems by (simp add: regs_ok_def)
  show ?case
  proof (cases "fst c \<ge> ProgSize p")
    case True
    then show ?thesis using less.prems by (simp add: vm_run.simps [of _ aes p prog loop c])
  next
    case False
    have e: "exec_instr n aes p prog loop c = exec_instr n' aes p prog loop c" "regs_ok p (snd (exec_instr n aes p prog loop c))"
      using exec_instr_ok [OF less.prems assms(1,2)] by blast+
    have "fuel_left p (exec_instr n aes p prog loop c) < fuel_left p c" using False t by (intro fuel_decreases) simp_all
    from less.hyps [OF this e(2)] show ?thesis
      using False t assms(3) e(1) by (simp add: vm_run.simps [of _ aes p prog loop c])
  qed
qed

section \<open>Loops\<close>

lemma ds_read_length [simp]: "length (snd (ds_read ds loop ar k)) = length (snd ar)"
  by (cases ar) (simp add: ds_read_def Let_def)

lemma ds_walk_length [simp]: "length (ds_walk p ds loop r) = length r"
proof -
  have "length (snd (foldl (ds_read ds loop) ar ks)) = length (snd ar)" for ar ks
    by (induction ks arbitrary: ar) simp_all
  then show ?thesis by (simp add: ds_walk_def)
qed

lemma foldl_update_length: "length (foldl (\<lambda>xs i. xs[f xs i := g xs i]) ys is) = length ys"
  by (induction "is" arbitrary: ys) simp_all

lemma fold_registers_ok: "regs_ok p st \<Longrightarrow> regs_ok p (fold_registers loop st)"
  by (simp add: fold_registers_def Let_def regs_ok_def foldl_update_length)

definition same_core :: "regs \<Rightarrow> regs \<Rightarrow> bool" where
  "same_core st st' \<longleftrightarrow> st\<lparr>rg_taken := []\<rparr> = st'\<lparr>rg_taken := []\<rparr> \<and> length (rg_taken st) = length (rg_taken st')"

lemma vm_loop_reset: "same_core st st' \<Longrightarrow> vm_loop nan aes p prog ds loop st = vm_loop nan aes p prog ds loop st'"
proof -
  assume a: "same_core st st'"
  then have "(st\<lparr>rg_taken := []\<rparr>)\<lparr>rg_taken := t\<rparr> = (st'\<lparr>rg_taken := []\<rparr>)\<lparr>rg_taken := t\<rparr>" for t
    by (simp only: same_core_def)
  then show ?thesis using a by (simp add: vm_loop_def same_core_def)
qed

lemma vm_loop_ok:
  assumes "f64_is_nan n" and "f64_is_nan n'" and "length prog = ProgSize p" and "regs_ok p st"
  shows "\<exists>st'. vm_loop n aes p prog ds loop st = Some st' \<and> vm_loop n' aes p prog ds loop st = Some st' \<and> regs_ok p st'"
proof -
  have "regs_ok p (snd (0 :: nat, st\<lparr>rg_taken := replicate (length (rg_taken st)) 0\<rparr>))"
    using assms(4) by (simp add: regs_ok_def)
  from vm_run_ok [OF assms(1-3) this] obtain s where
    "vm_run n aes p prog loop (0, st\<lparr>rg_taken := replicate (length (rg_taken st)) 0\<rparr>) = Some s"
    "vm_run n' aes p prog loop (0, st\<lparr>rg_taken := replicate (length (rg_taken st)) 0\<rparr>) = Some s" "regs_ok p s"
    by blast
  moreover from this(3) have "regs_ok p (case ds of None \<Rightarrow> s | Some d \<Rightarrow> s\<lparr>rg_r := ds_walk p d loop (rg_r s)\<rparr>)"
    by (simp add: regs_ok_def split: option.split)
  ultimately show ?thesis by (simp add: vm_loop_def fold_registers_ok)
qed

lemma vm_loops_ok:
  assumes "f64_is_nan n" and "f64_is_nan n'" and "length prog = ProgSize p"
  shows "regs_ok p st \<Longrightarrow> same_core st st2 \<Longrightarrow> \<exists>s s2. vm_loops n aes p prog ds ls st = Some s
    \<and> vm_loops n' aes p prog ds ls st2 = Some s2 \<and> regs_ok p s \<and> same_core s s2 \<and> (st = st2 \<longrightarrow> s = s2)"
proof (induction ls arbitrary: st st2)
  case (Cons l ls)
  obtain s1 where s1: "vm_loop n aes p prog ds l st = Some s1" "vm_loop n' aes p prog ds l st = Some s1" "regs_ok p s1"
    using vm_loop_ok [OF assms Cons.prems(1)] by blast
  have "same_core s1 s1" by (simp add: same_core_def)
  from Cons.IH [OF s1(3) this] show ?case
    using s1 vm_loop_reset [OF Cons.prems(2), of n' aes p prog ds l] by auto
qed simp

section \<open>Buffers\<close>

lemma update_two: "length c = m \<Longrightarrow> (c @ x # y # rest)[m := a, m + 1 := b] = c @ [a, b] @ rest"
  by (simp add: list_update_append)

lemma foldl_fill:
  "2 * k \<le> length sc \<Longrightarrow> foldl (fill_words block) sc [0..<k]
    = concat (map (\<lambda>i. let out = block (le_bytes 8 (word_of_nat (2 * i) :: u64)) in [read_le64 out, read_le64 (drop 8 out)]) [0..<k])
      @ drop (2 * k) sc"
proof (induction k)
  case (Suc k)
  let ?w = "\<lambda>i. let out = block (le_bytes 8 (word_of_nat (2 * i) :: u64)) in [read_le64 out, read_le64 (drop 8 out)]"
  let ?c = "concat (map ?w [0..<k])"
  have len: "length ?c = 2 * k" by (induction k) (simp_all add: Let_def)
  obtain x y rest where d: "drop (2 * k) sc = x # y # rest"
    using Suc.prems by (metis Cons_nth_drop_Suc Suc_le_lessD add_2_eq_Suc' mult_Suc_right less_SucI lessI add.commute Suc_lessD)
  have "rest = drop (2 * Suc k) sc"
  proof -
    have "drop (2 * Suc k) sc = drop 2 (drop (2 * k) sc)" by (simp add: add.commute)
    then show ?thesis by (simp add: d)
  qed
  then have "fill_words block (?c @ drop (2 * k) sc) k = ?c @ ?w k @ drop (2 * Suc k) sc"
    unfolding d fill_words_def Let_def by (simp only: update_two [OF len [unfolded Let_def]])
  moreover have "2 * k \<le> length sc" using Suc.prems by simp
  ultimately show ?case using Suc.IH by (simp only: upt_Suc_append le0 foldl_append foldl.simps map_append concat_append
      list.map concat.simps append_assoc append_Nil2)
qed simp

lemma foldl_set_all:
  "k \<le> length xs \<Longrightarrow> foldl (\<lambda>xs i. xs[i := g i]) xs [0..<k] = map g [0..<k] @ drop k xs"
proof (induction k)
  case (Suc k)
  then have "drop k xs = xs ! k # drop (Suc k) xs" by (intro Cons_nth_drop_Suc [symmetric]) simp
  then show ?case using Suc by (simp add: list_update_append)
qed simp

definition machine_ok :: "(bytes \<Rightarrow> bytes \<Rightarrow> bytes) \<Rightarrow> VM \<Rightarrow> bool" where
  "machine_ok enc vm \<longleftrightarrow> length (vm_scratch vm) = scratchWords \<and> length (vm_prog vm) = ProgSize (vm_params vm)
     \<and> length (vm_taken vm) = ProgSize (vm_params vm)
     \<and> (vm_dataset vm = None \<or> vm_dataset vm = Some (genDataset enc (DatasetKey (vm_params vm))))"

definition cache_ok :: "(bytes \<Rightarrow> bytes \<Rightarrow> bytes) \<Rightarrow> ds_cache \<Rightarrow> bool" where
  "cache_ok enc cache \<longleftrightarrow> length cache \<le> 4 \<and> distinct (map fst cache) \<and> (\<forall>p \<in> set cache. snd p = genDataset enc (fst p))"

lemma getDataset_ok:
  assumes "cache_ok enc cache"
  shows "fst (getDataset enc key cache) = genDataset enc key \<and> cache_ok enc (snd (getDataset enc key cache))"
proof (cases "map_of cache key")
  case (Some d)
  then have "(key, d) \<in> set cache" by (rule map_of_SomeD)
  then show ?thesis using assms Some by (auto simp: getDataset_def cache_ok_def)
next
  case None
  define c1 where "c1 = (if length cache \<ge> 4 then tl cache else cache)"
  have c1: "length c1 \<le> 3" "distinct (map fst c1)" "set c1 \<subseteq> set cache"
    using assms by (cases cache; auto simp: c1_def cache_ok_def)+
  have "key \<notin> fst ` set c1" using None c1(3) by (auto simp: map_of_eq_None_iff)
  then have "AList.update key d c1 = c1 @ [(key, d)]" for d
    by (induction c1) auto
  then show ?thesis
    using None assms c1 \<open>key \<notin> fst ` set c1\<close> by (auto simp: getDataset_def Let_def cache_ok_def simp flip: c1_def)
qed

lemma init_regs_ok:
  "length sc = scratchWords \<Longrightarrow> length taken = ProgSize p \<Longrightarrow> regs_ok p (init_regs p seed sc taken)"
  by (auto simp: regs_ok_def init_regs_def list_all_iff normFloat_num(5))

lemma final_digest_core: "same_core s s' \<Longrightarrow> final_digest cr seed s = final_digest cr seed s'"
proof -
  assume "same_core s s'"
  then have "rg_r s = rg_r s'" "rg_f s = rg_f s'" "rg_scratch s = rg_scratch s'"
    unfolding same_core_def by (cases s; cases s'; simp)+
  then show ?thesis by (simp add: final_digest_def)
qed

section \<open>The hash\<close>

lemma filled_scratch:
  "length sc = scratchWords \<Longrightarrow> length sc' = scratchWords \<Longrightarrow> fillScratch enc cr seed sc = fillScratch enc cr seed sc'"
  "length sc = scratchWords \<Longrightarrow> length (fillScratch enc cr seed sc) = scratchWords"
proof -
  have two: "2 * (scratchWords div 2) = scratchWords" by (simp add: scratchWords_def)
  show "fillScratch enc cr seed sc = fillScratch enc cr seed sc'" if "length sc = scratchWords" "length sc' = scratchWords"
    using foldl_fill [of "scratchWords div 2" sc] foldl_fill [of "scratchWords div 2" sc'] that
    by (simp add: fillScratch_def Let_def two)
  have "length (foldl (fill_words block) sc is) = length sc" for block "is" and sc :: "u64 list"
    by (induction "is" arbitrary: sc) (simp_all add: fill_words_def Let_def)
  then show "length sc = scratchWords \<Longrightarrow> length (fillScratch enc cr seed sc) = scratchWords"
    by (simp add: fillScratch_def Let_def)
qed

lemma generated_program:
  "length prog = ProgSize p \<Longrightarrow> length prog' = ProgSize p \<Longrightarrow> genProgram enc cr p seed prog = genProgram enc cr p seed prog'"
  "length prog = ProgSize p \<Longrightarrow> length (genProgram enc cr p seed prog) = ProgSize p"
  by (simp_all add: genProgram_def Let_def foldl_set_all)

lemma dataset_step:
  assumes "machine_ok enc vm" and "cache_ok enc cache"
  shows "machine_ok enc (fst (need_dataset enc u vm cache))" "cache_ok enc (snd (need_dataset enc u vm cache))"
    "vm_params (fst (need_dataset enc u vm cache)) = vm_params vm"
    "(if u then vm_dataset (fst (need_dataset enc u vm cache)) else None)
       = (if u then Some (genDataset enc (DatasetKey (vm_params vm))) else None)"
  using assms getDataset_ok [OF assms(2), of "DatasetKey (vm_params vm)"]
  by (auto simp: need_dataset_def machine_ok_def split: prod.split)

text \<open>The core of the hash: the same for every machine and every NaN.\<close>

lemma hash_core:
  assumes "f64_is_nan n" and "f64_is_nan n'" and "machine_ok enc vm" and "cache_ok enc cache"
    and "machine_ok enc vm2" and "cache_ok enc cache2" and "vm_params vm2 = vm_params vm"
  shows "\<exists>d v1 c1 v2 c2. VM_Hash cr enc n vm header height cache = Some (d, v1, c1) \<and> machine_ok enc v1 \<and> cache_ok enc c1
    \<and> VM_Hash cr enc n' vm2 header height cache2 = Some (d, v2, c2) \<and> (vm2 = vm \<and> cache2 = cache \<longrightarrow> v2 = v1 \<and> c2 = c1)"
proof -
  define p where "p = vm_params vm"
  define seed where "seed = sha256 cr (str_bytes ''nm-seed|'' @ header)"
  define u where "u \<longleftrightarrow> height \<ge> DatasetHeight"
  define r where "r = need_dataset enc u"
  define ds where "ds = (if u then Some (genDataset enc (DatasetKey p)) else None)"
  define start where "start = (\<lambda>vm cache. init_regs p seed (fillScratch enc cr seed (vm_scratch (fst (r vm cache)))) (vm_taken (fst (r vm cache))))"
  define prog where "prog = (\<lambda>vm :: VM. genProgram enc cr p seed (vm_prog vm))"
  note d1 = dataset_step [OF assms(3,4), of u, folded r_def] and d2 = dataset_step [OF assms(5,6), of u, folded r_def]
  have q: "vm_params vm = p" "vm_params vm2 = p" by (simp_all add: p_def assms(7))
  have vh: "VM_Hash cr enc m w header height ca =
     (case vm_loops m (enc (AesKey p)) p (prog (fst (r w ca))) (if u then vm_dataset (fst (r w ca)) else None) [0..<Loops p] (start w ca) of
        None \<Rightarrow> None
      | Some st \<Rightarrow> Some (final_digest cr seed st, (fst (r w ca))\<lparr>vm_scratch := rg_scratch st, vm_prog := prog (fst (r w ca)),
          vm_taken := rg_taken st\<rparr>, snd (r w ca)))" if "vm_params w = p" for m w ca
    unfolding VM_Hash_def Let_def that case_prod_beta r_def start_def prog_def seed_def u_def by (simp only:)
  have len: "length (vm_scratch (fst (r vm cache))) = scratchWords" "length (vm_scratch (fst (r vm2 cache2))) = scratchWords"
    "length (vm_prog (fst (r vm cache))) = ProgSize p" "length (vm_prog (fst (r vm2 cache2))) = ProgSize p"
    "length (vm_taken (fst (r vm cache))) = ProgSize p" "length (vm_taken (fst (r vm2 cache2))) = ProgSize p"
    using d1(1,3) d2(1,3) q by (simp_all add: machine_ok_def)
  have pr: "prog (fst (r vm2 cache2)) = prog (fst (r vm cache))" "length (prog (fst (r vm cache))) = ProgSize p"
    unfolding prog_def by (rule generated_program(1) [OF len(4,3)], rule generated_program(2) [OF len(3)])
  have st: "regs_ok p (start vm cache)" "same_core (start vm cache) (start vm2 cache2)"
    unfolding start_def filled_scratch(1) [OF len(2,1)]
    by (rule init_regs_ok [OF filled_scratch(2) [OF len(1)] len(5)]) (simp add: same_core_def init_regs_def len(5,6))
  obtain s s2 where s: "vm_loops n (enc (AesKey p)) p (prog (fst (r vm cache))) ds [0..<Loops p] (start vm cache) = Some s"
    "vm_loops n' (enc (AesKey p)) p (prog (fst (r vm cache))) ds [0..<Loops p] (start vm2 cache2) = Some s2"
    "regs_ok p s" "same_core s s2" "start vm cache = start vm2 cache2 \<longrightarrow> s = s2"
    using vm_loops_ok [OF assms(1,2) pr(2) st] by blast
  let ?out = "\<lambda>w ca s. (fst (r w ca))\<lparr>vm_scratch := rg_scratch s, vm_prog := prog (fst (r w ca)), vm_taken := rg_taken s\<rparr>"
  have A: "VM_Hash cr enc n vm header height cache = Some (final_digest cr seed s, ?out vm cache s, snd (r vm cache))"
    unfolding vh [OF q(1)] d1(4) q(1) ds_def [symmetric] s(1) by simp
  have B: "VM_Hash cr enc n' vm2 header height cache2 = Some (final_digest cr seed s, ?out vm2 cache2 s2, snd (r vm2 cache2))"
    unfolding vh [OF q(2)] d2(4) q(2) ds_def [symmetric] pr(1) s(2) final_digest_core [OF s(4)] by simp
  have C: "machine_ok enc (?out vm cache s)" using d1(1,3) q(1) pr(2) s(3) by (simp add: machine_ok_def regs_ok_def)
  show ?thesis using A B C d1(2) s(5) by blast
qed

lemma machine_ok_new: "machine_ok enc (NewVM p)"
  by (simp add: machine_ok_def NewVM_def)

text \<open>(C23)
  A machine may be reused: hashing never fails an index check, and the digest is that of a fresh machine
  with an empty dataset cache, whatever the reused buffers and the cache of earlier epochs held. The
  machine and the cache stay usable.
\<close>

theorem hash_reuses_machine:
  assumes "f64_is_nan nan" and "machine_ok enc vm" and "cache_ok enc cache"
  shows "\<exists>d vm1 cache1. VM_Hash cr enc nan vm header height cache = Some (d, vm1, cache1) \<and> machine_ok enc vm1 \<and> cache_ok enc cache1
    \<and> map_option fst (VM_Hash cr enc nan (NewVM (vm_params vm)) header height []) = Some d"
proof -
  have "cache_ok enc []" "vm_params (NewVM (vm_params vm)) = vm_params vm" by (simp_all add: cache_ok_def NewVM_def)
  from hash_core [OF assms(1,1,2,3) machine_ok_new this, of cr header height] show ?thesis by auto
qed

text \<open>(C12)
  The hash is a consensus value: it does not depend on the bits a platform gives to a NaN. No register
  ever holds one after an instruction, and none reaches an integer register or the digest.
\<close>

theorem hash_platform_independent:
  assumes "f64_is_nan n" and "f64_is_nan n'" and "machine_ok enc vm" and "cache_ok enc cache"
  shows "VM_Hash cr enc n vm header height cache = VM_Hash cr enc n' vm header height cache"
  using hash_core [OF assms assms(3,4) refl, of cr header height] by auto

text \<open>
  The witnesses use a block cipher that returns the block, a Go NaN and an x86 default NaN, and a machine
  with a new epoch's parameters.
\<close>

definition demo_vm :: VM where
  "demo_vm = NewVM (DeriveParams demo_crypto (EpochSeed0 demo_crypto))"

lemma demo_nans: "f64_is_nan 0x7FF8000000000001" "f64_is_nan 0xFFF8000000000000"
  by (simp_all add: f64_is_nan_def f64_abs_def f64_inf_def)

theorem hash_reuses_machine_witness:
  "VM_Hash demo_crypto (\<lambda>k b. b) 0x7FF8000000000001 demo_vm [1, 2, 3] 240 [] \<noteq> None"
proof -
  have "machine_ok (\<lambda>k b. b) demo_vm" "cache_ok (\<lambda>k b. b) []" by (simp_all add: demo_vm_def machine_ok_new cache_ok_def)
  from hash_reuses_machine [OF demo_nans(1) this, of demo_crypto "[1, 2, 3]" 240] show ?thesis by auto
qed

theorem hash_platform_independent_witness:
  "VM_Hash demo_crypto (\<lambda>k b. b) 0x7FF8000000000001 demo_vm [1, 2, 3] 240 []
    = VM_Hash demo_crypto (\<lambda>k b. b) 0xFFF8000000000000 demo_vm [1, 2, 3] 240 []"
  by (rule hash_platform_independent [OF demo_nans]) (simp_all add: demo_vm_def machine_ok_new cache_ok_def)

end
