(* ===== verification/Core_Adoption.thy ===== *)
theory Core_Adoption
  imports Core_Consensus
begin

text \<open>
  What \<open>TryAdoptChain\<close> decides: within the reorganisation cap it adopts a candidate exactly when the
  fork choice prefers it and each of its blocks is a valid next block; a refused candidate leaves the
  chain as it was and writes nothing.
\<close>

section \<open>Validity of a branch\<close>

fun branch_valid ::
  "crypto \<Rightarrow> pow_fun \<Rightarrow> u64 \<Rightarrow> (u64, string) gomap \<Rightarrow> block list \<Rightarrow> block list \<Rightarrow> bool" where
  "branch_valid cr pow now cps prefix [] \<longleftrightarrow> True"
| "branch_valid cr pow now cps prefix (b # bs) \<longleftrightarrow>
     block_valid cr pow now cps prefix (replay cr prefix) b \<and> branch_valid cr pow now cps (prefix @ [b]) bs"

text \<open>No block or signature the memos know shares its key with one of the branch and differs from it.\<close>

fun branch_seen ::
  "crypto \<Rightarrow> pow_fun \<Rightarrow> (bytes \<times> block) set \<Rightarrow> (tx \<times> u64) set \<Rightarrow> block list \<Rightarrow> block list \<Rightarrow> bool" where
  "branch_seen cr pow U V prefix [] \<longleftrightarrow> True"
| "branch_seen cr pow U V prefix (b # bs) \<longleftrightarrow>
     (let seed = fst (the (epochSeedFor cr prefix (blk_Height b)))
      in seen_ok cr pow U V seed b \<and> branch_seen cr pow (insert (seed, b) U) V (prefix @ [b]) bs)"

lemma block_valid_st_eq:
  assumes "st_eq s u"
  shows "block_valid cr pow now cps prefix s b = block_valid cr pow now cps prefix u b"
  using validateBody_st_eq [OF assms]
  by (simp add: block_valid_def body_valid_def split: list.split)

lemma gates_ok_append: "gates_ok bs c \<Longrightarrow> gates_ok (bs @ cs) c"
  by (simp add: gates_ok_def lwma_gate.cache_ok_append fee_gate.cache_ok_append dr_gate.cache_ok_append)

lemma caches_ok_append: "caches_ok cr pow U V bs c \<Longrightarrow> caches_ok cr pow U V (bs @ cs) c"
  by (simp add: caches_ok_def gates_ok_append)

lemma adopt_loop_iff:
  assumes "length cand + length bs < 2 ^ 64" and "caches_ok cr pow U V cand c" and "branch_seen cr pow U V cand bs"
    and "st_eq st (replay cr cand)"
  shows "(\<exists>x. fst (adopt_loop cr pow now c cand st tot bs) = Inr x) \<longleftrightarrow> branch_valid cr pow now (ch_Checkpoints c) cand bs"
  using assms
proof (induction bs arbitrary: U c cand st tot)
  case (Cons b bs)
  let ?seed = "fst (the (epochSeedFor cr cand (blk_Height b)))"
  have len: "length cand < 2 ^ 64" using Cons.prems(1) by simp
  have seen: "seen_ok cr pow U V ?seed b" "branch_seen cr pow (insert (?seed, b) U) V (cand @ [b]) bs"
    using Cons.prems(3) by (simp_all add: Let_def)
  let ?v = "validateBlock cr pow now c cand st b"
  have d: "fst ?v = None \<longleftrightarrow> block_valid cr pow now (ch_Checkpoints c) cand st b"
      "caches_ok cr pow (insert (?seed, b) U) V cand (snd ?v)"
    using validateBlock_iff [OF len _ _ _ seen(1)] Cons.prems(2) validateBlock_caches [OF len Cons.prems(2) seen(1)]
    by (simp_all add: caches_ok_def)
  have iff: "fst ?v = None \<longleftrightarrow> block_valid cr pow now (ch_Checkpoints c) cand (replay cr cand) b"
    using d block_valid_st_eq [OF Cons.prems(4)] by blast
  have c1: "caches_ok cr pow (insert (?seed, b) U) V (cand @ [b]) (snd ?v)"
    using d caches_ok_append by blast
  have cps: "ch_Checkpoints (snd ?v) = ch_Checkpoints c" by (simp add: core_of_fields [OF core_validateBlock])
  show ?case
  proof (cases "fst ?v")
    case (Some e)
    then obtain c1' where "?v = (Some e, c1')" by (cases ?v) simp
    then show ?thesis using iff by simp
  next
    case None
    then obtain c1' where v: "?v = (None, c1')" by (cases ?v) simp
    have st: "st_eq (applyBlockToState cr st b) (replay cr (cand @ [b]))"
      using st_eq_applyBlock [OF Cons.prems(4), of cr b] by (simp add: ledger_simps)
    have l2: "length (cand @ [b]) + length bs < 2 ^ 64" using Cons.prems(1) by simp
    show ?thesis
      using Cons.IH [OF l2 _ seen(2) st, of c1' "applyBlockToTotals cr tot b"] c1 cps iff None by (simp add: v)
  qed
qed simp

section \<open>The decision\<close>

lemma branch_valid_targets: "branch_valid cr pow now cps prefix bs \<Longrightarrow> b \<in> set bs \<Longrightarrow> target_opt b \<noteq> None"
proof (induction bs arbitrary: prefix)
  case (Cons a bs)
  then show ?case by (auto simp: block_valid_def)
qed simp

lemma add_work_total: "\<forall>b \<in> set bs. target_opt b \<noteq> None \<Longrightarrow> add_work bs w = Inr (w + total_work bs)"
  by (induction bs arbitrary: w) (auto simp: work_or_0_def split: option.splits)

text \<open>The preference of the fork choice over total work, as if both chains were replayed.\<close>

definition preferred :: "crypto \<Rightarrow> chain \<Rightarrow> u64 \<Rightarrow> block list \<Rightarrow> bool" where
  "preferred cr c start nb \<longleftrightarrow>
     (let depth = length (ch_blocks c) - unat start; w = total_work (take (unat start) (ch_blocks c) @ nb)
      in checkpoint_drop c start nb = None \<and> (w > work_threshold c depth \<or> tie_break_win cr c depth w nb))"

lemma fork_choice_iff:
  assumes "chain_inv cr c" and "\<forall>b \<in> set nb. target_opt b \<noteq> None"
  shows "(\<exists>w. fork_choice cr start nb c = Inr w) \<longleftrightarrow> preferred cr c start nb"
proof -
  have t: "\<forall>b \<in> set (drop (unat start) (ch_blocks c)). target_opt b \<noteq> None"
    using valid_chain_targets [OF chain_invD(1) [OF assms(1)]] by (blast dest: in_set_dropD)
  obtain w where w: "cand_work c (unat start) nb = Inr w"
    using add_work_total [OF assms(2)] by (simp add: cand_work_def sub_work_eq [OF t])
  have "w = total_work (take (unat start) (ch_blocks c) @ nb)" by (rule cand_work_total [OF assms(1) w])
  then show ?thesis using w by (auto simp: fork_choice_def preferred_def Let_def not_le split: option.split)
qed

text \<open>The validation loop that \<open>TryAdoptChain\<close> runs, whichever prefix it starts from.\<close>

lemma TryAdopt_within_cap:
  assumes inv: "chain_inv cr c" and start: "start \<noteq> 0" "start \<le> blen (ch_blocks c)" and nb: "nb \<noteq> []"
    and cap: "ch_MaxReorgDepth c = 0 \<or> length (ch_blocks c) - unat start \<le> ch_MaxReorgDepth c"
  obtains st tot where "st_eq st (replay cr (take (unat start) (ch_blocks c)))"
    "fst (TryAdoptChain cr pow now start nb c) = None \<longleftrightarrow>
      (\<exists>w. fork_choice cr start nb c = Inr w)
        \<and> (\<exists>x. fst (adopt_loop cr pow now c (take (unat start) (ch_blocks c)) st tot nb) = Inr x)"
proof -
  have g: "adopt_guards cr start nb c = (fork_choice cr start nb c, c)"
    using start nb cap by (auto simp: adopt_guards_def Let_def not_less not_le)
  show ?thesis
  proof (cases "length (ch_blocks c) - unat start = 0")
    case True
    then have t: "take (unat start) (ch_blocks c) = ch_blocks c" by simp
    show ?thesis
      by (rule that [of "ch_state c" "ch_totals c"])
        (use chain_invD(3) [OF inv] True in \<open>simp_all add: t TryAdoptChain_def g Let_def split: sum.split prod.split\<close>)
  next
    case False
    show ?thesis
      by (rule that [of "replay cr (take (unat start) (ch_blocks c))" "replay_totals cr (take (unat start) (ch_blocks c))"])
        (use False in \<open>simp_all add: TryAdoptChain_def g Let_def split: sum.split prod.split\<close>)
  qed
qed

lemma TryAdopt_iff:
  assumes "chain_inv cr c" and "start \<noteq> 0" and "start \<le> blen (ch_blocks c)" and "nb \<noteq> []"
    and "ch_MaxReorgDepth c = 0 \<or> length (ch_blocks c) - unat start \<le> ch_MaxReorgDepth c"
    and "length (ch_blocks c) + length nb < 2 ^ 64"
    and "caches_ok cr pow U V (take (unat start) (ch_blocks c)) c"
    and "branch_seen cr pow U V (take (unat start) (ch_blocks c)) nb"
  shows "fst (TryAdoptChain cr pow now start nb c) = None \<longleftrightarrow> preferred cr c start nb
      \<and> branch_valid cr pow now (ch_Checkpoints c) (take (unat start) (ch_blocks c)) nb"
proof -
  let ?p = "take (unat start) (ch_blocks c)"
  obtain st tot where st: "st_eq st (replay cr ?p)"
    and r: "fst (TryAdoptChain cr pow now start nb c) = None \<longleftrightarrow> (\<exists>w. fork_choice cr start nb c = Inr w)
        \<and> (\<exists>x. fst (adopt_loop cr pow now c ?p st tot nb) = Inr x)"
    by (rule TryAdopt_within_cap [OF assms(1-5)])
  have len: "length ?p + length nb < 2 ^ 64"
    using assms(6) by simp
  note loop = adopt_loop_iff [OF len assms(7,8) st]
  have "(\<exists>w. fork_choice cr start nb c = Inr w) \<longleftrightarrow> preferred cr c start nb"
    if "branch_valid cr pow now (ch_Checkpoints c) ?p nb"
    using fork_choice_iff [OF assms(1)] branch_valid_targets [OF that] by blast
  then show ?thesis using r loop by blast
qed


text \<open>The witnesses run on the empty node with cold caches.\<close>

definition cold_chain :: "crypto \<Rightarrow> chain" where
  "cold_chain cr = (fresh_chain cr False)\<lparr>ch_verifiedPow := [], ch_powOK := [], ch_sigOK := [],
     ch_vmCache := [], ch_vmSeed := []\<rparr>"

lemma cold_chain_inv: "chain_inv cr (cold_chain cr)"
  using chain_inv_fresh(1) [of cr False] by (simp add: cold_chain_def chain_inv_def pool_inv_def pool_ok_def)

lemma cold_chain_fields:
  "ch_blocks (cold_chain cr) = [GenesisBlock cr]" "ch_Checkpoints (cold_chain cr) = []"
  "caches_ok cr pow {} {} [GenesisBlock cr] (cold_chain cr)"
  using chain_inv_fresh(2) [of cr False] fresh_fields [of cr False]
  by (simp_all add: cold_chain_def caches_ok_def vm_ok_def memos_sound_def gates_ok_def)

lemma work_block1: "work_or_0 block1 > 0"
proof -
  have "TargetInt block1 = Inr GenesisTarget" by (rule genesis_target) (simp add: block1_def)
  then show ?thesis by (simp add: work_or_0_def target_opt_def GenesisTarget_def WorkOf_def)
qed

lemma cold_chain_prefers: "preferred demo_crypto (cold_chain demo_crypto) 1 [block1]"
  using work_block1 chain_invD(5) [OF cold_chain_inv]
  by (simp add: preferred_def cold_chain_fields checkpoint_drop_def work_threshold_def Let_def)


end
