(* ===== verification/Node_Peers.thy ===== *)
theory Node_Peers
  imports Core_Adoption Core_Views
begin

text \<open>
  Peers of a node, after \<^verbatim>\<open>src/node/node.go\<close>: which addresses it may dial, the set of known peers, and the
  health record that backs off from a failing peer and evicts it. Times are nanoseconds since the zero
  \<^verbatim>\<open>time.Time\<close>. The parsers of \<^verbatim>\<open>net\<close> and \<^verbatim>\<open>net/url\<close> are fields of a record \<open>netlib\<close>; addresses are the byte
  slices they return.
\<close>

section \<open>Addresses\<close>

type_synonym ip = bytes

record netlib =
  nl_hostname :: "string \<Rightarrow> string option"  \<comment> \<open>\<open>url.Parse\<close>, then \<open>Hostname\<close>; \<open>None\<close> on a parse error\<close>
  nl_parseIP :: "string \<Rightarrow> ip option"       \<comment> \<open>\<open>net.ParseIP\<close>\<close>

text \<open>The methods of \<^verbatim>\<open>net.IP\<close> that the guard uses.\<close>

definition v4InV6Prefix :: bytes where
  "v4InV6Prefix = replicate 10 0 @ [255, 255]"

definition To4 :: "ip \<Rightarrow> bytes option" where
  "To4 a = (if length a = 4 then Some a
            else if length a = 16 \<and> take 12 a = v4InV6Prefix then Some (drop 12 a) else None)"

definition ip_equal :: "ip \<Rightarrow> ip \<Rightarrow> bool" where
  "ip_equal a b \<longleftrightarrow>
     (if length a = length b then a = b
      else if length a = 4 \<and> length b = 16 then take 12 b = v4InV6Prefix \<and> a = drop 12 b
      else if length a = 16 \<and> length b = 4 then take 12 a = v4InV6Prefix \<and> drop 12 a = b
      else False)"

definition IPv6loopback :: ip where "IPv6loopback = replicate 15 0 @ [1]"

definition IsLoopback :: "ip \<Rightarrow> bool" where
  "IsLoopback a = (case To4 a of Some q \<Rightarrow> q ! 0 = 127 | None \<Rightarrow> ip_equal a IPv6loopback)"

definition IsPrivate :: "ip \<Rightarrow> bool" where
  "IsPrivate a =
     (case To4 a of
        Some q \<Rightarrow> q ! 0 = 10 \<or> q ! 0 = 172 \<and> and (q ! 1) 0xf0 = 16 \<or> q ! 0 = 192 \<and> q ! 1 = 168
      | None \<Rightarrow> length a = 16 \<and> and (a ! 0) 0xfe = 0xfc)"

definition IsLinkLocalUnicast :: "ip \<Rightarrow> bool" where
  "IsLinkLocalUnicast a =
     (case To4 a of Some q \<Rightarrow> q ! 0 = 169 \<and> q ! 1 = 254
      | None \<Rightarrow> length a = 16 \<and> a ! 0 = 0xfe \<and> and (a ! 1) 0xc0 = 0x80)"

definition IsLinkLocalMulticast :: "ip \<Rightarrow> bool" where
  "IsLinkLocalMulticast a =
     (case To4 a of Some q \<Rightarrow> q ! 0 = 224 \<and> q ! 1 = 0 \<and> q ! 2 = 0
      | None \<Rightarrow> length a = 16 \<and> a ! 0 = 0xff \<and> and (a ! 1) 0x0f = 0x02)"

definition IsUnspecified :: "ip \<Rightarrow> bool" where
  "IsUnspecified a \<longleftrightarrow> ip_equal a [0, 0, 0, 0] \<or> ip_equal a (replicate 16 0)"

definition internal_ip :: "ip \<Rightarrow> bool" where
  "internal_ip a \<longleftrightarrow> IsLoopback a \<or> IsPrivate a \<or> IsLinkLocalUnicast a \<or> IsLinkLocalMulticast a \<or> IsUnspecified a"

text \<open>\<^verbatim>\<open>net.IPNet\<close>: network number and mask, and \<open>Contains\<close> with its normalisation of both.\<close>

type_synonym ipnet = "ip \<times> bytes"

definition networkNumberAndMask :: "ipnet \<Rightarrow> (bytes \<times> bytes) option" where
  "networkNumberAndMask n =
     (case n of (a, m) \<Rightarrow>
       (case (case To4 a of Some q \<Rightarrow> Some q | None \<Rightarrow> if length a = 16 then Some a else None) of
          None \<Rightarrow> None
        | Some q \<Rightarrow>
            if length m = 4 then (if length q \<noteq> 4 then None else Some (q, m))
            else if length m = 16 then Some (q, if length q = 4 then drop 12 m else m)
            else None))"

definition net_contains :: "ipnet \<Rightarrow> ip \<Rightarrow> bool" where
  "net_contains n a =
     (case networkNumberAndMask n of
        None \<Rightarrow> False
      | Some (nn, m) \<Rightarrow>
          let x = (case To4 a of Some q \<Rightarrow> q | None \<Rightarrow> a)
          in length x = length nn \<and> list_all (\<lambda>i. and (nn ! i) (m ! i) = and (x ! i) (m ! i)) [0..<length x])"

section \<open>The dial guards\<close>

definition ipTrusted :: "ipnet list \<Rightarrow> ip \<Rightarrow> bool" where
  "ipTrusted trustedNets a = list_ex (\<lambda>n. net_contains n a) trustedNets"

text \<open>\<open>ownIPs\<close> is keyed by the printed address, which is the same for an IPv4 address and its mapped form.\<close>

definition ip_key :: "ip \<Rightarrow> bytes" where
  "ip_key a = (case To4 a of Some q \<Rightarrow> q | None \<Rightarrow> a)"

definition ipIsOwn :: "bytes list \<Rightarrow> ip \<Rightarrow> bool" where
  "ipIsOwn ownIPs a \<longleftrightarrow> ip_key a \<in> set ownIPs"

text \<open>
  The dialer's \<open>Control\<close> hook on the resolved address; \<open>None\<close> is an address that does not parse,
  the result says whether the connection may be made.
\<close>

definition dial_control :: "ipnet list \<Rightarrow> bytes list \<Rightarrow> ip option \<Rightarrow> bool" where
  "dial_control trustedNets ownIPs a =
     (case a of
        None \<Rightarrow> False
      | Some a \<Rightarrow>
          if ipIsOwn ownIPs a then False
          else if ipTrusted trustedNets a then True
          else \<not> (IsLoopback a \<or> IsPrivate a \<or> IsLinkLocalUnicast a \<or> IsLinkLocalMulticast a \<or> IsUnspecified a))"

definition lower_char :: "char \<Rightarrow> char" where
  "lower_char c = (let n = of_char c :: nat in if 65 \<le> n \<and> n \<le> 90 then char_of (n + 32) else c)"

definition has_suffix :: "string \<Rightarrow> string \<Rightarrow> bool" where
  "has_suffix s t \<longleftrightarrow> length t \<le> length s \<and> drop (length s - length t) s = t"

definition peerHostAllowed :: "netlib \<Rightarrow> ipnet list \<Rightarrow> string \<Rightarrow> bool" where
  "peerHostAllowed net trustedNets raw =
     (case nl_hostname net raw of
        None \<Rightarrow> False
      | Some host \<Rightarrow>
          if host = [] then False
          else let h = map lower_char host
          in if h = ''localhost'' \<or> has_suffix h ''.localhost'' then False
          else (case nl_parseIP net host of
                  Some a \<Rightarrow>
                    if ipTrusted trustedNets a then True
                    else \<not> (IsLoopback a \<or> IsPrivate a \<or> IsLinkLocalUnicast a \<or> IsLinkLocalMulticast a
                             \<or> IsUnspecified a)
                | None \<Rightarrow> True))"

section \<open>The node record\<close>

record tip_info =
  ti_height :: u64
  ti_hash :: string
  ti_cumwork :: string

record peer_health =
  ph_fails :: int
  ph_nextTry :: int
  ph_lastDoomed :: string

record work_template =
  wt_blk :: block
  wt_born :: int

record node =
  nd_Chain :: chain
  nd_publicURL :: string
  nd_StallRestart :: bool
  nd_peers :: "(string, int) gomap"
  nd_ph :: "(string, peer_health) gomap"
  nd_tipSnap :: "tip_info option"
  nd_seeds :: "string list"
  nd_templates :: "(string, work_template) gomap"
  nd_tmplLatest :: "(string, string) gomap"
  nd_tmplSeq :: u64
  nd_checkpoint :: checkpoint
  nd_concentrationHigh :: bool

abbreviation (input) syncInterval :: int where "syncInterval \<equiv> 3000000000"

section \<open>The peer set\<close>

text \<open>The UTF-8 encodings of the code points that \<open>unicode.IsSpace\<close> accepts.\<close>

definition space_runes :: "bytes list" where
  "space_runes = [[9], [10], [11], [12], [13], [32], [0xc2, 0x85], [0xc2, 0xa0], [0xe1, 0x9a, 0x80]]
     @ map (\<lambda>b. [0xe2, 0x80, b]) [0x80, 0x81, 0x82, 0x83, 0x84, 0x85, 0x86, 0x87, 0x88, 0x89, 0x8a, 0xa8, 0xa9, 0xaf]
     @ [[0xe2, 0x81, 0x9f], [0xe3, 0x80, 0x80]]"

fun trim_front :: "string list \<Rightarrow> nat \<Rightarrow> string \<Rightarrow> string" where
  "trim_front ws 0 s = s"
| "trim_front ws (Suc n) s =
     (case find (\<lambda>w. take (length w) s = w) ws of None \<Rightarrow> s | Some w \<Rightarrow> trim_front ws n (drop (length w) s))"

definition TrimSpace :: "string \<Rightarrow> string" where
  "TrimSpace s =
     (let ws = map bytes_str space_runes; t = trim_front ws (length s) s
      in rev (trim_front (map rev ws) (length t) (rev t)))"

definition TrimRight_slash :: "string \<Rightarrow> string" where
  "TrimRight_slash s = rev (dropWhile (\<lambda>c. c = CHR ''/'') (rev s))"

definition addPeer :: "netlib \<Rightarrow> ipnet list \<Rightarrow> string \<Rightarrow> node \<Rightarrow> node" where
  "addPeer net trustedNets peerURL0 n =
     (let peerURL = TrimRight_slash (TrimSpace peerURL0) in
      if peerURL = [] \<or> take 4 peerURL \<noteq> ''http'' then n
      else if nd_publicURL n \<noteq> [] \<and> peerURL = nd_publicURL n then n
      else if \<not> peerHostAllowed net trustedNets peerURL then n
      else if map_of (nd_peers n) peerURL = None \<and> length (nd_peers n) < 64
      then n\<lparr>nd_peers := AList.update peerURL 0 (nd_peers n)\<rparr>
      else n)"

definition peerList :: "node \<Rightarrow> string list" where
  "peerList n = sort (map fst (nd_peers n))"

definition markPeer :: "int \<Rightarrow> string \<Rightarrow> bool \<Rightarrow> node \<Rightarrow> node" where
  "markPeer now url ok n = (if ok then n\<lparr>nd_peers := AList.update url now (nd_peers n)\<rparr> else n)"

definition dropPeer :: "string \<Rightarrow> node \<Rightarrow> node" where
  "dropPeer p n = n\<lparr>nd_peers := AList.delete p (nd_peers n), nd_ph := AList.delete p (nd_ph n)\<rparr>"

text \<open>The peers of a response of \<^verbatim>\<open>/p2p/peers\<close> are added one by one, for every peer that answers.\<close>

definition discoverPeers :: "netlib \<Rightarrow> ipnet list \<Rightarrow> (string \<Rightarrow> string list option) \<Rightarrow> node \<Rightarrow> node" where
  "discoverPeers net trustedNets answer n =
     foldl (\<lambda>n p. case answer p of None \<Rightarrow> n | Some us \<Rightarrow> foldl (\<lambda>n u. addPeer net trustedNets u n) n us)
       n (peerList n)"

section \<open>Peer health\<close>

definition fallbackSeeds :: "string list" where
  "fallbackSeeds = [''http://seed.cereblix.com:18750'', ''http://186.246.11.2:18750'',
     ''http://13.140.141.180:18750'', ''http://13.140.142.95:18750'']"

definition isProtectedSeed :: "node \<Rightarrow> string \<Rightarrow> bool" where
  "isProtectedSeed n p =
     (let q = TrimRight_slash p
      in list_ex (\<lambda>s. TrimRight_slash s = q) fallbackSeeds \<or> list_ex (\<lambda>s. TrimRight_slash s = q) (nd_seeds n))"

definition peerReady :: "int \<Rightarrow> string \<Rightarrow> node \<Rightarrow> bool" where
  "peerReady now p n = (case map_of (nd_ph n) p of None \<Rightarrow> True | Some h \<Rightarrow> now > ph_nextTry h)"

definition zero_health :: peer_health where
  "zero_health = \<lparr>ph_fails = 0, ph_nextTry = 0, ph_lastDoomed = []\<rparr>"

definition backoff :: "int \<Rightarrow> int" where
  "backoff fails = (let shift = (if fails > 6 then 6 else fails) in 2 ^ nat shift * syncInterval)"

definition peerResult :: "int \<Rightarrow> string \<Rightarrow> bool \<Rightarrow> node \<Rightarrow> node" where
  "peerResult now p ok n =
     (let h = gm_get zero_health (nd_ph n) p in
      if ok then n\<lparr>nd_ph := AList.update p (h\<lparr>ph_fails := 0, ph_nextTry := 0\<rparr>) (nd_ph n)\<rparr>
      else
        let fails = ph_fails h + 1;
            n1 = n\<lparr>nd_ph := AList.update p (h\<lparr>ph_fails := fails, ph_nextTry := now + backoff fails\<rparr>) (nd_ph n)\<rparr>
        in if fails \<ge> 20 \<and> \<not> isProtectedSeed n p then dropPeer p n1 else n1)"

definition noteDoomed :: "string \<Rightarrow> string \<Rightarrow> node \<Rightarrow> node" where
  "noteDoomed p tipHash n =
     n\<lparr>nd_ph := AList.update p ((gm_get zero_health (nd_ph n) p)\<lparr>ph_lastDoomed := tipHash\<rparr>) (nd_ph n)\<rparr>"

definition isDoomed :: "string \<Rightarrow> string \<Rightarrow> node \<Rightarrow> bool" where
  "isDoomed p tipHash n =
     (case map_of (nd_ph n) p of
        None \<Rightarrow> False
      | Some h \<Rightarrow> ph_lastDoomed h \<noteq> [] \<and> ph_lastDoomed h = tipHash)"

definition resetPeerBackoff :: "node \<Rightarrow> node" where
  "resetPeerBackoff n = n\<lparr>nd_ph := map (\<lambda>(p, h). (p, h\<lparr>ph_fails := 0, ph_nextTry := 0\<rparr>)) (nd_ph n)\<rparr>"

definition clearDoomed :: "node \<Rightarrow> node" where
  "clearDoomed n = n\<lparr>nd_ph := map (\<lambda>(p, h). (p, h\<lparr>ph_lastDoomed := []\<rparr>)) (nd_ph n)\<rparr>"

end
