(* ===== verification/Node_Sync.thy ===== *)
theory Node_Sync
  imports Node_Peers
begin

text \<open>
  Block synchronisation with a peer, after \<^verbatim>\<open>src/node/node.go\<close>: \<open>syncWithPeerOnce\<close> reads the peer's tip,
  finds the last common block by binary search over heights, pulls the rest in batches and adopts it. The
  peer is a record of answers, indexed by the number of the request, so that it may answer the same
  question differently each time. \<open>other\<close> is what the other goroutines do to the node while a request is
  under way. A loop whose length the peer controls takes fuel and yields \<open>None\<close> when it runs out.
\<close>

section \<open>Tips\<close>

text \<open>\<^verbatim>\<open>big.Int.SetString(s, 16)\<close> and \<^verbatim>\<open>Text(16)\<close>.\<close>

fun read_hex :: "nat \<Rightarrow> string \<Rightarrow> nat option" where
  "read_hex a [] = Some a"
| "read_hex a (c # s) = (case hex_val c of None \<Rightarrow> None | Some d \<Rightarrow> read_hex (16 * a + d) s)"

definition SetString16 :: "string \<Rightarrow> int option" where
  "SetString16 s =
     (let neg = (s \<noteq> [] \<and> hd s = CHR ''-''); body = (if s \<noteq> [] \<and> (hd s = CHR ''-'' \<or> hd s = CHR ''+'') then tl s else s)
      in if body = [] then None
         else map_option (\<lambda>v. if neg then - int v else int v) (read_hex 0 body))"

fun hex_text :: "nat \<Rightarrow> string" where
  "hex_text v = (if v < 16 then [hex_digit v] else hex_text (v div 16) @ [hex_digit (v mod 16)])"

definition Text16 :: "int \<Rightarrow> string" where
  "Text16 w = (if w < 0 then CHR ''-'' # hex_text (nat (- w)) else hex_text (nat w))"

declare hex_text.simps [simp del]

definition myTip :: "crypto \<Rightarrow> node \<Rightarrow> tip_info option" where
  "myTip cr n =
     map_option (\<lambda>tip. \<lparr>ti_height = blk_Height tip, ti_hash = Hash cr tip, ti_cumwork = Text16 (CumWork (nd_Chain n))\<rparr>)
       (Tip (nd_Chain n))"

definition updateTipSnap :: "crypto \<Rightarrow> node \<Rightarrow> node" where
  "updateTipSnap cr n = (case myTip cr n of None \<Rightarrow> n | Some ti \<Rightarrow> n\<lparr>nd_tipSnap := Some ti\<rparr>)"

definition tipAhead :: "string \<Rightarrow> string \<Rightarrow> int \<Rightarrow> string \<Rightarrow> bool" where
  "tipAhead cumWork hash ourWork ourHash =
     (if length cumWork > 80 then False
      else case SetString16 cumWork of
        None \<Rightarrow> False
      | Some tw \<Rightarrow> if tw > ourWork then True else if tw = ourWork then hash < ourHash else False)"

definition peerAhead :: "crypto \<Rightarrow> tip_info \<Rightarrow> node \<Rightarrow> bool option" where
  "peerAhead cr tip n =
     map_option (\<lambda>t. tipAhead (ti_cumwork tip) (ti_hash tip) (CumWork (nd_Chain n)) (Hash cr t)) (Tip (nd_Chain n))"

section \<open>Errors that are not the peer's fault\<close>

text \<open>The texts of wrapped errors contain the text of the error they wrap.\<close>

fun mentions_work :: "err \<Rightarrow> bool" where
  "mentions_work LacksWork = True"
| "mentions_work (CandidateBlock h e) = mentions_work e"
| "mentions_work (TxErr i e) = mentions_work e"
| "mentions_work e = False"

fun mentions_depth :: "err \<Rightarrow> bool" where
  "mentions_depth (ReorgTooDeep d cap) = True"
| "mentions_depth (CandidateBlock h e) = mentions_depth e"
| "mentions_depth (TxErr i e) = mentions_depth e"
| "mentions_depth e = False"

definition healthyReject :: "err \<Rightarrow> bool" where
  "healthyReject e \<longleftrightarrow> mentions_work e \<or> mentions_depth e"

section \<open>One attempt\<close>

record peer =
  pr_tip :: "nat \<Rightarrow> tip_info option"
  pr_hash :: "nat \<Rightarrow> u64 \<Rightarrow> string option"
  pr_blocks :: "nat \<Rightarrow> u64 \<Rightarrow> int \<Rightarrow> block list option"

abbreviation (input) batchBlocks :: int where "batchBlocks \<equiv> 200"
abbreviation (input) adoptChunk :: nat where "adoptChunk \<equiv> 256"

type_synonym others = "nat \<Rightarrow> node \<Rightarrow> node"

datatype search = Found u64 | Flaky | Foreign

text \<open>
  The binary search over heights; the third result is the number of requests so far. 64 rounds are
  enough for any two chains shorter than \<open>2^63\<close>.
\<close>

fun find_ancestor ::
  "crypto \<Rightarrow> peer \<Rightarrow> others \<Rightarrow> nat \<Rightarrow> nat \<Rightarrow> u64 \<Rightarrow> u64 \<Rightarrow> u64 \<Rightarrow> node \<Rightarrow> (search \<times> nat \<times> node) option" where
  "find_ancestor cr p other fuel k lo hi anc n =
     (if \<not> lo \<le> hi then Some (Found anc, k, n)
      else case fuel of
        0 \<Rightarrow> None
      | Suc fuel \<Rightarrow>
          let mid = (lo + hi) div 2; n1 = other k n in
          (case pr_hash p k mid of
             None \<Rightarrow> Some (Flaky, k + 1, n1)
           | Some h \<Rightarrow>
               if (case BlockAt (nd_Chain n1) mid of None \<Rightarrow> False | Some ours \<Rightarrow> Hash cr ours = h)
               then find_ancestor cr p other fuel (k + 1) (mid + 1) hi mid n1
               else if mid = 0 then Some (Foreign, k + 1, n1)
               else find_ancestor cr p other fuel (k + 1) lo (mid - 1) anc n1))"

declare find_ancestor.simps [simp del]

text \<open>
  \<open>adopt\<close>: verify off the lock, adopt under it. A new tip refreshes the snapshot (the callback
  \<open>OnNewBlock\<close>); the instruction for the disk is the chain's business.
\<close>

definition adopt ::
  "crypto \<Rightarrow> pow_fun \<Rightarrow> u64 \<Rightarrow> string \<Rightarrow> string \<Rightarrow> bool \<Rightarrow> u64 \<Rightarrow> block list \<Rightarrow> node \<Rightarrow> err option \<times> node" where
  "adopt cr pow now peer theirHash whole anc pending n =
     (let c1 = PreVerifySigs cr (anc + 1) pending (PreVerifyPoW cr pow (anc + 1) pending (nd_Chain n));
          (e, c2, w) = TryAdoptChain cr pow now (anc + 1) pending c1;
          n1 = n\<lparr>nd_Chain := c2\<rparr>
      in case e of
           Some e \<Rightarrow> (Some e, if whole \<and> mentions_work e then noteDoomed peer theirHash n1 else n1)
         | None \<Rightarrow> (None, updateTipSnap cr n1))"

text \<open>
  The fetch loop and the adoption of what is left. The result is the usability of the peer.
\<close>

definition adopt_rest ::
  "crypto \<Rightarrow> pow_fun \<Rightarrow> u64 \<Rightarrow> string \<Rightarrow> string \<Rightarrow> bool \<Rightarrow> u64 \<Rightarrow> block list \<Rightarrow> node \<Rightarrow> bool \<times> node" where
  "adopt_rest cr pow now peer theirHash truncated anc pending n =
     (if pending = [] then (\<not> truncated, n)
      else case adopt cr pow now peer theirHash (\<not> truncated) anc pending n of
        (Some e, n1) \<Rightarrow> (healthyReject e, n1)
      | (None, n1) \<Rightarrow> (\<not> truncated, n1))"

fun fetch_loop ::
  "crypto \<Rightarrow> pow_fun \<Rightarrow> u64 \<Rightarrow> string \<Rightarrow> tip_info \<Rightarrow> peer \<Rightarrow> others \<Rightarrow> bool \<Rightarrow> nat \<Rightarrow> nat
    \<Rightarrow> u64 \<Rightarrow> u64 \<Rightarrow> block list \<Rightarrow> node \<Rightarrow> (bool \<times> node) option" where
  "fetch_loop cr pow now peer their p other isReorg 0 k from anc pending n = None"
| "fetch_loop cr pow now peer their p other isReorg (Suc fuel) k from anc pending n =
     (let n1 = other k n; batch = (case pr_blocks p k from batchBlocks of None \<Rightarrow> [] | Some b \<Rightarrow> b) in
      if batch = [] then Some (adopt_rest cr pow now peer (ti_hash their) (from \<le> ti_height their) anc pending n1)
      else
        let pending1 = pending @ batch; from1 = from + blen batch; whole = from1 > ti_height their in
        if whole \<or> (\<not> isReorg \<and> length pending1 \<ge> adoptChunk)
        then (case adopt cr pow now peer (ti_hash their) whole anc pending1 n1 of
                (Some e, n2) \<Rightarrow> Some (healthyReject e, n2)
              | (None, n2) \<Rightarrow>
                  if whole then Some (True, n2)
                  else fetch_loop cr pow now peer their p other isReorg fuel (k + 1) from1 (Height (nd_Chain n2)) [] n2)
        else fetch_loop cr pow now peer their p other isReorg fuel (k + 1) from1 anc pending1 n1)"

text \<open>The attempt from the search on, for a tip that is worth pulling.\<close>

definition sync_pursue ::
  "crypto \<Rightarrow> pow_fun \<Rightarrow> u64 \<Rightarrow> string \<Rightarrow> tip_info \<Rightarrow> int \<Rightarrow> peer \<Rightarrow> others \<Rightarrow> nat \<Rightarrow> node \<Rightarrow> (bool \<times> bool \<times> node) option" where
  "sync_pursue cr pow now peer their theirWork p other fuel n =
     (if isDoomed peer (ti_hash their) n then Some (True, False, n)
      else
        let ourH = Height (nd_Chain n); hi = (if ti_height their < ourH then ti_height their else ourH) in
        (case find_ancestor cr p other 64 1 0 hi 0 n of
           None \<Rightarrow> None
         | Some (Flaky, _, n1) \<Rightarrow> Some (False, False, n1)
         | Some (Foreign, _, n1) \<Rightarrow> Some (True, False, n1)
         | Some (Found anc, k, n1) \<Rightarrow>
             if CumWork (nd_Chain n1) > theirWork then Some (True, False, n1)
             else map_option (\<lambda>(ok, m). (ok, False, m))
               (fetch_loop cr pow now peer their p other (anc < ourH) fuel k (anc + 1) anc [] n1)))"

text \<open>
  \<open>syncWithPeerOnce\<close>: whether the peer was usable, whether our tip is pushed to it, and the node. A
  run-time panic (an empty chain) is recovered and makes the peer unusable.
\<close>

definition syncWithPeerOnce ::
  "crypto \<Rightarrow> pow_fun \<Rightarrow> u64 \<Rightarrow> int \<Rightarrow> string \<Rightarrow> peer \<Rightarrow> others \<Rightarrow> nat \<Rightarrow> node \<Rightarrow> (bool \<times> bool \<times> node) option" where
  "syncWithPeerOnce cr pow now t peer p other fuel n0 =
     (let n1 = other 0 n0 in
      case pr_tip p 0 of
        None \<Rightarrow> Some (False, False, n1)
      | Some their \<Rightarrow>
          let n2 = markPeer t peer True n1; c = nd_Chain n2 in
          if length (ti_cumwork their) > 80 then Some (True, False, n2)
          else case SetString16 (ti_cumwork their) of
            None \<Rightarrow> Some (True, False, n2)
          | Some theirWork \<Rightarrow>
              if theirWork < CumWork c then Some (True, False, n2)
              else if theirWork = CumWork c then
                (case Tip c of
                   None \<Rightarrow> Some (False, False, n2)
                 | Some ourTip \<Rightarrow>
                     if ti_hash their = Hash cr ourTip then Some (True, False, n2)
                     else if ti_hash their \<ge> Hash cr ourTip then Some (True, True, n2)
                     else sync_pursue cr pow now peer their theirWork p other fuel n2)
              else sync_pursue cr pow now peer their theirWork p other fuel n2)"

definition syncWithPeer ::
  "crypto \<Rightarrow> pow_fun \<Rightarrow> u64 \<Rightarrow> int \<Rightarrow> string \<Rightarrow> peer \<Rightarrow> others \<Rightarrow> nat \<Rightarrow> node \<Rightarrow> (bool \<times> node) option" where
  "syncWithPeer cr pow now t peer p other fuel n =
     map_option (\<lambda>(ok, push, m). (push, peerResult t peer ok m)) (syncWithPeerOnce cr pow now t peer p other fuel n)"

end
