(* ===== verification/Node_Serve.thy ===== *)
theory Node_Serve
  imports Node_Sync Core_Template
begin

text \<open>
  The HTTP handlers of a node, after \<open>P2PHandler\<close>, \<open>RPCHandler\<close> and \<open>getTemplate\<close> in
  \<^verbatim>\<open>src/node/node.go\<close>. A handler takes the query's strings or the decoded body (\<open>None\<close> where JSON
  decoding fails) and returns a response, the new node and what it leaves to a goroutine. \<open>stored\<close>
  stands for the queries that the block store answers.
\<close>

section \<open>Query parameters\<close>

text \<open>\<open>strconv.ParseUint\<close> and \<open>Atoi\<close> with the error discarded: 0 on bad syntax, the nearest bound out of range.\<close>

fun lossy_digits :: "nat \<Rightarrow> string \<Rightarrow> nat" where
  "lossy_digits a [] = a"
| "lossy_digits a (c # s) =
     (case dec_val c of None \<Rightarrow> 0 | Some d \<Rightarrow> if 10 * a + d \<ge> 2 ^ 64 then 2 ^ 64 - 1 else lossy_digits (10 * a + d) s)"

definition ParseUint_lossy :: "string \<Rightarrow> u64" where
  "ParseUint_lossy s = word_of_nat (lossy_digits 0 s)"

definition Atoi_lossy :: "string \<Rightarrow> int" where
  "Atoi_lossy s =
     (let neg = (s \<noteq> [] \<and> hd s = CHR ''-'');
          body = (if s \<noteq> [] \<and> (hd s = CHR ''-'' \<or> hd s = CHR ''+'') then tl s else s);
          u = int (lossy_digits 0 body)
      in if neg then (if u > 2 ^ 63 then - (2 ^ 63) else - u)
         else if u \<ge> 2 ^ 63 then 2 ^ 63 - 1 else u)"

datatype http_err = Http nat string | ChainErr err

section \<open>The peer-to-peer port\<close>

definition reg :: "netlib \<Rightarrow> ipnet list \<Rightarrow> string \<Rightarrow> node \<Rightarrow> node" where
  "reg net nets hdr n = (if hdr \<noteq> [] then addPeer net nets hdr n else n)"

definition p2p_tip :: "crypto \<Rightarrow> node \<Rightarrow> tip_info option" where
  "p2p_tip cr n = (case nd_tipSnap n of Some ti \<Rightarrow> Some ti | None \<Rightarrow> myTip cr n)"

definition p2p_hash :: "crypto \<Rightarrow> string \<Rightarrow> node \<Rightarrow> http_err + string" where
  "p2p_hash cr q n =
     (case BlockAt (nd_Chain n) (ParseUint_lossy q) of
        None \<Rightarrow> Inl (Http 404 ''no such height'')
      | Some b \<Rightarrow> Inr (Hash cr b))"

definition p2p_blocks :: "string \<Rightarrow> string \<Rightarrow> node \<Rightarrow> block list option" where
  "p2p_blocks frm cnt n =
     (let from = ParseUint_lossy frm; c0 = Atoi_lossy cnt; count = (if c0 \<le> 0 \<or> c0 > batchBlocks then batchBlocks else c0)
      in Blocks (nd_Chain n) from count)"

text \<open>\<open>/p2p/block\<close>: the third result is a peer to synchronise with.\<close>

definition p2p_block ::
  "crypto \<Rightarrow> pow_fun \<Rightarrow> u64 \<Rightarrow> netlib \<Rightarrow> ipnet list \<Rightarrow> string \<Rightarrow> block option \<Rightarrow> node
    \<Rightarrow> (http_err + string) \<times> node \<times> string option" where
  "p2p_block cr pow now net nets hdr body n =
     (let n1 = reg net nets hdr n in
      case body of
        None \<Rightarrow> (Inl (Http 400 ''bad json''), n1, None)
      | Some b \<Rightarrow>
          (case AddBlock cr pow now b (nd_Chain n1) of
             (None, c, w) \<Rightarrow> (Inr ''accepted'', updateTipSnap cr (n1\<lparr>nd_Chain := c\<rparr>), None)
           | (Some e, c, w) \<Rightarrow>
               (Inl (ChainErr e), n1\<lparr>nd_Chain := c\<rparr>,
                if e = NotExtendingTip \<and> hdr \<noteq> [] then Some (TrimRight_slash hdr) else None)))"

text \<open>\<open>/p2p/tx\<close>: an accepted transaction is flooded to every peer except the third result.\<close>

definition p2p_tx :: "crypto \<Rightarrow> string \<Rightarrow> tx option \<Rightarrow> node \<Rightarrow> (http_err + string) \<times> node \<times> string list" where
  "p2p_tx cr hdr body n =
     (case body of
        None \<Rightarrow> (Inl (Http 400 ''bad json''), n, [])
      | Some t \<Rightarrow>
          (case AddTx cr t (nd_Chain n) of
             (Some e, c) \<Rightarrow> (Inl (ChainErr e), n\<lparr>nd_Chain := c\<rparr>, [])
           | (None, c) \<Rightarrow>
               (Inr ''accepted'', n\<lparr>nd_Chain := c\<rparr>, filter (\<lambda>p. p \<noteq> TrimRight_slash hdr) (peerList n))))"

definition p2p_peers :: "netlib \<Rightarrow> ipnet list \<Rightarrow> string \<Rightarrow> node \<Rightarrow> string list \<times> node" where
  "p2p_peers net nets hdr n = (let n1 = reg net nets hdr n in (peerList n1, n1))"

definition p2p_checkpoint :: "node \<Rightarrow> http_err + checkpoint" where
  "p2p_checkpoint n =
     (if cp_Hash (nd_checkpoint n) = [] then Inl (Http 404 ''no checkpoint'') else Inr (nd_checkpoint n))"

text \<open>\<open>fetchCheckpoint\<close>, with the peer's answer; the POST side of \<open>/api/checkpoint\<close>.\<close>

definition fetchCheckpoint :: "crypto \<Rightarrow> checkpoint option \<Rightarrow> node \<Rightarrow> node" where
  "fetchCheckpoint cr answer n =
     (case answer of
        None \<Rightarrow> n
      | Some cp \<Rightarrow>
          if \<not> Verify cr cp then n
          else let (ok, c) = ApplyCheckpoint cr cp (SetAuthorityAnchor cp (nd_Chain n)); n1 = n\<lparr>nd_Chain := c\<rparr>
               in if ok \<and> cp_Height cp \<ge> cp_Height (nd_checkpoint n1) then n1\<lparr>nd_checkpoint := cp\<rparr> else n1)"

definition api_checkpoint_post ::
  "crypto \<Rightarrow> ip option \<Rightarrow> checkpoint option \<Rightarrow> node \<Rightarrow> (http_err + u64) \<times> node" where
  "api_checkpoint_post cr client body n =
     (if (case client of None \<Rightarrow> True | Some a \<Rightarrow> \<not> IsLoopback a)
      then (Inl (Http 403 ''checkpoint POST is localhost-only''), n)
      else case body of
        None \<Rightarrow> (Inl (Http 400 ''bad json''), n)
      | Some cp \<Rightarrow>
          if \<not> Verify cr cp then (Inl (Http 400 ''bad checkpoint signature''), n)
          else let n1 = n\<lparr>nd_Chain := snd (ApplyCheckpoint cr cp (nd_Chain n))\<rparr>
               in (Inr (cp_Height cp),
                   if cp_Height cp \<ge> cp_Height (nd_checkpoint n1) then n1\<lparr>nd_checkpoint := cp\<rparr> else n1))"

section \<open>Queries\<close>

record balance_info =
  ba_account :: account
  ba_spendable :: u64
  ba_totals :: "u64 \<times> u64 \<times> u64 \<times> int"

definition api_balance :: "string \<Rightarrow> node \<Rightarrow> http_err + balance_info" where
  "api_balance addr n =
     (if \<not> ValidAddr addr then Inl (Http 400 ''bad address'')
      else Inr \<lparr>ba_account = Account (nd_Chain n) addr, ba_spendable = SpendableBalance (nd_Chain n) addr,
                ba_totals = AddrTotals (nd_Chain n) addr\<rparr>)"

definition api_history ::
  "crypto \<Rightarrow> (string \<Rightarrow> int \<Rightarrow> int \<Rightarrow> history_item list option) \<Rightarrow> string \<Rightarrow> string \<Rightarrow> string \<Rightarrow> node
    \<Rightarrow> http_err + history_item list option" where
  "api_history cr stored addr lmt off n =
     (if \<not> ValidAddr addr then Inl (Http 400 ''bad address'')
      else let l0 = Atoi_lossy lmt; limit = (if l0 \<le> 0 \<or> l0 > 200 then 50 else l0)
           in Inr (History cr stored (nd_Chain n) addr limit (Atoi_lossy off)))"

record block_row =
  br_height :: u64
  br_hash :: string
  br_time :: u64
  br_txs :: nat
  br_miner :: string
  br_reward :: u64

definition block_row_of :: "crypto \<Rightarrow> block \<Rightarrow> block_row" where
  "block_row_of cr b =
     \<lparr>br_height = blk_Height b, br_hash = Hash cr b, br_time = blk_Time b, br_txs = length (blk_Txs b),
      br_miner = (case blk_Txs b of [] \<Rightarrow> [] | cb # _ \<Rightarrow> tx_To cb),
      br_reward = (case blk_Txs b of [] \<Rightarrow> 0 | cb # _ \<Rightarrow> tx_Amount cb)\<rparr>"

text \<open>The page of blocks below \<open>before\<close>, newest first; \<open>None\<close> is a run-time panic.\<close>

definition api_blocks :: "crypto \<Rightarrow> string \<Rightarrow> string \<Rightarrow> node \<Rightarrow> block_row list option" where
  "api_blocks cr lst before n =
     (let l0 = Atoi_lossy lst; last = (if l0 \<le> 0 \<or> l0 > 100 then 15 else l0); tipH = Height (nd_Chain n) in
      case (if before = [] then Some tipH
            else case parse_uint64 before of
                None \<Rightarrow> None
              | Some bv \<Rightarrow> if bv = 0 then None else Some (if bv - 1 < tipH then bv - 1 else tipH)) of
        None \<Rightarrow> Some []
      | Some newest \<Rightarrow>
          let from = (if word_of_int last \<le> newest then newest - word_of_int last + 1 else 0)
          in map_option (\<lambda>bs. map (block_row_of cr) (rev bs)) (Blocks (nd_Chain n) from (sint (newest - from + 1))))"

definition api_block ::
  "crypto \<Rightarrow> (string \<Rightarrow> block option) \<Rightarrow> string \<Rightarrow> string \<Rightarrow> node \<Rightarrow> http_err + block" where
  "api_block cr stored hs hash n =
     (if hs \<noteq> [] then
        (case parse_uint64 hs of
           None \<Rightarrow> Inl (Http 400 ''bad height'')
         | Some h \<Rightarrow> (case BlockAt (nd_Chain n) h of None \<Rightarrow> Inl (Http 404 ''not found'') | Some b \<Rightarrow> Inr b))
      else if hash \<noteq> [] then
        (case BlockByHash cr stored (nd_Chain n) hash of None \<Rightarrow> Inl (Http 404 ''not found'') | Some b \<Rightarrow> Inr b)
      else Inl (Http 400 ''need h= or hash=''))"

definition api_tx_get ::
  "crypto \<Rightarrow> (string \<Rightarrow> tx_location option) \<Rightarrow> string \<Rightarrow> node \<Rightarrow> http_err + tx_location" where
  "api_tx_get cr stored i n =
     (if length i \<noteq> 64 then Inl (Http 400 ''need id=<64 hex>'')
      else let loc = FindTx cr stored (nd_Chain n) i
           in if \<not> tl_Found loc then Inl (Http 404 ''transaction not found'') else Inr loc)"

definition api_tx_post :: "crypto \<Rightarrow> tx option \<Rightarrow> node \<Rightarrow> (http_err + string) \<times> node \<times> string list" where
  "api_tx_post cr body n =
     (case body of
        None \<Rightarrow> (Inl (Http 400 ''bad json''), n, [])
      | Some t \<Rightarrow>
          (case AddTx cr t (nd_Chain n) of
             (Some e, c) \<Rightarrow> (Inl (ChainErr e), n\<lparr>nd_Chain := c\<rparr>, [])
           | (None, c) \<Rightarrow> (Inr (ID cr t), n\<lparr>nd_Chain := c\<rparr>, peerList n)))"

definition api_richlist :: "string \<Rightarrow> string \<Rightarrow> node \<Rightarrow> rich_entry list" where
  "api_richlist cnt off n =
     (let n0 = Atoi_lossy cnt; n2 = (if n0 \<le> 0 \<or> n0 > 200 then 25 else n0)
      in RichList (nd_Chain n) n2 (Atoi_lossy off))"

definition isHex :: "string \<Rightarrow> bool" where
  "isHex s \<longleftrightarrow>
     list_all (\<lambda>c. let k = of_char c :: nat in 48 \<le> k \<and> k \<le> 57 \<or> 97 \<le> k \<and> k \<le> 102) s \<and> length s > 0"

definition isAllDigits :: "string \<Rightarrow> bool" where
  "isAllDigits s \<longleftrightarrow>
     list_all (\<lambda>c. let k = of_char c :: nat in 48 \<le> k \<and> k \<le> 57) s \<and> length s > 0 \<and> length s \<le> 18"

datatype found = FoundAddress string | FoundBlock u64 | FoundTx string

definition api_search ::
  "crypto \<Rightarrow> (string \<Rightarrow> block option) \<Rightarrow> (string \<Rightarrow> tx_location option) \<Rightarrow> string \<Rightarrow> node \<Rightarrow> http_err + found" where
  "api_search cr stored_block stored_tx q0 n =
     (let q = TrimSpace q0; c = nd_Chain n in
      if q = [] then Inl (Http 400 ''empty query'')
      else if ValidAddr q then Inr (FoundAddress q)
      else if isAllDigits q then
        (let hgt = ParseUint_lossy q
         in case BlockAt c hgt of None \<Rightarrow> Inl (Http 404 ''no block at that height'') | Some _ \<Rightarrow> Inr (FoundBlock hgt))
      else if length q = 64 \<and> isHex q then
        (case BlockByHash cr stored_block c q of
           Some b \<Rightarrow> Inr (FoundBlock (blk_Height b))
         | None \<Rightarrow> if tl_Found (FindTx cr stored_tx c q) then Inr (FoundTx q)
                   else Inl (Http 404 ''no block or transaction with that hash''))
      else Inl (Http 400 ''unrecognized query (height, block hash, txid, or crb1 address)''))"

section \<open>Mining jobs\<close>

abbreviation (input) templateRefresh :: int where "templateRefresh \<equiv> 5000000000"
abbreviation (input) maxTemplates :: nat where "maxTemplates \<equiv> 512"

text \<open>\<^verbatim>\<open>strconv.FormatUint(v, 36)\<close>.\<close>

fun text36 :: "nat \<Rightarrow> string" where
  "text36 v = (let d = ''0123456789abcdefghijklmnopqrstuvwxyz'' ! (v mod 36)
               in if v < 36 then [d] else text36 (v div 36) @ [d])"

declare text36.simps [simp del]

text \<open>The oldest job of a non-empty map, in the order of the iteration; the cap drops it until few enough are left.\<close>

definition oldest_template :: "(string, work_template) gomap \<Rightarrow> string" where
  "oldest_template ts =
     fst (foldl (\<lambda>(o1, born) (k, e). if o1 = [] \<or> wt_born e < born then (k, wt_born e) else (o1, born)) ([], 0) ts)"

lemma oldest_template_in: "ts \<noteq> [] \<Longrightarrow> oldest_template ts \<in> fst ` set ts"
proof -
  let ?f = "\<lambda>(o1, born) (k, e). if o1 = [] \<or> wt_born e < born then (k, wt_born e) else (o1, born)"
  have keep: "fst (foldl ?f s xs) \<in> insert (fst s) (fst ` set xs)" for s :: "string \<times> int" and xs
    by (induction xs arbitrary: s) (fastforce split: if_splits)+
  assume "ts \<noteq> []"
  then show ?thesis
    using keep [of "(fst (hd ts), wt_born (snd (hd ts)))" "tl ts"] by (cases ts) (auto simp: oldest_template_def split_beta)
qed

lemma length_delete_key: "k \<in> fst ` set m \<Longrightarrow> length (AList.delete k m) < length m"
  by (auto simp: AList.delete_eq intro!: length_filter_less)

function cap_templates :: "(string, work_template) gomap \<Rightarrow> (string, work_template) gomap" where
  "cap_templates ts =
     (if length ts > maxTemplates then cap_templates (AList.delete (oldest_template ts) ts) else ts)"
  by auto
termination
proof (relation "measure length")
  fix ts :: "(string, work_template) gomap"
  assume "length ts > maxTemplates"
  then have "ts \<noteq> []" by auto
  then show "(AList.delete (oldest_template ts) ts, ts) \<in> measure length"
    using length_delete_key [OF oldest_template_in] by simp
qed simp

declare cap_templates.simps [simp del]

text \<open>
  \<open>getTemplate\<close>; \<open>t\<close> is the time of the freshness test, \<open>t'\<close> that of the publication, \<open>now\<close> and
  \<open>now'\<close> the clock readings of \<open>BuildTemplate\<close>.
\<close>

definition current_job :: "string \<Rightarrow> node \<Rightarrow> (string \<times> work_template) option" where
  "current_job key n =
     (let i = gm_get [] (nd_tmplLatest n) key
      in if i \<noteq> [] then map_option (\<lambda>e. (i, e)) (map_of (nd_templates n) i) else None)"

definition evict_templates :: "string \<Rightarrow> node \<Rightarrow> node" where
  "evict_templates tip n =
     n\<lparr>nd_templates := filter (\<lambda>(k, e). blk_PrevHash (wt_blk e) = tip) (nd_templates n),
       nd_tmplLatest := filter (\<lambda>(k, i). take (length tip + 1) k = tip @ ''|'') (nd_tmplLatest n)\<rparr>"

definition publish_job :: "string \<Rightarrow> block \<Rightarrow> int \<Rightarrow> node \<Rightarrow> string \<times> node" where
  "publish_job key fresh t' n =
     (let sq = nd_tmplSeq n + 1; i = key @ ''|'' @ text36 (unat sq);
          ts = AList.update i \<lparr>wt_blk = fresh, wt_born = t'\<rparr> (nd_templates n)
      in (i, n\<lparr>nd_tmplSeq := sq, nd_tmplLatest := AList.update key i (nd_tmplLatest n), nd_templates := cap_templates ts\<rparr>))"

definition getTemplate ::
  "crypto \<Rightarrow> u64 \<Rightarrow> u64 \<Rightarrow> int \<Rightarrow> int \<Rightarrow> string \<Rightarrow> node \<Rightarrow> (http_err + block \<times> string) \<times> node" where
  "getTemplate cr now now' t t' addr n =
     (if \<not> ValidAddr addr then (Inl (Http 400 ''bad or missing addr''), n)
      else case Tip (nd_Chain n) of None \<Rightarrow> (Inl (ChainErr Panic), n)
      | Some tipb \<Rightarrow>
          let tip = Hash cr tipb; key = tip @ ''|'' @ addr in
          case (case current_job key n of Some (i, e) \<Rightarrow> if t - wt_born e < templateRefresh then Some (i, e) else None
                | None \<Rightarrow> None) of
            Some (i, e) \<Rightarrow> (Inr (wt_blk e, i), n)
          | None \<Rightarrow>
              (case BuildTemplate cr now now' addr (nd_Chain n) of
                 Inl err \<Rightarrow> (case current_job key n of Some (i, e) \<Rightarrow> (Inr (wt_blk e, i), n) | None \<Rightarrow> (Inl (ChainErr err), n))
               | Inr fresh \<Rightarrow>
                   let n1 = evict_templates tip n in
                   (case (case current_job key n1 of
                            Some (i, e) \<Rightarrow> if blk_TxRoot (wt_blk e) = blk_TxRoot fresh then Some (i, e) else None
                          | None \<Rightarrow> None) of
                      Some (i, e) \<Rightarrow>
                        (Inr (wt_blk e, i), n1\<lparr>nd_templates := AList.update i (e\<lparr>wt_born := t'\<rparr>) (nd_templates n1)\<rparr>)
                    | None \<Rightarrow> let (i, n2) = publish_job key fresh t' n1 in (Inr (fresh, i), n2))))"

record job =
  jb_id :: string
  jb_header :: string
  jb_target :: string
  jb_seed :: string
  jb_epoch :: u64
  jb_height :: u64
  jb_ntx :: nat

definition api_getwork ::
  "crypto \<Rightarrow> u64 \<Rightarrow> u64 \<Rightarrow> int \<Rightarrow> int \<Rightarrow> string \<Rightarrow> node \<Rightarrow> (http_err + job) \<times> node" where
  "api_getwork cr now now' t t' addr n =
     (case getTemplate cr now now' t t' addr n of
        (Inl e, n1) \<Rightarrow> (Inl e, n1)
      | (Inr (tmpl, i), n1) \<Rightarrow>
          (case EpochSeedForNext cr (nd_Chain n1) of
             None \<Rightarrow> (Inl (ChainErr Panic), n1)
           | Some (seed, epoch) \<Rightarrow>
               (Inr \<lparr>jb_id = i, jb_header = hex_encode (HeaderBytes tmpl), jb_target = blk_Target tmpl,
                     jb_seed = hex_encode seed, jb_epoch = epoch, jb_height = blk_Height tmpl,
                     jb_ntx = length (blk_Txs tmpl)\<rparr>, n1)))"

text \<open>The body of a submission: the work id and the raw JSON of the nonce, a number or a quoted string.\<close>

definition trim_quotes :: "string \<Rightarrow> string" where
  "trim_quotes s = rev (dropWhile (\<lambda>c. of_char c = (34 :: nat)) (rev (dropWhile (\<lambda>c. of_char c = (34 :: nat)) s)))"

definition api_submitwork ::
  "crypto \<Rightarrow> pow_fun \<Rightarrow> u64 \<Rightarrow> (string \<times> string) option \<Rightarrow> node \<Rightarrow> (http_err + string) \<times> node" where
  "api_submitwork cr pow now body n =
     (case body of
        None \<Rightarrow> (Inl (Http 400 ''bad json''), n)
      | Some (i, raw) \<Rightarrow>
          (case parse_uint64 (trim_quotes raw) of
             None \<Rightarrow> (Inl (Http 400 ''bad nonce''), n)
           | Some nonce \<Rightarrow>
               (case map_of (nd_templates n) i of
                  None \<Rightarrow> (Inl (Http 404 ''stale or unknown work id''), n)
                | Some e \<Rightarrow>
                    let b = (wt_blk e)\<lparr>blk_Nonce := nonce\<rparr> in
                    (case AddBlock cr pow now b (nd_Chain n) of
                       (Some err, c, w) \<Rightarrow> (Inl (ChainErr err), n\<lparr>nd_Chain := c\<rparr>)
                     | (None, c, w) \<Rightarrow> (Inr (Hash cr b), updateTipSnap cr (n\<lparr>nd_Chain := c\<rparr>))))))"

end
