(* ===== verification/Node_Watch.thy ===== *)
theory Node_Watch
  imports Node_Serve
begin

text \<open>
  The background loops of a node, one turn each: the subscription to a peer's new blocks, the watchdog that
  notices a node stuck behind its peers, and the warning about concentrated mining.
\<close>

section \<open>Subscriptions\<close>

datatype sub_answer = Sub404 | SubError | SubTip tip_info

datatype sub_next = SubStop | SubRetry nat | SubAgain bool

text \<open>
  One turn of \<open>subscribeLoop\<close> with the number of misses so far: it ends, retries with more misses, or
  goes on with none after synchronising (\<open>True\<close>) or not. \<open>None\<close> is a run-time panic, which ends it too.
\<close>

definition subscribe_turn :: "crypto \<Rightarrow> string \<Rightarrow> nat \<Rightarrow> sub_answer \<Rightarrow> node \<Rightarrow> sub_next option" where
  "subscribe_turn cr peer misses answer n =
     (if map_of (nd_peers n) peer = None then Some SubStop
      else case answer of
        Sub404 \<Rightarrow> Some SubStop
      | SubError \<Rightarrow> if misses + 1 \<ge> 4 then Some SubStop else Some (SubRetry (misses + 1))
      | SubTip tip \<Rightarrow> map_option SubAgain (peerAhead cr tip n))"

text \<open>\<open>subscribeManager\<close>: the peers for which a loop is started, given those that have one.\<close>

definition subscribe_new :: "string list \<Rightarrow> node \<Rightarrow> string list" where
  "subscribe_new subscribing n = filter (\<lambda>p. p \<notin> set subscribing) (peerList n)"

section \<open>The watchdog\<close>

text \<open>\<open>bestPeerWork\<close> from the tips the peers answered.\<close>

definition bestPeerWork :: "tip_info option list \<Rightarrow> int" where
  "bestPeerWork tips =
     foldl (\<lambda>best a. case a of None \<Rightarrow> best
       | Some t \<Rightarrow> if length (ti_cumwork t) > 64 then best
           else (case SetString16 (ti_cumwork t) of None \<Rightarrow> best | Some w \<Rightarrow> if w > best then w else best)) 0 tips"

record watch =
  wd_lastH :: u64
  wd_stuckSince :: int

abbreviation (input) stallWindow :: int where "stallWindow \<equiv> 900000000000"
abbreviation (input) restartAt :: int where "restartAt \<equiv> 1200000000000"

text \<open>One tick of \<open>livenessWatchdog\<close>; the last result asks for the exit with status 1.\<close>

definition watchdog_tick :: "int \<Rightarrow> tip_info option list \<Rightarrow> node \<Rightarrow> watch \<Rightarrow> watch \<times> node \<times> bool" where
  "watchdog_tick now tips n w =
     (let h = Height (nd_Chain n) in
      if h \<noteq> wd_lastH w then (\<lparr>wd_lastH = h, wd_stuckSince = 0\<rparr>, n, False)
      else if bestPeerWork tips \<le> CumWork (nd_Chain n) then (w\<lparr>wd_stuckSince := 0\<rparr>, n, False)
      else if wd_stuckSince w = 0 then (w\<lparr>wd_stuckSince := now\<rparr>, n, False)
      else let stuck = now - wd_stuckSince w in
        if stuck < stallWindow then (w, n, False)
        else (w, clearDoomed (resetPeerBackoff n), nd_StallRestart n \<and> stuck > restartAt))"

section \<open>Concentration\<close>

definition checkConcentration :: "node \<Rightarrow> node" where
  "checkConcentration n =
     (let share = fst (RecentCoinbaseShare (nd_Chain n) 100) in
      if share \<ge> 1 / 2 \<and> \<not> nd_concentrationHigh n then n\<lparr>nd_concentrationHigh := True\<rparr>
      else if share < f64_round (45 / 100) \<and> nd_concentrationHigh n then n\<lparr>nd_concentrationHigh := False\<rparr>
      else n)"

section \<open>The synchronisation loop\<close>

text \<open>
  One tick of \<open>SyncLoop\<close>, with the peers served one after another: those past their backoff are tried, on
  every tenth tick their checkpoint is pulled as well; then the tip snapshot is published again, peers are
  discovered on a tenth tick, and concentration is checked. The functions give what each peer answers and
  what the other goroutines do meanwhile; \<open>t\<close> is the time of the tests of the backoff.
\<close>

fun sync_peers ::
  "crypto \<Rightarrow> pow_fun \<Rightarrow> u64 \<Rightarrow> int \<Rightarrow> (string \<Rightarrow> peer) \<Rightarrow> (string \<Rightarrow> checkpoint option) \<Rightarrow> (string \<Rightarrow> others) \<Rightarrow> nat \<Rightarrow> bool
    \<Rightarrow> string list \<Rightarrow> node \<Rightarrow> node option" where
  "sync_peers cr pow now t peers cps other fuel slow [] n = Some n"
| "sync_peers cr pow now t peers cps other fuel slow (p # ps) n =
     (if \<not> peerReady t p n then sync_peers cr pow now t peers cps other fuel slow ps n
      else case syncWithPeer cr pow now t p (peers p) (other p) fuel n of
        None \<Rightarrow> None
      | Some (push, m) \<Rightarrow>
          sync_peers cr pow now t peers cps other fuel slow ps (if slow then fetchCheckpoint cr (cps p) m else m))"

definition sync_tick ::
  "crypto \<Rightarrow> pow_fun \<Rightarrow> u64 \<Rightarrow> int \<Rightarrow> netlib \<Rightarrow> ipnet list \<Rightarrow> (string \<Rightarrow> peer) \<Rightarrow> (string \<Rightarrow> checkpoint option)
    \<Rightarrow> (string \<Rightarrow> string list option) \<Rightarrow> (string \<Rightarrow> others) \<Rightarrow> nat \<Rightarrow> nat \<Rightarrow> node \<Rightarrow> node option" where
  "sync_tick cr pow now t net nets peers cps gossip other fuel tick n =
     (let slow = (tick mod 10 = 0) in
      map_option (\<lambda>m. let m1 = updateTipSnap cr m; m2 = (if slow then discoverPeers net nets gossip m1 else m1)
                      in checkConcentration m2)
        (sync_peers cr pow now t peers cps other fuel slow (peerList n) n))"

section \<open>Starting up\<close>

text \<open>\<open>New\<close>: the saved peers, the configured ones and, unless isolated, the built-in seeds.\<close>

definition New_node ::
  "crypto \<Rightarrow> netlib \<Rightarrow> ipnet list \<Rightarrow> chain \<Rightarrow> string \<Rightarrow> string list \<Rightarrow> string list option \<Rightarrow> bool \<Rightarrow> node option" where
  "New_node cr net nets c url seedPeers saved isolated =
     (let n0 = \<lparr>nd_Chain = c, nd_publicURL = TrimRight_slash url, nd_StallRestart = False, nd_peers = [], nd_ph = [],
                nd_tipSnap = None, nd_seeds = seedPeers, nd_templates = [], nd_tmplLatest = [], nd_tmplSeq = 0,
                nd_checkpoint = zero_checkpoint, nd_concentrationHigh = False\<rparr>;
          add = foldl (\<lambda>n p. addPeer net nets p n);
          n1 = add (add n0 (case saved of None \<Rightarrow> [] | Some ps \<Rightarrow> ps)) seedPeers;
          n2 = (if isolated then n1 else add n1 fallbackSeeds)
      in map_option (\<lambda>ti. n2\<lparr>nd_tipSnap := Some ti\<rparr>) (myTip cr n2))"

end
