(* ===== verification/Node_Search.thy ===== *)
theory Node_Search
  imports Node_Sync
begin

text \<open>
  The search for the last common block: it ends within 64 requests whatever the peer answers, and against
  a peer that serves a chain it finds the last height at which both chains have the same hash. Advertised
  work survives its textual form.
\<close>

section \<open>Advertised work\<close>

lemma hex_val_not_sign: "hex_val (CHR ''-'') = None" "hex_val (CHR ''+'') = None"
  by (simp_all add: hex_val_def)

lemma read_hex_append: "read_hex a (s @ t) = Option.bind (read_hex a s) (\<lambda>b. read_hex b t)"
  by (induction a s rule: read_hex.induct) (auto split: option.splits)

lemma read_hex_text: "\<exists>k. \<forall>a. read_hex a (hex_text v) = Some (a * 16 ^ k + v)"
proof (induction v rule: hex_text.induct)
  case (1 v)
  show ?case
  proof (cases "v < 16")
    case True
    then have "\<forall>a. read_hex a (hex_text v) = Some (a * 16 ^ 1 + v)"
      by (simp add: hex_text.simps [of v] hex_val_hex_digit)
    then show ?thesis by blast
  next
    case False
    then obtain k where k: "\<forall>a. read_hex a (hex_text (v div 16)) = Some (a * 16 ^ k + v div 16)" using 1 by blast
    then have "\<forall>a. read_hex a (hex_text v) = Some (a * 16 ^ Suc k + v)"
      using False by (simp add: hex_text.simps [of v] read_hex_append hex_val_hex_digit algebra_simps)
    then show ?thesis by blast
  qed
qed

lemma hex_text_head: "hex_text v \<noteq> [] \<and> hex_val (hd (hex_text v)) \<noteq> None"
proof (induction v rule: hex_text.induct)
  case (1 v)
  then show ?case by (cases "v < 16") (simp_all add: hex_text.simps [of v] hex_val_hex_digit)
qed

lemma SetString16_Text16: "SetString16 (Text16 w) = Some w"
proof -
  have r: "read_hex 0 (hex_text v) = Some v" for v using read_hex_text [of v] by auto
  have h: "hd (hex_text v) \<noteq> CHR ''-''" "hd (hex_text v) \<noteq> CHR ''+''" "hex_text v \<noteq> []" for v
    using hex_text_head [of v] hex_val_not_sign by metis+
  show ?thesis by (simp add: SetString16_def Text16_def Let_def r h)
qed

lemma length_hex_text: "v < 16 ^ Suc k \<Longrightarrow> length (hex_text v) \<le> Suc k"
proof (induction v arbitrary: k rule: hex_text.induct)
  case (1 v)
  show ?case
  proof (cases "v < 16")
    case False
    then obtain j where j: "k = Suc j" using "1.prems" by (cases k) simp_all
    then have "v div 16 < 16 ^ Suc j" using "1.prems" by (simp add: less_mult_imp_div_less)
    then show ?thesis using "1.IH" [OF False] False by (simp add: hex_text.simps [of v] j)
  qed (simp add: hex_text.simps [of v])
qed

lemma length_Text16: "0 \<le> w \<Longrightarrow> w < 2 ^ 320 \<Longrightarrow> length (Text16 w) \<le> 80"
proof -
  assume w: "0 \<le> w" "w < 2 ^ 320"
  then have "nat w < nat (2 ^ 320)" by (subst nat_less_eq_zless) simp_all
  then have "nat w < 16 ^ Suc 79" by (simp add: nat_power_eq)
  then have "length (hex_text (nat w)) \<le> Suc 79" by (rule length_hex_text)
  then show ?thesis using w(1) by (simp add: Text16_def)
qed

section \<open>The search ends\<close>

lemma u64_mid:
  fixes lo hi :: u64
  assumes "lo \<le> hi" and "unat hi < 2 ^ 63"
  shows "unat ((lo + hi) div 2) = (unat lo + unat hi) div 2"
proof -
  have l: "unat lo \<le> unat hi" using assms(1) by (simp add: word_le_nat_alt)
  then have "unat (lo + hi) = unat lo + unat hi" using assms(2) by (intro unat_add_lem [THEN iffD1]) simp
  then show ?thesis by (simp add: unat_div)
qed

lemma u64_succ: "unat (x :: u64) < 2 ^ 63 \<Longrightarrow> unat (x + 1) = unat x + 1"
proof -
  assume "unat x < 2 ^ 63"
  then have "unat x + unat (1 :: u64) < 2 ^ LENGTH(64)" by simp
  then have "unat (x + 1) = unat x + unat (1 :: u64)" by (rule unat_add_lem [THEN iffD1])
  then show ?thesis by simp
qed

lemma u64_pred: "(x :: u64) \<noteq> 0 \<Longrightarrow> unat (x - 1) = unat x - 1"
  by (rule unat_minus_one)

lemma find_ancestor_ends:
  assumes "unat hi < 2 ^ 63" and "unat hi + 1 - unat lo < 2 ^ fuel"
  shows "\<exists>r j m. find_ancestor cr p other fuel k lo hi anc n = Some (r, k + j, m) \<and> j \<le> fuel"
  using assms
proof (induction fuel arbitrary: k lo hi anc n)
  case 0
  then have "\<not> lo \<le> hi" by (simp add: word_le_nat_alt)
  then show ?case by (auto simp: find_ancestor.simps)
next
  case (Suc fuel)
  show ?case
  proof (cases "lo \<le> hi")
    case True
    let ?mid = "(lo + hi) div 2"
    have m: "unat ?mid = (unat lo + unat hi) div 2" by (rule u64_mid [OF True Suc.prems(1)])
    have l: "unat lo \<le> unat hi" using True by (simp add: word_le_nat_alt)
    have m63: "unat ?mid < 2 ^ 63" using m l Suc.prems(1) by linarith
    have up: "unat hi + 1 - unat (?mid + 1) < 2 ^ fuel"
      using Suc.prems(2) m l u64_succ [OF m63] by (simp add: algebra_simps)
    have dn: "unat (?mid - 1) < 2 ^ 63" "unat (?mid - 1) + 1 - unat lo < 2 ^ fuel" if "?mid \<noteq> 0"
    proof -
      have "0 < unat ?mid" using that by (simp add: unat_gt_0)
      then show "unat (?mid - 1) < 2 ^ 63" "unat (?mid - 1) + 1 - unat lo < 2 ^ fuel"
        using Suc.prems m l m63 by (simp_all add: u64_pred [OF that])
    qed
    have step: "\<exists>r j m. find_ancestor cr p other fuel (k + 1) lo' hi' a' n' = Some (r, k + j, m) \<and> j \<le> Suc fuel"
      if "unat hi' < 2 ^ 63" "unat hi' + 1 - unat lo' < 2 ^ fuel" for lo' hi' a' n'
    proof -
      note ih = Suc.IH [OF that]
      obtain r j m where "find_ancestor cr p other fuel (k + 1) lo' hi' a' n' = Some (r, k + 1 + j, m)" "j \<le> fuel"
        using ih by blast
      then show ?thesis by (intro exI [of _ r] exI [of _ "Suc j"] exI [of _ m]) simp
    qed
    show ?thesis
    proof (cases "pr_hash p k ?mid")
      case None
      then show ?thesis using True by (subst find_ancestor.simps) (simp add: Let_def)
    next
      case (Some h)
      show ?thesis
        using True Some step [OF Suc.prems(1) up] step [OF dn]
        by (subst find_ancestor.simps) (simp add: Let_def split: option.split)
    qed
  next
    case False
    then show ?thesis by (subst find_ancestor.simps) auto
  qed
qed

section \<open>The search finds the fork\<close>

definition agrees :: "crypto \<Rightarrow> node \<Rightarrow> u64 \<Rightarrow> string \<Rightarrow> bool" where
  "agrees cr n h x \<longleftrightarrow> (case BlockAt (nd_Chain n) h of None \<Rightarrow> False | Some b \<Rightarrow> Hash cr b = x)"

lemma find_ancestor_finds:
  assumes "\<And>h k. h \<le> hi \<Longrightarrow> \<exists>x. pr_hash p k h = Some x \<and> (agrees cr n h x \<longleftrightarrow> h \<le> a)"
    and "unat hi < 2 ^ 63" and "unat hi + 1 - unat lo < 2 ^ fuel"
    and "unat lo \<le> unat a + 1" and "a \<le> hi" and "unat lo = 0 \<or> unat lo = unat anc + 1"
  shows "\<exists>j. find_ancestor cr p (\<lambda>_ n. n) fuel k lo hi anc n = Some (Found a, k + j, n)"
  using assms
proof (induction fuel arbitrary: k lo hi anc)
  case 0
  have "unat lo > unat hi" "unat a \<le> unat hi" using 0(3,5) by (simp_all add: word_le_nat_alt)
  then have "\<not> lo \<le> hi" "anc = a" using 0(4,6) by (simp_all add: word_le_nat_alt word_unat_eq_iff)
  then show ?case by (subst find_ancestor.simps) simp
next
  case (Suc fuel)
  have ahi: "unat a \<le> unat hi" using Suc.prems(5) by (simp add: word_le_nat_alt)
  show ?case
  proof (cases "lo \<le> hi")
    case False
    then have "unat lo > unat hi" by (simp add: word_le_nat_alt)
    then have "unat anc = unat a" using Suc.prems(4,6) ahi by linarith
    then have "anc = a" by (simp add: word_unat_eq_iff)
    then show ?thesis using False by (subst find_ancestor.simps) auto
  next
    case True
    let ?mid = "(lo + hi) div 2"
    have m: "unat ?mid = (unat lo + unat hi) div 2" by (rule u64_mid [OF True Suc.prems(2)])
    have l: "unat lo \<le> unat hi" using True by (simp add: word_le_nat_alt)
    have m63: "unat ?mid < 2 ^ 63" and mhi: "?mid \<le> hi" using m l Suc.prems(2) by (simp_all add: word_le_nat_alt)
    obtain x where x: "pr_hash p k ?mid = Some x" "agrees cr n ?mid x \<longleftrightarrow> ?mid \<le> a" using Suc.prems(1) [OF mhi] by blast
    show ?thesis
    proof (cases "?mid \<le> a")
      case True
      have "unat hi + 1 - unat (?mid + 1) < 2 ^ fuel" "unat (?mid + 1) \<le> unat a + 1"
        using Suc.prems(3) m l u64_succ [OF m63] True by (simp_all add: word_le_nat_alt)
      moreover have "unat (?mid + 1) = unat ?mid + 1" by (rule u64_succ [OF m63])
      ultimately obtain j where "find_ancestor cr p (\<lambda>_ n. n) fuel (k + 1) (?mid + 1) hi ?mid n = Some (Found a, k + 1 + j, n)"
        using Suc.IH [of hi "?mid + 1" ?mid "k + 1"] Suc.prems(1,2,5) by blast
      then show ?thesis using x True \<open>lo \<le> hi\<close>
        by (intro exI [of _ "Suc j"], subst find_ancestor.simps) (simp add: Let_def agrees_def)
    next
      case False
      then have nz: "?mid \<noteq> 0" by auto
      have mp: "unat (?mid - 1) = unat ?mid - 1" "0 < unat ?mid" using nz by (simp_all add: u64_pred unat_gt_0)
      have alt: "unat a < unat ?mid" using False by (simp add: word_le_nat_alt)
      have h1: "unat (?mid - 1) < 2 ^ 63" "unat (?mid - 1) + 1 - unat lo < 2 ^ fuel" "a \<le> ?mid - 1"
        using Suc.prems(3) m l m63 mp alt by (simp_all add: word_le_nat_alt)
      have "?mid - 1 \<le> hi" using mp mhi by (simp add: word_le_nat_alt)
      then have "\<And>h k. h \<le> ?mid - 1 \<Longrightarrow> \<exists>x. pr_hash p k h = Some x \<and> (agrees cr n h x \<longleftrightarrow> h \<le> a)"
        using Suc.prems(1) by (meson order_trans)
      then obtain j where "find_ancestor cr p (\<lambda>_ n. n) fuel (k + 1) lo (?mid - 1) anc n = Some (Found a, k + 1 + j, n)"
        using Suc.IH [of "?mid - 1" lo anc "k + 1"] h1 Suc.prems(4,6) by blast
      then show ?thesis using x False nz \<open>lo \<le> hi\<close>
        by (intro exI [of _ "Suc j"], subst find_ancestor.simps) (simp add: Let_def agrees_def)
    qed
  qed
qed

text \<open>The length of the common part of two chains, by hash.\<close>

definition fork_point :: "crypto \<Rightarrow> block list \<Rightarrow> block list \<Rightarrow> nat" where
  "fork_point cr xs ys = length (takeWhile (\<lambda>(a, b). Hash cr a = Hash cr b) (zip xs ys))"

definition linked :: "crypto \<Rightarrow> block list \<Rightarrow> bool" where
  "linked cr bs \<longleftrightarrow> (\<forall>h. Suc h < length bs \<longrightarrow> blk_PrevHash (bs ! Suc h) = Hash cr (bs ! h))"

text \<open>What collision resistance gives for two chains: equal hashes come from headers with the same parent.\<close>

definition hash_parents :: "crypto \<Rightarrow> block list \<Rightarrow> block list \<Rightarrow> bool" where
  "hash_parents cr xs ys \<longleftrightarrow> (\<forall>a \<in> set xs. \<forall>b \<in> set ys. Hash cr a = Hash cr b \<longrightarrow> blk_PrevHash a = blk_PrevHash b)"

lemma fork_point_less:
  "fork_point cr xs ys \<le> length xs" "fork_point cr xs ys \<le> length ys"
  using length_takeWhile_le [of "\<lambda>(a, b). Hash cr a = Hash cr b" "zip xs ys"] by (simp_all add: fork_point_def)

lemma fork_point_agree:
  assumes "linked cr xs" and "linked cr ys" and "hash_parents cr xs ys" and "h < length xs" and "h < length ys"
  shows "Hash cr (xs ! h) = Hash cr (ys ! h) \<longleftrightarrow> h < fork_point cr xs ys"
proof -
  let ?P = "\<lambda>(a, b). Hash cr a = Hash cr b"
  have down: "Hash cr (xs ! i) = Hash cr (ys ! i)" if "Hash cr (xs ! j) = Hash cr (ys ! j)" "i \<le> j"
    "j < length xs" "j < length ys" for i j
    using that
  proof (induction j)
    case (Suc j)
    have "blk_PrevHash (xs ! Suc j) = blk_PrevHash (ys ! Suc j)"
      using assms(3) Suc.prems by (simp add: hash_parents_def)
    then have "Hash cr (xs ! j) = Hash cr (ys ! j)" using assms(1,2) Suc.prems by (simp add: linked_def)
    then show ?case using Suc by (cases "i = Suc j") auto
  qed simp
  show ?thesis
  proof
    assume "h < fork_point cr xs ys"
    then show "Hash cr (xs ! h) = Hash cr (ys ! h)"
      using set_takeWhileD [of "takeWhile ?P (zip xs ys) ! h" ?P "zip xs ys"] takeWhile_nth [of h ?P "zip xs ys"] assms(4,5)
      by (auto simp: fork_point_def dest: nth_mem)
  next
    assume eq: "Hash cr (xs ! h) = Hash cr (ys ! h)"
    show "h < fork_point cr xs ys"
    proof (rule ccontr)
      assume "\<not> h < fork_point cr xs ys"
      then have f: "fork_point cr xs ys \<le> h" by simp
      then have "\<not> ?P (zip xs ys ! fork_point cr xs ys)"
        using nth_length_takeWhile [of ?P "zip xs ys"] assms(4,5) by (simp add: fork_point_def)
      then show False using down [OF eq f assms(4,5)] f assms(4,5) by simp
    qed
  qed
qed

end
