(* ===== verification/Node_Converge.thy ===== *)
theory Node_Converge
  imports Node_Search Node_Serve
begin

text \<open>
  A node that synchronises with a peer serving a better valid chain ends up on that chain. The caches stay
  sound through the pre-verification and each adopted piece, so that each piece is decided by the
  rules alone.
\<close>

section \<open>The caches survive an adoption\<close>

text \<open>What block validation reads of the record besides the blocks and the state.\<close>

definition cache_view :: "chain \<Rightarrow> chain" where
  "cache_view c = c\<lparr>ch_blocks := [], ch_state := [], ch_cumWork := 0, ch_supply := 0, ch_totals := [], ch_addrTx := [],
     ch_mempool := [], ch_bySender := []\<rparr>"

lemma cache_view_upd [simp]:
  "cache_view (c\<lparr>ch_blocks := a\<rparr>) = cache_view c" "cache_view (c\<lparr>ch_state := b\<rparr>) = cache_view c"
  "cache_view (c\<lparr>ch_mempool := d\<rparr>) = cache_view c" "cache_view (c\<lparr>ch_bySender := e\<rparr>) = cache_view c"
  by (simp_all add: cache_view_def)

lemma cache_viewD:
  assumes "cache_view d = cache_view c"
  shows "caches_ok cr pow U V bs d = caches_ok cr pow U V bs c" "ch_Checkpoints d = ch_Checkpoints c"
    "ch_MaxReorgDepth d = ch_MaxReorgDepth c" "ch_ReorgPenaltyPermille d = ch_ReorgPenaltyPermille c"
proof -
  have f: "ch_verifiedPow (cache_view x) = ch_verifiedPow x" "ch_powOK (cache_view x) = ch_powOK x"
    "ch_sigOK (cache_view x) = ch_sigOK x" "ch_feeAct (cache_view x) = ch_feeAct x" "ch_lwmaAct (cache_view x) = ch_lwmaAct x"
    "ch_drAct (cache_view x) = ch_drAct x" "ch_vmCache (cache_view x) = ch_vmCache x" "ch_vmSeed (cache_view x) = ch_vmSeed x"
    "ch_Checkpoints (cache_view x) = ch_Checkpoints x" "ch_MaxReorgDepth (cache_view x) = ch_MaxReorgDepth x"
    "ch_ReorgPenaltyPermille (cache_view x) = ch_ReorgPenaltyPermille x" for x
    by (simp_all add: cache_view_def)
  have g: "ch_verifiedPow d = ch_verifiedPow c" "ch_powOK d = ch_powOK c" "ch_sigOK d = ch_sigOK c" "ch_feeAct d = ch_feeAct c"
    "ch_lwmaAct d = ch_lwmaAct c" "ch_drAct d = ch_drAct c" "ch_vmCache d = ch_vmCache c" "ch_vmSeed d = ch_vmSeed c"
    by (metis assms f)+
  show "caches_ok cr pow U V bs d = caches_ok cr pow U V bs c"
    by (simp add: caches_ok_def gates_ok_def vm_ok_def memos_sound_def g)
  show "ch_Checkpoints d = ch_Checkpoints c" "ch_MaxReorgDepth d = ch_MaxReorgDepth c"
    "ch_ReorgPenaltyPermille d = ch_ReorgPenaltyPermille c"
    by (metis assms f)+
qed

lemma cache_view_mpDel [simp]: "cache_view (mpDel cr i c) = cache_view c"
  by (simp add: mpDel_def Let_def split: sum.split option.split)

lemma cache_view_prune [simp]: "cache_view (pruneMempoolLocked cr c) = cache_view c"
proof -
  have "cache_view (prune_step cr d p) = cache_view d" for d p
    by (simp add: prune_step_def case_prod_beta Let_def split: sum.split)
  then have "cache_view (foldl (prune_step cr) d ps) = cache_view d" for d ps
    by (induction ps arbitrary: d) simp_all
  then show ?thesis by (simp add: pruneMempoolLocked_def)
qed

lemma cache_view_mpDel_blocks [simp]: "cache_view (foldl (mpDel_block cr) c bs) = cache_view c"
proof -
  have "cache_view (foldl (\<lambda>c t. mpDel cr (ID cr t) c) d ts) = cache_view d" for d ts
    by (induction ts arbitrary: d) simp_all
  then have "cache_view (mpDel_block cr d b) = cache_view d" for d b by (simp add: mpDel_block_def)
  then show ?thesis by (induction bs arbitrary: c) simp_all
qed

lemma cache_view_installed [simp]: "cache_view (installed c bs st tot idx w) = cache_view c"
  by (simp add: installed_def recomputeSupplyLocked_def cache_view_def)

text \<open>
  Every block of a branch, its seed and its transactions are among the known items, which have no key
  collisions with it.
\<close>

fun known :: "crypto \<Rightarrow> pow_fun \<Rightarrow> (bytes \<times> block) set \<Rightarrow> (tx \<times> u64) set \<Rightarrow> block list \<Rightarrow> block list \<Rightarrow> bool" where
  "known cr pow U V prefix [] \<longleftrightarrow> True"
| "known cr pow U V prefix (b # bs) \<longleftrightarrow>
     (let seed = fst (the (epochSeedFor cr prefix (blk_Height b)))
      in (seed, b) \<in> U \<and> seen_ok cr pow U V seed b \<and> (\<forall>t \<in> set (blk_Txs b). (t, blk_Height b) \<in> V)
         \<and> known cr pow U V (prefix @ [b]) bs)"

lemma known_append: "known cr pow U V prefix (xs @ ys) \<longleftrightarrow> known cr pow U V prefix xs \<and> known cr pow U V (prefix @ xs) ys"
  by (induction xs arbitrary: prefix) (simp_all add: Let_def)

lemma known_seen: "known cr pow U V prefix bs \<Longrightarrow> branch_seen cr pow U V prefix bs"
  by (induction bs arbitrary: prefix) (simp_all add: Let_def insert_absorb)

lemma branch_valid_append:
  "branch_valid cr pow now cps prefix (xs @ ys) \<longleftrightarrow>
     branch_valid cr pow now cps prefix xs \<and> branch_valid cr pow now cps (prefix @ xs) ys"
  by (induction xs arbitrary: prefix) simp_all

lemma known_pow_items: "known cr pow U V prefix bs \<Longrightarrow> set (pow_items cr h prefix bs) \<subseteq> U"
proof (induction bs arbitrary: prefix h)
  case (Cons b bs)
  have "set (pow_items cr (h + 1) (prefix @ [b]) bs) \<subseteq> U" using Cons by (simp add: Let_def)
  then show ?case using Cons.prems
    by (cases "epochSeedFor cr prefix (blk_Height b)") (auto simp: Let_def)
qed simp

lemma known_sig_items: "known cr pow U V prefix bs \<Longrightarrow> set (sig_items h bs) \<subseteq> V"
proof (induction bs arbitrary: prefix h)
  case (Cons b bs)
  have "set (sig_items (h + 1) bs) \<subseteq> V"
    using Cons.IH [of "prefix @ [b]" "h + 1"] Cons.prems by (simp add: Let_def)
  then show ?case using Cons.prems by (auto simp: Let_def)
qed simp

lemma preverified_caches:
  assumes "caches_ok cr pow U V bs c" and "known cr pow U V (take (unat start) (ch_blocks c)) nb"
  shows "caches_ok cr pow U V bs (PreVerifySigs cr start nb (PreVerifyPoW cr pow start nb c))"
  using PreVerifySigs_caches [OF PreVerifyPoW_caches [OF assms(1)], of start nb start nb]
    known_pow_items [OF assms(2)] known_sig_items [OF assms(2)] by (simp add: Un_absorb2)

lemma adopt_loop_caches:
  assumes "length cand + length bs < 2 ^ 64" and "caches_ok cr pow U V cand c" and "known cr pow U V cand bs"
    and "adopt_loop cr pow now c cand st tot bs = (Inr x, c')"
  shows "caches_ok cr pow U V (cand @ bs) c'"
  using assms
proof (induction bs arbitrary: c cand st tot)
  case (Cons b bs)
  let ?seed = "fst (the (epochSeedFor cr cand (blk_Height b)))"
  have k: "(?seed, b) \<in> U" "seen_ok cr pow U V ?seed b" "known cr pow U V (cand @ [b]) bs"
    using Cons.prems(3) by (simp_all add: Let_def)
  obtain c1 where v: "validateBlock cr pow now c cand st b = (None, c1)"
    and r: "adopt_loop cr pow now c1 (cand @ [b]) (applyBlockToState cr st b) (applyBlockToTotals cr tot b) bs = (Inr x, c')"
    using Cons.prems(4) by (auto split: prod.splits option.splits)
  have "caches_ok cr pow U V cand c1"
    using validateBlock_caches [OF _ Cons.prems(2) k(2), of now st] Cons.prems(1) k(1) v by (simp add: insert_absorb)
  then show ?case using Cons.IH [OF _ caches_ok_append k(3) r] Cons.prems(1) by simp
qed simp

lemma TryAdopt_keeps_caches:
  assumes inv: "chain_inv cr c" and ok: "fst (TryAdoptChain cr pow now start nb c) = None"
    and cap: "ch_MaxReorgDepth c = 0 \<or> length (ch_blocks c) - unat start \<le> ch_MaxReorgDepth c"
    and len: "length (ch_blocks c) + length nb < 2 ^ 64"
    and k: "caches_ok cr pow U V (take (unat start) (ch_blocks c)) c" "known cr pow U V (take (unat start) (ch_blocks c)) nb"
  shows "caches_ok cr pow U V (ch_blocks (fst (snd (TryAdoptChain cr pow now start nb c))))
      (fst (snd (TryAdoptChain cr pow now start nb c)))"
    and "ch_Checkpoints (fst (snd (TryAdoptChain cr pow now start nb c))) = ch_Checkpoints c"
    and "ch_MaxReorgDepth (fst (snd (TryAdoptChain cr pow now start nb c))) = ch_MaxReorgDepth c"
proof -
  let ?n = "unat start" and ?c' = "fst (snd (TryAdoptChain cr pow now start nb c))"
  obtain w c1 c2 cand st tot idx where g: "adopt_guards cr start nb c = (Inr w, c1)"
    and l: "(if length (ch_blocks c) - ?n = 0
      then adopt_loop cr pow now c1 (ch_blocks c) (ch_state c) (ch_totals c) nb
      else adopt_loop cr pow now c1 (take ?n (ch_blocks c)) (replay cr (take ?n (ch_blocks c)))
             (replay_totals cr (take ?n (ch_blocks c))) nb) = (Inr (cand, st, tot), c2)"
    and res: "?c' = pruneMempoolLocked cr
       (if length (ch_blocks c) - ?n = 0 then foldl (mpDel_block cr) (installed c2 cand st tot idx w) nb
        else installed c2 cand st tot idx w)"
    by (rule TryAdopt_ok [OF ok]) (rule that; assumption)
  have c1: "c1 = c" using g cap by (auto simp: adopt_guards_def Let_def split: if_splits)
  have len2: "length (take ?n (ch_blocks c)) + length nb < 2 ^ 64" using len by simp
  obtain st0 tot0 where l2: "adopt_loop cr pow now c (take ?n (ch_blocks c)) st0 tot0 nb = (Inr (cand, st, tot), c2)"
  proof (cases "length (ch_blocks c) - ?n = 0")
    case True
    then have "take ?n (ch_blocks c) = ch_blocks c" by simp
    then show ?thesis using l that True by (simp add: c1)
  qed (use l that c1 in simp)
  have v: "cache_view ?c' = cache_view c2" unfolding res by simp
  have core: "core_of c2 = core_of c" using adopt_loop_core [of cr pow now c "take ?n (ch_blocks c)" st0 tot0 nb] l2 by simp
  have "caches_ok cr pow U V (take ?n (ch_blocks c) @ nb) c2" by (rule adopt_loop_caches [OF len2 k l2])
  then show "caches_ok cr pow U V (ch_blocks ?c') ?c'"
    by (simp only: cache_viewD(1) [OF v] TryAdopt_success(2) [OF inv ok])
  show "ch_Checkpoints ?c' = ch_Checkpoints c" "ch_MaxReorgDepth ?c' = ch_MaxReorgDepth c"
    using cache_viewD(2,3) [OF v] core_of_fields [OF core] by simp_all
qed

section \<open>One piece\<close>

text \<open>A branch that block validation accepts on the part of the chain below \<open>start\<close>, decided without misses.\<close>

definition ready ::
  "crypto \<Rightarrow> pow_fun \<Rightarrow> u64 \<Rightarrow> (bytes \<times> block) set \<Rightarrow> (tx \<times> u64) set \<Rightarrow> chain \<Rightarrow> u64 \<Rightarrow> block list \<Rightarrow> bool" where
  "ready cr pow now U V c start nb \<longleftrightarrow>
     chain_inv cr c \<and> start \<noteq> 0 \<and> start \<le> blen (ch_blocks c)
     \<and> (ch_MaxReorgDepth c = 0 \<or> length (ch_blocks c) - unat start \<le> ch_MaxReorgDepth c)
     \<and> length (ch_blocks c) < 2 ^ 63 \<and> unat start + length nb < 2 ^ 63
     \<and> caches_ok cr pow U V (take (unat start) (ch_blocks c)) c
     \<and> known cr pow U V (take (unat start) (ch_blocks c)) nb
     \<and> branch_valid cr pow now (ch_Checkpoints c) (take (unat start) (ch_blocks c)) nb"

lemma preverified_fields:
  "ch_blocks (PreVerifySigs cr start nb (PreVerifyPoW cr pow start nb c)) = ch_blocks c"
  "ch_Checkpoints (PreVerifySigs cr start nb (PreVerifyPoW cr pow start nb c)) = ch_Checkpoints c"
  "ch_MaxReorgDepth (PreVerifySigs cr start nb (PreVerifyPoW cr pow start nb c)) = ch_MaxReorgDepth c"
  "ch_cumWork (PreVerifySigs cr start nb (PreVerifyPoW cr pow start nb c)) = ch_cumWork c"
  "ch_ReorgPenaltyPermille (PreVerifySigs cr start nb (PreVerifyPoW cr pow start nb c)) = ch_ReorgPenaltyPermille c"
  by (simp_all add: PreVerifySigs_def PreVerifyPoW_def Let_def)

lemma ready_preverified:
  "ready cr pow now U V c start nb \<Longrightarrow>
    ready cr pow now U V (PreVerifySigs cr start nb (PreVerifyPoW cr pow start nb c)) start nb"
  by (simp add: ready_def preverified_fields preverified_caches chain_inv_other)

lemma preferred_preverified:
  "preferred cr (PreVerifySigs cr start nb (PreVerifyPoW cr pow start nb c)) = preferred cr c"
  by (intro ext) (simp add: preferred_def checkpoint_drop_def work_threshold_def tie_break_win_def preverified_fields)

lemma preferred_extension:
  assumes "chain_inv cr c" and "length (ch_blocks c) < 2 ^ 64" and "nb \<noteq> []" and "\<forall>b \<in> set nb. target_opt b \<noteq> None"
  shows "preferred cr c (blen (ch_blocks c)) nb"
proof -
  have n: "unat (blen (ch_blocks c)) = length (ch_blocks c)" using assms(2) by (simp add: unat_of_nat)
  have ne: "ch_blocks c \<noteq> []" using chain_invD(1) [OF assms(1)] by (rule valid_chain_nonempty)
  have w: "work_or_0 b \<ge> 1" if "b \<in> set nb" for b
    using assms(4) that target_opt_range [of b] WorkOf_pos by (auto simp: work_or_0_def)
  then have "total_work bs \<ge> 0" if "set bs \<subseteq> set nb" for bs using that by (induction bs) fastforce+
  then have "total_work nb \<ge> 1" using assms(3) w by (cases nb) fastforce+
  moreover have "checkpoint_drop c (blen (ch_blocks c)) nb = None"
  proof -
    have "\<not> (h \<ge> blen (ch_blocks c) \<and> h \<le> blen (ch_blocks c) - 1)" for h :: u64
    proof
      assume h: "h \<ge> blen (ch_blocks c) \<and> h \<le> blen (ch_blocks c) - 1"
      have "blen (ch_blocks c) \<noteq> 0" using ne n by (metis length_0_conv unat_0)
      then have "unat (blen (ch_blocks c) - 1) < unat (blen (ch_blocks c))" using n ne by (simp add: unat_minus_one)
      then show False using h by (meson leD order_trans word_le_nat_alt)
    qed
    then have "find (\<lambda>(h, _). h \<ge> blen (ch_blocks c) \<and> h \<le> blen (ch_blocks c) - 1
        \<and> h > blen (ch_blocks c) + blen nb - 1) (ch_Checkpoints c) = None"
      by (auto simp: find_None_iff)
    then show ?thesis by (simp add: checkpoint_drop_def Let_def)
  qed
  ultimately show ?thesis
    using chain_invD(5) [OF assms(1)] by (simp add: preferred_def Let_def n work_threshold_def)
qed

lemma TryAdopt_ready:
  assumes r: "ready cr pow now U V c start nb" and "nb \<noteq> []" and "preferred cr c start nb"
  defines "out \<equiv> TryAdoptChain cr pow now start nb c"
  shows "fst out = None \<and> chain_inv cr (fst (snd out)) \<and> ch_blocks (fst (snd out)) = take (unat start) (ch_blocks c) @ nb
    \<and> caches_ok cr pow U V (ch_blocks (fst (snd out))) (fst (snd out))
    \<and> ch_Checkpoints (fst (snd out)) = ch_Checkpoints c \<and> ch_MaxReorgDepth (fst (snd out)) = ch_MaxReorgDepth c"
proof -
  note d = r [unfolded ready_def]
  have inv: "chain_inv cr c" and st: "start \<noteq> 0" "start \<le> blen (ch_blocks c)"
    and cap: "ch_MaxReorgDepth c = 0 \<or> length (ch_blocks c) - unat start \<le> ch_MaxReorgDepth c"
    and k: "caches_ok cr pow U V (take (unat start) (ch_blocks c)) c" "known cr pow U V (take (unat start) (ch_blocks c)) nb"
    using d by blast+
  have len: "length (ch_blocks c) + length nb < 2 ^ 64" using d by simp
  have ok: "fst (TryAdoptChain cr pow now start nb c) = None"
    using TryAdopt_iff [OF inv st assms(2) cap len k(1) known_seen [OF k(2)], of now] assms(3) d by blast
  show ?thesis
    unfolding out_def using ok TryAdopt_success(1,2) [OF inv ok] TryAdopt_keeps_caches [OF inv ok cap len k] by blast
qed

lemma adopt_ready:
  assumes r: "ready cr pow now U V (nd_Chain n) (anc + 1) nb" and "nb \<noteq> []" and "preferred cr (nd_Chain n) (anc + 1) nb"
  obtains n' where "adopt cr pow now peer h whole anc nb n = (None, n')"
    "chain_inv cr (nd_Chain n')" "ch_blocks (nd_Chain n') = take (unat (anc + 1)) (ch_blocks (nd_Chain n)) @ nb"
    "caches_ok cr pow U V (ch_blocks (nd_Chain n')) (nd_Chain n')"
    "ch_Checkpoints (nd_Chain n') = ch_Checkpoints (nd_Chain n)"
    "ch_MaxReorgDepth (nd_Chain n') = ch_MaxReorgDepth (nd_Chain n)"
proof -
  let ?c1 = "PreVerifySigs cr (anc + 1) nb (PreVerifyPoW cr pow (anc + 1) nb (nd_Chain n))"
  have p: "preferred cr ?c1 (anc + 1) nb" using assms(3) by (simp only: preferred_preverified)
  note t = TryAdopt_ready [OF ready_preverified [OF r] assms(2) p, unfolded preverified_fields]
  obtain e c2 w where o: "TryAdoptChain cr pow now (anc + 1) nb ?c1 = (e, c2, w)" by (metis prod.collapse)
  have snap: "nd_Chain (updateTipSnap cr m) = nd_Chain m" for m by (simp add: updateTipSnap_def split: option.split)
  show ?thesis
    by (rule that [of "updateTipSnap cr (n\<lparr>nd_Chain := c2\<rparr>)"]) (use t [unfolded o fst_conv snd_conv] o snap in \<open>elim conjE, simp add: adopt_def Let_def\<close>)+
qed

end
