(* ===== verification/Node_Follow.thy ===== *)
theory Node_Follow
  imports Node_Converge
begin

text \<open>
  Following a peer. The locale \<open>chain_server\<close> states what a synchronising node relies on: the answers of a
  peer that serves one chain. The handlers of a node are an interpretation, so the convergence of the
  client against the locale is the convergence of one node towards another.
\<close>

section \<open>A peer that serves a chain\<close>

locale chain_server =
  fixes cr :: crypto
    and answers :: "'s \<Rightarrow> peer"
    and served :: "'s \<Rightarrow> block list"
    and good :: "'s \<Rightarrow> bool"
  assumes served_bounds: "good s \<Longrightarrow> served s \<noteq> [] \<and> length (served s) < 2 ^ 63"
    and tip_answer: "good s \<Longrightarrow> pr_tip (answers s) k =
      Some \<lparr>ti_height = blen (served s) - 1, ti_hash = Hash cr (last (served s)), ti_cumwork = Text16 (total_work (served s))\<rparr>"
    and hash_answer: "good s \<Longrightarrow> h < blen (served s) \<Longrightarrow> pr_hash (answers s) k h = Some (Hash cr (served s ! unat h))"
    and blocks_answer: "good s \<Longrightarrow> from < blen (served s) \<Longrightarrow>
      pr_blocks (answers s) k from batchBlocks = Some (take 200 (drop (unat from) (served s)))"
begin

lemma unat_served: "good s \<Longrightarrow> unat (blen (served s)) = length (served s)"
  using served_bounds [of s] by (simp add: unat_of_nat)

lemma less_served: "good s \<Longrightarrow> h < blen (served s) \<longleftrightarrow> unat h < length (served s)"
  by (simp add: word_less_nat_alt unat_served)

lemma unat_tip: "good s \<Longrightarrow> unat (blen (served s) - 1) = length (served s) - 1"
proof -
  assume g: "good s"
  then have "blen (served s) \<noteq> 0" using unat_served [OF g] served_bounds [OF g] by (metis length_0_conv unat_0)
  then show ?thesis by (simp add: unat_minus_one unat_served [OF g])
qed

text \<open>The loop adopts all that is left, in one piece when it is a reorganisation.\<close>

lemma fetch_follows:
  assumes g: "good s" and their: "ti_height their = blen (served s) - 1"
    and "rest = drop (unat from) (served s)" and "rest \<noteq> []" and "unat from = unat (anc + 1) + length pending"
    and "ready cr pow now U V (nd_Chain n) (anc + 1) (pending @ rest)"
    and "isReorg \<Longrightarrow> preferred cr (nd_Chain n) (anc + 1) (pending @ rest)"
    and "\<not> isReorg \<Longrightarrow> unat (anc + 1) = length (ch_blocks (nd_Chain n))"
    and "length rest \<le> fuel"
  shows "\<exists>n'. fetch_loop cr pow now peer their (answers s) (\<lambda>_ n. n) isReorg fuel k from anc pending n = Some (True, n')
    \<and> chain_inv cr (nd_Chain n') \<and> ch_blocks (nd_Chain n') = take (unat (anc + 1)) (ch_blocks (nd_Chain n)) @ pending @ rest"
  using assms(3-)
proof (induction fuel arbitrary: k "from" anc pending n rest)
  case (Suc fuel)
  let ?batch = "take 200 rest" and ?rest = "drop 200 rest"
  let ?pending = "pending @ ?batch" and ?from = "from + blen ?batch"
  note r = Suc.prems(4)
  note d = r [unfolded ready_def]
  have fl: "unat from < length (served s)" using Suc.prems(1,2) by simp
  have b: "pr_blocks (answers s) k from batchBlocks = Some ?batch"
    using blocks_answer [OF g, of "from"] less_served [OF g, of "from"] fl Suc.prems(1) by simp
  have bne: "?batch \<noteq> []" using Suc.prems(2) by simp
  have lr: "length rest = length (served s) - unat from" using Suc.prems(1) by simp
  have lb: "unat (blen ?batch) = length ?batch" by (simp add: unat_of_nat)
  have "unat from + unat (blen ?batch) < 2 ^ LENGTH(64)" using lb lr fl served_bounds [OF g] by (simp add: min_def)
  then have uf: "unat ?from = unat from + length ?batch" using unat_add_lem [THEN iffD1] lb by metis
  have whole: "?from > ti_height their \<longleftrightarrow> ?rest = []"
    using uf lr fl by (simp add: their word_less_nat_alt unat_tip [OF g]) linarith
  have split: "pending @ rest = ?pending @ ?rest" by simp
  have tgt: "\<forall>x \<in> set ys. target_opt x \<noteq> None" if "set ys \<subseteq> set (pending @ rest)" for ys
    using branch_valid_targets d that by blast
  have ext: "preferred cr (nd_Chain n) (anc + 1) ys"
    if "\<not> isReorg" "ys \<noteq> []" "set ys \<subseteq> set (pending @ rest)" for ys
  proof -
    have "unat (blen (ch_blocks (nd_Chain n))) = length (ch_blocks (nd_Chain n))" using d by (simp add: unat_of_nat)
    then have "anc + 1 = blen (ch_blocks (nd_Chain n))" using Suc.prems(6) [OF that(1)] by (simp add: word_unat_eq_iff)
    then show ?thesis using preferred_extension [of cr "nd_Chain n" ys] d that(2) tgt [OF that(3)] by simp
  qed
  let ?W = "?from > ti_height their" and ?loop = "fetch_loop cr pow now peer their (answers s) (\<lambda>_ n. n) isReorg"
  have step: "?loop (Suc fuel) k from anc pending n =
      (if ?W \<or> (\<not> isReorg \<and> length ?pending \<ge> adoptChunk)
       then (case adopt cr pow now peer (ti_hash their) ?W anc ?pending n of
               (Some e, n2) \<Rightarrow> Some (healthyReject e, n2)
             | (None, n2) \<Rightarrow> if ?W then Some (True, n2) else ?loop fuel (k + 1) ?from (Height (nd_Chain n2)) [] n2)
       else ?loop fuel (k + 1) ?from anc ?pending n)"
    using Suc.prems(2) by (simp only: fetch_loop.simps Let_def b option.case bne if_False)
  show ?case
  proof (cases "?rest = []")
    case True
    then have rb: "rest = ?batch" by (metis append_Nil2 append_take_drop_id)
    have p: "preferred cr (nd_Chain n) (anc + 1) (pending @ rest)"
      using Suc.prems(2,5) ext by (cases isReorg) auto
    obtain n' where n': "adopt cr pow now peer (ti_hash their) True anc (pending @ rest) n = (None, n')"
      "chain_inv cr (nd_Chain n')" "ch_blocks (nd_Chain n') = take (unat (anc + 1)) (ch_blocks (nd_Chain n)) @ pending @ rest"
      using adopt_ready [OF r _ p] Suc.prems(2) by (metis append_is_Nil_conv)
    have "?from > ti_height their" using whole True by simp
    then show ?thesis using n' by (simp only: step rb [symmetric] if_True prod.case option.case simp_thms) blast
  next
    case False
    then have nw: "\<not> ?from > ti_height their" using whole by simp
    have lr2: "length ?rest \<le> fuel" using Suc.prems(7) bne by (cases rest) simp_all
    have rest: "?rest = drop (unat ?from) (served s)"
    proof -
      have "length ?batch = 200" using False by simp
      then have u: "unat ?from = 200 + unat from" using uf by simp
      show ?thesis by (simp only: u) (simp only: Suc.prems(1) drop_drop)
    qed
    show ?thesis
    proof (cases "\<not> isReorg \<and> length ?pending \<ge> adoptChunk")
      case True
      have rp: "ready cr pow now U V (nd_Chain n) (anc + 1) ?pending"
        using d unfolding split by (simp add: ready_def branch_valid_append known_append del: append_assoc append_take_drop_id)
      have pp: "preferred cr (nd_Chain n) (anc + 1) ?pending"
        using True bne by (intro ext) (auto dest: in_set_takeD)
      obtain m where m: "adopt cr pow now peer (ti_hash their) False anc ?pending n = (None, m)"
        "chain_inv cr (nd_Chain m)" "ch_blocks (nd_Chain m) = take (unat (anc + 1)) (ch_blocks (nd_Chain n)) @ ?pending"
        "caches_ok cr pow U V (ch_blocks (nd_Chain m)) (nd_Chain m)"
        "ch_Checkpoints (nd_Chain m) = ch_Checkpoints (nd_Chain n)"
        using adopt_ready [OF rp _ pp] bne by (metis append_is_Nil_conv)
      let ?c = "ch_blocks (nd_Chain m)"
      have la: "unat (anc + 1) = length (ch_blocks (nd_Chain n))" using Suc.prems(6) True by blast
      have lc: "length ?c = unat ?from" using m(3) la Suc.prems(3) uf by simp
      have "length ?batch + length ?rest = length rest" by simp
      moreover have "unat (anc + 1) + (length pending + length rest) < 2 ^ 63" using d by simp
      ultimately have l63: "unat ?from + length ?rest < 2 ^ 63" unfolding uf Suc.prems(3) by linarith
      have hb: "Height (nd_Chain m) + 1 = blen ?c" by (simp add: Height_def)
      have ub: "unat (blen ?c) = length ?c" using lc by simp
      have take: "take (unat (blen ?c)) ?c = ?c" by (simp add: ub)
      have nz: "blen ?c \<noteq> 0" using ub m(3) bne by (metis append_is_Nil_conv length_0_conv unat_0)
      have tail: "known cr pow U V ?c ?rest" "branch_valid cr pow now (ch_Checkpoints (nd_Chain m)) ?c ?rest"
        using d unfolding split by (simp_all only: m(3,5) known_append branch_valid_append append_assoc)
      have cap: "length ?c - unat (blen ?c) = 0" and lim: "length ?c < 2 ^ 63" "unat (blen ?c) + length ?rest < 2 ^ 63"
      proof -
        show "length ?c - unat (blen ?c) = 0" using ub by linarith
        show "length ?c < 2 ^ 63" "unat (blen ?c) + length ?rest < 2 ^ 63" unfolding ub using l63 lc by linarith+
      qed
      have rm: "ready cr pow now U V (nd_Chain m) (Height (nd_Chain m) + 1) ([] @ ?rest)"
        unfolding ready_def hb take append_Nil using m(2,4) nz tail cap lim by simp
      have e: "?loop (Suc fuel) k from anc pending n = ?loop fuel (k + 1) ?from (Height (nd_Chain m)) [] m"
        unfolding step using True nw by (simp only: m(1) if_True if_False simp_thms prod.case option.case)
      have q: "take (unat (Height (nd_Chain m) + 1)) ?c @ [] @ ?rest
          = take (unat (anc + 1)) (ch_blocks (nd_Chain n)) @ pending @ rest"
        unfolding hb take by (simp only: m(3) append_Nil append_assoc append_take_drop_id)
      have "\<exists>n'. fetch_loop cr pow now peer their (answers s) (\<lambda>_ n. n) isReorg fuel (k + 1) ?from (Height (nd_Chain m)) [] m
          = Some (True, n') \<and> chain_inv cr (nd_Chain n')
          \<and> ch_blocks (nd_Chain n') = take (unat (Height (nd_Chain m) + 1)) ?c @ [] @ ?rest"
        by (rule Suc.IH [OF rest False _ rm _ _ lr2]) (use True lc ub in \<open>simp_all only: hb simp_thms list.size add_0_right\<close>)
      then show ?thesis unfolding e q .
    next
      case chunk: False
      have "\<exists>n'. fetch_loop cr pow now peer their (answers s) (\<lambda>_ n. n) isReorg fuel (k + 1) ?from anc ?pending n
          = Some (True, n') \<and> chain_inv cr (nd_Chain n')
          \<and> ch_blocks (nd_Chain n') = take (unat (anc + 1)) (ch_blocks (nd_Chain n)) @ ?pending @ ?rest"
      proof (rule Suc.IH [OF rest False _ r [unfolded split] _ _ lr2])
        show "unat ?from = unat (anc + 1) + length ?pending" using uf Suc.prems(3) by (simp only: length_append add.assoc)
        show "preferred cr (nd_Chain n) (anc + 1) (?pending @ ?rest)" if isReorg
          using Suc.prems(5) [OF that] by (simp only: split)
      qed (rule Suc.prems(6))
      moreover have "?loop (Suc fuel) k from anc pending n = ?loop fuel (k + 1) ?from anc ?pending n"
        unfolding step using chunk nw by (simp only: if_False simp_thms)
      ultimately show ?thesis by (simp only: append_assoc append_take_drop_id)
    qed
  qed
qed simp

lemma served_work: "good s \<Longrightarrow> \<forall>b \<in> set (served s). target_opt b \<noteq> None \<Longrightarrow>
    0 \<le> total_work (served s) \<and> total_work (served s) < 2 ^ 320"
proof -
  assume g: "good s" and t: "\<forall>b \<in> set (served s). target_opt b \<noteq> None"
  have "0 \<le> total_work bs \<and> total_work bs \<le> int (length bs) * 2 ^ 256" if "set bs \<subseteq> set (served s)" for bs
    using that
  proof (induction bs)
    case (Cons b bs)
    then obtain x where x: "target_opt b = Some x" using t by auto
    have "0 \<le> WorkOf x" "WorkOf x \<le> 2 ^ 256"
      using target_opt_range [OF x] WorkOf_nonneg WorkOf_antimono [of 0 x] by (simp_all add: WorkOf_def)
    then show ?case using Cons x by (simp add: work_or_0_def algebra_simps)
  qed simp
  note w = this [of "served s", OF subset_refl]
  have "int (length (served s)) * 2 ^ 256 < 2 ^ 63 * 2 ^ 256" using served_bounds [OF g] by simp
  also have "\<dots> \<le> (2 :: int) ^ 320" by simp
  finally show ?thesis using w by linarith
qed

text \<open>
  The whole attempt: when the tip is worth pulling and the rest of the served chain is acceptable, the
  node ends on the common part and that rest.
\<close>

lemma sync_follows:
  assumes g: "good s" and srv: "linked cr (served s)" "\<forall>b \<in> set (served s). target_opt b \<noteq> None"
    and own: "linked cr (ch_blocks (nd_Chain n))" and hp: "hash_parents cr (ch_blocks (nd_Chain n)) (served s)"
    and m: "m = fork_point cr (ch_blocks (nd_Chain n)) (served s)" "0 < m" "m < length (served s)"
    and ahead: "tipAhead (Text16 (total_work (served s))) (Hash cr (last (served s))) (ch_cumWork (nd_Chain n))
      (Hash cr (last (ch_blocks (nd_Chain n))))"
    and doom: "\<not> isDoomed peer (Hash cr (last (served s))) n"
    and r: "ready cr pow now U V (nd_Chain n) (word_of_nat m) (drop m (served s))"
    and p: "m < length (ch_blocks (nd_Chain n)) \<Longrightarrow> preferred cr (nd_Chain n) (word_of_nat m) (drop m (served s))"
    and fuel: "length (served s) \<le> fuel"
  shows "\<exists>n'. syncWithPeerOnce cr pow now t peer (answers s) (\<lambda>_ n. n) fuel n = Some (True, False, n')
    \<and> chain_inv cr (nd_Chain n') \<and> ch_blocks (nd_Chain n') = take m (ch_blocks (nd_Chain n)) @ drop m (served s)"
proof -
  let ?c = "nd_Chain n" and ?n = "markPeer t peer True n"
  let ?their = "\<lparr>ti_height = blen (served s) - 1, ti_hash = Hash cr (last (served s)),
    ti_cumwork = Text16 (total_work (served s))\<rparr>"
  have nc: "nd_Chain ?n = ?c" "isDoomed peer h ?n = isDoomed peer h n" for h by (simp_all add: markPeer_def isDoomed_def)
  note d = r [unfolded ready_def]
  have ne: "ch_blocks ?c \<noteq> []" using chain_invD(1) d valid_chain_nonempty by blast
  have ub: "unat (blen (ch_blocks ?c)) = length (ch_blocks ?c)" using d by (simp add: unat_of_nat)
  have ml: "m \<le> length (ch_blocks ?c)" unfolding m(1) by (rule fork_point_less)
  have um: "unat (word_of_nat m :: u64) = m" using d ml by (simp add: unat_of_nat)
  have tip: "Tip ?c = Some (last (ch_blocks ?c))" using ne by (simp add: Tip_def)
  have bnz: "blen (ch_blocks ?c) \<noteq> 0" using ub ne by (metis length_0_conv unat_0)
  have uh: "unat (Height ?c) = length (ch_blocks ?c) - 1" unfolding Height_def by (simp add: unat_minus_one [OF bnz] ub)
  let ?hi = "if blen (served s) - 1 < Height ?c then blen (served s) - 1 else Height ?c"
  have uhi: "unat ?hi = min (length (ch_blocks ?c)) (length (served s)) - 1"
    by (simp add: word_less_nat_alt unat_tip [OF g] uh min_def)
  have mnz: "(word_of_nat m :: u64) \<noteq> 0" using um m(2) by (metis less_numeral_extra(3) unat_0)
  define a where "a = (word_of_nat m :: u64) - 1"
  have ua: "unat a = m - 1" unfolding a_def by (simp add: unat_minus_one [OF mnz] um)
  have sa: "a + 1 = word_of_nat m" by (simp add: a_def)
  have answers: "\<exists>x. pr_hash (answers s) k h = Some x \<and> (agrees cr ?n h x \<longleftrightarrow> h \<le> a)" if h: "h \<le> ?hi" for h k
  proof -
    have "unat h \<le> min (length (ch_blocks ?c)) (length (served s)) - 1"
      using h unfolding uhi [symmetric] by (simp only: word_le_nat_alt)
    moreover have "0 < min (length (ch_blocks ?c)) (length (served s))" using ne served_bounds [OF g] by simp
    ultimately have "unat h < min (length (ch_blocks ?c)) (length (served s))" by linarith
    then have hl: "unat h < length (ch_blocks ?c)" "unat h < length (served s)" by simp_all
    have at: "BlockAt ?c h = Some (ch_blocks ?c ! unat h)" using hl(1) by (simp add: BlockAt_def word_le_nat_alt ub)
    have "agrees cr ?n h (Hash cr (served s ! unat h)) \<longleftrightarrow> unat h < m"
      unfolding agrees_def nc at option.case m(1) by (rule fork_point_agree [OF own srv(1) hp hl])
    then show ?thesis using hash_answer [OF g, of h k] less_served [OF g, of h] hl(2) m(2) ua by (auto simp: word_le_nat_alt)
  qed
  have "a \<le> ?hi" unfolding word_le_nat_alt uhi ua using ml m(3) by simp
  moreover have "unat ?hi < 2 ^ 63"
  proof -
    have "length (ch_blocks ?c) < 2 ^ 63" using d by blast
    moreover have "unat ?hi \<le> length (ch_blocks ?c)" unfolding uhi by simp
    ultimately show ?thesis by linarith
  qed
  ultimately obtain j where f: "find_ancestor cr (answers s) (\<lambda>_ n. n) 64 1 0 ?hi 0 ?n = Some (Found a, 1 + j, ?n)"
    using find_ancestor_finds [of ?hi "answers s" cr ?n a 0 64 0 1] answers by auto
  have reorg: "a < Height ?c \<longleftrightarrow> m < length (ch_blocks ?c)"
    using m(2) by (simp add: word_less_nat_alt ua uh) linarith
  have "\<exists>n'. fetch_loop cr pow now peer ?their (answers s) (\<lambda>_ n. n) (a < Height ?c) fuel (1 + j) (a + 1) a [] ?n = Some (True, n')
      \<and> chain_inv cr (nd_Chain n') \<and> ch_blocks (nd_Chain n') = take (unat (a + 1)) (ch_blocks (nd_Chain ?n)) @ [] @ drop m (served s)"
    by (rule fetch_follows [OF g]) (use r p m(3) ml fuel ub in \<open>simp_all add: sa um nc reorg\<close>)
  then obtain n' where l: "fetch_loop cr pow now peer ?their (answers s) (\<lambda>_ n. n) (a < Height ?c) fuel (1 + j) (a + 1) a [] ?n = Some (True, n')"
    "chain_inv cr (nd_Chain n')" "ch_blocks (nd_Chain n') = take m (ch_blocks ?c) @ drop m (served s)"
    by (auto simp: sa um nc)
  have w: "length (Text16 (total_work (served s))) \<le> 80" using length_Text16 served_work [OF g srv(2)] by blast
  have more: "total_work (served s) \<ge> ch_cumWork ?c" using ahead w by (simp add: tipAhead_def SetString16_Text16 split: if_splits)
  have pursue: "sync_pursue cr pow now peer ?their (total_work (served s)) (answers s) (\<lambda>_ n. n) fuel ?n = Some (True, False, n')"
    using doom l(1) more by (simp only: sync_pursue_def nc Let_def CumWork_def tip_info.simps f option.case prod.case search.case
        if_False not_less [symmetric] option.map(2))
  have "syncWithPeerOnce cr pow now t peer (answers s) (\<lambda>_ n. n) fuel n = Some (True, False, n')"
    using ahead w more tip pursue
    by (auto simp: syncWithPeerOnce_def tip_answer [OF g] SetString16_Text16 tipAhead_def nc CumWork_def not_less Let_def
        split: if_splits)
  then show ?thesis using l by blast
qed

end

end
