(* ===== verification/Node_Pair.thy ===== *)
theory Node_Pair
  imports Node_Follow
begin

text \<open>
  Two nodes: the handlers of one answer the requests of the other. Requests travel as decimal numbers in a
  URL, blocks as JSON, which drops the cached hashes and identifiers and recomputes them on arrival.
\<close>

section \<open>The transport\<close>

definition wire_tx :: "crypto \<Rightarrow> tx \<Rightarrow> tx" where
  "wire_tx cr t = the (tx_UnmarshalJSON cr (Some (t\<lparr>tx_id := [], tx_fromAddr := []\<rparr>)))"

definition wire :: "crypto \<Rightarrow> block \<Rightarrow> block" where
  "wire cr b = the (block_UnmarshalJSON cr (Some (b\<lparr>blk_Txs := map (wire_tx cr) (blk_Txs b), blk_hash := []\<rparr>)))"

text \<open>The requests a client sends to \<open>m\<close>, with the URL's numbers printed and parsed.\<close>

definition node_peer :: "crypto \<Rightarrow> node \<Rightarrow> peer" where
  "node_peer cr m =
     \<lparr>pr_tip = (\<lambda>_. p2p_tip cr m),
      pr_hash = (\<lambda>_ h. case p2p_hash cr (show_u64 h) m of Inl _ \<Rightarrow> None | Inr x \<Rightarrow> Some x),
      pr_blocks = (\<lambda>_ from cnt. map_option (map (wire cr)) (p2p_blocks (show_u64 from) (show_nat (nat cnt)) m))\<rparr>"

definition served_blocks :: "crypto \<Rightarrow> node \<Rightarrow> block list" where
  "served_blocks cr m = map (wire cr) (ch_blocks (nd_Chain m))"

text \<open>A serving node: consistent, its tip snapshot up to date, its cached hashes coherent.\<close>

definition serving :: "crypto \<Rightarrow> node \<Rightarrow> bool" where
  "serving cr m \<longleftrightarrow>
     chain_inv cr (nd_Chain m) \<and> length (ch_blocks (nd_Chain m)) < 2 ^ 63 \<and> p2p_tip cr m = myTip cr m
     \<and> (\<forall>b \<in> set (ch_blocks (nd_Chain m)). Hash cr b = computeHash cr b)"

section \<open>The handlers serve a chain\<close>

lemma wire_fields [simp]:
  "blk_Version (wire cr b) = blk_Version b" "blk_Height (wire cr b) = blk_Height b" "blk_Time (wire cr b) = blk_Time b"
  "blk_PrevHash (wire cr b) = blk_PrevHash b" "blk_TxRoot (wire cr b) = blk_TxRoot b"
  "blk_Target (wire cr b) = blk_Target b" "blk_Nonce (wire cr b) = blk_Nonce b"
  "blk_Txs (wire cr b) = map (wire_tx cr) (blk_Txs b)"
  by (simp_all add: wire_def block_UnmarshalJSON_def)

lemma Header_wire [simp]: "HeaderBytes (wire cr b) = HeaderBytes b"
  by (simp add: HeaderBytes_def)

lemma Hash_wire [simp]: "Hash cr (wire cr b) = computeHash cr b"
proof -
  have "blk_hash (wire cr b) = computeHash cr b"
    by (simp add: wire_def block_UnmarshalJSON_def computeHash_def HeaderBytes_def)
  then show ?thesis by (simp add: Hash_def computeHash_def)
qed

lemma target_wire [simp]: "TargetInt (wire cr b) = TargetInt b" "target_opt (wire cr b) = target_opt b"
  "work_or_0 (wire cr b) = work_or_0 b"
  by (simp_all add: target_opt_def TargetInt_def work_or_0_def)

lemma total_work_wire [simp]: "total_work (map (wire cr) bs) = total_work bs"
  by (induction bs) simp_all

lemma lossy_digits_read: "read_digits a s = Some v \<Longrightarrow> v < 2 ^ 64 \<Longrightarrow> lossy_digits a s = v"
proof (induction a s rule: read_digits.induct)
  case (2 a c s)
  have mono: "read_digits a s = Some v \<Longrightarrow> a \<le> v" for a s v
    by (induction a s rule: read_digits.induct) (fastforce split: option.splits)+
  show ?case using 2 mono by (fastforce split: option.splits)
qed simp

lemma ParseUint_show [simp]: "ParseUint_lossy (show_u64 h) = h"
  using lossy_digits_read [OF read_show_nat, of "unat h"] unsigned_less [of h, where 'a = nat]
  by (simp add: ParseUint_lossy_def show_u64_def)

lemma Atoi_200: "Atoi_lossy (show_nat 200) = 200"
  by (simp add: show_nat.simps dec_digit_def Atoi_lossy_def dec_val_def)

lemma tip_height_links: "valid_chain cr bs \<Longrightarrow> blk_Height (last bs) = blen bs - 1"
  by (induction rule: valid_chain.induct) (simp_all add: block_sound_def GenesisBlock_def)

lemma valid_chain_linked: "valid_chain cr bs \<Longrightarrow> linked cr bs"
  unfolding linked_def
proof (intro allI impI)
  fix h assume v: "valid_chain cr bs" and h: "Suc h < length bs"
  have "block_sound cr (take (Suc h) bs) (bs ! Suc h)" using valid_chain_nth [OF v, of "Suc h"] h by simp
  moreover have "last (take (Suc h) bs) = bs ! h" using h by (simp add: take_Suc_conv_app_nth)
  ultimately show "blk_PrevHash (bs ! Suc h) = Hash cr (bs ! h)" by (simp add: block_sound_def)
qed

interpretation node_server: chain_server cr "node_peer cr" "served_blocks cr" "serving cr" for cr
proof unfold_locales
  fix m :: node and k and h "from" :: u64
  let ?bs = "ch_blocks (nd_Chain m)"
  assume g: "serving cr m"
  then have v: "valid_chain cr ?bs" and l: "length ?bs < 2 ^ 63" and tip: "p2p_tip cr m = myTip cr m"
    and hash: "\<forall>b \<in> set ?bs. Hash cr b = computeHash cr b" and w: "ch_cumWork (nd_Chain m) = total_work ?bs"
    using chain_invD(1,5) [of cr "nd_Chain m"] unfolding serving_def by blast+
  have ne: "?bs \<noteq> []" using v by (rule valid_chain_nonempty)
  have ub: "unat (blen ?bs) = length ?bs" using l by (simp add: unat_of_nat)
  show "served_blocks cr m \<noteq> [] \<and> length (served_blocks cr m) < 2 ^ 63" using ne l by (simp add: served_blocks_def)
  show "pr_tip (node_peer cr m) k = Some \<lparr>ti_height = blen (served_blocks cr m) - 1,
      ti_hash = Hash cr (last (served_blocks cr m)), ti_cumwork = Text16 (total_work (served_blocks cr m))\<rparr>"
    using ne hash by (simp add: node_peer_def tip myTip_def Tip_def served_blocks_def tip_height_links [OF v] last_map CumWork_def w)
  show "pr_hash (node_peer cr m) k h = Some (Hash cr (served_blocks cr m ! unat h))" if "h < blen (served_blocks cr m)"
  proof -
    have lt: "h < blen ?bs" using that by (simp add: served_blocks_def)
    then have "unat h < length ?bs" by (simp add: word_less_nat_alt ub)
    then show ?thesis using lt hash by (simp add: node_peer_def p2p_hash_def BlockAt_def served_blocks_def leD)
  qed
  show "pr_blocks (node_peer cr m) k from 200 = Some (take 200 (drop (unat from) (served_blocks cr m)))"
    if "from < blen (served_blocks cr m)"
  proof -
    have lt: "from < blen ?bs" using that by (simp add: served_blocks_def)
    then have f: "unat from < length ?bs" by (simp add: word_less_nat_alt ub)
    have e: "unat (from + 200) = unat from + 200"
      using f l by (subst unat_add_lem [THEN iffD1]) simp_all
    have "Blocks (nd_Chain m) from 200 = Some (take 200 (drop (unat from) ?bs))"
    proof (cases "from + 200 > blen ?bs")
      case True
      then have "length ?bs < unat from + 200" by (simp add: word_less_nat_alt ub e)
      then show ?thesis using True lt f by (simp add: Blocks_def Let_def ub leD)
    next
      case False
      have "\<not> from + 200 < from" by (simp add: word_less_nat_alt e)
      then show ?thesis using False lt by (simp add: Blocks_def Let_def e leD)
    qed
    then show ?thesis
      by (simp add: node_peer_def p2p_blocks_def Atoi_200 served_blocks_def take_map drop_map Let_def)
  qed
qed

section \<open>One node follows another\<close>

lemma serving_targets:
  assumes "serving cr m"
  shows "linked cr (served_blocks cr m)" "\<forall>b \<in> set (served_blocks cr m). target_opt b \<noteq> None"
proof -
  let ?bs = "ch_blocks (nd_Chain m)"
  have v: "valid_chain cr ?bs" and h: "\<forall>b \<in> set ?bs. Hash cr b = computeHash cr b"
    using assms chain_invD(1) [of cr "nd_Chain m"] unfolding serving_def by blast+
  show "linked cr (served_blocks cr m)"
    using valid_chain_linked [OF v] h by (simp add: linked_def served_blocks_def)
  show "\<forall>b \<in> set (served_blocks cr m). target_opt b \<noteq> None"
    using valid_chain_targets [OF v] by (auto simp: served_blocks_def)
qed

lemma fork_point_pos:
  assumes "chain_inv cr c" and "serving cr m"
  shows "0 < fork_point cr (ch_blocks c) (served_blocks cr m)"
proof -
  have v: "valid_chain cr (ch_blocks c)" "valid_chain cr (ch_blocks (nd_Chain m))"
    using assms chain_invD(1) unfolding serving_def by blast+
  have "computeHash cr (GenesisBlock cr) = Hash cr (GenesisBlock cr)" by (simp add: Hash_def GenesisBlock_def)
  then show ?thesis
    using valid_chain_hd [OF v(1)] valid_chain_hd [OF v(2)] valid_chain_nonempty [OF v(1)] valid_chain_nonempty [OF v(2)]
    by (cases "ch_blocks c"; cases "ch_blocks (nd_Chain m)") (simp_all add: fork_point_def served_blocks_def)
qed

text \<open>(C5)
  A node catches up with a better peer. Let \<open>m\<close> be a consistent node and \<open>k\<close> the length of the part that
  both chains share by hash. If \<open>m\<close>'s advertised tip is worth pulling, is not remembered as doomed, and
  the blocks of \<open>m\<close> after the common part are valid next blocks within the reorganisation cap (for a
  reorganisation, preferred by the fork choice), then one synchronisation attempt through \<open>m\<close>'s handlers
  reports the peer usable and leaves the node on exactly the common part followed by \<open>m\<close>'s blocks,
  however many batches and chunks that takes.
\<close>

theorem node_catches_up:
  assumes "serving cr m" and "hash_parents cr (ch_blocks (nd_Chain n)) (served_blocks cr m)"
    and "k = fork_point cr (ch_blocks (nd_Chain n)) (served_blocks cr m)" and "k < length (served_blocks cr m)"
    and "tipAhead (Text16 (CumWork (nd_Chain m))) (Hash cr (last (ch_blocks (nd_Chain m)))) (CumWork (nd_Chain n))
      (Hash cr (last (ch_blocks (nd_Chain n))))"
    and "\<not> isDoomed peer (Hash cr (last (ch_blocks (nd_Chain m)))) n"
    and "ready cr pow now U V (nd_Chain n) (word_of_nat k) (drop k (served_blocks cr m))"
    and "k < length (ch_blocks (nd_Chain n)) \<Longrightarrow> preferred cr (nd_Chain n) (word_of_nat k) (drop k (served_blocks cr m))"
    and "length (served_blocks cr m) \<le> fuel"
  shows "\<exists>n'. syncWithPeerOnce cr pow now t peer (node_peer cr m) (\<lambda>_ n. n) fuel n = Some (True, False, n')
    \<and> chain_inv cr (nd_Chain n')
    \<and> ch_blocks (nd_Chain n') = take k (ch_blocks (nd_Chain n)) @ drop k (served_blocks cr m)"
proof -
  let ?bs = "ch_blocks (nd_Chain m)"
  have inv: "chain_inv cr (nd_Chain n)" using assms(7) unfolding ready_def by blast
  have sv: "chain_inv cr (nd_Chain m)" "\<forall>b \<in> set ?bs. Hash cr b = computeHash cr b"
    using assms(1) unfolding serving_def by blast+
  have ne: "?bs \<noteq> []" using chain_invD(1) [OF sv(1)] by (rule valid_chain_nonempty)
  have last: "Hash cr (last (served_blocks cr m)) = Hash cr (last ?bs)" using ne sv(2) by (simp add: served_blocks_def last_map)
  have work: "total_work (served_blocks cr m) = CumWork (nd_Chain m)"
    using chain_invD(5) [OF sv(1)] by (simp add: served_blocks_def CumWork_def)
  show ?thesis
    by (rule node_server.sync_follows [OF assms(1) serving_targets [OF assms(1)]])
      (use assms(2-9) fork_point_pos [OF inv assms(1)] valid_chain_linked [OF chain_invD(1) [OF inv]] in
        \<open>simp_all add: last work CumWork_def\<close>)
qed

section \<open>A concrete pair\<close>

text \<open>A digest that keeps the first bytes, so that headers of different heights hash differently.\<close>

definition header_crypto :: crypto where
  "header_crypto = demo_crypto\<lparr>sha256 := (\<lambda>m. take 32 (m @ replicate 32 0))\<rparr>"

definition header_coinbase :: tx where
  "header_coinbase = genesis_coinbase\<lparr>tx_To := AddrFromPub header_crypto (replicate 32 1), tx_Amount := 5000000000, tx_Nonce := 1\<rparr>"

definition header_block :: block where
  "header_block = wire header_crypto \<lparr>blk_Version = 1, blk_Height = 1, blk_Time = 1781136060,
     blk_PrevHash = Hash header_crypto (GenesisBlock header_crypto),
     blk_TxRoot = ComputeTxRoot header_crypto [header_coinbase], blk_Target = the (TargetToHex GenesisTarget),
     blk_Nonce = 0, blk_Txs = [header_coinbase], blk_hash = []\<rparr>"

definition bare_node :: "chain \<Rightarrow> node" where
  "bare_node c = \<lparr>nd_Chain = c, nd_publicURL = [], nd_StallRestart = False, nd_peers = [], nd_ph = [], nd_tipSnap = None,
     nd_seeds = [], nd_templates = [], nd_tmplLatest = [], nd_tmplSeq = 0, nd_checkpoint = zero_checkpoint,
     nd_concentrationHigh = False\<rparr>"

lemma digest32_header [simp]: "digest32 header_crypto"
  by (simp add: digest32_def header_crypto_def min_def)

lemma wire_wire: "wire cr (wire cr b) = wire cr b"
proof -
  have "wire_tx cr (wire_tx cr t) = wire_tx cr t" for t
    by (simp add: wire_tx_def tx_UnmarshalJSON_def cacheFromAddr_def IsCoinbase_def case_prod_beta Let_def computeID_def
        SigningPayload_def)
  then show ?thesis by (simp add: wire_def block_UnmarshalJSON_def computeHash_def HeaderBytes_def)
qed

lemma wire_header_block: "wire header_crypto header_block = header_block"
  by (simp add: header_block_def wire_wire)

lemma header_block_valid:
  "block_valid header_crypto easy_pow 1781136060 [] [GenesisBlock header_crypto] st header_block"
proof -
  let ?w = "wire_tx header_crypto header_coinbase"
  have w: "IsCoinbase ?w" "tx_To ?w = tx_To header_coinbase" "tx_Amount ?w = tx_Amount header_coinbase"
      "tx_Nonce ?w = tx_Nonce header_coinbase" "ID header_crypto ?w = ID header_crypto header_coinbase"
    by (simp_all add: wire_tx_def tx_UnmarshalJSON_def cacheFromAddr_def IsCoinbase_def header_coinbase_def genesis_coinbase_def
        ID_def computeID_def SigningPayload_def)
  have hdr: "header_fields_ok header_block"
    by (simp add: header_fields_ok_def header_block_def genesis_target ComputeTxRoot_def Hash_def computeHash_def
        GenesisBlock_def valid64Hex_digest)
  have body: "body_valid header_crypto [GenesisBlock header_crypto] st header_block"
    using ValidAddr_AddrFromPub [OF digest32_header] w
    by (simp add: body_valid_def header_block_def TotalFees_def BlockSubsidy_def ComputeTxRoot_def)
      (simp add: header_coinbase_def genesis_coinbase_def IsCoinbase_def)
  have tgt: "TargetInt header_block = Inr GenesisTarget" by (rule genesis_target) (simp add: header_block_def)
  have "pow_passes easy_pow seed header_block" for seed
    using tgt from_be_replicate0 [of 32 "[]"]
    by (simp add: pow_passes_def easy_pow_def HashMeetsTarget_def GenesisTarget_def from_be_def)
  then show ?thesis
    using hdr body tgt
    by (simp add: block_valid_def expectedTarget_genesis target_opt_def medianTime_single)
      (simp add: header_block_def GenesisBlock_def)
qed

lemma header_block_ready:
  "\<exists>U V. ready header_crypto easy_pow 1781136060 U V (cold_chain header_crypto) 1 [header_block]"
proof -
  let ?g = "[GenesisBlock header_crypto]"
  define seed where "seed = fst (the (epochSeedFor header_crypto ?g (blk_Height header_block)))"
  let ?U = "{(seed, header_block)}" and ?V = "(\<lambda>t. (t, blk_Height header_block)) ` set (blk_Txs header_block)"
  have seen: "seen_ok header_crypto easy_pow ?U ?V seed header_block"
  proof -
    have "set (blk_Txs header_block) = {wire_tx header_crypto header_coinbase}" by (simp add: header_block_def)
    then show ?thesis
      unfolding seen_ok_def pows.no_collision_def blocks.no_collision_def sigs.no_collision_def
      by (simp add: same_pow_def same_wire_def)
  qed
  have k: "known header_crypto easy_pow ?U ?V ?g [header_block]" using seen by (simp add: Let_def flip: seed_def)
  have c: "caches_ok header_crypto easy_pow ?U ?V ?g (cold_chain header_crypto)"
    by (rule caches_ok_mono [OF cold_chain_fields(3)]) simp_all
  have "ready header_crypto easy_pow 1781136060 ?U ?V (cold_chain header_crypto) 1 [header_block]"
    using cold_chain_inv [of header_crypto] k c header_block_valid by (simp add: ready_def cold_chain_fields)
  then show ?thesis by blast
qed

lemma header_block_preferred: "preferred header_crypto (cold_chain header_crypto) 1 [header_block]"
proof -
  have "target_opt header_block \<noteq> None" using header_block_valid by (simp add: block_valid_def)
  then show ?thesis
    using preferred_extension [OF cold_chain_inv [of header_crypto], of "[header_block]"] by (simp add: cold_chain_fields)
qed

definition header_server :: node where
  "header_server = bare_node (fst (snd (TryAdoptChain header_crypto easy_pow 1781136060 1 [header_block] (cold_chain header_crypto))))"

lemma header_server_chain:
  "chain_inv header_crypto (nd_Chain header_server)"
  "ch_blocks (nd_Chain header_server) = [GenesisBlock header_crypto, header_block]"
proof -
  obtain U V where "ready header_crypto easy_pow 1781136060 U V (cold_chain header_crypto) 1 [header_block]"
    using header_block_ready by blast
  from TryAdopt_ready [OF this _ header_block_preferred]
  show "chain_inv header_crypto (nd_Chain header_server)"
    "ch_blocks (nd_Chain header_server) = [GenesisBlock header_crypto, header_block]"
    by (simp_all add: header_server_def bare_node_def cold_chain_fields)
qed

lemma header_server_serving:
  "serving header_crypto header_server"
  "served_blocks header_crypto header_server = [wire header_crypto (GenesisBlock header_crypto), header_block]"
proof -
  have "Hash header_crypto (GenesisBlock header_crypto) = computeHash header_crypto (GenesisBlock header_crypto)"
    by (simp add: Hash_def GenesisBlock_def)
  moreover have "Hash header_crypto header_block = computeHash header_crypto header_block"
    using Hash_wire [of header_crypto header_block] by (simp add: wire_header_block)
  moreover have "p2p_tip header_crypto header_server = myTip header_crypto header_server"
    by (simp add: p2p_tip_def header_server_def bare_node_def)
  ultimately show "serving header_crypto header_server" by (simp add: serving_def header_server_chain)
  show "served_blocks header_crypto header_server = [wire header_crypto (GenesisBlock header_crypto), header_block]"
    by (simp add: served_blocks_def header_server_chain wire_header_block)
qed

lemma header_hash_differs: "computeHash header_crypto (GenesisBlock header_crypto) \<noteq> computeHash header_crypto header_block"
proof
  assume "computeHash header_crypto (GenesisBlock header_crypto) = computeHash header_crypto header_block"
  then have "take 12 (take 32 (HeaderBytes (GenesisBlock header_crypto))) = take 12 (take 32 (HeaderBytes header_block))"
    by (simp add: computeHash_def header_crypto_def)
  then have "le_bytes 8 (blk_Height (GenesisBlock header_crypto)) = le_bytes 8 (blk_Height header_block)"
    by (simp add: HeaderBytes_def header_block_def GenesisBlock_def)
  then show False by (simp add: header_block_def GenesisBlock_def)
qed

theorem node_catches_up_witness:
  "\<exists>n'. syncWithPeerOnce header_crypto easy_pow 1781136060 7 ''http://p'' (node_peer header_crypto header_server) (\<lambda>_ n. n) 2
      (bare_node (cold_chain header_crypto)) = Some (True, False, n')
    \<and> ch_blocks (nd_Chain n') = [GenesisBlock header_crypto, header_block]"
proof -
  let ?n = "bare_node (cold_chain header_crypto)" and ?g = "GenesisBlock header_crypto"
  have n: "nd_Chain ?n = cold_chain header_crypto" "\<not> isDoomed p h ?n" for p h by (simp_all add: bare_node_def isDoomed_def)
  have hg: "Hash header_crypto ?g = computeHash header_crypto ?g" by (simp add: Hash_def GenesisBlock_def)
  have hb: "Hash header_crypto header_block = computeHash header_crypto header_block"
    using Hash_wire [of header_crypto header_block] by (simp add: wire_header_block)
  have par: "hash_parents header_crypto (ch_blocks (nd_Chain ?n)) (served_blocks header_crypto header_server)"
    using header_hash_differs by (simp add: hash_parents_def n cold_chain_fields header_server_serving(2) hg hb)
  have k: "1 = fork_point header_crypto (ch_blocks (nd_Chain ?n)) (served_blocks header_crypto header_server)"
    by (simp add: fork_point_def n cold_chain_fields header_server_serving(2) hg)
  have w: "CumWork (nd_Chain header_server) > CumWork (cold_chain header_crypto)"
  proof -
    have "total_work [header_block] > 0"
      using header_block_preferred chain_invD(5) [OF cold_chain_inv [of header_crypto]]
      by (simp add: preferred_def Let_def work_threshold_def tie_break_win_def cold_chain_fields)
    then show ?thesis
      using chain_invD(5) [OF cold_chain_inv [of header_crypto]] chain_invD(5) [OF header_server_chain(1)]
      by (simp add: CumWork_def header_server_chain(2) cold_chain_fields)
  qed
  have "length (Text16 (CumWork (nd_Chain header_server))) \<le> 80"
    using length_Text16 node_server.served_work [OF header_server_serving(1) serving_targets(2) [OF header_server_serving(1)]]
      chain_invD(5) [OF header_server_chain(1)] by (simp add: CumWork_def served_blocks_def)
  then have ahead: "tipAhead (Text16 (CumWork (nd_Chain header_server))) (Hash header_crypto (last (ch_blocks (nd_Chain header_server))))
      (CumWork (nd_Chain ?n)) (Hash header_crypto (last (ch_blocks (nd_Chain ?n))))"
    using w by (simp add: tipAhead_def SetString16_Text16 n)
  obtain U V where r: "ready header_crypto easy_pow 1781136060 U V (cold_chain header_crypto) 1 [header_block]"
    using header_block_ready by blast
  have rd: "ready header_crypto easy_pow 1781136060 U V (nd_Chain ?n) (word_of_nat 1) (drop 1 (served_blocks header_crypto header_server))"
    using r by (simp add: n header_server_serving(2))
  show ?thesis
    using node_catches_up [OF header_server_serving(1) par k _ ahead n(2) rd, of 2 7 "''http://p''"]
    by (simp add: n cold_chain_fields header_server_serving(2)) blast
qed

end
