(* ===== verification/Node_Jobs.thy ===== *)
theory Node_Jobs
  imports Node_Pair
begin

text \<open>
  Mining jobs: \<open>getTemplate\<close> hands out blocks that pay the asking address and extend the tip, under
  identifiers that \<open>/api/submitwork\<close> resolves to the same block.
\<close>

section \<open>The cap\<close>

lemma oldest_min:
  assumes "\<forall>(k, e) \<in> set ts. k \<noteq> []" and "ts \<noteq> []"
  shows "\<exists>e. (oldest_template ts, e) \<in> set ts \<and> (\<forall>(k, x) \<in> set ts. wt_born e \<le> wt_born x)"
proof -
  let ?f = "\<lambda>(o1, born) (k, e). if o1 = [] \<or> wt_born e < born then (k, wt_born e) else (o1, born)"
  have step: "o1 \<noteq> [] \<Longrightarrow> \<forall>(k, e) \<in> set xs. k \<noteq> [] \<Longrightarrow>
      \<exists>k b. foldl ?f (o1, born) xs = (k, b) \<and> b \<le> born \<and> (\<forall>(j, x) \<in> set xs. b \<le> wt_born x)
        \<and> ((k, b) = (o1, born) \<or> (\<exists>e. (k, e) \<in> set xs \<and> wt_born e = b))" for o1 born xs
  proof (induction xs arbitrary: o1 born)
    case (Cons p xs)
    obtain j x where p: "p = (j, x)" by (cases p)
    define s where "s = ?f (o1, born) (j, x)"
    have s: "fst s \<noteq> []" "snd s \<le> born" "snd s \<le> wt_born x" "s = (o1, born) \<or> s = (j, wt_born x)"
      using Cons.prems by (auto simp: s_def p)
    obtain k b where kb: "foldl ?f (fst s, snd s) xs = (k, b)" "b \<le> snd s" "\<forall>(j, x) \<in> set xs. b \<le> wt_born x"
        "(k, b) = (fst s, snd s) \<or> (\<exists>e. (k, e) \<in> set xs \<and> wt_born e = b)"
      using Cons.IH [OF s(1), of "snd s"] Cons.prems(2) by auto
    have "foldl ?f (o1, born) (p # xs) = (k, b)" using kb(1) by (simp add: p s_def)
    then show ?case using kb(2-4) s(2-4) by (intro exI [of _ k] exI [of _ b]) (auto simp: p)
  qed simp
  obtain j x xs where ts: "ts = (j, x) # xs" using assms(2) by (cases ts) auto
  then have j: "j \<noteq> []" "\<forall>(k, e) \<in> set xs. k \<noteq> []" using assms(1) by auto
  show ?thesis using step [OF j, of "wt_born x"] by (fastforce simp: oldest_template_def ts)
qed

lemma set_delete: "set (AList.delete k m) \<subseteq> set m"
  by (auto simp: AList.delete_eq)

lemma cap_templates_spec:
  assumes "gm_invar ts" and "\<forall>(k, e) \<in> set ts. k \<noteq> []"
  shows "gm_invar (cap_templates ts) \<and> set (cap_templates ts) \<subseteq> set ts \<and> length (cap_templates ts) \<le> maxTemplates
    \<and> (map_of ts i = Some e \<longrightarrow> (\<forall>(k, x) \<in> set ts. k \<noteq> i \<longrightarrow> wt_born x < wt_born e) \<longrightarrow> map_of (cap_templates ts) i = Some e)"
  using assms
proof (induction ts rule: cap_templates.induct)
  case (1 ts)
  show ?case
  proof (cases "length ts > maxTemplates")
    case True
    let ?d = "AList.delete (oldest_template ts) ts"
    have inv: "gm_invar ?d" using "1.prems"(1) by (rule gmap.invar_del)
    have sub: "set ?d \<subseteq> set ts" by (rule set_delete)
    have ne: "\<forall>(k, e) \<in> set ?d. k \<noteq> []" using "1.prems"(2) sub by blast
    have keep: "map_of ?d i = Some e" if "map_of ts i = Some e" "\<forall>(k, x) \<in> set ts. k \<noteq> i \<longrightarrow> wt_born x < wt_born e"
    proof -
      have "ts \<noteq> []" using True by auto
      from oldest_min [OF "1.prems"(2) this]
      obtain x where x: "(oldest_template ts, x) \<in> set ts" "\<forall>(k, y) \<in> set ts. wt_born x \<le> wt_born y" by blast
      have "oldest_template ts \<noteq> i"
      proof
        assume eq: "oldest_template ts = i"
        have "card (set ts) > 1" using "1.prems"(1) True distinct_card [of ts] by (simp add: gm_invar_def distinct_map)
        then obtain k y where y: "(k, y) \<in> set ts" "(k, y) \<noteq> (i, e)"
          by (metis One_nat_def card_le_Suc0_iff_eq finite_set linorder_not_less prod.exhaust)
        have "map_of ts k = Some y" using y(1) "1.prems"(1) by (simp add: gm_invar_def)
        then have ki: "k \<noteq> i" using that(1) y(2) by auto
        have "map_of ts i = Some x" using x(1) "1.prems"(1) eq by (simp add: gm_invar_def)
        then have "x = e" using that(1) by simp
        then show False using that(2) y(1) ki x(2) by fastforce
      qed
      then show ?thesis using that(1) by (simp add: delete_conv')
    qed
    have ih: "gm_invar (cap_templates ?d) \<and> set (cap_templates ?d) \<subseteq> set ?d \<and> length (cap_templates ?d) \<le> maxTemplates
      \<and> (map_of ?d i = Some e \<longrightarrow> (\<forall>(k, x) \<in> set ?d. k \<noteq> i \<longrightarrow> wt_born x < wt_born e) \<longrightarrow> map_of (cap_templates ?d) i = Some e)"
      by (rule "1.IH" [OF True inv ne])
    show ?thesis unfolding cap_templates.simps [of ts] if_P [OF True] using ih keep sub by blast
  next
    case False
    then show ?thesis using "1.prems" by (simp add: cap_templates.simps [of ts])
  qed
qed

section \<open>Identifiers\<close>

lemma sep_text36: "CHR ''|'' \<notin> set (text36 v)"
proof (induction v rule: text36.induct)
  case (1 v)
  have "''0123456789abcdefghijklmnopqrstuvwxyz'' ! (v mod 36) \<in> set ''0123456789abcdefghijklmnopqrstuvwxyz''"
    by (rule nth_mem) simp
  moreover have "CHR ''|'' \<notin> set ''0123456789abcdefghijklmnopqrstuvwxyz''" by simp
  ultimately have "''0123456789abcdefghijklmnopqrstuvwxyz'' ! (v mod 36) \<noteq> CHR ''|''" by metis
  then show ?case using 1 by (cases "v < 36") (simp_all add: text36.simps [of v] Let_def)
qed

lemma last_sep_unique:
  assumes "x @ c # s = y @ c # t" and "c \<notin> set s" and "c \<notin> set t"
  shows "x = y"
proof -
  have "takeWhile (\<lambda>d. d \<noteq> c) (rev z @ c # rev w) = rev z" if "c \<notin> set z" for z w
    using that by (subst takeWhile_append2) auto
  from this [OF assms(2)] this [OF assms(3)] arg_cong [OF assms(1), of rev]
  have "rev s = rev t" by (metis append.assoc append_Cons append_Nil rev.simps(2) rev_append)
  then show ?thesis using assms(1) by simp
qed

lemma key_unique: "tip @ ''|'' @ addr = tip' @ ''|'' @ addr' \<Longrightarrow> ValidAddr addr \<Longrightarrow> ValidAddr addr' \<Longrightarrow> tip = tip' \<and> addr = addr'"
  by (simp add: ValidAddr_def)

section \<open>The jobs of a node\<close>

text \<open>
  Identifiers are distinct and not empty, jobs have no cached hash, and the current identifier under a key
  names, while it is held, a block that extends the key's tip and pays the key's address.
\<close>

definition job_named :: "(string, work_template) gomap \<Rightarrow> string \<Rightarrow> string \<Rightarrow> bool" where
  "job_named ts key i \<longleftrightarrow>
     (\<exists>v. i = key @ ''|'' @ text36 v)
     \<and> (\<exists>tip addr. key = tip @ ''|'' @ addr \<and> ValidAddr addr
          \<and> (\<forall>e. map_of ts i = Some e \<longrightarrow> blk_PrevHash (wt_blk e) = tip \<and> tx_To (hd (blk_Txs (wt_blk e))) = addr))"

lemma job_named_mono: "job_named ts key i \<Longrightarrow> (\<And>e. map_of us i = Some e \<Longrightarrow> map_of ts i = Some e) \<Longrightarrow> job_named us key i"
  unfolding job_named_def by blast

definition jobs_ok :: "node \<Rightarrow> bool" where
  "jobs_ok n \<longleftrightarrow>
     gm_invar (nd_templates n) \<and> length (nd_templates n) \<le> maxTemplates
     \<and> (\<forall>(i, e) \<in> set (nd_templates n). i \<noteq> [] \<and> blk_hash (wt_blk e) = [])
     \<and> (\<forall>key i. map_of (nd_tmplLatest n) key = Some i \<longrightarrow> job_named (nd_templates n) key i)"

lemma jobs_okD:
  assumes "jobs_ok n"
  shows "gm_invar (nd_templates n)" "length (nd_templates n) \<le> maxTemplates"
    "\<forall>(i, e) \<in> set (nd_templates n). i \<noteq> [] \<and> blk_hash (wt_blk e) = []"
    "map_of (nd_tmplLatest n) key = Some i \<Longrightarrow> job_named (nd_templates n) key i"
  using assms unfolding jobs_ok_def by blast+

lemma current_job_ok:
  assumes "jobs_ok n" and "current_job (tip @ ''|'' @ addr) n = Some (i, e)" and "ValidAddr addr"
  shows "map_of (nd_templates n) i = Some e \<and> blk_PrevHash (wt_blk e) = tip \<and> tx_To (hd (blk_Txs (wt_blk e))) = addr"
proof -
  let ?key = "tip @ ''|'' @ addr"
  have i: "map_of (nd_templates n) i = Some e" "map_of (nd_tmplLatest n) ?key = Some i"
    using assms(2) by (auto simp: current_job_def Let_def gm_get_def split: if_splits option.splits)
  obtain tip' addr' where k: "?key = tip' @ ''|'' @ addr'" "ValidAddr addr'"
    "blk_PrevHash (wt_blk e) = tip'" "tx_To (hd (blk_Txs (wt_blk e))) = addr'"
    using jobs_okD(4) [OF assms(1) i(2)] i(1) unfolding job_named_def by blast
  then show ?thesis using key_unique [OF k(1) assms(3) k(2)] i by simp
qed

lemma map_of_filter_fst: "map_of (filter (\<lambda>(k, v). P k) m) k = (if P k then map_of m k else None)"
  by (induction m) auto

lemma jobs_ok_evict: "jobs_ok n \<Longrightarrow> jobs_ok (evict_templates tip n)"
proof -
  assume j: "jobs_ok n"
  let ?ts = "filter (\<lambda>(k, e). blk_PrevHash (wt_blk e) = tip) (nd_templates n)"
  have inv: "distinct (map fst (nd_templates n))" using jobs_okD(1) [OF j] by (simp add: gm_invar_def)
  then have inv2: "distinct (map fst ?ts)" by (simp add: distinct_map inj_on_def)
  have sub: "map_of ?ts i = Some e \<Longrightarrow> map_of (nd_templates n) i = Some e" for i e
    using inv by (auto dest!: map_of_SomeD)
  have "job_named ?ts key i"
    if "map_of (filter (\<lambda>(k, i). take (length tip + 1) k = tip @ ''|'') (nd_tmplLatest n)) key = Some i" for key i
    using that jobs_okD(4) [OF j, of key i] job_named_mono [of "nd_templates n" key i ?ts] sub
    by (simp add: map_of_filter_fst split: if_splits)
  moreover have "length ?ts \<le> maxTemplates" using jobs_okD(2) [OF j] length_filter_le le_trans by blast
  ultimately show ?thesis
    using inv2 jobs_okD(3) [OF j] by (simp add: jobs_ok_def evict_templates_def gm_invar_def)
qed

lemma jobs_ok_publish:
  assumes "jobs_ok n" and "ValidAddr (tx_To (hd (blk_Txs b)))" and "blk_hash b = []"
    and "key = blk_PrevHash b @ ''|'' @ tx_To (hd (blk_Txs b))"
  shows "jobs_ok (snd (publish_job key b t' n))"
    and "(\<forall>(k, e) \<in> set (nd_templates n). wt_born e < t') \<Longrightarrow>
      map_of (nd_templates (snd (publish_job key b t' n))) (fst (publish_job key b t' n)) = Some \<lparr>wt_blk = b, wt_born = t'\<rparr>"
proof -
  define i where "i = key @ ''|'' @ text36 (unat (nd_tmplSeq n + 1))"
  define ts where "ts = AList.update i \<lparr>wt_blk = b, wt_born = t'\<rparr> (nd_templates n)"
  have pj: "publish_job key b t' n = (i, n\<lparr>nd_tmplSeq := nd_tmplSeq n + 1, nd_tmplLatest := AList.update key i (nd_tmplLatest n),
      nd_templates := cap_templates ts\<rparr>)"
    by (simp add: publish_job_def Let_def i_def ts_def)
  note j = jobs_okD(1,3) [OF assms(1)] and lat = jobs_okD(4) [OF assms(1)]
  have ti: "gm_invar ts" unfolding ts_def using j(1) by (rule gmap.invar_put)
  have mem: "(k, e) \<in> set ts \<Longrightarrow> (k, e) = (i, \<lparr>wt_blk = b, wt_born = t'\<rparr>) \<or> k \<noteq> i \<and> (k, e) \<in> set (nd_templates n)" for k e
    using ti j(1) map_of_is_SomeI [of ts k e] unfolding gm_invar_def
    by (auto simp: ts_def update_conv' split: if_splits dest: map_of_SomeD)
  have "i \<noteq> []" by (simp add: i_def)
  then have tne: "\<forall>(k, e) \<in> set ts. k \<noteq> []" using mem j(2) by blast
  note c = cap_templates_spec [OF ti tne]
  have cm: "map_of (cap_templates ts) k = Some e \<Longrightarrow> map_of ts k = Some e" for k e
    using c [of i "\<lparr>wt_blk = b, wt_born = t'\<rparr>"] ti by (auto simp: gm_invar_def dest!: map_of_SomeD)
  show "jobs_ok (snd (publish_job key b t' n))"
  proof -
    have "k \<noteq> [] \<and> blk_hash (wt_blk e) = []" if "(k, e) \<in> set ts" for k e
      using mem [OF that] j(2) assms(3) \<open>i \<noteq> []\<close> by auto
    then have "\<forall>(k, e) \<in> set (cap_templates ts). k \<noteq> [] \<and> blk_hash (wt_blk e) = []"
      using c [of i "\<lparr>wt_blk = b, wt_born = t'\<rparr>"] by blast
    moreover have "job_named (cap_templates ts) k j" if k: "map_of (AList.update key i (nd_tmplLatest n)) k = Some j" for k j
    proof (cases "k = key")
      case True
      then have ji: "j = i" using k by (simp add: update_conv')
      have "e = \<lparr>wt_blk = b, wt_born = t'\<rparr>" if "map_of (cap_templates ts) i = Some e" for e
        using cm [OF that] by (simp add: ts_def update_conv')
      then have "\<forall>e. map_of (cap_templates ts) j = Some e \<longrightarrow>
          blk_PrevHash (wt_blk e) = blk_PrevHash b \<and> tx_To (hd (blk_Txs (wt_blk e))) = tx_To (hd (blk_Txs b))"
        unfolding ji by auto
      then show ?thesis using ji assms(2,4) True unfolding i_def job_named_def by blast
    next
      case False
      then have o: "map_of (nd_tmplLatest n) k = Some j" using k by (simp add: update_conv')
      obtain v where v: "j = k @ ''|'' @ text36 v" using lat [OF o] unfolding job_named_def by blast
      have "j \<noteq> i"
        using last_sep_unique [of k "CHR ''|''" "text36 v" key "text36 (unat (nd_tmplSeq n + 1))"] sep_text36 False
        by (auto simp: v i_def)
      then have "map_of (cap_templates ts) j = Some e \<Longrightarrow> map_of (nd_templates n) j = Some e" for e
        using cm [of j e] by (simp add: ts_def update_conv')
      then show ?thesis using job_named_mono [OF lat [OF o]] by blast
    qed
    ultimately show ?thesis using c [of i "\<lparr>wt_blk = b, wt_born = t'\<rparr>"] unfolding jobs_ok_def by (simp add: pj)
  qed
  assume older: "\<forall>(k, e) \<in> set (nd_templates n). wt_born e < t'"
  have "\<forall>(k, x) \<in> set ts. k \<noteq> i \<longrightarrow> wt_born x < wt_born \<lparr>wt_blk = b, wt_born = t'\<rparr>"
    using mem older by fastforce
  moreover have "map_of ts i = Some \<lparr>wt_blk = b, wt_born = t'\<rparr>" by (simp add: ts_def update_conv')
  ultimately show "map_of (nd_templates (snd (publish_job key b t' n))) (fst (publish_job key b t' n)) = Some \<lparr>wt_blk = b, wt_born = t'\<rparr>"
    using c [of i "\<lparr>wt_blk = b, wt_born = t'\<rparr>"] by (simp add: pj)
qed

section \<open>Handing out and submitting\<close>

lemma template_links:
  assumes "BuildTemplate cr now now' addr c = Inr b"
  shows "ch_blocks c \<noteq> []" "blk_PrevHash b = Hash cr (last (ch_blocks c))" "tx_To (hd (blk_Txs b)) = addr" "blk_hash b = []"
  using assms by (auto simp: BuildTemplate_def Let_def split: if_splits option.splits)

lemma jobs_ok_touch:
  assumes "jobs_ok n" and "map_of (nd_templates n) i = Some e"
  shows "jobs_ok (n\<lparr>nd_templates := AList.update i (e\<lparr>wt_born := t'\<rparr>) (nd_templates n)\<rparr>)"
proof -
  let ?u = "AList.update i (e\<lparr>wt_born := t'\<rparr>) (nd_templates n)"
  note j = jobs_okD [OF assms(1)]
  have inv: "gm_invar ?u" by (rule gmap.invar_put [OF j(1)])
  have "map fst ?u = map fst (nd_templates n)"
    using assms(2) by (simp add: update_keys) (metis image_eqI fst_conv map_of_SomeD)
  then have len: "length ?u = length (nd_templates n)" by (metis length_map)
  have named: "job_named ?u key k" if "map_of (nd_tmplLatest n) key = Some k" for key k
    using j(4) [OF that] assms(2) unfolding job_named_def by (force simp: update_conv')
  have "x = (i, e\<lparr>wt_born := t'\<rparr>) \<or> x \<in> set (nd_templates n)" if "x \<in> set ?u" for x
    using that inv j(1) map_of_is_SomeI [of ?u "fst x" "snd x"]
    by (auto simp: gm_invar_def update_conv' split: if_splits dest: map_of_SomeD)
  then have "\<forall>(k, x) \<in> set ?u. k \<noteq> [] \<and> blk_hash (wt_blk x) = []"
    using j(3) map_of_SomeD [OF assms(2)] by fastforce
  then show ?thesis using inv len j(2) named by (simp add: jobs_ok_def)
qed

lemma getTemplate_job:
  assumes ok: "jobs_ok n" and older: "\<forall>(k, e) \<in> set (nd_templates n). wt_born e < t'"
    and g: "getTemplate cr now now' t t' addr n = (Inr (b, i), n')"
  shows "jobs_ok n' \<and> nd_Chain n' = nd_Chain n \<and> (\<exists>e. map_of (nd_templates n') i = Some e \<and> wt_blk e = b)
    \<and> ch_blocks (nd_Chain n) \<noteq> [] \<and> blk_PrevHash b = Hash cr (last (ch_blocks (nd_Chain n))) \<and> tx_To (hd (blk_Txs b)) = addr"
proof -
  have va: "ValidAddr addr" and ne: "ch_blocks (nd_Chain n) \<noteq> []"
    using g by (auto simp: getTemplate_def Tip_def split: if_splits)
  define tip where "tip = Hash cr (last (ch_blocks (nd_Chain n)))"
  define key where "key = tip @ ''|'' @ addr"
  define n1 where "n1 = evict_templates tip n"
  have g2: "(case (case current_job key n of Some (i, e) \<Rightarrow> if t - wt_born e < templateRefresh then Some (i, e) else None
                | None \<Rightarrow> None) of
            Some (i, e) \<Rightarrow> (Inr (wt_blk e, i), n)
          | None \<Rightarrow>
              (case BuildTemplate cr now now' addr (nd_Chain n) of
                 Inl err \<Rightarrow> (case current_job key n of Some (i, e) \<Rightarrow> (Inr (wt_blk e, i), n) | None \<Rightarrow> (Inl (ChainErr err), n))
               | Inr fresh \<Rightarrow>
                   (case (case current_job key n1 of
                            Some (i, e) \<Rightarrow> if blk_TxRoot (wt_blk e) = blk_TxRoot fresh then Some (i, e) else None
                          | None \<Rightarrow> None) of
                      Some (i, e) \<Rightarrow>
                        (Inr (wt_blk e, i), n1\<lparr>nd_templates := AList.update i (e\<lparr>wt_born := t'\<rparr>) (nd_templates n1)\<rparr>)
                    | None \<Rightarrow> let (i, n2) = publish_job key fresh t' n1 in (Inr (fresh, i), n2)))) = (Inr (b, i), n')"
    using g va ne unfolding n1_def key_def tip_def
    by (simp only: getTemplate_def Tip_def Let_def if_False if_True not_True_eq_False option.case)
  have old: ?thesis if c: "current_job key n = Some (i, e)" "b = wt_blk e" "n' = n" for e
    using current_job_ok [OF ok c(1) [unfolded key_def] va] ok ne c(2,3) by (auto simp: tip_def)
  have ok1: "jobs_ok n1" unfolding n1_def by (rule jobs_ok_evict [OF ok])
  have ch1: "nd_Chain n1 = nd_Chain n" by (simp add: n1_def evict_templates_def)
  have older1: "\<forall>(k, e) \<in> set (nd_templates n1). wt_born e < t'" using older by (auto simp: n1_def evict_templates_def)
  have touch: ?thesis if c: "current_job key n1 = Some (i, e)" "b = wt_blk e"
    "n' = n1\<lparr>nd_templates := AList.update i (e\<lparr>wt_born := t'\<rparr>) (nd_templates n1)\<rparr>" for e
  proof -
    note k = current_job_ok [OF ok1 c(1) [unfolded key_def] va]
    show ?thesis using jobs_ok_touch [OF ok1, of i e t'] k ne c(2,3) ch1 by (simp add: update_conv' tip_def)
  qed
  have pub: ?thesis if c: "BuildTemplate cr now now' addr (nd_Chain n) = Inr b" "publish_job key b t' n1 = (i, n')"
  proof -
    note f = template_links [OF c(1)]
    have k: "key = blk_PrevHash b @ ''|'' @ tx_To (hd (blk_Txs b))" by (simp add: key_def tip_def f)
    have "ValidAddr (tx_To (hd (blk_Txs b)))" using va by (simp add: f)
    note p = jobs_ok_publish [OF ok1 this f(4) k, of t']
    have "nd_Chain n' = nd_Chain n1" using c(2) by (auto simp: publish_job_def Let_def)
    then show ?thesis using p(1) p(2) [OF older1] c(2) f ch1 by simp
  qed
  show ?thesis
  proof (cases "BuildTemplate cr now now' addr (nd_Chain n)")
    case (Inl err)
    then show ?thesis using g2 old by (auto split: option.splits if_splits)
  next
    case (Inr fresh)
    show ?thesis
    proof (cases "publish_job key fresh t' n1")
      case (Pair j n2)
      then show ?thesis using g2 old touch pub Inr by (auto split: option.splits if_splits)
    qed
  qed
qed

lemma jobs_ok_AddBlock: "jobs_ok (updateTipSnap cr (n\<lparr>nd_Chain := c\<rparr>)) = jobs_ok n" "jobs_ok (n\<lparr>nd_Chain := c\<rparr>) = jobs_ok n"
  by (simp_all add: jobs_ok_def updateTipSnap_def split: option.split)

lemma demo_job:
  "jobs_ok (bare_node pool_chain)" "\<forall>(k, e) \<in> set (nd_templates (bare_node pool_chain)). wt_born e < 2"
  "ValidAddr (AddrFromPub demo_crypto [9])"
  "\<exists>b i n'. getTemplate demo_crypto 1781136060 1781136060 1 2 (AddrFromPub demo_crypto [9]) (bare_node pool_chain) = (Inr (b, i), n')"
proof -
  let ?n = "bare_node pool_chain" and ?a = "AddrFromPub demo_crypto [9]"
  have e: "expectedTargetRO pool_chain (ch_blocks pool_chain) = Some GenesisTarget"
    using expectedTargetRO_eq [of "ch_blocks pool_chain" pool_chain] expectedTarget_genesis by simp
  have va: "ValidAddr ?a" by (rule ValidAddr_AddrFromPub [OF digest32_demo])
  obtain raw where "TargetToHex GenesisTarget = Some (hex_encode raw)"
    by (rule TargetToHex_decode [of GenesisTarget]) (simp_all add: GenesisTarget_def)
  then obtain b where b: "BuildTemplate demo_crypto 1781136060 1781136060 ?a pool_chain = Inr b"
    using e va by (simp add: BuildTemplate_def Let_def medianTime_single pool_chain_pick) (simp add: GenesisBlock_def)
  show "jobs_ok ?n" "\<forall>(k, e) \<in> set (nd_templates ?n). wt_born e < 2" by (simp_all add: jobs_ok_def bare_node_def gm_invar_def)
  show "ValidAddr ?a" by (rule va)
  show "\<exists>b i n'. getTemplate demo_crypto 1781136060 1781136060 1 2 ?a ?n = (Inr (b, i), n')"
    using b va by (cases "publish_job (Hash demo_crypto (GenesisBlock demo_crypto) @ ''|'' @ ?a) b 2
        (evict_templates (Hash demo_crypto (GenesisBlock demo_crypto)) ?n)")
      (simp add: getTemplate_def Tip_def Let_def bare_node_def current_job_def evict_templates_def)
qed

text \<open>(C9)
  A job is mined as it was handed out. \<open>getTemplate\<close> answers with a block that extends the current tip and
  pays the asking address, keeps at most 512 jobs, and its identifier works: a later submission of it with
  a nonce validates exactly that block with that nonce, under the hash of its own header, and the node's
  chain becomes whatever \<open>AddBlock\<close> makes of it.
\<close>

theorem getwork_then_submit:
  assumes "jobs_ok n" and "\<forall>(k, e) \<in> set (nd_templates n). wt_born e < t'"
    and "getTemplate cr now now' t t' addr n = (Inr (b, i), n')" and "parse_uint64 (trim_quotes raw) = Some nonce"
  shows "jobs_ok n' \<and> tx_To (hd (blk_Txs b)) = addr \<and> blk_PrevHash b = Hash cr (last (ch_blocks (nd_Chain n')))
    \<and> (case AddBlock cr pow tm (b\<lparr>blk_Nonce := nonce\<rparr>) (nd_Chain n') of
         (None, c, w) \<Rightarrow>
           fst (api_submitwork cr pow tm (Some (i, raw)) n') = Inr (computeHash cr (b\<lparr>blk_Nonce := nonce\<rparr>))
           \<and> nd_Chain (snd (api_submitwork cr pow tm (Some (i, raw)) n')) = c
       | (Some e, c, w) \<Rightarrow>
           fst (api_submitwork cr pow tm (Some (i, raw)) n') = Inl (ChainErr e)
           \<and> nd_Chain (snd (api_submitwork cr pow tm (Some (i, raw)) n')) = c)"
proof -
  note j = getTemplate_job [OF assms(1-3)]
  obtain e where e: "map_of (nd_templates n') i = Some e" "wt_blk e = b" using j by blast
  then have "blk_hash b = []" using jobs_okD(3) [of n'] j map_of_SomeD [OF e(1)] by auto
  then have h: "Hash cr (b\<lparr>blk_Nonce := nonce\<rparr>) = computeHash cr (b\<lparr>blk_Nonce := nonce\<rparr>)" by (simp add: Hash_def)
  have snap: "nd_Chain (updateTipSnap cr m) = nd_Chain m" for m by (simp add: updateTipSnap_def split: option.split)
  show ?thesis
    using j e h snap assms(4) by (simp add: api_submitwork_def Let_def split: prod.split option.split)
qed

theorem getwork_then_submit_witness:
  "\<exists>b i n'. getTemplate demo_crypto 1781136060 1781136060 1 2 (AddrFromPub demo_crypto [9]) (bare_node pool_chain) = (Inr (b, i), n')
    \<and> tx_To (hd (blk_Txs b)) = AddrFromPub demo_crypto [9] \<and> length (nd_templates n') \<le> maxTemplates
    \<and> fst (api_submitwork demo_crypto easy_pow 1781136060 (Some (i, ''7'')) n')
        = (case AddBlock demo_crypto easy_pow 1781136060 (b\<lparr>blk_Nonce := 7\<rparr>) (nd_Chain n') of
             (None, _) \<Rightarrow> Inr (computeHash demo_crypto (b\<lparr>blk_Nonce := 7\<rparr>)) | (Some e, _) \<Rightarrow> Inl (ChainErr e))"
proof -
  obtain b i n' where g: "getTemplate demo_crypto 1781136060 1781136060 1 2 (AddrFromPub demo_crypto [9]) (bare_node pool_chain) = (Inr (b, i), n')"
    using demo_job(4) by blast
  have p: "parse_uint64 (trim_quotes ''7'') = Some 7" by (simp add: trim_quotes_def parse_uint64_def dec_val_def)
  note c = getwork_then_submit [OF demo_job(1,2) g p, of easy_pow 1781136060]
  have "length (nd_templates n') \<le> maxTemplates" using c jobs_okD(2) by blast
  then show ?thesis using g c by (intro exI conjI) (auto split: prod.split option.split)
qed

end
