(* ===== verification/Node_Invariant.thy ===== *)
theory Node_Invariant
  imports Node_Watch Node_Jobs
begin

text \<open>
  What holds of a node whatever its peers and clients send: everything that happens to it is a sequence of
  atomic events, a synchronisation included, and every event keeps the chain one that the engine reached,
  its authority anchor and the checkpoint it serves signed, and its mining jobs well formed.
\<close>

section \<open>Events\<close>

text \<open>
  The critical sections of the node's goroutines: the handlers that change it, the steps of a
  synchronisation, and the turns of the background loops. The arguments are what the outside world
  chooses: bodies, headers, answers, and the readings of the clock.
\<close>

datatype event =
    RecvBlock u64 string "block option"
  | RecvTx string "tx option"
  | RecvPeers string
  | PostTx "tx option"
  | PostCheckpoint "ip option" "checkpoint option"
  | FetchedCheckpoint "checkpoint option"
  | GetWork u64 u64 int int string
  | SubmitWork u64 "(string \<times> string) option"
  | Adopt u64 string string bool u64 "block list"
  | Mark int string
  | Result int string bool
  | AddPeer string
  | Discover "string \<Rightarrow> string list option"
  | Tick int "tip_info option list" watch
  | Concentration
  | Snapshot

record setting =
  se_crypto :: crypto
  se_pow :: pow_fun
  se_net :: netlib
  se_nets :: "ipnet list"

fun node_event :: "setting \<Rightarrow> event \<Rightarrow> node \<Rightarrow> node" where
  "node_event s (RecvBlock now hdr body) n = fst (snd (p2p_block (se_crypto s) (se_pow s) now (se_net s) (se_nets s) hdr body n))"
| "node_event s (RecvTx hdr body) n = fst (snd (p2p_tx (se_crypto s) hdr body n))"
| "node_event s (RecvPeers hdr) n = snd (p2p_peers (se_net s) (se_nets s) hdr n)"
| "node_event s (PostTx body) n = fst (snd (api_tx_post (se_crypto s) body n))"
| "node_event s (PostCheckpoint client body) n = snd (api_checkpoint_post (se_crypto s) client body n)"
| "node_event s (FetchedCheckpoint answer) n = fetchCheckpoint (se_crypto s) answer n"
| "node_event s (GetWork now now' t t' addr) n = snd (api_getwork (se_crypto s) now now' t t' addr n)"
| "node_event s (SubmitWork now body) n = snd (api_submitwork (se_crypto s) (se_pow s) now body n)"
| "node_event s (Adopt now p h whole anc bs) n = snd (adopt (se_crypto s) (se_pow s) now p h whole anc bs n)"
| "node_event s (Mark t p) n = markPeer t p True n"
| "node_event s (Result t p ok) n = peerResult t p ok n"
| "node_event s (AddPeer p) n = addPeer (se_net s) (se_nets s) p n"
| "node_event s (Discover answer) n = discoverPeers (se_net s) (se_nets s) answer n"
| "node_event s (Tick now tips w) n = fst (snd (watchdog_tick now tips n w))"
| "node_event s Concentration n = checkConcentration n"
| "node_event s Snapshot n = updateTipSnap (se_crypto s) n"

definition node_run :: "setting \<Rightarrow> event list \<Rightarrow> node \<Rightarrow> node" where
  "node_run s es n = foldl (\<lambda>n e. node_event s e n) n es"

lemma node_run_simps [simp]:
  "node_run s [] n = n" "node_run s (e # es) n = node_run s es (node_event s e n)"
  "node_run s (es @ fs) n = node_run s fs (node_run s es n)"
  by (simp_all add: node_run_def)

lemma node_run_keeps:
  assumes "\<And>e n. P n \<Longrightarrow> P (node_event s e n)" and "P n"
  shows "P (node_run s es n)"
  using assms(2) by (induction es arbitrary: n) (simp_all add: assms(1))

section \<open>A synchronisation is a sequence of events\<close>

definition runs :: "setting \<Rightarrow> node \<Rightarrow> node \<Rightarrow> bool" where
  "runs s n m \<longleftrightarrow> (\<exists>es. m = node_run s es n)"

lemma runs_refl [simp, intro]: "runs s n n"
  unfolding runs_def by (rule exI [of _ "[]"]) simp

lemma runs_event: "runs s n m \<Longrightarrow> runs s n (node_event s e m)"
  unfolding runs_def by (metis node_run_simps)

lemma runs_run: "runs s n m \<Longrightarrow> runs s n (node_run s es m)"
  unfolding runs_def by (metis node_run_simps(3))

lemma runs_adopt: "runs s n m \<Longrightarrow> runs s n (snd (adopt (se_crypto s) (se_pow s) now p h whole anc bs m))"
  using runs_event [of s n m "Adopt now p h whole anc bs"] by simp

lemma runs_adopt_rest:
  "runs s n m \<Longrightarrow> runs s n (snd (adopt_rest (se_crypto s) (se_pow s) now p h tr anc bs m))"
  using runs_adopt [of s n m now p h "\<not> tr" anc bs] by (auto simp: adopt_rest_def split: prod.split option.split)

text \<open>The node of a result, when there is one.\<close>

definition after :: "setting \<Rightarrow> node \<Rightarrow> ('a \<Rightarrow> node) \<Rightarrow> 'a option \<Rightarrow> bool" where
  "after s n node r \<longleftrightarrow> (case r of None \<Rightarrow> True | Some x \<Rightarrow> runs s n (node x))"

lemma after_simps [simp]: "after s n f None" "after s n f (Some x) = runs s n (f x)"
  by (simp_all add: after_def)

lemma after_map [simp]: "after s n (\<lambda>(ok, push, m). m) (map_option (\<lambda>(ok, m). (ok, False, m)) r) = after s n snd r"
  by (cases r) (simp_all add: split_beta)

lemma find_ancestor_runs:
  "runs s n0 n \<Longrightarrow> after s n0 (\<lambda>(r, j, m). m) (find_ancestor (se_crypto s) p (\<lambda>k. node_run s (es k)) fuel k lo hi anc n)"
proof (induction fuel arbitrary: k lo hi anc n)
  case 0
  then show ?case by (subst find_ancestor.simps) simp
next
  case (Suc fuel)
  have "runs s n0 (node_run s (es k) n)" by (rule runs_run [OF Suc.prems])
  then show ?case using Suc.prems by (subst find_ancestor.simps) (simp add: Let_def Suc.IH split: option.split)
qed

lemma fetch_loop_runs:
  "runs s n0 n \<Longrightarrow> after s n0 snd
     (fetch_loop (se_crypto s) (se_pow s) now peer their p (\<lambda>k. node_run s (es k)) isReorg fuel k from anc pending n)"
proof (induction fuel arbitrary: isReorg k "from" anc pending n)
  case (Suc fuel)
  let ?b = "case pr_blocks p k from 200 of None \<Rightarrow> [] | Some b \<Rightarrow> b" and ?n = "node_run s (es k) n"
  have o: "runs s n0 ?n" by (rule runs_run [OF Suc.prems])
  note r = runs_adopt_rest [OF o, of now peer "ti_hash their" _ anc pending]
  show ?case
  proof (cases "adopt (se_crypto s) (se_pow s) now peer (ti_hash their) (from + blen ?b > ti_height their) anc (pending @ ?b) ?n")
    case (Pair e m)
    then have "runs s n0 m"
      using runs_adopt [OF o, of now peer "ti_hash their" "from + blen ?b > ti_height their" anc "pending @ ?b"] by simp
    then show ?thesis using o r Suc.IH by (simp add: Let_def Pair split: option.split)
  qed
qed simp

lemma sync_once_runs:
  "after s n (\<lambda>(ok, push, m). m) (syncWithPeerOnce (se_crypto s) (se_pow s) now t peer p (\<lambda>k. node_run s (es k)) fuel n)"
proof -
  let ?other = "\<lambda>k. node_run s (es k)"
  have o: "runs s n (markPeer t peer True (node_run s (es 0) n))" "runs s n (node_run s (es 0) n)"
    using runs_event [of s n "node_run s (es 0) n" "Mark t peer"] runs_run [OF runs_refl] by simp_all
  have pursue: "after s n (\<lambda>(ok, push, m). m) (sync_pursue (se_crypto s) (se_pow s) now peer their w p ?other fuel n')"
    if "runs s n n'" for their w n'
  proof -
    let ?hi = "if ti_height their < Height (nd_Chain n') then ti_height their else Height (nd_Chain n')"
    have f: "after s n (\<lambda>(r, j, m). m) (find_ancestor (se_crypto s) p ?other 64 1 0 ?hi 0 n')"
      by (rule find_ancestor_runs [OF that])
    note l = fetch_loop_runs [of s n]
    show ?thesis
    proof (cases "find_ancestor (se_crypto s) p ?other 64 1 0 ?hi 0 n'")
      case (Some x)
      then show ?thesis using that f l
        by (cases x; cases "fst x") (simp_all add: sync_pursue_def Let_def del: One_nat_def)
    qed (simp add: sync_pursue_def Let_def that del: One_nat_def)
  qed
  show ?thesis using o pursue by (simp add: syncWithPeerOnce_def Let_def split: option.split)
qed


section \<open>The authority anchor\<close>

text \<open>Neither extending nor reorganising writes the authority anchor.\<close>

lemma anchor_TryAdopt: "ch_authAnchor (fst (snd (TryAdoptChain cr pow now start nb c))) = ch_authAnchor c"
proof (cases "fst (TryAdoptChain cr pow now start nb c) = None")
  case True
  obtain w c1 c2 cand st tot idx where g: "adopt_guards cr start nb c = (Inr w, c1)"
    and l: "(if length (ch_blocks c) - unat start = 0
      then adopt_loop cr pow now c1 (ch_blocks c) (ch_state c) (ch_totals c) nb
      else adopt_loop cr pow now c1 (take (unat start) (ch_blocks c)) (replay cr (take (unat start) (ch_blocks c)))
             (replay_totals cr (take (unat start) (ch_blocks c))) nb) = (Inr (cand, st, tot), c2)"
    and res: "fst (snd (TryAdoptChain cr pow now start nb c)) = pruneMempoolLocked cr
       (if length (ch_blocks c) - unat start = 0 then foldl (mpDel_block cr) (installed c2 cand st tot idx w) nb
        else installed c2 cand st tot idx w)"
    by (rule TryAdopt_ok [OF True]) (rule that; assumption)
  have "core_of c2 = core_of c"
    using l adopt_guards_core [of cr start nb c] adopt_loop_core [of cr pow now c1 "ch_blocks c" "ch_state c" "ch_totals c" nb]
      adopt_loop_core [of cr pow now c1 "take (unat start) (ch_blocks c)" "replay cr (take (unat start) (ch_blocks c))"
        "replay_totals cr (take (unat start) (ch_blocks c))" nb] g by (simp split: if_splits)
  then have "ch_authAnchor c2 = ch_authAnchor c" by (rule core_of_fields)
  moreover have "ch_authAnchor (installed c2 cand st tot idx w) = ch_authAnchor c2"
    by (simp add: installed_def recomputeSupplyLocked_def)
  moreover have "ledger_part (fst (snd (TryAdoptChain cr pow now start nb c))) = ledger_part (installed c2 cand st tot idx w)"
    unfolding res by simp
  ultimately show ?thesis using ledger_part_fields(7) by metis
next
  case False
  then show ?thesis using TryAdopt_fail [OF False] core_of_fields(14) by blast
qed

lemma anchor_AddBlock: "ch_authAnchor (fst (snd (AddBlock cr pow now b c))) = ch_authAnchor c"
proof -
  obtain e c1 where v: "validateBlock cr pow now c (ch_blocks c) (ch_state c) b = (e, c1)" by fastforce
  have c1: "ch_authAnchor c1 = ch_authAnchor c" using core_of_fields(14) [OF core_validate_eq [OF v]] .
  have p: "ch_authAnchor (pruneMempoolLocked cr (mpDel_block cr d b)) = ch_authAnchor d" for d
    using ledger_part_fields(7) [of "pruneMempoolLocked cr (mpDel_block cr d b)" d] by simp
  show ?thesis
    using c1 by (simp add: AddBlock_def v Let_def p recomputeSupplyLocked_def split: option.split)
qed

lemma anchor_others:
  "ch_authAnchor (snd (AddTx cr t c)) = ch_authAnchor c" "ch_authAnchor (snd (ApplyCheckpoint cr cp c)) = ch_authAnchor c"
  "ch_authAnchor (PreVerifyPoW cr pow start nb c) = ch_authAnchor c" "ch_authAnchor (PreVerifySigs cr start nb c) = ch_authAnchor c"
  using ledger_part_fields(7) [OF ledger_part_AddTx]
  by (simp_all add: ApplyCheckpoint_def PreVerifyPoW_def PreVerifySigs_def Let_def)

section \<open>The invariant of a node\<close>

definition signed_ok :: "crypto \<Rightarrow> checkpoint \<Rightarrow> bool" where
  "signed_ok cr cp \<longleftrightarrow> cp = zero_checkpoint \<or> Verify cr cp"

definition engine_ok :: "setting \<Rightarrow> bool \<Rightarrow> chain \<Rightarrow> bool" where
  "engine_ok s store c \<longleftrightarrow> reachable (se_crypto s) (se_pow s) store c \<and> signed_ok (se_crypto s) (ch_authAnchor c)"

definition node_ok :: "setting \<Rightarrow> bool \<Rightarrow> node \<Rightarrow> bool" where
  "node_ok s store n \<longleftrightarrow>
     engine_ok s store (nd_Chain n) \<and> signed_ok (se_crypto s) (nd_checkpoint n) \<and> jobs_ok n
     \<and> gm_invar (nd_peers n) \<and> gm_invar (nd_ph n)"

named_theorems engine \<open>steps that keep the chain one that the engine reached\<close>

lemma engine_steps [engine]:
  assumes "engine_ok s store c"
  shows "engine_ok s store (fst (snd (AddBlock (se_crypto s) (se_pow s) now b c)))"
    "engine_ok s store (fst (snd (TryAdoptChain (se_crypto s) (se_pow s) now start nb c)))"
    "engine_ok s store (snd (AddTx (se_crypto s) t c))"
    "engine_ok s store (PreVerifyPoW (se_crypto s) (se_pow s) start nb c)"
    "engine_ok s store (PreVerifySigs (se_crypto s) start nb c)"
    "engine_ok s store (snd (ApplyCheckpoint (se_crypto s) cp c))"
  using assms
  by (auto simp: engine_ok_def anchor_AddBlock anchor_TryAdopt anchor_others
      intro: reachable.step [OF _ chain_step.add_block] reachable.step [OF _ chain_step.adopt]
        reachable.step [OF _ chain_step.add_tx] reachable.step [OF _ chain_step.pre_pow]
        reachable.step [OF _ chain_step.pre_sigs] reachable.step [OF _ chain_step.checkpoint])

lemma engine_anchor [engine]:
  assumes "engine_ok s store c" and "Verify (se_crypto s) cp"
  shows "engine_ok s store (SetAuthorityAnchor cp c)"
  using assms reachable.step [OF _ chain_step.anchor]
  by (auto simp: engine_ok_def signed_ok_def SetAuthorityAnchor_def split: if_splits)

lemma engine_pairs [engine]:
  assumes "engine_ok s store c"
  shows "AddBlock (se_crypto s) (se_pow s) now b c = (e, d, w) \<Longrightarrow> engine_ok s store d"
    "TryAdoptChain (se_crypto s) (se_pow s) now start nb c = (e, d, w) \<Longrightarrow> engine_ok s store d"
    "AddTx (se_crypto s) t c = (e', d) \<Longrightarrow> engine_ok s store d"
    "ApplyCheckpoint (se_crypto s) cp c = (ok, d) \<Longrightarrow> engine_ok s store d"
  using engine_steps [OF assms] by (metis fst_conv snd_conv)+

text \<open>The parts of a node that an operation leaves alone.\<close>

lemma node_ok_cong:
  "node_ok s store n \<Longrightarrow> engine_ok s store (nd_Chain m) \<Longrightarrow> nd_checkpoint m = nd_checkpoint n \<Longrightarrow>
   nd_templates m = nd_templates n \<Longrightarrow> nd_tmplLatest m = nd_tmplLatest n \<Longrightarrow>
   gm_invar (nd_peers m) \<Longrightarrow> gm_invar (nd_ph m) \<Longrightarrow> node_ok s store m"
  by (simp add: node_ok_def jobs_ok_def)

lemma node_okD:
  assumes "node_ok s store n"
  shows "engine_ok s store (nd_Chain n)" "signed_ok (se_crypto s) (nd_checkpoint n)" "jobs_ok n"
    "gm_invar (nd_peers n)" "gm_invar (nd_ph n)"
  using assms by (simp_all add: node_ok_def)

lemma node_ok_chain: "node_ok s store n \<Longrightarrow> engine_ok s store c \<Longrightarrow> node_ok s store (n\<lparr>nd_Chain := c\<rparr>)"
  by (rule node_ok_cong) (auto dest: node_okD)

lemma node_ok_snap:
  assumes "node_ok s store n"
  shows "node_ok s store (updateTipSnap cr n)"
  using assms node_ok_cong [OF assms] node_okD [OF assms] by (simp add: updateTipSnap_def split: option.split)

lemma gm_invar_map_keys: "gm_invar m \<Longrightarrow> gm_invar (map (\<lambda>(k, v). (k, f v)) m)"
  by (simp add: gm_invar_def comp_def split_beta)

lemma node_ok_peers:
  assumes "node_ok s store n"
  shows "node_ok s store (addPeer net nets p n)" "node_ok s store (markPeer t p ok n)"
    "node_ok s store (peerResult t p ok n)" "node_ok s store (noteDoomed p h n)"
    "node_ok s store (clearDoomed (resetPeerBackoff n))" "node_ok s store (checkConcentration n)"
    "node_ok s store (reg net nets h n)"
  using node_ok_cong [OF assms] node_okD [OF assms]
  by (simp_all add: addPeer_def markPeer_def peerResult_def dropPeer_def noteDoomed_def clearDoomed_def reg_def
      resetPeerBackoff_def checkConcentration_def Let_def gmap.invar_put gmap.invar_del gm_invar_map_keys
      del: map_map)

lemma node_ok_discover: "node_ok s store n \<Longrightarrow> node_ok s store (discoverPeers net nets answer n)"
proof -
  have us: "node_ok s store n \<Longrightarrow> node_ok s store (foldl (\<lambda>n u. addPeer net nets u n) n us)" for n us
    by (induction us arbitrary: n) (simp_all add: node_ok_peers)
  have "node_ok s store n \<Longrightarrow> node_ok s store (foldl (\<lambda>n p. case answer p of None \<Rightarrow> n
      | Some us \<Rightarrow> foldl (\<lambda>n u. addPeer net nets u n) n us) n ps)" for ps
    by (induction ps arbitrary: n) (simp_all add: us split: option.split)
  then show "node_ok s store n \<Longrightarrow> node_ok s store (discoverPeers net nets answer n)" by (simp add: discoverPeers_def)
qed

section \<open>Every event keeps the invariant\<close>

lemma getTemplate_keeps:
  assumes ok: "jobs_ok n"
  shows "jobs_ok (snd (getTemplate cr now now' t t' addr n)) \<and> nd_Chain (snd (getTemplate cr now now' t t' addr n)) = nd_Chain n
    \<and> nd_checkpoint (snd (getTemplate cr now now' t t' addr n)) = nd_checkpoint n
    \<and> nd_peers (snd (getTemplate cr now now' t t' addr n)) = nd_peers n
    \<and> nd_ph (snd (getTemplate cr now now' t t' addr n)) = nd_ph n"
proof (cases "ValidAddr addr \<and> Tip (nd_Chain n) \<noteq> None")
  case True
  then obtain tipb where tb: "ValidAddr addr" "Tip (nd_Chain n) = Some tipb" by blast
  let ?g = "getTemplate cr now now' t t' addr n" and ?rest = "\<lambda>m. (nd_Chain m, nd_checkpoint m, nd_peers m, nd_ph m)"
  let ?tip = "Hash cr tipb"
  let ?key = "?tip @ ''|'' @ addr" and ?n1 = "evict_templates ?tip n"
  have ok1: "jobs_ok ?n1" and r1: "?rest ?n1 = ?rest n"
    using jobs_ok_evict [OF ok] by (simp_all add: evict_templates_def)
  have "snd ?g = n \<or> snd ?g = ?n1
      \<or> (\<exists>i e. map_of (nd_templates ?n1) i = Some e
           \<and> snd ?g = ?n1\<lparr>nd_templates := AList.update i (e\<lparr>wt_born := t'\<rparr>) (nd_templates ?n1)\<rparr>)
      \<or> (\<exists>b. BuildTemplate cr now now' addr (nd_Chain n) = Inr b \<and> snd ?g = snd (publish_job ?key b t' ?n1))"
    using tb by (auto simp: getTemplate_def Let_def current_job_def [of _ ?n1] split: option.split sum.split prod.split if_splits)
  then consider "snd ?g = n" | "snd ?g = ?n1"
    | i e where "map_of (nd_templates ?n1) i = Some e"
        "snd ?g = ?n1\<lparr>nd_templates := AList.update i (e\<lparr>wt_born := t'\<rparr>) (nd_templates ?n1)\<rparr>"
    | b where "BuildTemplate cr now now' addr (nd_Chain n) = Inr b" "snd ?g = snd (publish_job ?key b t' ?n1)"
    by blast
  then show ?thesis
  proof cases
    case (4 b)
    note f = template_links [OF 4(1)]
    have "?tip = blk_PrevHash b" using f(1,2) tb(2) by (simp add: Tip_def split: if_splits)
    then have "jobs_ok (snd (publish_job ?key b t' ?n1))" using tb(1) f by (intro jobs_ok_publish(1) [OF ok1]) simp_all
    then show ?thesis using 4(2) r1 by (simp add: publish_job_def Let_def)
  qed (use ok ok1 r1 jobs_ok_touch in simp_all)
qed (use ok in \<open>auto simp: getTemplate_def split: option.split\<close>)

lemma node_ok_getwork: "node_ok s store n \<Longrightarrow> node_ok s store (snd (api_getwork cr now now' t t' addr n))"
proof -
  assume ok: "node_ok s store n"
  have "node_ok s store (snd (getTemplate cr now now' t t' addr n))"
    using getTemplate_keeps [OF node_okD(3) [OF ok]] ok by (simp add: node_ok_def)
  moreover have "snd (api_getwork cr now now' t t' addr n) = snd (getTemplate cr now now' t t' addr n)"
    by (auto simp: api_getwork_def split: prod.split sum.split option.split)
  ultimately show "node_ok s store (snd (api_getwork cr now now' t t' addr n))" by simp
qed

lemma node_ok_checkpoint:
  "node_ok s store n \<Longrightarrow> Verify (se_crypto s) cp \<Longrightarrow> node_ok s store (n\<lparr>nd_checkpoint := cp\<rparr>)"
  by (simp add: node_ok_def signed_ok_def jobs_ok_def)

lemma node_ok_blocks:
  assumes "node_ok s store n"
  shows "node_ok s store (snd (adopt (se_crypto s) (se_pow s) now p h whole anc bs n))"
    "node_ok s store (fst (snd (p2p_block (se_crypto s) (se_pow s) now net nets hdr body n)))"
    "node_ok s store (snd (api_submitwork (se_crypto s) (se_pow s) now w n))"
proof -
  note ch = node_ok_chain node_ok_snap node_ok_peers
  note e = node_okD(1) [OF assms] node_ok_peers(7) [OF assms, of net nets hdr]
  let ?c1 = "PreVerifySigs (se_crypto s) (anc + 1) bs (PreVerifyPoW (se_crypto s) (se_pow s) (anc + 1) bs (nd_Chain n))"
  have "engine_ok s store ?c1" by (rule engine_steps(5) [OF engine_steps(4) [OF e(1)]])
  then show "node_ok s store (snd (adopt (se_crypto s) (se_pow s) now p h whole anc bs n))"
    using assms by (auto simp: adopt_def Let_def split: prod.split option.split intro!: ch intro: engine_pairs)
  show "node_ok s store (fst (snd (p2p_block (se_crypto s) (se_pow s) now net nets hdr body n)))"
    using e(2) node_okD(1) [OF e(2)]
    by (auto simp: p2p_block_def Let_def split: prod.split option.split intro!: ch intro: engine_pairs)
  show "node_ok s store (snd (api_submitwork (se_crypto s) (se_pow s) now w n))"
    using e(1) assms
    by (auto simp: api_submitwork_def Let_def split: prod.split option.split intro!: ch intro: engine_pairs)
qed

lemma node_ok_txs:
  assumes "node_ok s store n"
  shows "node_ok s store (fst (snd (p2p_tx (se_crypto s) hdr body n)))"
    "node_ok s store (fst (snd (api_tx_post (se_crypto s) body n)))"
  using assms node_okD(1) [OF assms]
  by (auto simp: p2p_tx_def api_tx_post_def split: prod.split option.split intro!: node_ok_chain intro: engine_pairs)

lemma node_ok_checkpoints:
  assumes "node_ok s store n"
  shows "node_ok s store (fetchCheckpoint (se_crypto s) answer n)"
    "node_ok s store (snd (api_checkpoint_post (se_crypto s) client body n))"
  using assms node_okD(1) [OF assms]
  by (auto simp: fetchCheckpoint_def api_checkpoint_post_def Let_def split: prod.split option.split
      intro!: node_ok_chain node_ok_checkpoint intro: engine_pairs engine_anchor engine_steps)

lemma node_ok_event: "node_ok s store n \<Longrightarrow> node_ok s store (node_event s e n)"
  by (cases e) (simp_all add: node_ok_blocks node_ok_txs node_ok_checkpoints node_ok_getwork node_ok_peers node_ok_discover
      node_ok_snap p2p_peers_def watchdog_tick_def Let_def)

section \<open>The reachable nodes\<close>

text \<open>
  A node starts with \<open>New\<close> on a chain that the engine opened, and then events and synchronisations
  happen to it in any order.
\<close>

inductive node_reach :: "setting \<Rightarrow> bool \<Rightarrow> node \<Rightarrow> bool" for s store where
  boot: "engine_ok s store c \<Longrightarrow> New_node (se_crypto s) (se_net s) (se_nets s) c url seeds saved isolated = Some n
    \<Longrightarrow> node_reach s store n"
| event: "node_reach s store n \<Longrightarrow> node_reach s store (node_event s e n)"
| sync: "node_reach s store n \<Longrightarrow>
    syncWithPeer (se_crypto s) (se_pow s) now t peer p (\<lambda>k. node_run s (es k)) fuel n = Some (push, m)
    \<Longrightarrow> node_reach s store m"

lemma node_ok_New:
  assumes "engine_ok s store c" and "New_node (se_crypto s) net nets c url seeds saved isolated = Some n"
  shows "node_ok s store n"
proof -
  have add: "node_ok s store m \<Longrightarrow> node_ok s store (foldl (\<lambda>n p. addPeer net nets p n) m ps)" for m ps
    by (induction ps arbitrary: m) (simp_all add: node_ok_peers)
  have snap: "node_ok s store m \<Longrightarrow> node_ok s store (m\<lparr>nd_tipSnap := x\<rparr>)" for m x
    using node_ok_cong [of s store m "m\<lparr>nd_tipSnap := x\<rparr>"] node_okD [of s store m] by simp
  let ?n0 = "\<lparr>nd_Chain = c, nd_publicURL = TrimRight_slash url, nd_StallRestart = False, nd_peers = [], nd_ph = [],
                nd_tipSnap = None, nd_seeds = seeds, nd_templates = [], nd_tmplLatest = [], nd_tmplSeq = 0,
                nd_checkpoint = zero_checkpoint, nd_concentrationHigh = False\<rparr>"
  have "node_ok s store ?n0" using assms(1) by (simp add: node_ok_def signed_ok_def jobs_ok_def gm_invar_def)
  then show ?thesis using assms(2) by (auto simp: New_node_def Let_def intro!: snap add)
qed

lemma node_reach_ok: "node_reach s store n \<Longrightarrow> node_ok s store n"
proof (induction rule: node_reach.induct)
  case (sync n now t peer p es fuel push m)
  obtain ok m' where m: "syncWithPeerOnce (se_crypto s) (se_pow s) now t peer p (\<lambda>k. node_run s (es k)) fuel n = Some (ok, push, m')"
    "m = peerResult t peer ok m'"
    using sync.hyps(2) by (auto simp: syncWithPeer_def)
  have "runs s n m'" using sync_once_runs [of s n now t peer p es fuel] m(1) by simp
  then obtain fs where "m' = node_run s fs n" by (auto simp: runs_def)
  then have "node_ok s store m'" using node_run_keeps [OF node_ok_event sync.IH] by blast
  then show ?case using m(2) by (simp add: node_ok_peers)
qed (blast intro: node_ok_New node_ok_event)+

lemma Verify_hash: "cp_Hash cp = [] \<Longrightarrow> \<not> Verify cr cp"
  by (simp add: Verify_def)

text \<open>(C6)
  Whatever peers and clients send, and in whatever order: a reachable node's chain satisfies the invariant
  of the chain engine, the checkpoint it serves carries the authority's signature, as does any authority
  anchor its reorganisations obey, its peers and health records are keyed once each, and it holds at most
  512 mining jobs, each of them under an identifier and with its block not yet hashed.
\<close>

theorem node_invariant:
  assumes "node_reach s store n"
  shows "chain_inv (se_crypto s) (nd_Chain n)
    \<and> (case p2p_checkpoint n of Inr cp \<Rightarrow> Verify (se_crypto s) cp | Inl _ \<Rightarrow> nd_checkpoint n = zero_checkpoint)
    \<and> (ch_authAnchor (nd_Chain n) = zero_checkpoint \<or> Verify (se_crypto s) (ch_authAnchor (nd_Chain n)))
    \<and> distinct (map fst (nd_peers n)) \<and> distinct (map fst (nd_ph n))
    \<and> length (nd_templates n) \<le> 512 \<and> list_all (\<lambda>(i, e). i \<noteq> [] \<and> blk_hash (wt_blk e) = []) (nd_templates n)"
proof -
  note ok = node_reach_ok [OF assms]
  note d = node_okD [OF ok]
  have "chain_inv (se_crypto s) (nd_Chain n)" using d(1) by (auto simp: engine_ok_def intro: reachable_inv)
  moreover have "cp_Hash (nd_checkpoint n) \<noteq> [] \<Longrightarrow> Verify (se_crypto s) (nd_checkpoint n)"
    using d(2) by (auto simp: signed_ok_def zero_checkpoint_def)
  ultimately show ?thesis
    using d jobs_okD(2,3) [OF d(3)]
    by (auto simp: p2p_checkpoint_def engine_ok_def signed_ok_def gm_invar_def list_all_iff Verify_hash)
qed

lemma fresh_anchor: "ch_authAnchor (fresh_chain cr store) = zero_checkpoint"
proof -
  have t: "truncate_at_break cr [GenesisBlock cr] = [GenesisBlock cr]" by (simp add: truncate_at_break_def)
  have w: "work_of_blocks [GenesisBlock cr] = Some (total_work [GenesisBlock cr])"
    using genesis_target_opt [of cr] by (intro work_of_blocks_eq) simp
  show ?thesis
    by (simp add: fresh_chain_def load_blocks_def t rebuildDerived_def w Let_def recomputeSupplyLocked_def chain_frame
        markPowVerified_def open_chain_def)
qed

lemma fresh_engine_ok: "engine_ok s store (fresh_chain (se_crypto s) store)"
  by (simp add: engine_ok_def fresh_anchor signed_ok_def reachable.start)

definition demo_setting :: setting where
  "demo_setting = \<lparr>se_crypto = demo_crypto, se_pow = easy_pow,
     se_net = \<lparr>nl_hostname = (\<lambda>_. None), nl_parseIP = (\<lambda>_. None)\<rparr>, se_nets = []\<rparr>"

lemma demo_boot:
  "\<exists>n. New_node demo_crypto (se_net demo_setting) [] (fresh_chain demo_crypto False) [] [] None True = Some n
    \<and> nd_Chain n = fresh_chain demo_crypto False"
  using chain_inv_fresh(2) [of demo_crypto False] by (simp add: New_node_def myTip_def Tip_def)

theorem node_invariant_witness:
  "\<exists>n. New_node demo_crypto (se_net demo_setting) [] (fresh_chain demo_crypto False) [] [] None True = Some n
    \<and> ch_blocks (nd_Chain (node_event demo_setting (RecvBlock 1781136060 [] (Some block1)) n)) = [GenesisBlock demo_crypto, block1]
    \<and> chain_inv demo_crypto (nd_Chain (node_event demo_setting (RecvBlock 1781136060 [] (Some block1)) n))"
proof -
  have st: "se_crypto demo_setting = demo_crypto" "se_pow demo_setting = easy_pow" "se_nets demo_setting = []"
    by (simp_all add: demo_setting_def)
  obtain n where n: "New_node demo_crypto (se_net demo_setting) [] (fresh_chain demo_crypto False) [] [] None True = Some n"
    "nd_Chain n = fresh_chain demo_crypto False" using demo_boot by blast
  have "node_reach demo_setting False n"
    using node_reach.boot [OF fresh_engine_ok [of demo_setting False]] n(1) st by metis
  from node_reach.event [OF this]
  have r: "node_reach demo_setting False (node_event demo_setting (RecvBlock 1781136060 [] (Some block1)) n)" .
  have "ch_blocks (nd_Chain (node_event demo_setting (RecvBlock 1781136060 [] (Some block1)) n)) = [GenesisBlock demo_crypto, block1]"
    using chain1_blocks n(2)
    by (auto simp: st p2p_block_def reg_def chain1_def updateTipSnap_def Let_def split: prod.split option.split)
  then show ?thesis using node_invariant [OF r] n(1) st by auto
qed


end
