(* ===== verification/Node_Errors.thy ===== *)
theory Node_Errors
  imports Node_Invariant
begin

text \<open>
  Requests that fail: a request that is answered with an error leaves the chain, the accounts, the
  transactions of the mempool, the checkpoints and the authority anchor as they were.
\<close>

text \<open>The error with which an event is answered, when it is a request that can be refused.\<close>

fun refusal :: "setting \<Rightarrow> event \<Rightarrow> node \<Rightarrow> http_err option" where
  "refusal s (RecvBlock now hdr body) n =
     (case fst (p2p_block (se_crypto s) (se_pow s) now (se_net s) (se_nets s) hdr body n) of Inl e \<Rightarrow> Some e | Inr _ \<Rightarrow> None)"
| "refusal s (RecvTx hdr body) n = (case fst (p2p_tx (se_crypto s) hdr body n) of Inl e \<Rightarrow> Some e | Inr _ \<Rightarrow> None)"
| "refusal s (PostTx body) n = (case fst (api_tx_post (se_crypto s) body n) of Inl e \<Rightarrow> Some e | Inr _ \<Rightarrow> None)"
| "refusal s (PostCheckpoint client body) n =
     (case fst (api_checkpoint_post (se_crypto s) client body n) of Inl e \<Rightarrow> Some e | Inr _ \<Rightarrow> None)"
| "refusal s (GetWork now now' t t' addr) n =
     (case fst (api_getwork (se_crypto s) now now' t t' addr n) of Inl e \<Rightarrow> Some e | Inr _ \<Rightarrow> None)"
| "refusal s (SubmitWork now body) n =
     (case fst (api_submitwork (se_crypto s) (se_pow s) now body n) of Inl e \<Rightarrow> Some e | Inr _ \<Rightarrow> None)"
| "refusal s (Adopt now p h whole anc bs) n =
     map_option ChainErr (fst (adopt (se_crypto s) (se_pow s) now p h whole anc bs n))"
| "refusal s e n = None"

definition same_ledger :: "chain \<Rightarrow> chain \<Rightarrow> bool" where
  "same_ledger d c \<longleftrightarrow>
     ch_blocks d = ch_blocks c \<and> st_eq (ch_state d) (ch_state c) \<and> ch_cumWork d = ch_cumWork c \<and> ch_supply d = ch_supply c
     \<and> ch_totals d = ch_totals c \<and> ch_addrTx d = ch_addrTx c \<and> map_of (ch_mempool d) = map_of (ch_mempool c)
     \<and> ch_Checkpoints d = ch_Checkpoints c \<and> ch_authAnchor d = ch_authAnchor c"

lemma same_ledger_refl [simp]: "same_ledger c c"
  by (simp add: same_ledger_def)

lemma same_ledger_core: "core_of d = core_of c \<Longrightarrow> same_ledger d c"
  using core_of_fields [of d c] by (simp add: same_ledger_def)

lemma same_ledger_trans: "same_ledger d c \<Longrightarrow> same_ledger c b \<Longrightarrow> same_ledger d b"
  by (simp add: same_ledger_def st_eq_def)

lemma same_ledger_AddBlock: "AddBlock cr pow now b c = (Some e, d, w) \<Longrightarrow> same_ledger d c"
  by (auto simp: AddBlock_def Let_def split: if_splits option.splits prod.splits
      intro: same_ledger_core core_validate_eq)

lemma AddTx_fail_pool:
  assumes "pool_ok cr c" and "fst (AddTx cr t c) \<noteq> None"
  shows "map_of (ch_mempool (snd (AddTx cr t c))) = map_of (ch_mempool c)"
proof (cases "rbf_slot cr c t")
  case None
  then show ?thesis
    using assms(2) validateMempool_frame(1) [of cr t c]
    by (auto simp: AddTx_cases [OF assms(1)] split: prod.splits option.splits if_splits)
next
  case (Some m)
  note m = rbf_slot_Some [OF assms(1) Some]
  let ?v = "validateMempoolTxLocked cr t (mpDel cr (ID cr m) c)"
  have "map_of (ch_mempool (snd ?v)) = (map_of (ch_mempool c))(ID cr m := None)"
    unfolding validateMempool_frame by (rule mpDel_lookup)
  then have "map_of (ch_mempool (mpAdd cr m (snd ?v))) = map_of (ch_mempool c)"
    using m(1) by (auto simp: update_conv')
  then show ?thesis
    using assms(2)
    by (cases "fst ?v") (auto simp: AddTx_cases [OF assms(1)] Some case_prod_beta simp del: mpAdd_fields split: if_splits)
qed

lemma same_ledger_AddTx:
  assumes "chain_inv cr c" and "AddTx cr t c = (Some e, d)"
  shows "same_ledger d c"
proof -
  have d: "d = snd (AddTx cr t c)" "fst (AddTx cr t c) \<noteq> None" using assms(2) by simp_all
  have p: "pool_ok cr c" "gm_invar (ch_state c)" using assms(1) by (simp_all add: chain_inv_def pool_inv_def)
  show ?thesis
    using AddTx_fail_pool [OF p(1) d(2)] AddTx_state [OF p(2), of cr t]
      ledger_part_fields [OF ledger_part_AddTx [of cr t c]]
    by (simp add: same_ledger_def d(1))
qed

lemma same_ledger_adopt:
  assumes "adopt cr pow now p h whole anc bs n = (Some e, m)"
  shows "same_ledger (nd_Chain m) (nd_Chain n)"
proof -
  let ?c1 = "PreVerifySigs cr (anc + 1) bs (PreVerifyPoW cr pow (anc + 1) bs (nd_Chain n))"
  let ?d = "fst (snd (TryAdoptChain cr pow now (anc + 1) bs ?c1))"
  have "fst (TryAdoptChain cr pow now (anc + 1) bs ?c1) \<noteq> None" and m: "nd_Chain m = ?d"
    using assms by (auto simp: adopt_def noteDoomed_def Let_def split: prod.splits option.splits if_splits)
  then have "core_of ?d = core_of ?c1" using TryAdopt_fail by blast
  then have "same_ledger ?d ?c1" by (rule same_ledger_core)
  moreover have "same_ledger ?c1 (nd_Chain n)" by (simp add: same_ledger_def PreVerifyPoW_def PreVerifySigs_def Let_def)
  ultimately show ?thesis unfolding m by (rule same_ledger_trans)
qed



end
