(* ===== verification/Node_Ends.thy ===== *)
theory Node_Ends
  imports Node_Search Node_Pair
begin

text \<open>
  A synchronisation ends against any peer: the search after at most 64 requests, the download after at
  most as many batches as the advertised height.
\<close>

lemma find_ancestor_le:
  "find_ancestor cr p other fuel k lo hi anc n = Some (Found a, j, m) \<Longrightarrow> unat hi < 2 ^ 63 \<Longrightarrow> anc \<le> cap \<Longrightarrow> hi \<le> cap \<Longrightarrow> a \<le> cap"
proof (induction fuel arbitrary: k lo hi anc n)
  case 0
  then show ?case by (subst (asm) find_ancestor.simps) (simp split: if_splits)
next
  case (Suc fuel)
  let ?mid = "(lo + hi) div 2"
  show ?case
  proof (cases "lo \<le> hi")
    case True
    have "unat ?mid = (unat lo + unat hi) div 2" by (rule u64_mid [OF True Suc.prems(2)])
    then have m: "?mid \<le> hi" using True unfolding word_le_nat_alt by linarith
    have mt: "?mid \<le> cap" using m Suc.prems(4) by simp
    have p: "?mid - 1 \<le> hi" "?mid - 1 \<le> cap" "unat (?mid - 1) < 2 ^ 63" if "?mid \<noteq> 0"
    proof -
      have "?mid - 1 \<le> ?mid" using that u64_pred [of ?mid] by (simp add: word_le_nat_alt)
      then show "?mid - 1 \<le> hi" "?mid - 1 \<le> cap" "unat (?mid - 1) < 2 ^ 63"
        using m mt Suc.prems(2) by (auto simp: word_le_nat_alt)
    qed
    show ?thesis
      using Suc.prems(1) True Suc.IH [OF _ Suc.prems(2) mt Suc.prems(4)] Suc.IH [OF _ p(3) Suc.prems(3) p(2)]
      by (subst (asm) find_ancestor.simps) (simp add: Let_def split: option.splits if_splits)
  next
    case False
    then show ?thesis using Suc.prems by (subst (asm) find_ancestor.simps) simp
  qed
qed

lemma fetch_loop_ends:
  assumes h: "unat (ti_height their) < 2 ^ 62"
    and b: "\<And>k f. case pr_blocks p k f 200 of None \<Rightarrow> True | Some bs \<Rightarrow> length bs < 2 ^ 62"
  shows "unat from < 2 ^ 63 \<Longrightarrow> unat (ti_height their) + 1 - unat from < fuel \<Longrightarrow>
    fetch_loop cr pow now peer their p other isReorg fuel k from anc pending n \<noteq> None"
proof (induction fuel arbitrary: k "from" anc pending n)
  case (Suc fuel)
  let ?b = "case pr_blocks p k from 200 of None \<Rightarrow> [] | Some b \<Rightarrow> b"
  have l: "length ?b < 2 ^ 62" using b [of k "from"] by (simp split: option.splits)
  have f: "unat (from + blen ?b) = unat from + length ?b"
  proof -
    have u: "unat (blen ?b) = length ?b" using l by (simp add: unat_of_nat take_bit_nat_eq_self)
    have "unat from + unat (blen ?b) < 2 ^ LENGTH(64)" using l Suc.prems(1) u by simp
    then have "unat (from + blen ?b) = unat from + unat (blen ?b)" by (rule unat_add_lem [THEN iffD1])
    then show ?thesis using u by simp
  qed
  have go: "fetch_loop cr pow now peer their p other isReorg fuel k' (from + blen ?b) anc' pending' n' \<noteq> None"
    if "?b \<noteq> []" "\<not> from + blen ?b > ti_height their" for k' anc' pending' n'
  proof -
    have "0 < length ?b" using that(1) by (rule length_greater_0_conv [THEN iffD2])
    moreover have "unat from + length ?b \<le> unat (ti_height their)" using that(2) f by (simp add: word_less_nat_alt)
    moreover have "a < 2 ^ 63 \<and> t + 1 - a < fuel" if "0 < d" "f + d \<le> t" "a = f + d" "t < 2 ^ 62" "t + 1 - f < Suc fuel" for a d f t :: nat
      using that by auto
    ultimately have "unat (from + blen ?b) < 2 ^ 63 \<and> unat (ti_height their) + 1 - unat (from + blen ?b) < fuel"
      using f h Suc.prems(2) by blast
    then show ?thesis using Suc.IH by blast
  qed
  show ?case
  proof (cases "?b = []")
    case False
    note g = go [OF False]
    obtain e m where a: "adopt cr pow now peer (ti_hash their) (from + blen ?b > ti_height their) anc (pending @ ?b) (other k n) = (e, m)"
      by fastforce
    show ?thesis using False g a by (auto simp: Let_def split: option.split)
  qed (simp add: Let_def)
qed simp



end
