(* ===== verification/Node_Limiter.thy ===== *)
theory Node_Limiter
  imports Float64
begin

text \<open>
  The token-bucket rate limiter in front of the peer-to-peer port, after \<^verbatim>\<open>src/node/node.go\<close>. Tokens are
  binary64 values and every operation rounds; \<open>fuse\<close> says whether the compiler fuses the multiplication
  of a refill with its addition. Times are nanoseconds. Removing refilled buckets loses nothing, and what
  a source gets through is bounded by the burst and the rate.
\<close>

section \<open>The limiter\<close>

text \<open>\<^verbatim>\<open>time.Duration.Seconds\<close>.\<close>

definition Seconds :: "int \<Rightarrow> rat" where
  "Seconds d = f64_round (f64_round (of_int (d div 1000000000)) + f64_round (f64_round (of_int (d mod 1000000000)) / 1000000000))"

record token_bucket =
  tb_tokens :: rat
  tb_last :: int

record limiter =
  rl_b :: "(string, token_bucket) gomap"
  rl_rate :: rat
  rl_burst :: rat

abbreviation (input) rlMaxBuckets :: nat where "rlMaxBuckets \<equiv> 8192"

definition newRateLimiter :: "rat \<Rightarrow> rat \<Rightarrow> limiter" where
  "newRateLimiter rate burst = \<lparr>rl_b = [], rl_rate = rate, rl_burst = burst\<rparr>"

definition refilled :: "bool \<Rightarrow> rat \<Rightarrow> int \<Rightarrow> token_bucket \<Rightarrow> rat" where
  "refilled fuse rate now tb =
     (let s = Seconds (now - tb_last tb)
      in f64_round (tb_tokens tb + (if fuse then s * rate else f64_round (s * rate))))"

definition gcLocked :: "bool \<Rightarrow> int \<Rightarrow> limiter \<Rightarrow> limiter" where
  "gcLocked fuse now rl =
     (let b = filter (\<lambda>(ip, tb). \<not> refilled fuse (rl_rate rl) now tb \<ge> rl_burst rl) (rl_b rl)
      in rl\<lparr>rl_b := drop (length b - rlMaxBuckets) b\<rparr>)"

definition allow :: "bool \<Rightarrow> string \<Rightarrow> int \<Rightarrow> limiter \<Rightarrow> bool \<times> limiter" where
  "allow fuse ip now rl =
     (let (rl1, tb) = (case map_of (rl_b rl) ip of
            Some tb \<Rightarrow> (rl, tb)
          | None \<Rightarrow> (if length (rl_b rl) \<ge> rlMaxBuckets then gcLocked fuse now rl else rl,
                     \<lparr>tb_tokens = rl_burst rl, tb_last = now\<rparr>));
          t0 = refilled fuse (rl_rate rl1) now tb;
          t1 = (if t0 > rl_burst rl1 then rl_burst rl1 else t0)
      in if t1 < 1 then (False, rl1\<lparr>rl_b := AList.update ip \<lparr>tb_tokens = t1, tb_last = now\<rparr> (rl_b rl1)\<rparr>)
         else (True, rl1\<lparr>rl_b := AList.update ip \<lparr>tb_tokens = f64_round (t1 - 1), tb_last = now\<rparr> (rl_b rl1)\<rparr>))"

section \<open>Rounding\<close>

abbreviation (input) ulp :: rat where "ulp \<equiv> 1 / 2 ^ 52"

lemma f64_round_rel:
  assumes "0 \<le> x"
  shows "f64_round x \<le> x * (1 + ulp)"
proof (cases "x = 0")
  case False
  then have x: "0 < x" using assms by simp
  define u :: rat where "u = 2 powi (f64_exp x - 52)"
  have u: "0 < u" by (simp add: u_def)
  have "2 powi f64_exp x \<le> x" using f64_exp_bounds [OF x] by simp
  moreover have "u = 2 powi f64_exp x * ulp" by (simp add: u_def power_int_diff)
  ultimately have ux: "u \<le> x * ulp" by simp
  have "of_int (rne (x / u)) \<le> x / u + 1" using rne_bounds [of "x / u"] by linarith
  then have "of_int (rne (x / u)) * u \<le> (x / u + 1) * u" using u by (intro mult_right_mono) simp_all
  also have "\<dots> = x + u" using u by (simp add: field_simps)
  finally show ?thesis using ux x by (simp add: f64_round_def Let_def distrib_left flip: u_def)
qed (simp add: f64_round_def)

text \<open>Rounding errors are at most \<open>k\<close> factors \<open>1 + 2^-52\<close>.\<close>

definition near :: "nat \<Rightarrow> rat \<Rightarrow> rat \<Rightarrow> bool" where
  "near k y x \<longleftrightarrow> 0 \<le> y \<and> 0 \<le> x \<and> y \<le> x * (1 + ulp) ^ k"

lemma near_round: "near k y x \<Longrightarrow> near (Suc k) (f64_round y) x"
proof -
  assume w: "near k y x"
  then have "f64_round y \<le> y * (1 + ulp)" by (intro f64_round_rel) (simp add: near_def)
  also have "\<dots> \<le> x * (1 + ulp) ^ k * (1 + ulp)" using w by (intro mult_right_mono) (simp_all add: near_def)
  finally show ?thesis using w f64_round_nonneg by (simp add: near_def algebra_simps)
qed

lemma near_refl: "0 \<le> x \<Longrightarrow> near 0 x x"
  by (simp add: near_def)

lemma near_mono: "near k y x \<Longrightarrow> k \<le> l \<Longrightarrow> near l y x"
proof -
  assume w: "near k y x" "k \<le> l"
  have "x * (1 + ulp) ^ k \<le> x * (1 + ulp) ^ l"
    using w by (intro mult_left_mono power_increasing) (simp_all add: near_def)
  then show ?thesis using w by (simp add: near_def)
qed

lemma near_add: "near k y x \<Longrightarrow> near k y' x' \<Longrightarrow> near k (y + y') (x + x')"
  by (simp add: near_def distrib_right)

lemma near_mult: "near k y x \<Longrightarrow> 0 \<le> c \<Longrightarrow> near k (y * c) (x * c)"
  using mult_right_mono [of y "x * (1 + ulp) ^ k" c] by (simp add: near_def algebra_simps)

lemma near_Seconds: "0 \<le> d \<Longrightarrow> near 3 (Seconds d) (of_int d / 1000000000)"
proof -
  assume d: "0 \<le> d"
  have s: "near 2 (f64_round (of_int (d div 1000000000))) (of_int (d div 1000000000))"
    using near_mono [OF near_round [OF near_refl]] d by simp
  have "near 1 (f64_round (of_int (d mod 1000000000))) (of_int (d mod 1000000000))"
    using near_round [OF near_refl, of "of_int (d mod 1000000000)"] by simp
  from near_round [OF near_mult [OF this, of "1 / 1000000000"]]
  have n: "near 2 (f64_round (f64_round (of_int (d mod 1000000000)) / 1000000000)) (of_int (d mod 1000000000) / 1000000000)"
    by (simp add: numeral_2_eq_2)
  have q: "(of_int (d div 1000000000) * 1000000000 + of_int (d mod 1000000000) :: rat) = of_int d"
    by (metis div_mult_mod_eq of_int_add of_int_mult of_int_numeral)
  have sum: "of_int (d div 1000000000) + of_int (d mod 1000000000) / 1000000000 = (of_int d / 1000000000 :: rat)"
    by (simp add: add_divide_distrib flip: q)
  show ?thesis
    using near_round [OF near_add [OF s n]] unfolding sum Seconds_def by (simp add: numeral_3_eq_3 numeral_2_eq_2)
qed

lemma near_refilled:
  assumes "0 \<le> tb_tokens tb" and "tb_last tb \<le> now" and "0 \<le> rate"
  shows "near 5 (refilled fuse rate now tb) (tb_tokens tb + of_int (now - tb_last tb) / 1000000000 * rate)"
proof -
  let ?d = "now - tb_last tb"
  have s: "near 3 (Seconds ?d * rate) (of_int ?d / 1000000000 * rate)"
    using near_mult [OF near_Seconds [of ?d] assms(3)] assms(2) by simp
  have "near 4 (if fuse then Seconds ?d * rate else f64_round (Seconds ?d * rate)) (of_int ?d / 1000000000 * rate)"
    using near_mono [OF s, of 4] near_round [OF s] by simp
  moreover have "near 4 (tb_tokens tb) (tb_tokens tb)"
    using near_mono [OF near_refl [OF assms(1)], of 4] by simp
  ultimately show ?thesis
    using near_round [OF near_add, of 4] by (simp add: refilled_def Let_def)
qed

section \<open>Refilled buckets\<close>

lemma Seconds_mono:
  assumes "0 \<le> d" and "d \<le> e" and "e < 2 ^ 63"
  shows "Seconds d \<le> Seconds e"
proof -
  have whole: "f64_round (of_int i) = of_int i" if "0 \<le> i" "i < 2 ^ 53" for i
    using f64_round_of_nat [of "nat i"] that by (simp add: nat_less_iff)
  have nn: "0 \<le> f64_round (f64_round (of_int (i mod 1000000000)) / 1000000000)" for i :: int
    by (intro f64_round_nonneg divide_nonneg_nonneg) simp_all
  have sec: "0 \<le> d div 1000000000" "d div 1000000000 \<le> e div 1000000000" "e div 1000000000 < 2 ^ 53"
    using assms by (simp_all add: zdiv_mono1 pos_imp_zdiv_nonneg_iff)
  define part where "part i = f64_round (f64_round (of_int (i mod 1000000000)) / 1000000000)" for i :: int
  have parts: "0 \<le> part d" "0 \<le> part e" by (simp_all add: nn part_def)
  have le: "Seconds d \<le> Seconds e"
    if "f64_round (of_int (d div 1000000000)) + part d \<le> f64_round (of_int (e div 1000000000)) + part e"
    unfolding Seconds_def part_def [symmetric]
  proof (rule f64_round_mono)
    show "0 \<le> f64_round (of_int (d div 1000000000)) + part d"
      using parts(1) sec(1) by (intro add_nonneg_nonneg f64_round_nonneg) simp_all
  qed (rule that)
  show ?thesis
  proof (cases "d div 1000000000 = e div 1000000000")
    case True
    then have "d mod 1000000000 \<le> e mod 1000000000" using assms(2) by (metis add_le_cancel_left div_mult_mod_eq)
    then have "f64_round (of_int (d mod 1000000000)) \<le> f64_round (of_int (e mod 1000000000))"
      by (intro f64_round_mono) simp_all
    then have "part d \<le> part e"
      unfolding part_def by (intro f64_round_mono) (simp_all add: divide_right_mono f64_round_nonneg)
    then show ?thesis by (intro le) (simp add: True)
  next
    case False
    let ?r = "d mod 1000000000"
    have "0 \<le> ?r" "?r < 1000000000" by simp_all
    then have r: "f64_round (of_int ?r) = of_int ?r" "of_int ?r / 1000000000 \<le> (1 :: rat)"
      using whole [of ?r] by (simp_all add: of_int_less_iff [where 'a = rat, of ?r 1000000000, simplified] order.strict_implies_order)
    then have "f64_round (of_int ?r / 1000000000) \<le> f64_round 1" by (intro f64_round_mono) simp_all
    then have n: "part d \<le> 1" using f64_round_of_nat [of 1] r(1) by (simp add: part_def)
    have "d div 1000000000 + 1 \<le> e div 1000000000" using False sec(2) by linarith
    then have "(of_int (d div 1000000000 + 1) :: rat) \<le> of_int (e div 1000000000)" by (simp only: of_int_le_iff)
    then have "f64_round (of_int (d div 1000000000)) + 1 \<le> f64_round (of_int (e div 1000000000))"
      using whole [of "d div 1000000000"] whole [of "e div 1000000000"] sec by simp
    then show ?thesis using n parts(2) by (intro le) linarith
  qed
qed

lemma Seconds_nonneg: "0 \<le> d \<Longrightarrow> 0 \<le> Seconds d"
  using near_Seconds by (simp add: near_def)

lemma refilled_mono:
  assumes "0 \<le> tb_tokens tb" and "tb_last tb \<le> now" and "now \<le> t" and "t - tb_last tb < 2 ^ 63" and "0 \<le> rate"
  shows "refilled fuse rate now tb \<le> refilled fuse rate t tb"
proof -
  have s: "0 \<le> Seconds (now - tb_last tb)" "Seconds (now - tb_last tb) \<le> Seconds (t - tb_last tb)"
    using assms by (simp_all add: Seconds_nonneg Seconds_mono)
  then have "0 \<le> Seconds (now - tb_last tb) * rate" "Seconds (now - tb_last tb) * rate \<le> Seconds (t - tb_last tb) * rate"
    using assms(5) by (simp_all add: mult_right_mono)
  then show ?thesis
    using assms(1) by (auto simp: refilled_def Let_def intro!: f64_round_mono add_nonneg_nonneg f64_round_nonneg add_left_mono)
qed

lemma refilled_fresh: "0 \<le> rate \<Longrightarrow> refilled fuse rate now \<lparr>tb_tokens = b, tb_last = now\<rparr> = f64_round b"
  by (simp add: refilled_def Seconds_def f64_round_def Let_def)

definition limiter_ok :: "int \<Rightarrow> limiter \<Rightarrow> bool" where
  "limiter_ok now rl \<longleftrightarrow>
     gm_invar (rl_b rl) \<and> 0 \<le> rl_rate rl \<and> 1 \<le> rl_burst rl \<and> f64_round (rl_burst rl) = rl_burst rl
     \<and> (\<forall>(ip, tb) \<in> set (rl_b rl). 0 \<le> tb_tokens tb \<and> tb_tokens tb \<le> rl_burst rl \<and> tb_last tb \<le> now)"

lemma limiter_okD:
  assumes "limiter_ok now rl"
  shows "gm_invar (rl_b rl)" "0 \<le> rl_rate rl" "1 \<le> rl_burst rl" "f64_round (rl_burst rl) = rl_burst rl"
    "map_of (rl_b rl) ip = Some tb \<Longrightarrow> 0 \<le> tb_tokens tb \<and> tb_tokens tb \<le> rl_burst rl \<and> tb_last tb \<le> now"
  using assms by (auto simp: limiter_ok_def dest!: map_of_SomeD)

lemma allow_bucket:
  "allow fuse ip now rl =
     (let rl1 = (if map_of (rl_b rl) ip = None \<and> length (rl_b rl) \<ge> rlMaxBuckets then gcLocked fuse now rl else rl);
          tb = (case map_of (rl_b rl) ip of None \<Rightarrow> \<lparr>tb_tokens = rl_burst rl, tb_last = now\<rparr> | Some tb \<Rightarrow> tb);
          t1 = min (refilled fuse (rl_rate rl) now tb) (rl_burst rl)
      in (t1 \<ge> 1, rl1\<lparr>rl_b := AList.update ip \<lparr>tb_tokens = if t1 \<ge> 1 then f64_round (t1 - 1) else t1, tb_last = now\<rparr> (rl_b rl1)\<rparr>))"
  by (simp add: allow_def gcLocked_def Let_def min_def split: option.split)

lemma gc_kept:
  assumes "limiter_ok now rl"
    and "length (filter (\<lambda>(ip, tb). \<not> refilled fuse (rl_rate rl) now tb \<ge> rl_burst rl) (rl_b rl)) \<le> rlMaxBuckets"
  shows "map_of (rl_b (gcLocked fuse now rl)) ip =
    (case map_of (rl_b rl) ip of None \<Rightarrow> None
     | Some tb \<Rightarrow> if refilled fuse (rl_rate rl) now tb \<ge> rl_burst rl then None else Some tb)"
proof -
  have f: "distinct (map fst m) \<Longrightarrow> map_of (filter (\<lambda>(k, v). P v) m) k = (case map_of m k of None \<Rightarrow> None | Some v \<Rightarrow> if P v then Some v else None)"
    for m :: "(string, token_bucket) gomap" and P k
    by (induction m) (force split: option.split dest: map_of_SomeD)+
  show ?thesis
    using limiter_okD(1) [OF assms(1)] assms(2) f by (simp add: gcLocked_def Let_def gm_invar_def split: option.split)
qed

text \<open>Freeing memory costs nobody anything. As long as at most 8192 buckets are not refilled, removing the
  refilled ones at any time changes neither the answer to a later request of any source nor the bucket
  it leaves, whichever way the compiler rounds.
\<close>

theorem gc_loses_nothing:
  assumes "limiter_ok now rl"
    and "length (filter (\<lambda>(ip, tb). \<not> refilled fuse (rl_rate rl) now tb \<ge> rl_burst rl) (rl_b rl)) \<le> 8192"
    and "now \<le> t" and "\<forall>(j, tb) \<in> set (rl_b rl). t - tb_last tb < 2 ^ 63"
  shows "fst (allow fuse ip t (gcLocked fuse now rl)) = fst (allow fuse ip t rl)
    \<and> map_of (rl_b (snd (allow fuse ip t (gcLocked fuse now rl)))) ip = map_of (rl_b (snd (allow fuse ip t rl))) ip"
proof -
  note ok = limiter_okD [OF assms(1)]
  have par: "rl_rate (gcLocked fuse now rl) = rl_rate rl" "rl_burst (gcLocked fuse now rl) = rl_burst rl"
    by (simp_all add: gcLocked_def Let_def)
  show ?thesis
  proof (cases "map_of (rl_b rl) ip")
    case None
    then show ?thesis using gc_kept [OF assms(1,2), of ip] by (simp add: allow_bucket par Let_def update_conv')
  next
    case (Some tb)
    have later: "refilled fuse (rl_rate rl) now tb \<le> refilled fuse (rl_rate rl) t tb"
      using ok(5) [OF Some] ok(2) assms(3,4) map_of_SomeD [OF Some] by (intro refilled_mono) auto
    have fresh: "refilled fuse (rl_rate rl) t \<lparr>tb_tokens = rl_burst rl, tb_last = t\<rparr> = rl_burst rl"
      using refilled_fresh [OF ok(2)] ok(4) by simp
    show ?thesis
    proof (cases "refilled fuse (rl_rate rl) now tb \<ge> rl_burst rl")
      case True
      then have "min (refilled fuse (rl_rate rl) t tb) (rl_burst rl) = rl_burst rl" using later by simp
      then show ?thesis using True later ok(3) Some fresh gc_kept [OF assms(1,2), of ip] by (simp add: allow_bucket par Let_def update_conv')
    next
      case False
      then show ?thesis using Some gc_kept [OF assms(1,2), of ip] by (simp add: allow_bucket par Let_def update_conv')
    qed
  qed
qed

definition demo_limiter :: limiter where
  "demo_limiter = \<lparr>rl_b = [(''a'', \<lparr>tb_tokens = 50, tb_last = 7\<rparr>)], rl_rate = 25, rl_burst = 50\<rparr>"

lemma f64_50: "f64_round 50 = 50"
  using f64_round_of_nat [of 50] by simp

theorem gc_loses_nothing_witness:
  "rl_b (gcLocked True 7 demo_limiter) = [] \<and> fst (allow True ''a'' 9 (gcLocked True 7 demo_limiter)) = fst (allow True ''a'' 9 demo_limiter)"
proof -
  have r: "refilled True 25 7 \<lparr>tb_tokens = 50, tb_last = 7\<rparr> = 50" using refilled_fresh [of 25 True 7 50] f64_50 by simp
  have "limiter_ok 7 demo_limiter" by (simp add: limiter_ok_def demo_limiter_def gm_invar_def f64_50)
  moreover have "length (filter (\<lambda>(ip, tb). \<not> refilled True (rl_rate demo_limiter) 7 tb \<ge> rl_burst demo_limiter) (rl_b demo_limiter)) \<le> 8192"
    by (simp add: demo_limiter_def)
  moreover have "\<forall>(j, tb) \<in> set (rl_b demo_limiter). 9 - tb_last tb < 2 ^ 63" by (simp add: demo_limiter_def)
  ultimately show ?thesis
    using gc_loses_nothing [of 7 demo_limiter True 9 "''a''"] r by (simp add: gcLocked_def demo_limiter_def Let_def)
qed

section \<open>The rate\<close>

fun passed :: "bool \<Rightarrow> string \<Rightarrow> (string \<times> int) list \<Rightarrow> limiter \<Rightarrow> nat" where
  "passed fuse ip [] rl = 0"
| "passed fuse ip ((j, now) # reqs) rl =
     (case allow fuse j now rl of (ok, rl') \<Rightarrow> (if j = ip \<and> ok then 1 else 0) + passed fuse ip reqs rl')"

lemma slack:
  fixes x b :: rat
  assumes "near 5 y x" and "0 \<le> b"
  shows "min y b \<le> x + b * (6 * ulp)"
proof (cases "x \<le> b")
  case True
  have "(1 + ulp) ^ 5 \<le> (1 + 6 * ulp :: rat)" by (simp add: power_divide field_simps) 
  then have "x * (1 + ulp) ^ 5 \<le> x * (1 + 6 * ulp)" using assms(1) by (intro mult_left_mono) (simp_all add: near_def)
  moreover have "x * (6 * ulp) \<le> b * (6 * ulp)" using True by (intro mult_right_mono) simp_all
  ultimately have "y \<le> x + b * (6 * ulp)" using assms(1) by (simp add: near_def distrib_left)
  then show ?thesis by simp
next
  case False
  moreover have "0 \<le> b * (6 * ulp)" using assms(2) by simp
  ultimately show ?thesis by linarith
qed

text \<open>One request: tokens are spent, gained at the rate, and rounded.\<close>

definition level :: "limiter \<Rightarrow> string \<Rightarrow> rat" where
  "level rl ip = (case map_of (rl_b rl) ip of None \<Rightarrow> rl_burst rl | Some tb \<Rightarrow> tb_tokens tb)"

definition since :: "int \<Rightarrow> limiter \<Rightarrow> string \<Rightarrow> int" where
  "since t0 rl ip = (case map_of (rl_b rl) ip of None \<Rightarrow> t0 | Some tb \<Rightarrow> tb_last tb)"

lemma allow_level:
  assumes "limiter_ok now rl" and "t0 \<le> now"
  shows "level (snd (allow fuse ip now rl)) ip + (if fst (allow fuse ip now rl) then 1 else 0)
      \<le> level rl ip + rl_rate rl * of_int (now - since t0 rl ip) / 1000000000 + rl_burst rl / 2 ^ 49"
    and "0 \<le> level (snd (allow fuse ip now rl)) ip \<and> level (snd (allow fuse ip now rl)) ip \<le> rl_burst rl"
proof -
  note ok = limiter_okD [OF assms(1)]
  define tb where "tb = (case map_of (rl_b rl) ip of None \<Rightarrow> \<lparr>tb_tokens = rl_burst rl, tb_last = now\<rparr> | Some tb \<Rightarrow> tb)"
  define t1 where "t1 = min (refilled fuse (rl_rate rl) now tb) (rl_burst rl)"
  have tb: "0 \<le> tb_tokens tb" "tb_last tb \<le> now" using ok(3) ok(5) [of ip] by (auto simp: tb_def split: option.split)
  have b: "0 \<le> rl_burst rl" using ok(3) by simp
  note n = near_refilled [OF tb ok(2), of fuse]
  have t1: "0 \<le> t1" "t1 \<le> rl_burst rl"
    "t1 \<le> tb_tokens tb + of_int (now - tb_last tb) / 1000000000 * rl_rate rl + rl_burst rl * (6 * ulp)"
    using slack [OF n b] n b unfolding t1_def by (auto simp: near_def)
  have gain: "tb_tokens tb + of_int (now - tb_last tb) / 1000000000 * rl_rate rl
      \<le> level rl ip + rl_rate rl * of_int (now - since t0 rl ip) / 1000000000"
    using ok(2) assms(2) by (simp add: tb_def level_def since_def mult.commute split: option.split)
  have a: "fst (allow fuse ip now rl) = (t1 \<ge> 1)" "level (snd (allow fuse ip now rl)) ip = (if t1 \<ge> 1 then f64_round (t1 - 1) else t1)"
    by (simp_all add: allow_bucket Let_def level_def update_conv' gcLocked_def del: min.bounded_iff flip: tb_def t1_def)
  have r: "f64_round (t1 - 1) \<le> t1 - 1 + rl_burst rl * ulp" "0 \<le> f64_round (t1 - 1)" "f64_round (t1 - 1) \<le> rl_burst rl" if "t1 \<ge> 1"
  proof -
    have "(t1 - 1) * ulp \<le> rl_burst rl * ulp" using t1(2) by (intro mult_right_mono) simp_all
    then show "f64_round (t1 - 1) \<le> t1 - 1 + rl_burst rl * ulp" using f64_round_rel [of "t1 - 1"] that by (simp add: distrib_left)
    show "0 \<le> f64_round (t1 - 1)" using that f64_round_nonneg by simp
    show "f64_round (t1 - 1) \<le> rl_burst rl" using f64_round_mono [of "t1 - 1" "rl_burst rl"] that t1(2) ok(4) by simp
  qed
  have s: "rl_burst rl * (6 * ulp) + rl_burst rl * ulp \<le> rl_burst rl / 2 ^ 49" using b by simp
  have s2: "rl_burst rl * (6 * ulp) \<le> rl_burst rl / 2 ^ 49" using b by simp
  show "level (snd (allow fuse ip now rl)) ip + (if fst (allow fuse ip now rl) then 1 else 0)
      \<le> level rl ip + rl_rate rl * of_int (now - since t0 rl ip) / 1000000000 + rl_burst rl / 2 ^ 49"
  proof (cases "t1 \<ge> 1")
    case True
    show ?thesis unfolding a if_P [OF True] using t1(3) gain r(1) [OF True] s by linarith
  next
    case False
    show ?thesis unfolding a if_not_P [OF False] using t1(3) gain s2 by linarith
  qed
  show "0 \<le> level (snd (allow fuse ip now rl)) ip \<and> level (snd (allow fuse ip now rl)) ip \<le> rl_burst rl"
    unfolding a using t1 r by auto
qed

lemma allow_other:
  assumes "length (rl_b rl) < rlMaxBuckets \<or> map_of (rl_b rl) j \<noteq> None"
  shows "j \<noteq> ip \<Longrightarrow> level (snd (allow fuse j now rl)) ip = level rl ip"
    and "since t0 (snd (allow fuse j now rl)) ip = (if j = ip then now else since t0 rl ip)"
    and "fst ` set (rl_b (snd (allow fuse j now rl))) = insert j (fst ` set (rl_b rl))"
    and "rl_rate (snd (allow fuse j now rl)) = rl_rate rl" "rl_burst (snd (allow fuse j now rl)) = rl_burst rl"
  using assms
  by (auto simp: allow_bucket Let_def level_def since_def update_conv' dom_update simp flip: dom_map_of_conv_image_fst
      split: option.split)

lemma allow_ok:
  assumes "limiter_ok now rl" and "now \<le> t"
  shows "limiter_ok t (snd (allow fuse ip now rl))"
proof -
  note ok = limiter_okD [OF assms(1)]
  note l = allow_level(2) [OF assms(1) order_refl, of fuse ip]
  let ?r = "snd (allow fuse ip now rl)"
  have inv: "gm_invar (rl_b ?r)" using ok(1)
    by (auto simp: allow_bucket Let_def gcLocked_def gm_invar_def distinct_update distinct_map_filter distinct_drop simp flip: drop_map)
  have "0 \<le> tb_tokens tb \<and> tb_tokens tb \<le> rl_burst rl \<and> tb_last tb \<le> t" if "map_of (rl_b ?r) j = Some tb" for j tb
  proof (cases "j = ip")
    case True
    then show ?thesis using that l assms(2) by (auto simp: allow_bucket Let_def level_def update_conv')
  next
    case False
    then have "(j, tb) \<in> set (rl_b rl)"
      using that by (auto simp: allow_bucket Let_def update_conv' gcLocked_def split: if_splits dest!: map_of_SomeD in_set_dropD)
    then have "map_of (rl_b rl) j = Some tb" using ok(1) by (simp add: gm_invar_def)
    then show ?thesis using ok(5) assms(2) by force
  qed
  moreover have "rl_rate ?r = rl_rate rl" "rl_burst ?r = rl_burst rl"
    by (simp_all add: allow_bucket Let_def gcLocked_def)
  ultimately show ?thesis using inv ok(1-4) by (auto simp: limiter_ok_def gm_invar_def)
qed

lemma passed_bound:
  assumes "limiter_ok now rl" and "sorted (now # map snd reqs)" and "\<forall>(j, s) \<in> set reqs. s \<le> T" and "t0 \<le> now" and "now \<le> T"
    and "since t0 rl ip \<le> now" and "card (fst ` set (rl_b rl) \<union> fst ` set reqs) \<le> rlMaxBuckets"
  shows "of_nat (passed fuse ip reqs rl)
    \<le> level rl ip + rl_rate rl * of_int (T - since t0 rl ip) / 1000000000 + of_nat (length reqs) * (rl_burst rl / 2 ^ 49)"
  using assms
proof (induction reqs arbitrary: rl now)
  case Nil
  have "0 \<le> level rl ip" using limiter_okD(3) [OF Nil.prems(1)] limiter_okD(5) [OF Nil.prems(1), of ip] by (auto simp: level_def split: option.split)
  moreover have "0 \<le> rl_rate rl * of_int (T - since t0 rl ip)"
    using Nil.prems limiter_okD(2) [OF Nil.prems(1)] by (intro mult_nonneg_nonneg) simp_all
  ultimately show ?case by simp
next
  case (Cons q reqs)
  obtain j s where q: "q = (j, s)" by (cases q)
  let ?r = "snd (allow fuse j s rl)"
  have s: "now \<le> s" "s \<le> T" "sorted (s # map snd reqs)" using Cons.prems(2,3) by (auto simp: q)
  have ok: "limiter_ok s rl" using Cons.prems(1) s(1) by (fastforce simp: limiter_ok_def)
  have room: "length (rl_b rl) < rlMaxBuckets \<or> map_of (rl_b rl) j \<noteq> None"
  proof (cases "j \<in> fst ` set (rl_b rl)")
    case False
    have "card (insert j (fst ` set (rl_b rl))) \<le> card (fst ` set (rl_b rl) \<union> fst ` set (q # reqs))"
      by (rule card_mono) (auto simp: q)
    moreover have "card (fst ` set (rl_b rl)) = length (rl_b rl)"
      using limiter_okD(1) [OF Cons.prems(1)] distinct_card [of "map fst (rl_b rl)"] by (simp add: gm_invar_def)
    ultimately show ?thesis using False Cons.prems(7) by simp
  qed (simp add: map_of_eq_None_iff)
  note o = allow_other [OF room]
  have ih: "of_nat (passed fuse ip reqs ?r) \<le> level ?r ip + rl_rate rl * of_int (T - since t0 ?r ip) / 1000000000
      + of_nat (length reqs) * (rl_burst rl / 2 ^ 49)"
  proof -
    have "since t0 ?r ip \<le> s" using o(2) Cons.prems(6) s(1) by simp
    moreover have "card (fst ` set (rl_b ?r) \<union> fst ` set reqs) \<le> rlMaxBuckets"
      using Cons.prems(7) unfolding o(3) by (simp add: q)
    ultimately show ?thesis
      using Cons.IH [OF allow_ok [OF ok order_refl, of fuse j] s(3)] Cons.prems(3,4) s(1,2) by (simp add: o(4,5))
  qed
  have b: "0 \<le> rl_burst rl / 2 ^ 49" using limiter_okD(3) [OF ok] by simp
  have p: "(of_nat (passed fuse ip (q # reqs) rl) :: rat)
      = (if j = ip \<and> fst (allow fuse j s rl) then 1 else 0) + of_nat (passed fuse ip reqs ?r)"
    by (auto simp: q split_beta)
  have n: "of_nat (length (q # reqs)) * (rl_burst rl / 2 ^ 49)
      = rl_burst rl / 2 ^ 49 + of_nat (length reqs) * (rl_burst rl / 2 ^ 49)" by (simp add: distrib_right)
  show ?case
  proof (cases "j = ip")
    case True
    have "t0 \<le> s" using Cons.prems(4) s(1) by simp
    note a = allow_level(1) [OF ok this, of fuse ip]
    have "rl_rate rl * of_int (T - since t0 rl ip) / 1000000000
        = rl_rate rl * of_int (s - since t0 rl ip) / 1000000000 + rl_rate rl * of_int (T - s) / 1000000000"
      by (simp add: add_divide_distrib [symmetric] distrib_left [symmetric])
    moreover have sn: "since t0 ?r ip = s" using o(2) True by simp
    moreover have "(if j = ip \<and> fst (allow fuse j s rl) then 1 else 0) = (if fst (allow fuse ip s rl) then 1 else (0 :: rat))"
      "level ?r ip = level (snd (allow fuse ip s rl)) ip" using True by simp_all
    ultimately show ?thesis unfolding p n using a ih [unfolded sn] by linarith
  next
    case False
    then show ?thesis using ih b o(1) [OF False] unfolding p n o(2) by (simp only: if_False simp_thms)
  qed
qed



text \<open>The limit on buckets is tested before a bucket is added, so it is passed by one.\<close>

lemma bucket_limit: "length (rl_b rl) \<le> rlMaxBuckets + 1 \<Longrightarrow> length (rl_b (snd (allow fuse ip now rl))) \<le> rlMaxBuckets + 1"
proof -
  assume l: "length (rl_b rl) \<le> rlMaxBuckets + 1"
  have u: "length (AList.update ip v m) \<le> length m + 1" "map_of m ip \<noteq> None \<Longrightarrow> length (AList.update ip v m) = length m"
    for v and m :: "(string, token_bucket) gomap"
    by (induction m) auto
  have g: "length (rl_b (gcLocked fuse now rl)) \<le> rlMaxBuckets" by (simp add: gcLocked_def Let_def)
  obtain v where v: "rl_b (snd (allow fuse ip now rl)) = AList.update ip v
      (rl_b (if map_of (rl_b rl) ip = None \<and> length (rl_b rl) \<ge> rlMaxBuckets then gcLocked fuse now rl else rl))"
    by (simp add: allow_bucket Let_def)
  show ?thesis
    using l g u(1) [of v "rl_b (gcLocked fuse now rl)"] u(1) [of v "rl_b rl"] u(2) [of "rl_b rl" v]
    by (cases "map_of (rl_b rl) ip = None") (simp_all add: v)
qed

lemma bucket_limit_passed:
  assumes "length (rl_b rl) = rlMaxBuckets" and "map_of (rl_b rl) ip = None"
    and "\<forall>(j, tb) \<in> set (rl_b rl). refilled fuse (rl_rate rl) now tb < rl_burst rl"
  shows "length (rl_b (snd (allow fuse ip now rl))) = rlMaxBuckets + 1"
proof -
  have f: "filter (\<lambda>(j, tb). \<not> refilled fuse (rl_rate rl) now tb \<ge> rl_burst rl) (rl_b rl) = rl_b rl"
    using assms(3) by (intro filter_True) auto
  have "length (AList.update ip v m) = length m + 1" if "map_of m ip = None" for v and m :: "(string, token_bucket) gomap"
    using that by (induction m) auto
  then show ?thesis using assms(1,2) f by (simp add: allow_bucket Let_def gcLocked_def)
qed

end
