(* ===== verification/Node_Miner.thy ===== *)
theory Node_Miner
  imports Core_Template Core_Consensus
begin

text \<open>
  The built-in miner, after \<open>mineWorker\<close> in \<^verbatim>\<open>src/node/node.go\<close>. One turn builds a template, tries nonces
  until one meets the target, the tip moves or the template is too old, and submits what it found. A
  machine of the proof of work is known by the seed it was made from. A found block is accepted, and no
  two workers try the same nonce.
\<close>

section \<open>One turn of a worker\<close>

definition putNonce :: "bytes \<Rightarrow> u64 \<Rightarrow> bytes" where
  "putNonce header nonce = foldl (\<lambda>h i. h[NonceOffset + i := ucast (drop_bit (8 * i) nonce)]) header [0..<8]"

definition start_nonce :: "u64 \<Rightarrow> u64 \<Rightarrow> u64" where
  "start_nonce worker nanos = or (push_bit 56 worker) (push_bit 8 (and nanos 0xFFFFFFFF))"

text \<open>
  The inner loop for the number of attempts that fit before the deadline; \<open>moved k\<close> says whether the tip
  differed after attempt \<open>k\<close>. The second result is the number of hashes.
\<close>

fun mine_search :: "(bytes \<Rightarrow> bytes) \<Rightarrow> int \<Rightarrow> bytes \<Rightarrow> (nat \<Rightarrow> bool) \<Rightarrow> nat \<Rightarrow> nat \<Rightarrow> u64 \<Rightarrow> u64 option \<times> nat" where
  "mine_search hash target header moved k 0 nonce = (None, k)"
| "mine_search hash target header moved k (Suc n) nonce =
     (let h = putNonce header nonce in
      if HashMeetsTarget (hash h) target then (Some nonce, k + 1)
      else if moved k then (None, k + 1)
      else mine_search hash target h moved (k + 1) n (nonce + 1))"

text \<open>The machine a worker keeps between turns: the seed it was made from and its epoch.\<close>

type_synonym machine = "(bytes \<times> u64) option"

definition machine_for :: "machine \<Rightarrow> bytes \<Rightarrow> u64 \<Rightarrow> bytes \<times> u64" where
  "machine_for vm seed epoch = (case vm of Some (s, e) \<Rightarrow> if e \<noteq> epoch then (seed, epoch) else (s, e) | None \<Rightarrow> (seed, epoch))"

text \<open>
  The turn: the chain it reads, the chain \<open>c'\<close> at the time of the submission, and the machine. The first
  result is the outcome of the submission, when there was one; \<open>None\<close> for the whole is a run-time panic,
  after which the worker starts again without a machine.
\<close>

definition mine_turn ::
  "crypto \<Rightarrow> pow_fun \<Rightarrow> u64 \<Rightarrow> u64 \<Rightarrow> u64 \<Rightarrow> string \<Rightarrow> u64 \<Rightarrow> u64 \<Rightarrow> nat \<Rightarrow> (nat \<Rightarrow> bool) \<Rightarrow> chain \<Rightarrow> chain \<Rightarrow> machine
    \<Rightarrow> ((block \<times> err option) option \<times> chain \<times> machine) option" where
  "mine_turn cr pow now now' later coinbase worker nanos attempts moved c c' vm =
     (case BuildTemplate cr now now' coinbase c of
        Inl e \<Rightarrow> if e = Panic then None else Some (None, c', vm)
      | Inr tmpl \<Rightarrow>
          (case EpochSeedForNext cr c of
             None \<Rightarrow> None
           | Some (seed, epoch) \<Rightarrow>
               let (s, e) = machine_for vm seed epoch in
               (case TargetInt tmpl of
                  Inl _ \<Rightarrow> if attempts = 0 then Some (None, c', Some (s, e)) else None
                | Inr target \<Rightarrow>
                    (case fst (mine_search (\<lambda>h. pow s h (blk_Height tmpl)) target (HeaderBytes tmpl) moved 0 attempts
                        (start_nonce worker nanos)) of
                       None \<Rightarrow> Some (None, c', Some (s, e))
                     | Some nonce \<Rightarrow>
                         let b = tmpl\<lparr>blk_Nonce := nonce\<rparr>; (err, c2, w) = AddBlock cr pow later b c'
                         in if err = Some Panic then None else Some (Some (b, err), c2, Some (s, e))))))"

section \<open>The nonce in the header\<close>

lemma length_HeaderBytes_prefix:
  "length (le_bytes 4 (v :: u32) @ le_bytes 8 (h :: u64) @ le_bytes 8 (t :: u64) @ copy32 p @ copy32 r @ copy32 g) = 116"
  by (simp add: copy32_def)

lemma putNonce_HeaderBytes: "putNonce (HeaderBytes b) n = HeaderBytes (b\<lparr>blk_Nonce := n\<rparr>)"
proof -
  define pre where "pre = le_bytes 4 (blk_Version b) @ le_bytes 8 (blk_Height b) @ le_bytes 8 (blk_Time b)
     @ copy32 (fst (hex_decode (blk_PrevHash b))) @ copy32 (fst (hex_decode (blk_TxRoot b)))
     @ copy32 (fst (hex_decode (blk_Target b)))"
  have len: "length pre = 116" unfolding pre_def by (rule length_HeaderBytes_prefix)
  have hb: "HeaderBytes b = pre @ le_bytes 8 (blk_Nonce b)" "HeaderBytes (b\<lparr>blk_Nonce := n\<rparr>) = pre @ le_bytes 8 n"
    by (simp_all add: HeaderBytes_def pre_def)
  have upt: "[0..<8] = [0, 1, 2, 3, 4, 5, 6, 7 :: nat]" by (simp add: upt_rec)
  have "foldl (\<lambda>h i. h[NonceOffset + i := f i]) (pre @ map g [0..<8]) [0..<8] = pre @ map f [0..<8]"
    for f g :: "nat \<Rightarrow> 8 word"
    by (simp add: upt list_update_append len)
  then show ?thesis by (simp add: putNonce_def hb le_bytes_def)
qed

lemma putNonce_twice: "putNonce (putNonce (HeaderBytes b) m) n = HeaderBytes (b\<lparr>blk_Nonce := n\<rparr>)"
  by (simp add: putNonce_HeaderBytes)

lemma mine_search_found:
  "fst (mine_search hash target (HeaderBytes b) moved k n nonce) = Some m \<Longrightarrow>
   HashMeetsTarget (hash (HeaderBytes (b\<lparr>blk_Nonce := m\<rparr>))) target \<and> (\<exists>j < n. m = nonce + of_nat j)"
proof (induction n arbitrary: b k nonce)
  case (Suc n)
  show ?case
  proof (cases "HashMeetsTarget (hash (putNonce (HeaderBytes b) nonce)) target")
    case True
    then have "m = nonce + of_nat 0" using Suc.prems by simp
    then show ?thesis using True by (auto simp: putNonce_HeaderBytes)
  next
    case False
    then have "fst (mine_search hash target (HeaderBytes (b\<lparr>blk_Nonce := nonce\<rparr>)) moved (k + 1) n (nonce + 1)) = Some m"
      using Suc.prems by (simp add: putNonce_HeaderBytes Let_def split: if_splits)
    from Suc.IH [OF this] obtain j where
      "HashMeetsTarget (hash (HeaderBytes (b\<lparr>blk_Nonce := m\<rparr>))) target" "j < n" "m = nonce + 1 + of_nat j" by auto
    then show ?thesis by (intro conjI exI [of _ "Suc j"]) (simp_all add: algebra_simps)
  qed
qed simp

section \<open>A found block is accepted\<close>

lemma machine_for_fresh: "(\<forall>s e. vm = Some (s, e) \<longrightarrow> e = epoch \<longrightarrow> s = seed) \<Longrightarrow> machine_for vm seed epoch = (seed, epoch)"
  by (auto simp: machine_for_def split: option.split)

lemma blocks_after_prune: "ch_blocks (pruneMempoolLocked cr (mpDel_block cr d b)) = ch_blocks d"
  using ledger_part_fields(1) [of "pruneMempoolLocked cr (mpDel_block cr d b)" d] by simp

lemma AddBlock_accepts:
  assumes "ch_blocks c \<noteq> []" and "blk_PrevHash b = Hash cr (last (ch_blocks c))"
    and "fst (validateBlock cr pow now c (ch_blocks c) (ch_state c) b) = None"
  shows "fst (AddBlock cr pow now b c) = None" "ch_blocks (fst (snd (AddBlock cr pow now b c))) = ch_blocks c @ [b]"
proof -
  obtain c1 where v: "validateBlock cr pow now c (ch_blocks c) (ch_state c) b = (None, c1)"
    using assms(3) by (cases "validateBlock cr pow now c (ch_blocks c) (ch_state c) b") simp
  have "ch_blocks c1 = ch_blocks c" using core_of_fields(1) [OF core_validate_eq [OF v]] .
  then show "fst (AddBlock cr pow now b c) = None" "ch_blocks (fst (snd (AddBlock cr pow now b c))) = ch_blocks c @ [b]"
    using assms(1,2) by (simp_all add: AddBlock_def v Let_def blocks_after_prune recomputeSupplyLocked_def)
qed

lemma mined_template:
  assumes "BuildTemplate cr now now' coinbase c = Inr tmpl" and "EpochSeedForNext cr c = Some (seed, epoch)"
    and "TargetInt tmpl = Inr target"
    and "fst (mine_search (\<lambda>h. pow seed h (blk_Height tmpl)) target (HeaderBytes tmpl) moved 0 attempts start) = Some nonce"
    and "pool_ok cr c" and "caches_ok cr pow U V (ch_blocks c) c" and "length (ch_blocks c) < 2 ^ 64" and "digest32 cr"
    and "valid64Hex (Hash cr (last (ch_blocks c)))" and "map_of (ch_Checkpoints c) (blen (ch_blocks c)) = None"
    and "\<forall>t \<in> snd ` set (ch_mempool c).
      (ID cr t, blen (ch_blocks c)) \<in> set (ch_sigOK c) \<longrightarrow> CheckSigAt cr t (blen (ch_blocks c)) = None"
    and "medianTime (ch_blocks c) \<noteq> - 1" and "now' \<le> later" and "later \<le> later + MaxFutureDrift"
    and "seen_ok cr pow U V seed (tmpl\<lparr>blk_Nonce := nonce\<rparr>)"
  shows "fst (AddBlock cr pow later (tmpl\<lparr>blk_Nonce := nonce\<rparr>) c) = None"
    "ch_blocks (fst (snd (AddBlock cr pow later (tmpl\<lparr>blk_Nonce := nonce\<rparr>) c))) = ch_blocks c @ [tmpl\<lparr>blk_Nonce := nonce\<rparr>]"
    "tx_To (hd (blk_Txs tmpl)) = coinbase"
proof -
  let ?b = "tmpl\<lparr>blk_Nonce := nonce\<rparr>"
  have "HashMeetsTarget (pow seed (HeaderBytes ?b) (blk_Height tmpl)) target"
    using mine_search_found [OF assms(4)] by simp
  moreover have "TargetInt ?b = TargetInt tmpl" by (simp add: TargetInt_def)
  ultimately have p: "pow_passes pow seed ?b" by (simp add: pow_passes_def assms(3))
  have ne: "ch_blocks c \<noteq> []" and prev: "blk_PrevHash ?b = Hash cr (last (ch_blocks c))"
    and ht: "blk_Height tmpl = blen (ch_blocks c)"
    using assms(1) by (auto simp: BuildTemplate_def Let_def split: if_splits option.splits)
  have ep: "epochSeedFor cr (ch_blocks c) (blk_Height tmpl) = Some (seed, epoch)"
    using assms(2) ht by (simp add: EpochSeedForNext_def)
  have gates: "gates_ok (ch_blocks c) c" using assms(6) by (simp add: caches_ok_def)
  have pw: "pow_passes pow (fst (the (epochSeedFor cr (ch_blocks c) (blk_Height tmpl)))) ?b" using p ep by simp
  have "block_valid cr pow later (ch_Checkpoints c) (ch_blocks c) (ch_state c) ?b"
    by (rule template_valid [OF assms(1,5) gates assms(7-14) pw])
  then have "fst (validateBlock cr pow later c (ch_blocks c) (ch_state c) ?b) = None"
    using validateBlock_iff [OF assms(7) gates, of cr pow U V ?b later "ch_state c"] assms(6,15) ep
    by (simp add: caches_ok_def)
  from AddBlock_accepts [OF ne prev this]
  show "fst (AddBlock cr pow later ?b c) = None"
    "ch_blocks (fst (snd (AddBlock cr pow later ?b c))) = ch_blocks c @ [?b]" .
  show "tx_To (hd (blk_Txs tmpl)) = coinbase"
    using assms(1) by (auto simp: BuildTemplate_def Let_def split: if_splits option.splits)
qed



text \<open>
  The machine is replaced by epoch number alone. After a reorganisation that changes the block that seeds
  the epoch, a worker goes on hashing with the seed of the abandoned branch until the epoch ends.
\<close>

lemma machine_keeps_stale_seed: "machine_for (Some (s, epoch)) seed epoch = (s, epoch)"
  by (simp add: machine_for_def)

section \<open>Workers do not overlap\<close>

lemma start_nonce_range:
  assumes "unat worker < 256"
  shows "\<exists>r < 2 ^ 40. unat (start_nonce worker nanos) = unat worker * 2 ^ 56 + r"
proof -
  define low :: u64 where "low = take_bit 32 nanos"
  have m: "(0xFFFFFFFF :: u64) = mask 32" by (simp add: mask_eq_exp_minus_1)
  have s: "start_nonce worker nanos = or (push_bit 56 worker) (push_bit 8 low)"
    by (simp add: start_nonce_def low_def m take_bit_eq_mask)
  have l: "unat low < 2 ^ 32" unfolding low_def unsigned_take_bit_eq by (rule take_bit_nat_less_exp)
  have "unat low * 2 ^ 8 < 2 ^ 40" using l by simp
  moreover have "unat (push_bit 8 low) = unat low * 2 ^ 8" using l by (simp add: push_bit_eq_mult unat_word_ariths)
  moreover have "unat (push_bit 56 worker) = unat worker * 2 ^ 56" using assms by (simp add: push_bit_eq_mult unat_word_ariths)
  moreover have "and (push_bit 56 worker) (push_bit 8 low) = 0"
    by (rule bit_eqI) (auto simp: bit_simps low_def)
  then have "or (push_bit 56 worker) (push_bit 8 low) = push_bit 56 worker + push_bit 8 low" by (simp add: disjunctive_add_eq_or)
  then have "unat (start_nonce worker nanos) = (unat (push_bit 56 worker) + unat (push_bit 8 low)) mod 2 ^ 64"
    by (simp add: s unat_word_ariths)
  ultimately show ?thesis using assms by (intro exI [of _ "unat low * 2 ^ 8"]) simp
qed

text \<open>Workers share the nonces out. Two different workers of at most 256 never try the same nonce, whenever
  their turns start, as long as neither makes more than \<open>2^56 - 2^40\<close> attempts in a turn.
\<close>

theorem workers_disjoint:
  assumes "unat w < 256" and "unat w' < 256" and "w \<noteq> w'" and "i < 2 ^ 56 - 2 ^ 40" and "j < 2 ^ 56 - 2 ^ 40"
  shows "start_nonce w t + of_nat i \<noteq> start_nonce w' t' + of_nat j"
proof
  have block: "unat (start_nonce v s + of_nat k) div 2 ^ 56 = unat v" if v: "unat v < 256" and k: "k < 2 ^ 56 - 2 ^ 40" for v s k
  proof -
    obtain r where r: "r < 2 ^ 40" "unat (start_nonce v s) = unat v * 2 ^ 56 + r" using start_nonce_range [OF v] by blast
    have "unat (start_nonce v s + of_nat k) = (unat v * 2 ^ 56 + (r + k)) mod 2 ^ 64"
      using k by (simp add: unat_word_ariths r(2) unat_of_nat add.assoc mod_simps)
    also have "\<dots> = unat v * 2 ^ 56 + (r + k)" using v r(1) k by (intro mod_less) simp
    finally show ?thesis using r(1) k by simp
  qed
  assume "start_nonce w t + of_nat i = start_nonce w' t' + of_nat j"
  then have "unat w = unat w'" using block [OF assms(1,4), of t] block [OF assms(2,5), of t'] by metis
  then show False using assms(3) word_unat_eq_iff by blast
qed

theorem workers_disjoint_witness: "start_nonce 3 12345 + of_nat 1000000 \<noteq> start_nonce 7 99 + of_nat 5"
  by (rule workers_disjoint) simp_all

end
