(* ===== verification/Go_Strings.thy ===== *)
theory Go_Strings
  imports Node_Peers
begin

text \<open>
  String operations of the standard library that the programs around the node share, and the texts that
  trimming leaves alone.
\<close>

text \<open>\<open>strings.Split\<close> on one character.\<close>

fun split_char :: "char \<Rightarrow> string \<Rightarrow> string list" where
  "split_char c [] = [[]]"
| "split_char c (d # s) =
     (if d = c then [] # split_char c s else case split_char c s of [] \<Rightarrow> [[d]] | w # ws \<Rightarrow> (d # w) # ws)"

lemma trim_front_id:
  assumes "\<And>w. w \<in> set ws \<Longrightarrow> w \<noteq> [] \<and> (s \<noteq> [] \<longrightarrow> hd w \<noteq> hd s)"
  shows "trim_front ws n s = s"
proof (cases n)
  case (Suc k)
  have "take (length w) s \<noteq> w" if "w \<in> set ws" for w
    using assms [OF that] by (cases w; cases s) auto
  then have "find (\<lambda>w. take (length w) s = w) ws = None" by (simp add: find_None_iff)
  then show ?thesis by (simp add: Suc)
qed simp

definition plain_char :: "char \<Rightarrow> bool" where
  "plain_char c = (let k = of_char c :: nat in 32 < k \<and> k < 127)"

lemma spaces_not_plain:
  "w \<in> set (map bytes_str space_runes) \<union> set (map rev (map bytes_str space_runes)) \<Longrightarrow> w \<noteq> [] \<and> \<not> plain_char (hd w)"
  by (auto simp: space_runes_def bytes_str_def plain_char_def)

lemma trim_front_plain:
  "s = [] \<or> plain_char (hd s) \<Longrightarrow> trim_front (map bytes_str space_runes) n s = s"
  "s = [] \<or> plain_char (hd s) \<Longrightarrow> trim_front (map rev (map bytes_str space_runes)) n s = s"
  using spaces_not_plain by (intro trim_front_id; metis UnI1 UnI2)+

lemma TrimSpace_plain:
  assumes "\<And>c. c \<in> set s \<Longrightarrow> plain_char c"
  shows "TrimSpace s = s"
proof -
  have "s = [] \<or> plain_char (hd s)" "rev s = [] \<or> plain_char (hd (rev s))" using assms [of "hd s"] assms [of "last s"] by (cases "s = []"; simp add: hd_rev)+
  then show ?thesis by (simp only: TrimSpace_def Let_def trim_front_plain rev_rev_ident)
qed

lemma plain_hex: "hex_val c \<noteq> None \<Longrightarrow> plain_char c"
  by (auto simp: hex_val_def plain_char_def Let_def split: if_splits)

lemma plain_digit: "dec_val c \<noteq> None \<Longrightarrow> plain_char c"
  by (auto simp: dec_val_def plain_char_def Let_def split: if_splits)

lemma TrimSpace_hex: "(\<And>c. c \<in> set s \<Longrightarrow> hex_val c \<noteq> None) \<Longrightarrow> TrimSpace s = s"
  by (intro TrimSpace_plain plain_hex)

lemma show_nat_digits: "c \<in> set (show_nat n) \<Longrightarrow> dec_val c \<noteq> None"
proof (induction n rule: show_nat.induct)
  case (1 n)
  then show ?case
    using dec_val_dec_digit [of n] dec_val_dec_digit [of "n mod 10"]
    by (subst (asm) (2) show_nat.simps) (auto split: if_splits)
qed

end
