(* ===== verification/Stratum_Bridge.thy ===== *)
theory Stratum_Bridge
  imports Node_Serve Node_Limiter
begin

text \<open>
  The Stratum bridge, after \<^verbatim>\<open>src/cmd/cereblix-stratum/main.go\<close> and \<^verbatim>\<open>solodiff.go\<close>: a miner logs in, gets
  jobs with a share target of its own, and submits nonces that the bridge forwards to a pool or, in solo
  mode, to a node. HTTP answers are arguments, already decoded, with error texts in ASCII; \<open>None\<close> is a failed request. A result of
  \<open>None\<close> is a run-time panic. Times are nanoseconds.
\<close>

section \<open>Strings\<close>

text \<open>\<open>s[:i]\<close> for the first place \<open>i\<close> of a character, or all of \<open>s\<close>; and what follows that place.\<close>

definition cut_at :: "char \<Rightarrow> string \<Rightarrow> string" where
  "cut_at c s = takeWhile (\<lambda>d. d \<noteq> c) s"

definition after_first :: "char \<Rightarrow> string \<Rightarrow> string option" where
  "after_first c s = (case dropWhile (\<lambda>d. d \<noteq> c) s of [] \<Rightarrow> None | _ # t \<Rightarrow> Some t)"

definition before_last :: "char \<Rightarrow> string \<Rightarrow> string" where
  "before_last c s = (if c \<in> set s then rev (tl (dropWhile (\<lambda>d. d \<noteq> c) (rev s))) else s)"

fun str_contains :: "string \<Rightarrow> string \<Rightarrow> bool" where
  "str_contains [] t = (t = [])"
| "str_contains (c # s) t = (take (length t) (c # s) = t \<or> str_contains s t)"

definition sanitizeLogin :: "string \<Rightarrow> string" where
  "sanitizeLogin login = TrimSpace (foldl (\<lambda>s c. cut_at c s) login [CHR ''.'', CHR ''+'', CHR '':'', CHR ''/''])"

definition worker_char :: "char \<Rightarrow> bool" where
  "worker_char c =
     (let k = of_char c :: nat in 97 \<le> k \<and> k \<le> 122 \<or> 65 \<le> k \<and> k \<le> 90 \<or> 48 \<le> k \<and> k \<le> 57
        \<or> c = CHR ''.'' \<or> c = CHR ''_'' \<or> c = CHR ''-'')"

definition sanitizeWorker :: "string \<Rightarrow> string" where
  "sanitizeWorker s = take 24 (filter worker_char (TrimSpace s))"

definition workerLabel :: "string \<Rightarrow> string \<Rightarrow> string" where
  "workerLabel login rigid =
     (let w = (case after_first (CHR ''.'') login of None \<Rightarrow> []
               | Some w \<Rightarrow> foldl (\<lambda>s c. cut_at c s) w [CHR ''+'', CHR '':'', CHR ''/'', CHR ''.''])
      in sanitizeWorker (if w = [] then rigid else w))"

definition parseNonceLE :: "string \<Rightarrow> u64 option" where
  "parseNonceLE s0 =
     (let s1 = TrimSpace s0; s = (if take 2 s1 = ''0x'' then drop 2 s1 else s1); (b, ok) = hex_decode s
      in if \<not> ok \<or> b = [] \<or> length b > 8 then parse_uint64 (TrimSpace s) else Some (word_of_nat (from_le b)))"

definition parseDiffNum :: "string \<Rightarrow> int option" where
  "parseDiffNum s =
     (case parse_uint64 (foldl (\<lambda>s c. cut_at c s) (TrimSpace s) [CHR ''.'', CHR ''/'', CHR '':'', CHR '' '', CHR '','']) of
        None \<Rightarrow> None
      | Some n \<Rightarrow> if n = 0 then None else Some (uint n))"

definition parseRequestedDiff :: "string \<Rightarrow> string \<Rightarrow> int option" where
  "parseRequestedDiff rawLogin pass =
     (case Option.bind (after_first (CHR ''+'') rawLogin) parseDiffNum of
        Some d \<Rightarrow> Some d
      | None \<Rightarrow>
          let p = TrimSpace pass in
          case (if length p > 5 \<and> map lower_char (take 5 p) = ''diff='' then parseDiffNum (drop 5 p) else None) of
            Some d \<Rightarrow> Some d
          | None \<Rightarrow> parseDiffNum p)"

section \<open>Share difficulty\<close>

definition targetToDiff :: "int \<Rightarrow> int" where
  "targetToDiff t = (if t \<le> 0 then 1 else WorkOf t)"

definition diffToTarget :: "int \<Rightarrow> int" where
  "diffToTarget d =
     (if d \<le> 0 then MaxTarget
      else let t = 2 ^ 256 div d - 1; t1 = (if t < 1 then 1 else t) in if t1 > MaxTarget then MaxTarget else t1)"

definition clampDiff :: "int \<Rightarrow> int \<Rightarrow> int \<Rightarrow> int" where
  "clampDiff d lo hi = (if d < lo then lo else if d > hi then hi else d)"

definition parseTarget :: "string \<Rightarrow> int" where
  "parseTarget hexs =
     (case SetString16 (TrimSpace hexs) of None \<Rightarrow> MaxTarget | Some t \<Rightarrow> if t \<le> 0 then MaxTarget else t)"

definition diffBounds :: "int \<Rightarrow> int \<times> int \<times> int" where
  "diffBounds netTarget =
     (let hi = targetToDiff netTarget; lo = targetToDiff MaxTarget; dt0 = netTarget * 2 ^ 12;
          dt = (if dt0 > MaxTarget then MaxTarget else dt0); d0 = targetToDiff dt;
          d1 = (if d0 < lo then lo else d0)
      in (lo, hi, if d1 > hi then hi else d1))"

record client =
  cl_addr :: string
  cl_worker :: string
  cl_connID :: u64
  cl_curJobID :: string
  cl_extranonce :: u64
  cl_jobs :: "(string, string) gomap"
  cl_lastTgtHex :: string
  cl_lastHeader :: string
  cl_fixedDiff :: "int option"
  cl_curDiff :: "int option"
  cl_emaInterval :: rat
  cl_lastShareAt :: "int option"
  cl_shareN :: nat

definition new_client :: "u64 \<Rightarrow> client" where
  "new_client connSeq =
     \<lparr>cl_addr = [], cl_worker = [], cl_connID = and connSeq 0xFFFF, cl_curJobID = [], cl_extranonce = 0, cl_jobs = [],
      cl_lastTgtHex = [], cl_lastHeader = [], cl_fixedDiff = None, cl_curDiff = None, cl_emaInterval = 0,
      cl_lastShareAt = None, cl_shareN = 0\<rparr>"

definition shareTargetHex :: "int \<Rightarrow> client \<Rightarrow> (string \<times> client) option" where
  "shareTargetHex netTarget c =
     (let (lo, hi, def) = diffBounds netTarget;
          d = (case cl_fixedDiff c of Some f \<Rightarrow> clampDiff f lo hi
               | None \<Rightarrow> (case cl_curDiff c of None \<Rightarrow> lo | Some d \<Rightarrow> clampDiff d lo hi));
          tgt = diffToTarget d
      in map_option (\<lambda>h. (h, c\<lparr>cl_curDiff := Some d\<rparr>)) (TargetToHex (if tgt < netTarget then netTarget else tgt)))"

text \<open>
  \<open>onSoloShare\<close>: the interval is averaged in binary64 arithmetic; \<open>fuse\<close> says which of the two products,
  if any, the compiler fuses with the sum. The new difficulty is a quotient of \<^verbatim>\<open>big.Float\<close>, rounded to
  64 bits or to the length of the old difficulty, and truncated.
\<close>

definition round_to :: "nat \<Rightarrow> rat \<Rightarrow> rat" where
  "round_to p x = (if x = 0 then 0 else let u = 2 powi (f64_exp x - (int p - 1)) in of_int (rne (x / u)) * u)"

datatype fuse = NoFuse | FuseFirst | FuseSecond

definition ema_mix :: "fuse \<Rightarrow> rat \<Rightarrow> rat \<Rightarrow> rat" where
  "ema_mix fuse ema dt =
     (let a = f64_round (7 / 10); b = f64_round (3 / 10) in
      f64_round ((if fuse = FuseFirst then a * ema else f64_round (a * ema)) + (if fuse = FuseSecond then b * dt else f64_round (b * dt))))"

definition ema_next :: "fuse \<Rightarrow> int \<Rightarrow> client \<Rightarrow> rat" where
  "ema_next fuse now c =
     (case cl_lastShareAt c of
        None \<Rightarrow> cl_emaInterval c
      | Some prev \<Rightarrow>
          let dt0 = Seconds (now - prev); dt = (if dt0 < f64_round (1 / 1000) then f64_round (1 / 1000) else dt0)
          in if cl_emaInterval c = 0 then dt else ema_mix fuse (cl_emaInterval c) dt)"

definition vardiff_next :: "rat \<Rightarrow> int \<Rightarrow> int" where
  "vardiff_next ratio d =
     (let r = (if ratio > 2 then 2 else if ratio < 1 / 2 then 1 / 2 else ratio);
          nd = \<lfloor>round_to (max (nat (bitlen d)) 64) (of_int d / r)\<rfloor>
      in if nd > 0 then nd else d)"

definition onSoloShare :: "fuse \<Rightarrow> int \<Rightarrow> client \<Rightarrow> client" where
  "onSoloShare fuse now c =
     (if cl_fixedDiff c \<noteq> None then c
      else let c1 = c\<lparr>cl_emaInterval := ema_next fuse now c, cl_lastShareAt := Some now, cl_shareN := cl_shareN c + 1\<rparr> in
        case cl_curDiff c1 of
          None \<Rightarrow> c1
        | Some d \<Rightarrow>
            if cl_shareN c1 < 4 \<or> cl_emaInterval c1 = 0 then c1
            else let ratio = f64_round (cl_emaInterval c1 / 12) in
              if ratio > f64_round (7 / 10) \<and> ratio < f64_round (13 / 10) then c1
              else c1\<lparr>cl_curDiff := Some (vardiff_next ratio d)\<rparr>)"

section \<open>Jobs\<close>

record pool_work =
  pw_ID :: string
  pw_Header :: string
  pw_Target :: string
  pw_Seed :: string
  pw_Height :: u64
  pw_Extranonce :: u64

record stratum_job =
  sj_blob :: string
  sj_job_id :: string
  sj_target :: string
  sj_height :: u64
  sj_seed_hash :: string

text \<open>The header with the bytes of the nonce that the bridge pins; the low four bytes are the miner's.\<close>

definition pin_nonce :: "u64 \<Rightarrow> u64 \<Rightarrow> bytes \<Rightarrow> bytes" where
  "pin_nonce connID ex hdr =
     (foldl (\<lambda>h i. h[NonceOffset + i := 0]) hdr [0..<4])
       [NonceOffset + 4 := ucast connID, NonceOffset + 5 := ucast (drop_bit 8 connID),
        NonceOffset + 6 := ucast ex, NonceOffset + 7 := ucast (drop_bit 8 ex)]"

definition jobFromWork ::
  "bool \<Rightarrow> pool_work \<Rightarrow> u64 \<Rightarrow> u64 \<Rightarrow> string \<Rightarrow> string \<Rightarrow> (stratum_job \<times> string \<times> string) option" where
  "jobFromWork solo w connID extranonce addr worker =
     (let (hdr, ok) = hex_decode (pw_Header w) in
      if \<not> ok \<or> length hdr \<noteq> HeaderLen then None
      else
        let blob = pin_nonce connID (if solo then pw_Extranonce w else extranonce) hdr;
            jobID = cut_at (CHR ''|'') (pw_ID w);
            poolID = (if solo then pw_ID w
                      else before_last (CHR ''|'') (pw_ID w) @ ''|'' @ addr @ (if worker \<noteq> [] then ''~'' @ worker else []))
        in Some (\<lparr>sj_blob = hex_encode blob, sj_job_id = jobID, sj_target = pw_Target w, sj_height = pw_Height w,
                  sj_seed_hash = pw_Seed w\<rparr>, poolID, jobID))"

definition setJob :: "string \<Rightarrow> string \<Rightarrow> u64 \<Rightarrow> string \<Rightarrow> string \<Rightarrow> client \<Rightarrow> client" where
  "setJob jobID poolID extranonce targetHex header c =
     (let jobs = (if length (cl_jobs c) > 32 then [] else cl_jobs c)
      in c\<lparr>cl_jobs := AList.update jobID poolID jobs, cl_curJobID := jobID, cl_extranonce := extranonce,
           cl_lastTgtHex := targetHex, cl_lastHeader := header\<rparr>)"

section \<open>Logging in\<close>

text \<open>The bridge's shared template, in pool mode, and the address its fetcher asks for.\<close>

record bridge =
  bg_sharedWork :: "pool_work option"
  bg_lastAddr :: string
  bg_connSeq :: u64

datatype login_reply = LoginError string | LoginOK stratum_job

text \<open>\<open>handleLogin\<close>; \<open>fetch\<close> gives the pool's work for an address and a worker.\<close>

definition handleLogin ::
  "bool \<Rightarrow> (string \<Rightarrow> string \<Rightarrow> pool_work option) \<Rightarrow> string \<Rightarrow> string \<Rightarrow> string \<Rightarrow> bridge \<Rightarrow> client
    \<Rightarrow> (login_reply \<times> bridge \<times> client) option" where
  "handleLogin solo fetch login pass rigid bg c =
     (let addr = sanitizeLogin login in
      if \<not> ValidAddr addr then Some (LoginError ''invalid login: use your crb1... address as the username'', bg, c)
      else
        let c1 = c\<lparr>cl_addr := addr, cl_worker := workerLabel login rigid, cl_fixedDiff := parseRequestedDiff login pass\<rparr> in
        (case fetch addr (cl_worker c1) of
           None \<Rightarrow> Some (LoginError ''pool backend unavailable'', bg, c1)
         | Some w \<Rightarrow>
             let bg1 = (if solo then bg
                        else bg\<lparr>bg_lastAddr := addr,
                               bg_sharedWork := (case bg_sharedWork bg of None \<Rightarrow> Some w | Some v \<Rightarrow> Some v)\<rparr>) in
             (case jobFromWork solo w (cl_connID c1) (pw_Extranonce w) addr (cl_worker c1) of
                None \<Rightarrow> Some (LoginError ''bad template from pool'', bg1, c1)
              | Some (jb, poolID, jobID) \<Rightarrow>
                  map_option (\<lambda>(tgt, c2). (LoginOK (jb\<lparr>sj_target := tgt\<rparr>), bg1,
                                           setJob jobID poolID (pw_Extranonce w) tgt (pw_Header w) c2))
                    (shareTargetHex (parseTarget (pw_Target w)) c1))))"

text \<open>One tick of \<open>templateFetcher\<close>, with the pool's answer.\<close>

definition template_tick :: "(string \<Rightarrow> pool_work option) \<Rightarrow> bridge \<Rightarrow> bridge" where
  "template_tick fetch bg =
     (if bg_lastAddr bg = [] then bg
      else case fetch (bg_lastAddr bg) of None \<Rightarrow> bg | Some w \<Rightarrow> bg\<lparr>bg_sharedWork := Some w\<rparr>)"

text \<open>One tick of \<open>poller\<close>: the job that is pushed, if any, and the connection.\<close>

definition poller_tick ::
  "bool \<Rightarrow> (string \<Rightarrow> string \<Rightarrow> pool_work option) \<Rightarrow> bridge \<Rightarrow> client \<Rightarrow> (stratum_job option \<times> client) option" where
  "poller_tick solo fetch bg c =
     (if cl_curJobID c = [] then Some (None, c)
      else case (if solo then fetch (cl_addr c) (cl_worker c) else bg_sharedWork bg) of
        None \<Rightarrow> Some (None, c)
      | Some w \<Rightarrow>
          (case jobFromWork solo w (cl_connID c) (cl_extranonce c) (cl_addr c) (cl_worker c) of
             None \<Rightarrow> Some (None, c)
           | Some (jb, poolID, jobID) \<Rightarrow>
               map_option (\<lambda>(tgt, c1).
                 (if jobID \<noteq> cl_curJobID c \<or> tgt \<noteq> cl_lastTgtHex c \<or> pw_Header w \<noteq> cl_lastHeader c
                  then Some (jb\<lparr>sj_target := tgt\<rparr>) else None,
                  setJob jobID poolID (cl_extranonce c) tgt (pw_Header w) c1))
                 (shareTargetHex (parseTarget (pw_Target w)) c)))"

section \<open>Submitting\<close>

record pool_answer =
  pa_status :: nat
  pa_result :: string
  pa_error :: string
  pa_block :: bool
  pa_hash :: string

text \<open>\<open>submitOnce\<close> on the answer: accepted, message, and whether to try again.\<close>

definition submitOnce :: "pool_answer option \<Rightarrow> bool \<times> string \<times> bool" where
  "submitOnce answer =
     (case answer of
        None \<Rightarrow> (False, ''pool unreachable'', True)
      | Some r \<Rightarrow>
          if pa_result r = ''share'' then (if pa_block r then (True, ''BLOCK'', False) else (True, ''OK'', False))
          else if pa_result r \<noteq> [] then (False, pa_result r, False)
          else if str_contains (map lower_char (pa_error r)) ''busy'' then (False, pa_error r, True)
          else if pa_error r \<noteq> [] then (False, pa_error r, False)
          else if pa_status r \<ge> 500 then (False, ''pool unreachable'', True)
          else (False, ''rejected'', True))"

fun submit_attempts :: "nat \<Rightarrow> nat \<Rightarrow> string \<Rightarrow> (nat \<Rightarrow> pool_answer option) \<Rightarrow> bool \<times> string" where
  "submit_attempts 0 k lastMsg answer = (False, lastMsg)"
| "submit_attempts (Suc n) k lastMsg answer =
     (case submitOnce (answer k) of (accepted, msg, transient) \<Rightarrow>
        if \<not> transient then (accepted, msg) else submit_attempts n (k + 1) msg answer)"

definition submitToPool :: "(nat \<Rightarrow> pool_answer option) \<Rightarrow> bool \<times> string" where
  "submitToPool answer = submit_attempts 3 0 [] answer"

datatype solo_kind = SoloBlock | SoloFeedback | SoloStale | SoloReject

definition submitSolo :: "pool_answer option \<Rightarrow> solo_kind \<times> string" where
  "submitSolo answer =
     (case answer of
        None \<Rightarrow> (SoloReject, ''node unreachable'')
      | Some r \<Rightarrow>
          if pa_result r = ''accepted'' then (SoloBlock, pa_hash r)
          else let e = map lower_char (pa_error r) in
            if str_contains e ''proof of work'' \<or> str_contains e ''low difficulty'' then (SoloFeedback, [])
            else if str_contains e ''stale'' \<or> str_contains e ''unknown work'' then (SoloStale, [])
            else if e = [] then (SoloFeedback, [])
            else (SoloReject, pa_error r))"

datatype submit_reply = SubmitOK | SubmitError string

definition handleSubmitPool :: "(nat \<Rightarrow> pool_answer option) \<Rightarrow> fuse \<Rightarrow> int \<Rightarrow> client \<Rightarrow> submit_reply \<times> client" where
  "handleSubmitPool answer fuse now c =
     (case submitToPool answer of (accepted, msg) \<Rightarrow>
        if accepted \<or> str_contains msg ''low difficulty'' \<or> str_contains msg ''proof of work'' \<or> msg = ''stale'' \<or> msg = ''duplicate''
        then (SubmitOK, onSoloShare fuse now c)
        else (SubmitError msg, onSoloShare fuse now c))"

definition handleSubmitSolo :: "pool_answer option \<Rightarrow> fuse \<Rightarrow> int \<Rightarrow> client \<Rightarrow> submit_reply \<times> client" where
  "handleSubmitSolo answer fuse now c =
     (case submitSolo answer of
        (SoloBlock, _) \<Rightarrow> (SubmitOK, onSoloShare fuse now c)
      | (SoloFeedback, _) \<Rightarrow> (SubmitOK, onSoloShare fuse now c)
      | (SoloStale, _) \<Rightarrow> (SubmitOK, c)
      | (SoloReject, msg) \<Rightarrow> (SubmitError msg, c))"

text \<open>What a submission is forwarded as: the work id, the share target and the whole nonce.\<close>

definition full_nonce :: "u64 \<Rightarrow> u64 \<Rightarrow> u64 \<Rightarrow> u64" where
  "full_nonce connID ex nonce = or (or (and nonce 0xFFFFFFFF) (push_bit 32 connID)) (push_bit 48 ex)"

definition submit_target :: "string \<Rightarrow> string \<Rightarrow> client \<Rightarrow> string + (string \<times> string \<times> u64)" where
  "submit_target jobID nonce c =
     (let p0 = gm_get [] (cl_jobs c) jobID; poolID = (if p0 = [] then gm_get [] (cl_jobs c) (cl_curJobID c) else p0) in
      if poolID = [] then Inl ''no active job - re-login''
      else case parseNonceLE nonce of
        None \<Rightarrow> Inl ''bad nonce''
      | Some n \<Rightarrow> Inr (poolID, cl_lastTgtHex c, full_nonce (cl_connID c) (cl_extranonce c) n))"

text \<open>\<open>handleSubmit\<close>; \<open>backend\<close> answers attempt \<open>k\<close> of the forwarded submission.\<close>

definition handleSubmit ::
  "bool \<Rightarrow> (string \<times> string \<times> u64 \<Rightarrow> nat \<Rightarrow> pool_answer option) \<Rightarrow> fuse \<Rightarrow> int \<Rightarrow> string \<Rightarrow> string \<Rightarrow> client
    \<Rightarrow> submit_reply \<times> client" where
  "handleSubmit solo backend fuse now jobID nonce c =
     (case submit_target jobID nonce c of
        Inl e \<Rightarrow> (SubmitError e, c)
      | Inr fwd \<Rightarrow>
          if solo then handleSubmitSolo (backend fwd 0) fuse now c else handleSubmitPool (backend fwd) fuse now c)"

end
