(* ===== verification/Stratum_Spec.thy ===== *)
theory Stratum_Spec
  imports Go_Strings Stratum_Bridge Node_Miner Node_Jobs
begin

text \<open>
  What the bridge promises its miners: the nonce it forwards is the one the miner hashed, a share found in
  solo mode is mined as it was found, connections do not overlap, and share targets stay between the
  network's and the easiest one while the difficulty follows the miner's rate.
\<close>

section \<open>Nonces\<close>

text \<open>What a miner does to the blob: it writes the low four bytes of the nonce.\<close>

definition miner_sets :: "u64 \<Rightarrow> bytes \<Rightarrow> bytes" where
  "miner_sets m blob = foldl (\<lambda>h i. h[NonceOffset + i := ucast (drop_bit (8 * i) m)]) blob [0..<4]"

lemma full_nonce_bytes:
  assumes "unat connID < 2 ^ 16"
  shows "i < 4 \<Longrightarrow> (ucast (drop_bit (8 * i) (full_nonce connID ex m)) :: 8 word) = ucast (drop_bit (8 * i) m)"
    "(ucast (drop_bit 32 (full_nonce connID ex m)) :: 8 word) = ucast connID"
    "(ucast (drop_bit 40 (full_nonce connID ex m)) :: 8 word) = ucast (drop_bit 8 connID)"
    "(ucast (drop_bit 48 (full_nonce connID ex m)) :: 8 word) = ucast ex"
    "(ucast (drop_bit 56 (full_nonce connID ex m)) :: 8 word) = ucast (drop_bit 8 ex)"
proof -
  have m: "(0xFFFFFFFF :: u64) = mask 32" by (simp add: mask_eq_exp_minus_1)
  have f: "full_nonce connID ex m = or (or (take_bit 32 m) (push_bit 32 connID)) (push_bit 48 ex)"
    by (simp add: full_nonce_def m take_bit_eq_mask)
  have c: "bit connID n \<Longrightarrow> n < 16" for n
  proof (rule ccontr)
    assume b: "bit connID n" "\<not> n < 16"
    have "take_bit 16 connID = connID" using assms by (simp add: word_unat_eq_iff unsigned_take_bit_eq take_bit_nat_eq_self)
    then show False using b by (metis bit_take_bit_iff)
  qed
  show "i < 4 \<Longrightarrow> (ucast (drop_bit (8 * i) (full_nonce connID ex m)) :: 8 word) = ucast (drop_bit (8 * i) m)"
    unfolding f by (rule bit_eqI) (auto simp: bit_simps)
  show "(ucast (drop_bit 32 (full_nonce connID ex m)) :: 8 word) = ucast connID"
    "(ucast (drop_bit 40 (full_nonce connID ex m)) :: 8 word) = ucast (drop_bit 8 connID)"
    "(ucast (drop_bit 48 (full_nonce connID ex m)) :: 8 word) = ucast ex"
    "(ucast (drop_bit 56 (full_nonce connID ex m)) :: 8 word) = ucast (drop_bit 8 ex)"
    unfolding f by (rule bit_eqI; auto simp: bit_simps dest: c)+
qed

lemma pinned_header:
  assumes "unat connID < 2 ^ 16"
  shows "miner_sets m (pin_nonce connID ex (HeaderBytes b)) = HeaderBytes (b\<lparr>blk_Nonce := full_nonce connID ex m\<rparr>)"
proof -
  define pre where "pre = le_bytes 4 (blk_Version b) @ le_bytes 8 (blk_Height b) @ le_bytes 8 (blk_Time b)
     @ copy32 (fst (hex_decode (blk_PrevHash b))) @ copy32 (fst (hex_decode (blk_TxRoot b)))
     @ copy32 (fst (hex_decode (blk_Target b)))"
  have len: "length pre = 116" unfolding pre_def by (rule length_HeaderBytes_prefix)
  have hb: "HeaderBytes b = pre @ le_bytes 8 (blk_Nonce b)" "HeaderBytes (b\<lparr>blk_Nonce := n\<rparr>) = pre @ le_bytes 8 n" for n
    by (simp_all add: HeaderBytes_def pre_def)
  have upt: "[0..<8] = [0, 1, 2, 3, 4, 5, 6, 7 :: nat]" "[0..<4] = [0, 1, 2, 3 :: nat]" by (simp_all add: upt_rec)
  have "miner_sets m (pin_nonce connID ex (pre @ le_bytes 8 (blk_Nonce b)))
      = pre @ [ucast m, ucast (drop_bit 8 m), ucast (drop_bit 16 m), ucast (drop_bit 24 m), ucast connID,
               ucast (drop_bit 8 connID), ucast ex, ucast (drop_bit 8 ex)]"
    by (simp add: miner_sets_def pin_nonce_def le_bytes_def upt list_update_append len)
  also have "\<dots> = pre @ le_bytes 8 (full_nonce connID ex m)"
    using full_nonce_bytes(1) [OF assms, of 0 ex m] full_nonce_bytes(1) [OF assms, of 1 ex m]
      full_nonce_bytes(1) [OF assms, of 2 ex m] full_nonce_bytes(1) [OF assms, of 3 ex m] full_nonce_bytes(2-5) [OF assms, of ex m]
    by (simp add: le_bytes_def upt)
  finally show ?thesis by (simp add: hb)
qed

lemma connID_range: "unat (cl_connID (new_client q)) < 2 ^ 16"
proof -
  have m: "(0xFFFF :: u64) = mask 16" by (simp add: mask_eq_exp_minus_1)
  have "cl_connID (new_client q) = take_bit 16 q" by (simp add: new_client_def m take_bit_eq_mask)
  then show ?thesis using take_bit_nat_less_exp [of 16 "unat q"] by (simp add: unsigned_take_bit_eq)
qed

section \<open>Texts of nonces\<close>

lemma parseNonceLE_hex:
  assumes "b \<noteq> []" and "length b \<le> 8"
  shows "parseNonceLE (hex_encode b) = Some (word_of_nat (from_le b))"
proof -
  have t: "TrimSpace (hex_encode b) = hex_encode b" using hex_encode_chars by (rule TrimSpace_hex)
  have "take 2 (hex_encode b) \<noteq> ''0x''"
  proof
    assume "take 2 (hex_encode b) = ''0x''"
    then have "CHR ''x'' \<in> set (hex_encode b)" by (metis in_set_takeD list.set_intros)
    then have "hex_val (CHR ''x'') \<noteq> None" by (rule hex_encode_chars)
    then show False by (simp add: hex_val_def)
  qed
  then show ?thesis using assms by (simp add: parseNonceLE_def Let_def t)
qed

text \<open>The nonce bytes of a header whose nonce the bridge fixed give that nonce back, all eight or the low four.\<close>

lemma full_nonce_take: "full_nonce connID ex (take_bit 32 m) = full_nonce connID ex m"
  and full_nonce_again: "full_nonce connID ex (full_nonce connID ex m) = full_nonce connID ex m"
proof -
  have f: "full_nonce connID ex m = or (or (take_bit 32 m) (push_bit 32 connID)) (push_bit 48 ex)" for m
    by (simp add: full_nonce_def take_bit_eq_mask mask_eq_exp_minus_1)
  show "full_nonce connID ex (take_bit 32 m) = full_nonce connID ex m"
    unfolding f by (rule bit_eqI) (auto simp: bit_simps)
  show "full_nonce connID ex (full_nonce connID ex m) = full_nonce connID ex m"
    unfolding f by (rule bit_eqI) (auto simp: bit_simps)
qed

lemma nonce_text:
  assumes "k \<in> {4, 8}" and "n = full_nonce connID ex m"
  shows "\<exists>v. parseNonceLE (hex_encode (take k (drop NonceOffset (HeaderBytes (b\<lparr>blk_Nonce := n\<rparr>))))) = Some v
    \<and> full_nonce connID ex v = n"
proof -
  have "HeaderBytes (b\<lparr>blk_Nonce := n\<rparr>) = (le_bytes 4 (blk_Version b) @ le_bytes 8 (blk_Height b) @ le_bytes 8 (blk_Time b)
     @ copy32 (fst (hex_decode (blk_PrevHash b))) @ copy32 (fst (hex_decode (blk_TxRoot b)))
     @ copy32 (fst (hex_decode (blk_Target b)))) @ le_bytes 8 n"
    by (simp add: HeaderBytes_def)
  then have d: "drop NonceOffset (HeaderBytes (b\<lparr>blk_Nonce := n\<rparr>)) = le_bytes 8 n"
    by (simp add: length_HeaderBytes_prefix)
  have t: "take k (le_bytes 8 n) = le_bytes k n" using assms(1) by (auto simp: le_bytes_def take_map)
  have v: "parseNonceLE (hex_encode (le_bytes k n)) = Some (word_of_nat (from_le (le_bytes k n)))"
    by (rule parseNonceLE_hex) (use assms(1) in \<open>auto simp: le_bytes_def\<close>)
  have "unat (take_bit (8 * k) n) = unat n mod 256 ^ k"
    unfolding unsigned_take_bit_eq by (simp add: take_bit_eq_mod power_mult)
  then have w: "(word_of_nat (from_le (le_bytes k n)) :: u64) = take_bit (8 * k) n"
    by (metis from_le_le_bytes_mod of_nat_unat ucast_id)
  have "full_nonce connID ex (take_bit (8 * k) n) = n"
    using assms by (auto simp: full_nonce_take full_nonce_again take_bit_length_eq [where 'a = 64, simplified])
  then show ?thesis using v w by (simp add: d t)
qed

section \<open>The forwarded nonce\<close>

lemma forwarded:
  assumes "jobFromWork solo w (cl_connID c) ex addr worker = Some (jb, poolID, jobID)"
    and "pw_Header w = hex_encode (HeaderBytes b)" and "solo \<longrightarrow> pw_Extranonce w = ex \<and> pw_ID w \<noteq> []"
    and "unat (cl_connID c) < 2 ^ 16" and "k \<in> {4, 8}"
    and "mined = miner_sets m (fst (hex_decode (sj_blob jb)))"
  shows "\<exists>n. submit_target jobID (hex_encode (take k (drop NonceOffset mined))) (setJob jobID poolID ex tgt hdr c)
      = Inr (poolID, tgt, n) \<and> mined = HeaderBytes (b\<lparr>blk_Nonce := n\<rparr>)"
proof -
  have j: "sj_blob jb = hex_encode (pin_nonce (cl_connID c) ex (HeaderBytes b))" "poolID \<noteq> []"
    using assms(1-3) by (auto simp: jobFromWork_def Let_def split: if_splits)
  define n where "n = full_nonce (cl_connID c) ex m"
  have mined: "mined = HeaderBytes (b\<lparr>blk_Nonce := n\<rparr>)"
    by (simp add: assms(6) j n_def pinned_header [OF assms(4)])
  obtain v where v: "parseNonceLE (hex_encode (take k (drop NonceOffset mined))) = Some v" "full_nonce (cl_connID c) ex v = n"
    using nonce_text [OF assms(5) n_def, of b] unfolding mined by blast
  have "submit_target jobID (hex_encode (take k (drop NonceOffset mined))) (setJob jobID poolID ex tgt hdr c) = Inr (poolID, tgt, n)"
    using v j(2) by (simp add: submit_target_def setJob_def Let_def)
  then show ?thesis using mined by blast
qed


definition demo_work :: "block \<Rightarrow> pool_work" where
  "demo_work b = \<lparr>pw_ID = ''tip|pool|1|addr'', pw_Header = hex_encode (HeaderBytes b), pw_Target = ''ff'', pw_Seed = [],
     pw_Height = 1, pw_Extranonce = 5\<rparr>"

lemma demo_work_job:
  "\<exists>blob. jobFromWork False (demo_work b) cid ex ''me'' [] = Some (blob, ''tip|pool|1|me'', ''tip'')"
  by (simp add: jobFromWork_def demo_work_def Let_def cut_at_def before_last_def)


section \<open>Solo mining\<close>

text \<open>
  In solo mode the back end is a node: the bridge polls its \<open>/api/getwork\<close>, which names no extranonce, and
  submits to its \<open>/api/submitwork\<close>. The text of an error comes with it.
\<close>

definition work_of_job :: "job \<Rightarrow> pool_work" where
  "work_of_job j = \<lparr>pw_ID = jb_id j, pw_Header = jb_header j, pw_Target = jb_target j, pw_Seed = jb_seed j,
     pw_Height = jb_height j, pw_Extranonce = 0\<rparr>"

definition node_answer :: "(http_err \<Rightarrow> nat \<times> string) \<Rightarrow> http_err + string \<Rightarrow> pool_answer" where
  "node_answer text r =
     (case r of Inr h \<Rightarrow> \<lparr>pa_status = 200, pa_result = ''accepted'', pa_error = [], pa_block = False, pa_hash = h\<rparr>
      | Inl e \<Rightarrow> \<lparr>pa_status = fst (text e), pa_result = [], pa_error = snd (text e), pa_block = False, pa_hash = []\<rparr>)"

lemma trim_quotes_show [simp]: "trim_quotes (show_u64 n) = show_u64 n"
proof -
  have "(of_char (dec_digit k) :: nat) \<noteq> 34" if "k < 10" for k
    using dec_val_dec_digit [OF that] by (auto simp: dec_val_def Let_def split: if_splits)
  then have "\<forall>c \<in> set (show_nat k). (of_char c :: nat) \<noteq> 34" for k
    by (induction k rule: show_nat.induct) (subst show_nat.simps, auto)
  then have q: "\<forall>c \<in> set (show_u64 n). (of_char c :: nat) \<noteq> 34" by (simp add: show_u64_def)
  have d: "dropWhile (\<lambda>c. (of_char c :: nat) = 34) s = s" if "\<forall>c \<in> set s. (of_char c :: nat) \<noteq> 34" for s
    using that by (cases s) auto
  show ?thesis using d [OF q] d [of "rev (show_u64 n)"] q by (simp add: trim_quotes_def)
qed

lemma api_getwork_job:
  assumes "jobs_ok n" and "\<forall>(k, e) \<in> set (nd_templates n). wt_born e < t'"
    and "api_getwork cr now now' t t' addr n = (Inr j, n')"
  shows "\<exists>b e. map_of (nd_templates n') (jb_id j) = Some e \<and> wt_blk e = b \<and> jb_id j \<noteq> [] \<and> blk_hash b = []
    \<and> jb_header j = hex_encode (HeaderBytes b) \<and> tx_To (hd (blk_Txs b)) = addr
    \<and> blk_PrevHash b = Hash cr (last (ch_blocks (nd_Chain n')))"
proof -
  obtain b i where g: "getTemplate cr now now' t t' addr n = (Inr (b, i), n')" and j: "jb_id j = i" "jb_header j = hex_encode (HeaderBytes b)"
    using assms(3) by (auto simp: api_getwork_def split: prod.splits sum.splits option.splits)
  note t = getTemplate_job [OF assms(1,2) g]
  then obtain e where e: "map_of (nd_templates n') i = Some e" "wt_blk e = b" by blast
  then show ?thesis using t j jobs_okD(3) [of n'] map_of_SomeD [OF e(1)] by fastforce
qed


lemma pool_chain_blocks: "ch_blocks pool_chain = [GenesisBlock demo_crypto]"
  by (simp add: pool_chain_def)

lemma demo_api_job:
  "\<exists>j n'. api_getwork demo_crypto 1781136060 1781136060 1 2 (AddrFromPub demo_crypto [9]) (bare_node pool_chain) = (Inr j, n')"
proof -
  obtain b i n' where g: "getTemplate demo_crypto 1781136060 1781136060 1 2 (AddrFromPub demo_crypto [9]) (bare_node pool_chain) = (Inr (b, i), n')"
    using demo_job(4) by blast
  have "nd_Chain n' = pool_chain" using getTemplate_job [OF demo_job(1,2) g] by (simp add: bare_node_def)
  then show ?thesis using g by (simp add: api_getwork_def EpochSeedForNext_def pool_chain_blocks epochSeedFor_def)
qed


section \<open>Connections\<close>

text \<open>Two connections with different identifiers never forward the same nonce.\<close>

lemma rigs_disjoint:
  assumes "unat (cl_connID c) < 2 ^ 16" and "unat (cl_connID d) < 2 ^ 16" and "cl_connID c \<noteq> cl_connID d"
    and "submit_target i s c = Inr (p, t, n)" and "submit_target i' s' d = Inr (p', t', n')"
  shows "n \<noteq> n'"
proof
  assume eq: "n = n'"
  obtain m m' where n: "n = full_nonce (cl_connID c) (cl_extranonce c) m" "n' = full_nonce (cl_connID d) (cl_extranonce d) m'"
    using assms(4,5) by (auto simp: submit_target_def Let_def split: if_splits option.splits)
  have bit: "bit x k = (if k < 8 then bit (ucast x :: 8 word) k else k < 16 \<and> bit (ucast (drop_bit 8 x) :: 8 word) (k - 8))"
    if "unat (x :: u64) < 2 ^ 16" for x k
  proof -
    have "take_bit 16 x = x" using that by (simp add: word_unat_eq_iff unsigned_take_bit_eq take_bit_nat_eq_self)
    then have "bit x k \<Longrightarrow> k < 16" by (metis bit_take_bit_iff)
    then show ?thesis by (auto simp: bit_simps)
  qed
  have "(ucast (cl_connID c) :: 8 word) = ucast (cl_connID d)" "(ucast (drop_bit 8 (cl_connID c)) :: 8 word) = ucast (drop_bit 8 (cl_connID d))"
    using full_nonce_bytes(2,3) [OF assms(1), of "cl_extranonce c" m] full_nonce_bytes(2,3) [OF assms(2), of "cl_extranonce d" m']
      eq n by simp_all
  then have "cl_connID c = cl_connID d" using bit [OF assms(1)] bit [OF assms(2)] by (intro bit_eqI) simp
  then show False using assms(3) by simp
qed

section \<open>Share targets\<close>

lemma diffBounds_hi_lo: "0 < net \<Longrightarrow> diffBounds net = (lo, hi, def) \<Longrightarrow> lo = WorkOf MaxTarget \<and> hi = WorkOf net"
  by (auto simp: diffBounds_def targetToDiff_def Let_def MaxTarget_def)

text \<open>A target made of a difficulty within the bounds is worth it.\<close>

lemma diffToTarget_worth:
  assumes "WorkOf MaxTarget \<le> d" and "d \<le> 2 ^ 255"
  shows "1 \<le> diffToTarget d \<and> diffToTarget d \<le> MaxTarget \<and> d \<le> WorkOf (diffToTarget d)"
proof -
  have d: "0 < d" using assms(1) by (simp add: WorkOf_def MaxTarget_def)
  have two: "2 \<le> (2 :: int) ^ 256 div d"
  proof -
    have "2 ^ 256 div (2 ^ 255 :: int) \<le> 2 ^ 256 div d" using d assms(2) by (intro zdiv_mono2) simp_all
    then show ?thesis by simp
  qed
  have inv: "d \<le> 2 ^ 256 div (2 ^ 256 div d)"
  proof -
    have "d * (2 ^ 256 div d) div (2 ^ 256 div d) \<le> 2 ^ 256 div (2 ^ 256 div d)"
      using two by (intro zdiv_mono1) (simp_all add: mult.commute [of d] minus_mod_eq_div_mult [symmetric] d)
    then show ?thesis using two by simp
  qed
  show ?thesis
  proof (cases "2 ^ 256 div d - 1 > MaxTarget")
    case True
    then have "diffToTarget d = MaxTarget" using d two by (simp add: diffToTarget_def Let_def)
    moreover have "d \<le> WorkOf MaxTarget"
    proof -
      have "MaxTarget + 1 \<le> 2 ^ 256 div d" using True by simp
      then have "2 ^ 256 div (2 ^ 256 div d) \<le> 2 ^ 256 div (MaxTarget + 1)" by (intro zdiv_mono2) (simp_all add: MaxTarget_def)
      then show ?thesis using inv by (simp add: WorkOf_def)
    qed
    ultimately show ?thesis by (simp add: MaxTarget_def)
  next
    case False
    then have "diffToTarget d = 2 ^ 256 div d - 1" using d two by (simp add: diffToTarget_def Let_def)
    then show ?thesis using False two inv by (simp add: WorkOf_def)
  qed
qed

lemma clampDiff_bounds: "lo \<le> hi \<Longrightarrow> lo \<le> clampDiff d lo hi \<and> clampDiff d lo hi \<le> hi"
  and clampDiff_id: "lo \<le> d \<Longrightarrow> d \<le> hi \<Longrightarrow> clampDiff d lo hi = d"
  by (simp_all add: clampDiff_def)

text \<open>(C37)
  The share target a connection is served always exists, is no harder than the network's target and no
  easier than the chain's easiest, and is worth at least the connection's difficulty, which lies between
  those of the two targets and is the miner's own choice when that lies there.
\<close>

theorem share_target_bounds:
  assumes "0 < net" and "net \<le> MaxTarget"
  shows "\<exists>raw d. shareTargetHex net c = Some (hex_encode raw, c\<lparr>cl_curDiff := Some d\<rparr>) \<and> length raw = 32
    \<and> net \<le> int (from_be raw) \<and> int (from_be raw) \<le> MaxTarget \<and> d \<le> WorkOf (int (from_be raw))
    \<and> WorkOf MaxTarget \<le> d \<and> d \<le> WorkOf net
    \<and> (\<forall>f. cl_fixedDiff c = Some f \<longrightarrow> WorkOf MaxTarget \<le> f \<longrightarrow> f \<le> WorkOf net \<longrightarrow> d = f)"
proof -
  obtain lo hi def where b: "diffBounds net = (lo, hi, def)" by (cases "diffBounds net")
  note lh = diffBounds_hi_lo [OF assms(1) b]
  have le: "lo \<le> hi" using lh assms by (simp add: WorkOf_antimono)
  have hi: "hi \<le> 2 ^ 255"
  proof -
    have "WorkOf net \<le> WorkOf 1" using assms(1) by (intro WorkOf_antimono) simp_all
    then show ?thesis using lh by (simp add: WorkOf_def)
  qed
  define d where "d = (case cl_fixedDiff c of Some f \<Rightarrow> clampDiff f lo hi
      | None \<Rightarrow> (case cl_curDiff c of None \<Rightarrow> lo | Some d \<Rightarrow> clampDiff d lo hi))"
  have d: "lo \<le> d" "d \<le> hi" using le clampDiff_bounds [OF le] by (auto simp: d_def split: option.split)
  have fixed: "d = f" if "cl_fixedDiff c = Some f" "lo \<le> f" "f \<le> hi" for f using that by (simp add: d_def clampDiff_id)
  define t where "t = (if diffToTarget d < net then net else diffToTarget d)"
  have w: "1 \<le> diffToTarget d" "diffToTarget d \<le> MaxTarget" "d \<le> WorkOf (diffToTarget d)"
    using diffToTarget_worth [of d] d hi lh by auto
  have t: "net \<le> t" "t \<le> MaxTarget" "d \<le> WorkOf t" using w assms(2) d lh by (auto simp: t_def)
  have "0 \<le> t" "t < 2 ^ 256" using t assms(1) by (simp_all add: MaxTarget_def)
  then obtain raw where raw: "length raw = 32" "int (from_be raw) = t" "TargetToHex t = Some (hex_encode raw)"
    by (rule TargetToHex_decode)
  have "shareTargetHex net c = Some (hex_encode raw, c\<lparr>cl_curDiff := Some d\<rparr>)"
    using raw(3) unfolding t_def by (auto simp: shareTargetHex_def b Let_def simp flip: d_def split: if_splits)
  then show ?thesis using raw t d lh fixed by blast
qed

theorem share_target_bounds_witness:
  "\<exists>raw d. shareTargetHex (2 ^ 240) ((new_client 1)\<lparr>cl_fixedDiff := Some 50000\<rparr>)
     = Some (hex_encode raw, (new_client 1)\<lparr>cl_fixedDiff := Some 50000, cl_curDiff := Some d\<rparr>) \<and> 2 ^ 240 \<le> int (from_be raw) \<and> d = 50000"
proof -
  have "0 < (2 :: int) ^ 240" "(2 :: int) ^ 240 \<le> MaxTarget" "WorkOf MaxTarget \<le> 50000" "50000 \<le> WorkOf (2 ^ 240)"
    by (simp_all add: MaxTarget_def WorkOf_def)
  then show ?thesis using share_target_bounds [of "2 ^ 240" "(new_client 1)\<lparr>cl_fixedDiff := Some 50000\<rparr>"] by auto
qed

end
