(* ===== verification/Stratum_Vardiff.thy ===== *)
theory Stratum_Vardiff
  imports Stratum_Bridge
begin

text \<open>
  The difficulty controller of the Stratum bridge moves in the right direction by at most a factor of two,
  and a submission to the pool is decided by its first definitive answer.
\<close>

section \<open>Rounding a quotient\<close>

lemma round_to_between:
  assumes "0 < x" and "f64_exp x \<le> j + (int p - 1)" and "0 \<le> j" and "j \<le> 1" and "even n \<or> j = 0"
  shows "of_int n \<le> x \<Longrightarrow> of_int n \<le> round_to p x" and "x \<le> of_int n \<Longrightarrow> round_to p x \<le> of_int n"
proof -
  define k where "k = f64_exp x - (int p - 1)"
  define u where "u = (2 :: rat) powi k"
  have u: "0 < u" by (simp add: u_def)
  obtain m where m: "(of_int n :: rat) = of_int m * u"
  proof (cases "k \<le> 0")
    case True
    have "(of_int n :: rat) = of_int (n * 2 ^ nat (- k)) * u"
      using True by (simp add: u_def power_int_def field_simps)
    then show ?thesis by (rule that)
  next
    case False
    then have "k = 1" "even n" using assms(2-5) by (auto simp: k_def)
    then have "(of_int n :: rat) = of_int (n div 2) * u" by (auto simp: u_def elim!: evenE)
    then show ?thesis by (rule that)
  qed
  have r: "round_to p x = of_int (rne (x / u)) * u" using assms(1) by (simp add: round_to_def Let_def u_def k_def)
  show "of_int n \<le> x \<Longrightarrow> of_int n \<le> round_to p x"
    using rne_mono [of "of_int m" "x / u"] u by (simp add: r m pos_le_divide_eq mult_right_mono)
  show "x \<le> of_int n \<Longrightarrow> round_to p x \<le> of_int n"
    using rne_mono [of "x / u" "of_int m"] u by (simp add: r m pos_divide_le_eq mult_right_mono)
qed

lemma f64_exp_below: "0 < x \<Longrightarrow> x < 2 powi k \<Longrightarrow> f64_exp x < k"
proof (rule ccontr)
  assume a: "0 < x" "x < 2 powi k" "\<not> f64_exp x < k"
  then have "(2 :: rat) powi k \<le> 2 powi f64_exp x" by (intro power_int_increasing) simp_all
  then show False using f64_exp_bounds [OF a(1)] a(2) by simp
qed

lemma below_pow: "0 < d \<Longrightarrow> (of_int d :: rat) < 2 powi int (max (nat (bitlen d)) 64)"
proof -
  assume d: "0 < d"
  have "(of_int d :: rat) < 2 powi bitlen d" using bitlen_pow [OF d] by simp
  also have "\<dots> \<le> 2 powi int (max (nat (bitlen d)) 64)" by (intro power_int_increasing) simp_all
  finally show ?thesis .
qed

lemma vardiff_next_bounds:
  assumes "0 < d"
  shows "d div 2 \<le> vardiff_next ratio d" "vardiff_next ratio d \<le> 2 * d" "0 < vardiff_next ratio d"
    "ratio \<le> 1 \<Longrightarrow> d \<le> vardiff_next ratio d" "1 \<le> ratio \<Longrightarrow> vardiff_next ratio d \<le> d"
proof -
  define p where "p = max (nat (bitlen d)) 64"
  define r where "r = (if ratio > 2 then 2 else if ratio < 1 / 2 then 1 / 2 else ratio)"
  define x where "x = of_int d / r"
  have r: "1 / 2 \<le> r" "r \<le> 2" by (simp_all add: r_def)
  have d: "(0 :: rat) < of_int d" "(1 :: rat) \<le> of_int d" using assms by simp_all
  have x: "0 < x" "of_int d / 2 \<le> x" "x \<le> 2 * of_int d"
    using r d by (simp_all add: x_def field_simps mult_left_mono)
  have lt: "x < 2 powi (int p + 1)"
  proof -
    have "(of_int d :: rat) < 2 powi int p" using below_pow [OF assms] by (simp only: p_def)
    moreover have "(2 :: rat) powi (int p + 1) = 2 * 2 powi int p" by (simp add: power_int_add)
    ultimately show ?thesis using x(3) by linarith
  qed
  have e: "f64_exp x \<le> 1 + (int p - 1)" using f64_exp_below [OF x(1) lt] by simp
  define n where "n = \<lfloor>round_to p x\<rfloor>"
  have up: "n \<le> 2 * d" if "x \<le> of_int (2 * d)"
  proof -
    have "round_to p x \<le> of_int (2 * d)" by (rule round_to_between(2) [OF x(1) e]) (use that in simp_all)
    then show ?thesis unfolding n_def by linarith
  qed
  have small: "f64_exp x \<le> 0 + (int p - 1) \<or> of_int (2 ^ p) \<le> x"
  proof (cases "x < 2 powi int p")
    case True
    then show ?thesis using f64_exp_below [OF x(1) True] by simp
  qed (simp add: power_int_def)
  have low: "m \<le> n" if m: "of_int m \<le> x" "m \<le> d" for m
    using small
  proof
    assume "f64_exp x \<le> 0 + (int p - 1)"
    from round_to_between(1) [OF x(1) this, of m] m(1) show ?thesis by (simp add: n_def le_floor_iff)
  next
    assume big: "of_int (2 ^ p) \<le> x"
    have ev: "even ((2 :: int) ^ p)" by (simp add: p_def)
    have "of_int (2 ^ p) \<le> round_to p x" by (rule round_to_between(1) [OF x(1) e _ _ _ big]) (use ev in simp_all)
    then have "2 ^ p \<le> n" by (simp add: n_def le_floor_iff)
    moreover have "d < 2 ^ p" using below_pow [OF assms] by (simp add: p_def power_int_def)
    ultimately show ?thesis using m(2) by linarith
  qed
  have v: "vardiff_next ratio d = (if n > 0 then n else d)"
    by (simp add: vardiff_next_def Let_def n_def p_def x_def r_def)
  have n2: "n \<le> 2 * d" using up x(3) by simp
  have nl: "d div 2 \<le> n"
  proof (rule low)
    have "(of_int (d div 2) :: rat) \<le> of_int d / 2" by linarith
    then show "of_int (d div 2) \<le> x" using x(2) by linarith
  qed (use assms in simp)
  show "d div 2 \<le> vardiff_next ratio d" "vardiff_next ratio d \<le> 2 * d" "0 < vardiff_next ratio d"
    using nl n2 assms by (auto simp: v)
  show "d \<le> vardiff_next ratio d" if "ratio \<le> 1"
  proof -
    have "r \<le> 1" using that by (simp add: r_def)
    then have "of_int d \<le> x" using r(1) d by (simp add: x_def le_divide_eq)
    from low [OF this order_refl] show ?thesis by (simp add: v)
  qed
  show "vardiff_next ratio d \<le> d" if "1 \<le> ratio"
  proof -
    have "1 \<le> r" using that by (simp add: r_def)
    then have xd: "x \<le> of_int d" using d by (simp add: x_def divide_le_eq)
    then have "x < 2 powi int p" using below_pow [OF assms] unfolding p_def by (rule le_less_trans)
    from f64_exp_below [OF x(1) this] have "f64_exp x \<le> 0 + (int p - 1)" by simp
    from round_to_between(2) [OF x(1) this, of d] xd have "round_to p x \<le> of_int d" by simp
    then have "n \<le> d" unfolding n_def by linarith
    then show ?thesis by (simp add: v)
  qed
qed

text \<open>The difficulty controller is stable. A share leaves a pinned difficulty alone; otherwise it at most
  doubles or halves the difficulty and never makes it zero. It changes it only after three earlier shares
  and only when the averaged interval is outside the dead band around twelve seconds: up when shares
  come too fast, down when they come too slowly.
\<close>

theorem vardiff_step:
  assumes "cl_curDiff c = Some d" and "0 < d"
  shows "\<exists>d'. cl_curDiff (onSoloShare fuse now c) = Some d' \<and> 0 < d' \<and> d div 2 \<le> d' \<and> d' \<le> 2 * d
    \<and> (d' \<noteq> d \<longrightarrow> cl_fixedDiff c = None \<and> 3 \<le> cl_shareN c
        \<and> (let ratio = f64_round (ema_next fuse now c / 12) in
             ratio \<le> f64_round (7 / 10) \<and> d \<le> d' \<or> f64_round (13 / 10) \<le> ratio \<and> d' \<le> d))"
proof -
  let ?r = "f64_round (ema_next fuse now c / 12)"
  have band: "f64_round (7 / 10) \<le> 1" "1 \<le> f64_round (13 / 10)"
    using f64_round_mono [of "7 / 10" 1] f64_round_mono [of 1 "13 / 10"] f64_round_of_nat [of 1] by simp_all
  have keep: ?thesis if "cl_curDiff (onSoloShare fuse now c) = Some d" using that assms(2) by simp
  show ?thesis
  proof (cases "cl_fixedDiff c \<noteq> None \<or> cl_shareN c < 3 \<or> ema_next fuse now c = 0 \<or> ?r > f64_round (7 / 10) \<and> ?r < f64_round (13 / 10)")
    case True
    then show ?thesis using assms(1) by (intro keep) (auto simp: onSoloShare_def Let_def)
  next
    case False
    then have "cl_curDiff (onSoloShare fuse now c) = Some (vardiff_next ?r d)"
      using assms(1) by (auto simp: onSoloShare_def Let_def)
    moreover have "?r \<le> f64_round (7 / 10) \<and> d \<le> vardiff_next ?r d \<or> f64_round (13 / 10) \<le> ?r \<and> vardiff_next ?r d \<le> d"
      using False vardiff_next_bounds(4,5) [OF assms(2), of ?r] band by linarith
    ultimately show ?thesis using False vardiff_next_bounds(1-3) [OF assms(2), of ?r] by (auto simp: Let_def)
  qed
qed

theorem vardiff_step_witness:
  "\<exists>d'. cl_curDiff (onSoloShare NoFuse 90 ((new_client 1)\<lparr>cl_curDiff := Some 4096, cl_lastShareAt := Some 50, cl_shareN := 7\<rparr>)) = Some d'
    \<and> 2048 \<le> d' \<and> d' \<le> 8192"
  using vardiff_step [of "(new_client 1)\<lparr>cl_curDiff := Some 4096, cl_lastShareAt := Some 50, cl_shareN := 7\<rparr>" 4096 NoFuse 90] by auto

section \<open>Submitting to a pool\<close>

lemma submit_attempts_first:
  assumes "\<forall>i < j. snd (snd (submitOnce (answer (k + i))))" and "submitOnce (answer (k + j)) = (acc, msg, False)" and "j < n"
  shows "submit_attempts n k lastMsg answer = (acc, msg)"
  using assms
proof (induction n arbitrary: k j lastMsg)
  case (Suc n)
  show ?case
  proof (cases j)
    case 0
    then show ?thesis using Suc.prems(2) by simp
  next
    case (Suc i)
    obtain a m where t: "submitOnce (answer k) = (a, m, True)"
      using Suc.prems(1) Suc by (cases "submitOnce (answer k)") (metis add_0_right prod.sel zero_less_Suc)
    have "submit_attempts n (k + 1) m answer = (acc, msg)"
      by (rule Suc.IH [of i]) (use Suc.prems Suc in \<open>auto simp: algebra_simps dest: spec [where x = "Suc _"]\<close>)
    then show ?thesis by (simp add: t)
  qed
qed simp

lemma submit_attempts_transient:
  "\<forall>i < n. snd (snd (submitOnce (answer (k + i)))) \<Longrightarrow> \<not> fst (submit_attempts n k lastMsg answer)"
proof (induction n arbitrary: k lastMsg)
  case (Suc n)
  obtain a m where t: "submitOnce (answer k) = (a, m, True)"
    using Suc.prems by (cases "submitOnce (answer k)") (metis add_0_right prod.sel zero_less_Suc)
  have "\<forall>i < n. snd (snd (submitOnce (answer (k + 1 + i))))" using Suc.prems by auto
  from Suc.IH [OF this] show ?case by (simp add: t)
qed simp


section \<open>Where the bridge and its documents differ\<close>

text \<open>
  Two works of one tip share the job id that the miner sees, so the later one replaces the earlier: a share
  for the header that was handed out first is forwarded under the other work's id, to be checked against
  another header. In solo mode a block found on the earlier header is lost.
\<close>

lemma refreshed_job_replaces:
  assumes "jobFromWork solo w cid ex addr worker = Some (jb, p, i)" and "jobFromWork solo w' cid ex addr worker = Some (jb', p', i')"
    and "cut_at (CHR ''|'') (pw_ID w) = cut_at (CHR ''|'') (pw_ID w')" and "p' \<noteq> []" and "parseNonceLE nonce = Some v"
  shows "\<exists>n. submit_target i nonce (setJob i' p' ex tgt' h' (setJob i p ex tgt h c)) = Inr (p', tgt', n)"
proof -
  have "i = i'" using assms(1-3) by (auto simp: jobFromWork_def Let_def split: if_splits prod.splits)
  then show ?thesis using assms(4,5) by (simp add: submit_target_def setJob_def Let_def)
qed

text \<open>
  The comment at the head of the program lets miners vary the low 48 bits of the nonce. The bridge keeps 32:
  a nonce that varies the others is forwarded as another nonce.
\<close>

lemma bits_of_connection_are_fixed:
  assumes "parseNonceLE (hex_encode (le_bytes 8 v)) = Some v" and "drop_bit 32 v \<noteq> drop_bit 32 (full_nonce (cl_connID c) (cl_extranonce c) v)"
    and "gm_get [] (cl_jobs c) i \<noteq> []"
  shows "\<exists>n. submit_target i (hex_encode (le_bytes 8 v)) c = Inr (gm_get [] (cl_jobs c) i, cl_lastTgtHex c, n) \<and> n \<noteq> v"
  using assms by (auto simp: submit_target_def Let_def)

text \<open>Targets have no upper bound, so a work with a target of \<open>2^256\<close> or more makes the bridge panic.\<close>

lemma oversized_target_panics:
  assumes "2 ^ 256 \<le> net"
  shows "shareTargetHex net c = None"
proof -
  have "diffToTarget d < net" for d using assms by (auto simp: diffToTarget_def Let_def MaxTarget_def)
  moreover have "TargetToHex net = None"
  proof -
    have "int (from_be (big_bytes net)) = net" using assms by simp
    moreover have "int (from_be (big_bytes net)) < int (256 ^ length (big_bytes net))" by (simp only: of_nat_less_iff from_be_less)
    ultimately have "(2 :: int) ^ 256 < 256 ^ length (big_bytes net)" using assms by (simp del: from_be_big_bytes)
    then have "(256 :: int) ^ 32 < 256 ^ length (big_bytes net)" by simp
    then have "32 < length (big_bytes net)" by (subst (asm) power_strict_increasing_iff) simp_all
    then show ?thesis by (simp add: TargetToHex_def Let_def)
  qed
  ultimately show ?thesis by (cases "diffBounds net") (simp add: shareTargetHex_def Let_def)
qed

end
