(* ===== verification/Cmd_Update.thy ===== *)
theory Cmd_Update
  imports Go_Strings Core_Checkpoint
begin

text \<open>
  The self-update of the node command, after \<^verbatim>\<open>src/core/manifest.go\<close> and \<^verbatim>\<open>src/cmd/cereblixd/update.go\<close>: signed
  release manifests, version comparison, verified downloads and the swap of the executable. Answers of
  mirrors and \<^verbatim>\<open>encoding/json\<close> on a manifest are arguments. What is installed is named by a manifest that the
  authority signed, and the executable is at every moment the old one or the new one.
\<close>

section \<open>Release manifests\<close>

record upgrade_binary =
  ub_URLs :: "string list"
  ub_URL :: string
  ub_SHA256 :: string

record upgrade_fork =
  uf_Name :: string
  uf_Height :: u64
  uf_MinVersion :: string

record upgrade_manifest =
  um_Version :: string
  um_MinVersion :: string
  um_Notes :: string
  um_Binaries :: "(string, upgrade_binary) gomap"
  um_Forks :: "upgrade_fork list"
  um_Sig :: string

text \<open>\<open>marshal\<close> is \<^verbatim>\<open>json.Marshal\<close>.\<close>

definition signingBytes :: "(upgrade_manifest \<Rightarrow> bytes) \<Rightarrow> upgrade_manifest \<Rightarrow> bytes" where
  "signingBytes marshal m = str_bytes ''cereblix-upgrade-v1|'' @ marshal (m\<lparr>um_Sig := []\<rparr>)"

definition verifyWith :: "crypto \<Rightarrow> (upgrade_manifest \<Rightarrow> bytes) \<Rightarrow> string \<Rightarrow> upgrade_manifest \<Rightarrow> bool" where
  "verifyWith cr marshal pubHex m =
     (if pubHex = [] \<or> um_Version m = [] \<or> um_Sig m = [] then False
      else let (pub, pok) = hex_decode pubHex in
        if \<not> pok \<or> length pub \<noteq> 32 then False
        else let (sg, sok) = hex_decode (um_Sig m) in
          if \<not> sok \<or> length sg \<noteq> 64 then False
          else ed_verify cr pub (signingBytes marshal m) sg)"

definition manifest_Verify :: "crypto \<Rightarrow> (upgrade_manifest \<Rightarrow> bytes) \<Rightarrow> upgrade_manifest \<Rightarrow> bool" where
  "manifest_Verify cr marshal m = verifyWith cr marshal AuthorityPubKey m"

definition SignManifest :: "crypto \<Rightarrow> (upgrade_manifest \<Rightarrow> bytes) \<Rightarrow> upgrade_manifest \<Rightarrow> bytes \<Rightarrow> upgrade_manifest" where
  "SignManifest cr marshal m priv =
     (let m1 = m\<lparr>um_Sig := []\<rparr> in m1\<lparr>um_Sig := hex_encode (ed_sign cr priv (signingBytes marshal m1))\<rparr>)"

section \<open>Versions\<close>

text \<open>
  \<^verbatim>\<open>fmt.Sscanf(s, "%d", &x)\<close> on an \<open>x\<close> that is zero: leading space other than a newline, a sign, digits; anything
  else, and a value outside 64 bits, leaves the zero.
\<close>

definition scan_d :: "string \<Rightarrow> int" where
  "scan_d s =
     (let t = trim_front (map bytes_str space_runes) (length s) s;
          neg = (t \<noteq> [] \<and> hd t = CHR ''-'');
          body = (if t \<noteq> [] \<and> (hd t = CHR ''-'' \<or> hd t = CHR ''+'') then tl t else t);
          digits = takeWhile (\<lambda>c. dec_val c \<noteq> None) body
      in if CHR ''\<newline>'' \<in> set (take (length s - length t) s) \<or> digits = [] then 0
         else case atoi ((if neg then ''-'' else []) @ digits) of None \<Rightarrow> 0 | Some v \<Rightarrow> v)"

fun newer_parts :: "string list \<Rightarrow> string list \<Rightarrow> bool" where
  "newer_parts [] bp = False"
| "newer_parts (a # ap) bp =
     (let x = scan_d a; y = (case bp of [] \<Rightarrow> 0 | b # _ \<Rightarrow> scan_d b)
      in if x \<noteq> y then x > y else newer_parts ap (tl bp))"

definition verNewer :: "string \<Rightarrow> string \<Rightarrow> bool" where
  "verNewer a b = newer_parts (split_char (CHR ''.'') (TrimSpace a)) (split_char (CHR ''.'') (TrimSpace b))"

definition shouldInstall :: "string \<Rightarrow> string \<Rightarrow> string \<Rightarrow> bool" where
  "shouldInstall manifestVer nodeVer blockedVer =
     (if \<not> verNewer manifestVer nodeVer then False
      else if blockedVer \<noteq> [] \<and> \<not> verNewer manifestVer blockedVer then False
      else True)"

section \<open>Files\<close>

text \<open>
  The files of the updater, by their suffix after the path of the executable; the empty suffix is the
  executable. Every operation may fail or, for a write, leave a part of the data: \<open>disk\<close> says which. A disk
  on which all operations from some point on fail is a crash there.
\<close>

type_synonym fs = "string \<Rightarrow> bytes option"

datatype fs_op = WriteFile string bytes | RemoveFile string | RenameFile string string

datatype outcome = Done | Failed | Torn nat

type_synonym disk = "fs_op \<Rightarrow> outcome"

fun fs_do :: "disk \<Rightarrow> fs_op \<Rightarrow> fs \<Rightarrow> fs \<times> bool" where
  "fs_do disk (WriteFile f d) fs =
     (case disk (WriteFile f d) of Done \<Rightarrow> (fs(f \<mapsto> d), True) | Failed \<Rightarrow> (fs, False) | Torn k \<Rightarrow> (fs(f \<mapsto> take k d), False))"
| "fs_do disk (RemoveFile f) fs = (if disk (RemoveFile f) = Done then (fs(f := None), True) else (fs, False))"
| "fs_do disk (RenameFile f g) fs =
     (case fs f of
        None \<Rightarrow> (fs, False)
      | Some d \<Rightarrow> if disk (RenameFile f g) = Done then ((fs(f := None))(g \<mapsto> d), True) else (fs, False))"

abbreviation (input) fs_run :: "disk \<Rightarrow> fs_op \<Rightarrow> fs \<Rightarrow> fs" where
  "fs_run disk p fs \<equiv> fst (fs_do disk p fs)"

definition readTrim :: "string \<Rightarrow> fs \<Rightarrow> string" where
  "readTrim f fs = (case fs f of None \<Rightarrow> [] | Some b \<Rightarrow> TrimSpace (bytes_str b))"

abbreviation (input) exists :: "string \<Rightarrow> fs \<Rightarrow> bool" where
  "exists f fs \<equiv> fs f \<noteq> None"

section \<open>Downloading and swapping\<close>

definition EqualFold_hex :: "string \<Rightarrow> string \<Rightarrow> bool" where
  "EqualFold_hex s t = (map lower_char s = map lower_char t)"

text \<open>The answer of a mirror is a status and a body, \<open>None\<close> when the request failed.\<close>

definition downloadVerified :: "crypto \<Rightarrow> (string \<Rightarrow> (nat \<times> bytes) option) \<Rightarrow> string \<Rightarrow> string \<Rightarrow> bytes option" where
  "downloadVerified cr mirror url wantSHA =
     (case mirror url of
        None \<Rightarrow> None
      | Some (status, data) \<Rightarrow>
          if status \<noteq> 200 then None
          else if length data < 1000000 then None
          else if \<not> EqualFold_hex (hex_encode (sha256 cr data)) wantSHA then None
          else Some data)"

definition swapBinary :: "bool \<Rightarrow> disk \<Rightarrow> bytes \<Rightarrow> fs \<Rightarrow> fs \<times> bool" where
  "swapBinary windows disk data fs0 =
     (let fs1 = fs_run disk (RemoveFile ''.new'') fs0 in
      case fs_do disk (WriteFile ''.new'' data) fs1 of
        (fs2, False) \<Rightarrow> (fs2, False)
      | (fs2, True) \<Rightarrow>
          let fs3 = fs_run disk (RemoveFile ''.old'') fs2 in
          if windows then
            (case fs_do disk (RenameFile [] ''.old'') fs3 of
               (fs4, False) \<Rightarrow> (fs4, False)
             | (fs4, True) \<Rightarrow>
                 (case fs_do disk (RenameFile ''.new'' []) fs4 of
                    (fs5, False) \<Rightarrow> (fs_run disk (RenameFile ''.old'' []) fs5, False)
                  | (fs5, True) \<Rightarrow> (fs5, True)))
          else
            (case (case fs3 [] of None \<Rightarrow> (fs3, True) | Some cur \<Rightarrow> fs_do disk (WriteFile ''.old'' cur) fs3) of
               (fs4, False) \<Rightarrow> (fs4, False)
             | (fs4, True) \<Rightarrow> fs_do disk (RenameFile ''.new'' []) fs4))"

fun try_mirrors :: "crypto \<Rightarrow> (string \<Rightarrow> (nat \<times> bytes) option) \<Rightarrow> string \<Rightarrow> string list \<Rightarrow> bytes option" where
  "try_mirrors cr mirror sha [] = None"
| "try_mirrors cr mirror sha (u # us) =
     (case downloadVerified cr mirror u sha of None \<Rightarrow> try_mirrors cr mirror sha us | Some data \<Rightarrow> Some data)"

definition selfUpdateNode ::
  "crypto \<Rightarrow> (string \<Rightarrow> (nat \<times> bytes) option) \<Rightarrow> bool \<Rightarrow> disk \<Rightarrow> upgrade_binary \<Rightarrow> fs \<Rightarrow> fs \<times> bool" where
  "selfUpdateNode cr mirror windows disk bin fs =
     (let mirrors = (if ub_URLs bin = [] \<and> ub_URL bin \<noteq> [] then [ub_URL bin] else ub_URLs bin) in
      case try_mirrors cr mirror (ub_SHA256 bin) mirrors of
        None \<Rightarrow> (fs, False)
      | Some data \<Rightarrow> swapBinary windows disk data fs)"

section \<open>Updating\<close>

definition nodeVersion :: string where "nodeVersion = ''2.4.3''"

definition manifestURLs :: "string list" where
  "manifestURLs =
     [''https://github.com/CereblixCRB/cereblix/releases/latest/download/upgrade.json'', ''https://cereblix.com/upgrade.json'',
      ''https://cereblix.com/api/upgrade'', ''https://ru.cereblix.com/upgrade.json'', ''https://ru.cereblix.com/api/upgrade'']"

definition manifestSources :: "string \<Rightarrow> string list" where
  "manifestSources env =
     (if TrimSpace env = [] then manifestURLs
      else filter (\<lambda>u. u \<noteq> []) (map TrimSpace (split_char (CHR '','') (TrimSpace env))) @ manifestURLs)"

text \<open>\<open>fetch\<close> gives the manifest that a source serves, if its answer is good and decodes.\<close>

definition fetchManifest ::
  "crypto \<Rightarrow> (upgrade_manifest \<Rightarrow> bytes) \<Rightarrow> (string \<Rightarrow> upgrade_manifest option) \<Rightarrow> string \<Rightarrow> upgrade_manifest option" where
  "fetchManifest cr marshal fetch env =
     (case find (\<lambda>u. case fetch u of None \<Rightarrow> False | Some m \<Rightarrow> manifest_Verify cr marshal m) (manifestSources env) of
        None \<Rightarrow> None
      | Some u \<Rightarrow> fetch u)"

definition blockedVersion :: "fs \<Rightarrow> string" where
  "blockedVersion fs =
     (let bad = readTrim ''.badversion'' fs; sus = readTrim ''.suspect'' fs in
      if bad = [] then sus else if sus = [] then bad else if verNewer sus bad then sus else bad)"

abbreviation (input) envHalted :: "fs \<Rightarrow> bool" where "envHalted \<equiv> exists ''.envhalt''"
abbreviation (input) autoUpdateDisabled :: "fs \<Rightarrow> bool" where "autoUpdateDisabled \<equiv> exists ''.noupdate''"

definition setAutoUpdate :: "disk \<Rightarrow> bool \<Rightarrow> fs \<Rightarrow> fs" where
  "setAutoUpdate disk on fs =
     (if on then fs_run disk (RemoveFile ''.noupdate'') fs
      else fs_run disk (WriteFile ''.noupdate'' (str_bytes ''disabled by operator'')) fs)"

definition markPending :: "disk \<Rightarrow> string \<Rightarrow> fs \<Rightarrow> fs" where
  "markPending disk version fs =
     fs_run disk (WriteFile ''.bootn'' (str_bytes ''0'')) (fs_run disk (WriteFile ''.pending'' (str_bytes version)) fs)"

text \<open>
  What does the downloading: the mirrors, the disk and the platform. \<open>applyManifest\<close> returns the manifest
  that is served from now on, the files, and whether the process restarts.
\<close>

record update_env =
  ue_mirror :: "string \<Rightarrow> (nat \<times> bytes) option"
  ue_disk :: disk
  ue_windows :: bool
  ue_platform :: string

definition install :: "crypto \<Rightarrow> update_env \<Rightarrow> string \<Rightarrow> upgrade_manifest \<Rightarrow> fs \<Rightarrow> fs \<times> bool" where
  "install cr env nodeVer m fs =
     (if \<not> shouldInstall (um_Version m) nodeVer (blockedVersion fs) then (fs, False)
      else case map_of (um_Binaries m) (ue_platform env) of
        None \<Rightarrow> (fs, False)
      | Some bin \<Rightarrow>
          (case selfUpdateNode cr (ue_mirror env) (ue_windows env) (ue_disk env) bin fs of
             (fs1, False) \<Rightarrow> (fs1, False)
           | (fs1, True) \<Rightarrow> (markPending (ue_disk env) (um_Version m) fs1, True)))"

definition applyManifest ::
  "crypto \<Rightarrow> update_env \<Rightarrow> string \<Rightarrow> upgrade_manifest \<Rightarrow> bool \<Rightarrow> fs \<Rightarrow> upgrade_manifest \<times> fs \<times> bool" where
  "applyManifest cr env nodeVer m enabled fs =
     (m, if \<not> enabled then (fs, False) else if envHalted fs then (fs, False) else install cr env nodeVer m fs)"

definition update_tick ::
  "crypto \<Rightarrow> (upgrade_manifest \<Rightarrow> bytes) \<Rightarrow> (string \<Rightarrow> upgrade_manifest option) \<Rightarrow> string \<Rightarrow> update_env \<Rightarrow> string \<Rightarrow> bool
    \<Rightarrow> upgrade_manifest option \<Rightarrow> fs \<Rightarrow> upgrade_manifest option \<times> fs \<times> bool" where
  "update_tick cr marshal fetch src env nodeVer enabled served fs =
     (case fetchManifest cr marshal fetch src of
        None \<Rightarrow> (served, fs, False)
      | Some m \<Rightarrow>
          (case applyManifest cr env nodeVer m (enabled \<and> \<not> autoUpdateDisabled fs) fs of (m1, r) \<Rightarrow> (Some m1, r)))"

definition runUpdateOnce ::
  "crypto \<Rightarrow> (upgrade_manifest \<Rightarrow> bytes) \<Rightarrow> (string \<Rightarrow> upgrade_manifest option) \<Rightarrow> string \<Rightarrow> update_env \<Rightarrow> string \<Rightarrow> fs \<Rightarrow> fs" where
  "runUpdateOnce cr marshal fetch src env nodeVer fs =
     (case fetchManifest cr marshal fetch src of None \<Rightarrow> fs | Some m \<Rightarrow> fst (install cr env nodeVer m fs))"

section \<open>Versions are ordered\<close>

text \<open>Components as a sequence that ends in zeros; a newer version is larger at the first difference.\<close>

definition part :: "string list \<Rightarrow> nat \<Rightarrow> int" where
  "part vs i = (if i < length vs then scan_d (vs ! i) else 0)"

lemma newer_parts_iff:
  "newer_parts ap bp \<longleftrightarrow> (\<exists>i < length ap. (\<forall>j < i. part ap j = part bp j) \<and> part ap i > part bp i)"
proof (induction ap bp rule: newer_parts.induct)
  case (2 a ap bp)
  have head: "part (a # ap) 0 = scan_d a" "part bp 0 = (case bp of [] \<Rightarrow> 0 | b # _ \<Rightarrow> scan_d b)"
    by (auto simp: part_def split: list.split)
  have tail: "part (a # ap) (Suc i) = part ap i" "part bp (Suc i) = part (tl bp) i" for i
    by (auto simp: part_def nth_tl)
  show ?case
  proof (cases "part (a # ap) 0 = part bp 0")
    case True
    then have "newer_parts (a # ap) bp = newer_parts ap (tl bp)" using head by simp
    also have "\<dots> \<longleftrightarrow> (\<exists>i < length ap. (\<forall>j < i. part ap j = part (tl bp) j) \<and> part ap i > part (tl bp) i)"
      using 2 True head by simp
    also have "\<dots> \<longleftrightarrow> (\<exists>i < length (a # ap). (\<forall>j < i. part (a # ap) j = part bp j) \<and> part (a # ap) i > part bp i)"
      using True by (simp add: Ex_less_Suc2 All_less_Suc2 tail)
    finally show ?thesis .
  next
    case False
    then have n: "newer_parts (a # ap) bp = (part (a # ap) 0 > part bp 0)" using head by simp
    have "i = 0" if "\<forall>j < i. part (a # ap) j = part bp j" for i using that False by (cases i) auto
    then show ?thesis unfolding n by auto
  qed
qed simp

lemma newer_parts_trans: "newer_parts a b \<Longrightarrow> newer_parts b c \<Longrightarrow> newer_parts a c"
proof -
  assume "newer_parts a b" "newer_parts b c"
  then obtain i k where i: "i < length a" "\<forall>j < i. part a j = part b j" "part a i > part b i"
    and k: "k < length b" "\<forall>j < k. part b j = part c j" "part b k > part c k"
    unfolding newer_parts_iff by blast
  have "min i k < length a \<and> (\<forall>j < min i k. part a j = part c j) \<and> part a (min i k) > part c (min i k)"
    using i k by (cases i k rule: linorder_cases) (auto simp: min_def)
  then show ?thesis unfolding newer_parts_iff by blast
qed

lemma newer_parts_irrefl: "\<not> newer_parts a a"
  unfolding newer_parts_iff by auto

text \<open>Version comparison is a strict order on arbitrary texts, so a chain of updates never comes back to a
  version, and never installs a blocked version or one below it, whatever the manifests say.
\<close>

theorem updates_never_return:
  "\<not> verNewer a a \<and> (verNewer a b \<longrightarrow> \<not> verNewer b a) \<and> (verNewer a b \<longrightarrow> verNewer b c \<longrightarrow> verNewer a c)
   \<and> (shouldInstall a b blocked \<longrightarrow> shouldInstall b c blocked \<longrightarrow> shouldInstall a c blocked \<and> \<not> shouldInstall c a blocked)
   \<and> (shouldInstall a b blocked \<longrightarrow> blocked \<noteq> [] \<longrightarrow> a \<noteq> blocked \<and> \<not> verNewer blocked a)"
proof -
  have irr: "\<not> verNewer x x" for x by (simp add: verNewer_def newer_parts_irrefl)
  have tr: "verNewer x y \<Longrightarrow> verNewer y z \<Longrightarrow> verNewer x z" for x y z
    unfolding verNewer_def by (rule newer_parts_trans)
  have si: "shouldInstall x y z \<longleftrightarrow> verNewer x y \<and> (z \<noteq> [] \<longrightarrow> verNewer x z)" for x y z by (simp add: shouldInstall_def)
  have asym: "verNewer x y \<Longrightarrow> \<not> verNewer y x" for x y using tr irr by blast
  show ?thesis unfolding si using irr tr [of a b c] asym by blast
qed

theorem updates_never_return_witness:
  "shouldInstall ''2.10.0'' ''2.9.1'' [] \<and> \<not> verNewer ''2.9.1'' ''2.10.0'' \<and> \<not> shouldInstall ''2.9.1'' ''2.10.0'' []"
proof -
  have t: "TrimSpace ''2.10.0'' = ''2.10.0''" "TrimSpace ''2.9.1'' = ''2.9.1''"
    "trim_front (map bytes_str space_runes) n ''2'' = ''2''" "trim_front (map bytes_str space_runes) n ''10'' = ''10''"
    "trim_front (map bytes_str space_runes) n ''9'' = ''9''" for n
    by (intro TrimSpace_plain trim_front_plain; auto simp: plain_char_def)+
  have s: "shouldInstall ''2.10.0'' ''2.9.1'' []"
    by (simp add: shouldInstall_def verNewer_def t scan_d_def Let_def dec_val_def atoi_def del: trim_front.simps)
  then have "verNewer ''2.10.0'' ''2.9.1''" by (simp add: shouldInstall_def split: if_splits)
  then have "\<not> verNewer ''2.9.1'' ''2.10.0''" using updates_never_return [of "''2.10.0''" "''2.9.1''"] by blast
  then show ?thesis using s by (simp add: shouldInstall_def)
qed

section \<open>What is installed\<close>

lemma try_mirrors_sound:
  "try_mirrors cr mirror sha us = Some data \<Longrightarrow> EqualFold_hex (hex_encode (sha256 cr data)) sha \<and> length data \<ge> 1000000"
  by (induction us) (auto simp: downloadVerified_def split: option.splits prod.splits if_splits)

lemma fs_write:
  "fs_do disk (WriteFile f d) fs = (fs', ok) \<Longrightarrow> (ok \<longrightarrow> fs' = fs(f \<mapsto> d)) \<and> (\<forall>g. g \<noteq> f \<longrightarrow> fs' g = fs g)"
  by (auto split: outcome.splits)

lemma fs_remove: "fs_do disk (RemoveFile f) fs = (fs', ok) \<Longrightarrow> \<forall>g. g \<noteq> f \<longrightarrow> fs' g = fs g"
  by (auto split: if_splits)

lemma fs_rename:
  "fs_do disk (RenameFile f g) fs = (fs', ok) \<Longrightarrow>
    (ok \<longrightarrow> (\<exists>d. fs f = Some d \<and> fs' = (fs(f := None))(g \<mapsto> d))) \<and> (\<not> ok \<longrightarrow> fs' = fs)"
  by (auto split: option.splits if_splits)

lemma swap_cases:
  assumes "swapBinary windows disk data fs = (fs', ok)"
  shows "if ok then fs' [] = Some data \<and> (fs [] \<noteq> None \<longrightarrow> fs' ''.old'' = fs [])
    else fs' [] = fs [] \<or> windows \<and> fs' [] = None \<and> fs' ''.old'' = fs []"
proof -
  obtain fs1 o1 where 1: "fs_do disk (RemoveFile ''.new'') fs = (fs1, o1)" by (rule prod.exhaust)
  obtain fs2 o2 where 2: "fs_do disk (WriteFile ''.new'' data) fs1 = (fs2, o2)" by (rule prod.exhaust)
  obtain fs3 o3 where 3: "fs_do disk (RemoveFile ''.old'') fs2 = (fs3, o3)" by (rule prod.exhaust)
  have f: "fs2 [] = fs []" "fs3 [] = fs []" "o2 \<Longrightarrow> fs3 ''.new'' = Some data"
    using fs_remove [OF 1] fs_write [OF 2] fs_remove [OF 3] by auto
  note unf = swapBinary_def Let_def 1 2 3 fst_conv prod.case
  consider "\<not> o2" | "o2" "windows" | "o2" "\<not> windows" by blast
  then show ?thesis
  proof cases
    case 1
    then show ?thesis using assms f unfolding unf by simp
  next
    case 2
    obtain fs4 o4 where 4: "fs_do disk (RenameFile [] ''.old'') fs3 = (fs4, o4)" by (rule prod.exhaust)
    obtain fs5 o5 where 5: "fs_do disk (RenameFile ''.new'' []) fs4 = (fs5, o5)" by (rule prod.exhaust)
    obtain fs6 o6 where 6: "fs_do disk (RenameFile ''.old'' []) fs5 = (fs6, o6)" by (rule prod.exhaust)
    have "(fs', ok) = (if \<not> o4 then (fs4, False) else if \<not> o5 then (fs6, False) else (fs5, True))"
      using assms 2 unfolding unf 4 5 6 by (cases o4; cases o5) simp_all
    then show ?thesis using fs_rename [OF 4] fs_rename [OF 5] fs_rename [OF 6] f 2 by (auto split: if_splits)
  next
    case 3
    obtain fs4 o4 where 4: "(case fs3 [] of None \<Rightarrow> (fs3, True) | Some cur \<Rightarrow> fs_do disk (WriteFile ''.old'' cur) fs3) = (fs4, o4)"
      by (rule prod.exhaust)
    obtain fs5 o5 where 5: "fs_do disk (RenameFile ''.new'' []) fs4 = (fs5, o5)" by (rule prod.exhaust)
    have "(fs', ok) = (if \<not> o4 then (fs4, False) else (fs5, o5))"
      using assms 3 unfolding unf 4 5 by (cases o4) simp_all
    moreover have "fs4 [] = fs [] \<and> (o4 \<longrightarrow> fs4 ''.new'' = Some data \<and> (fs [] \<noteq> None \<longrightarrow> fs4 ''.old'' = fs []))"
    proof (cases "fs3 []")
      case (Some cur)
      then have "fs_do disk (WriteFile ''.old'' cur) fs3 = (fs4, o4)" using 4 by simp
      from fs_write [OF this] show ?thesis using f 3 Some by auto
    qed (use 4 f 3 in auto)
    ultimately show ?thesis using fs_rename [OF 5] f 3 by (auto split: if_splits)
  qed
qed



lemma swap_exe:
  assumes "swapBinary windows disk data fs = (fs', ok)" and "fs' [] \<noteq> fs []" and "fs' [] \<noteq> None"
  shows "fs' [] = Some data"
  using swap_cases [OF assms(1)] assms(2,3) by (cases ok) auto

lemma install_exe:
  assumes "install cr env nodeVer m fs = (fs', r)" and "fs' [] = Some data" and "fs [] \<noteq> Some data"
  shows "\<exists>bin. shouldInstall (um_Version m) nodeVer (blockedVersion fs) \<and> map_of (um_Binaries m) (ue_platform env) = Some bin
    \<and> EqualFold_hex (hex_encode (sha256 cr data)) (ub_SHA256 bin)"
proof -
  have mark: "markPending disk v g [] = g []" for disk v g by (simp add: markPending_def split: outcome.split)
  obtain bin where bin: "shouldInstall (um_Version m) nodeVer (blockedVersion fs)" "map_of (um_Binaries m) (ue_platform env) = Some bin"
    using assms by (auto simp: install_def split: if_splits option.splits)
  obtain fs1 ok where u: "selfUpdateNode cr (ue_mirror env) (ue_windows env) (ue_disk env) bin fs = (fs1, ok)"
    by (cases "selfUpdateNode cr (ue_mirror env) (ue_windows env) (ue_disk env) bin fs")
  have f1: "fs1 [] = Some data" using assms(1,2) bin u mark by (cases ok) (auto simp: install_def)
  then obtain x where x: "try_mirrors cr (ue_mirror env) (ub_SHA256 bin)
      (if ub_URLs bin = [] \<and> ub_URL bin \<noteq> [] then [ub_URL bin] else ub_URLs bin) = Some x"
    "swapBinary (ue_windows env) (ue_disk env) x fs = (fs1, ok)"
    using u assms(3) by (auto simp: selfUpdateNode_def Let_def split: option.splits)
  have "x = data" using swap_exe [OF x(2)] f1 assms(3) by simp
  then show ?thesis using bin try_mirrors_sound [OF x(1)] by blast
qed

text \<open>(C18)
  Only the authority replaces the program. Whatever the sources and mirrors serve and whatever the disk
  does, when a turn of the update loop leaves another executable than before, its SHA-256 is the one named
  for this platform in a manifest signed by the authority whose version is newer than the running one and
  than any blocked one, and neither the operator nor an environment problem has paused updates.
\<close>

theorem install_is_authorised:
  assumes "update_tick cr marshal fetch src env nodeVer enabled served fs = (served', fs', r)"
    and "fs' [] = Some data" and "fs [] \<noteq> Some data"
  shows "enabled \<and> \<not> autoUpdateDisabled fs \<and> \<not> envHalted fs
    \<and> (\<exists>m bin. manifest_Verify cr marshal m \<and> served' = Some m \<and> verNewer (um_Version m) nodeVer
        \<and> (blockedVersion fs \<noteq> [] \<longrightarrow> verNewer (um_Version m) (blockedVersion fs))
        \<and> map_of (um_Binaries m) (ue_platform env) = Some bin
        \<and> EqualFold_hex (hex_encode (sha256 cr data)) (ub_SHA256 bin))"
proof -
  obtain m where m: "fetchManifest cr marshal fetch src = Some m"
    using assms by (auto simp: update_tick_def split: option.splits)
  have ver: "manifest_Verify cr marshal m" using m
    by (auto simp: fetchManifest_def find_Some_iff split: option.splits)
  have on: "enabled" "\<not> autoUpdateDisabled fs" "\<not> envHalted fs" "served' = Some m" "install cr env nodeVer m fs = (fs', r)"
    using assms m by (auto simp: update_tick_def applyManifest_def split: if_splits)
  then show ?thesis using install_exe [OF on(5) assms(2,3)] ver by (auto simp: shouldInstall_def split: if_splits)
qed

text \<open>A manifest under a signature that verifies, for a program of a million zeros.\<close>

definition demo_program :: bytes where
  "demo_program = replicate 1000000 0"

definition demo_unsigned :: upgrade_manifest where
  "demo_unsigned = \<lparr>um_Version = ''2.5.0'', um_MinVersion = [], um_Notes = [],
     um_Binaries = [(''linux-amd64'', \<lparr>ub_URLs = [''mirror''], ub_URL = [], ub_SHA256 = hex_encode (sha256 demo_crypto demo_program)\<rparr>)],
     um_Forks = [], um_Sig = []\<rparr>"

definition demo_manifest :: upgrade_manifest where
  "demo_manifest = demo_unsigned\<lparr>um_Sig := hex_encode (demo_digest (signingBytes (\<lambda>m. []) demo_unsigned) @ fst (hex_decode AuthorityPubKey))\<rparr>"

definition demo_env :: update_env where
  "demo_env = \<lparr>ue_mirror = (\<lambda>u. Some (200, demo_program)), ue_disk = (\<lambda>p. Done), ue_windows = False, ue_platform = ''linux-amd64''\<rparr>"

lemma demo_manifest_verifies: "manifest_Verify demo_crypto (\<lambda>m. []) demo_manifest"
proof -
  note k = AuthorityPubKey_ok
  have s: "signingBytes (\<lambda>m. []) demo_manifest = signingBytes (\<lambda>m. []) demo_unsigned"
    by (simp add: signingBytes_def)
  have "um_Sig demo_manifest \<noteq> []" "um_Version demo_manifest \<noteq> []"
    by (auto simp: demo_manifest_def demo_unsigned_def simp flip: length_greater_0_conv)
  then show ?thesis using k s
    by (simp add: manifest_Verify_def verifyWith_def case_prod_beta Let_def)
       (simp add: demo_manifest_def demo_crypto_def)
qed

lemma demo_should_install: "shouldInstall ''2.5.0'' nodeVersion []"
proof -
  have t: "TrimSpace ''2.5.0'' = ''2.5.0''" "TrimSpace ''2.4.3'' = ''2.4.3''"
    "trim_front (map bytes_str space_runes) n ''2'' = ''2''" "trim_front (map bytes_str space_runes) n ''5'' = ''5''"
    "trim_front (map bytes_str space_runes) n ''4'' = ''4''" for n
    by (intro TrimSpace_plain trim_front_plain; auto simp: plain_char_def)+
  then show ?thesis
    by (simp add: shouldInstall_def nodeVersion_def verNewer_def scan_d_def Let_def dec_val_def atoi_def del: trim_front.simps)
qed

lemma demo_update:
  "\<exists>served' fs'. update_tick demo_crypto (\<lambda>m. []) (\<lambda>u. Some demo_manifest) [] demo_env nodeVersion True None ((\<lambda>f. None)([] \<mapsto> [3]))
     = (served', fs', True) \<and> fs' [] = Some demo_program"
proof -
  have f: "fetchManifest demo_crypto (\<lambda>m. []) (\<lambda>u. Some demo_manifest) [] = Some demo_manifest"
    using demo_manifest_verifies TrimSpace_plain [of "[]"] by (simp add: fetchManifest_def manifestSources_def manifestURLs_def)
  have d: "downloadVerified demo_crypto (ue_mirror demo_env) u (hex_encode (sha256 demo_crypto demo_program)) = Some demo_program" for u
    by (simp add: downloadVerified_def demo_env_def EqualFold_hex_def) (simp add: demo_program_def)
  have "blockedVersion ((\<lambda>f. None)([] \<mapsto> [3])) = []" by (simp add: blockedVersion_def readTrim_def)
  then have "\<exists>fs'. install demo_crypto demo_env nodeVersion demo_manifest ((\<lambda>f. None)([] \<mapsto> [3])) = (fs', True) \<and> fs' [] = Some demo_program"
    using d demo_should_install
    by (simp add: install_def demo_manifest_def demo_unsigned_def selfUpdateNode_def Let_def)
       (simp add: demo_env_def swapBinary_def Let_def markPending_def)
  then show ?thesis using f by (auto simp: update_tick_def applyManifest_def)
qed

theorem install_is_authorised_witness:
  "\<exists>served' fs' m. update_tick demo_crypto (\<lambda>m. []) (\<lambda>u. Some demo_manifest) [] demo_env nodeVersion True None ((\<lambda>f. None)([] \<mapsto> [3]))
     = (served', fs', True) \<and> fs' [] = Some demo_program \<and> served' = Some m \<and> manifest_Verify demo_crypto (\<lambda>m. []) m"
proof -
  obtain served' fs' where u: "update_tick demo_crypto (\<lambda>m. []) (\<lambda>u. Some demo_manifest) [] demo_env nodeVersion True None
      ((\<lambda>f. None)([] \<mapsto> [3])) = (served', fs', True)" "fs' [] = Some demo_program"
    using demo_update by blast
  have "length demo_program \<noteq> length [3 :: u8]" by (simp add: demo_program_def)
  then have "demo_program \<noteq> [3]" by metis
  with install_is_authorised [OF u] u show ?thesis by auto
qed

end
