(* ===== verification/Cmd_Selfheal.thy ===== *)
theory Cmd_Selfheal
  imports Cmd_Update
begin

text \<open>
  The self-healing guard of the node command, after \<^verbatim>\<open>src/cmd/cereblixd/selfheal.go\<close>: what a boot does about a
  freshly installed or rolled back binary, and what the health check in the background does at its end.
  The guard refines a small state machine, in which every update is decided within six boots.
\<close>

section \<open>Diagnosis and decision\<close>

record diagnosis =
  dg_OK :: bool
  dg_Problems :: "string list"

text \<open>The first problem of the data directory, if any, and the error of listening on an address, are arguments.\<close>

definition selfDiagnose :: "string option \<Rightarrow> (string \<Rightarrow> string option) \<Rightarrow> string \<Rightarrow> string \<Rightarrow> diagnosis" where
  "selfDiagnose datadir listen p2p rpc =
     (let bind = (\<lambda>addr. case listen (if take 1 addr = '':'' then ''0.0.0.0'' @ addr else addr) of
                     None \<Rightarrow> [] | Some e \<Rightarrow> [''cannot bind '' @ addr @ '' (port in use / another instance?): '' @ e]);
          probs = (case datadir of None \<Rightarrow> [] | Some e \<Rightarrow> [e]) @ bind p2p @ bind rpc
      in \<lparr>dg_OK = (probs = []), dg_Problems = probs\<rparr>)"

fun join :: "string \<Rightarrow> string list \<Rightarrow> string" where
  "join sep [] = []"
| "join sep [s] = s"
| "join sep (s # t # ts) = s @ sep @ join sep (t # ts)"

definition dg_summary :: "diagnosis \<Rightarrow> string" where
  "dg_summary d = (if dg_OK d then ''environment OK'' else join ''; '' (dg_Problems d))"

datatype boot_decision =
  BootNormal | BootWatch | BootConfirmRollback | BootRollback | BootGiveUp | BootEnvProblem | BootEnvFaultConfirmed

record boot_state =
  bs_EnvOK :: bool
  bs_HasPending :: bool
  bs_Attempts :: int
  bs_HasOld :: bool
  bs_HasSuspect :: bool
  bs_ConfirmAttempts :: int

abbreviation (input) maxBadBoots :: int where "maxBadBoots \<equiv> 3"

definition decideBoot :: "boot_state \<Rightarrow> boot_decision" where
  "decideBoot s =
     (if \<not> bs_EnvOK s then BootEnvProblem
      else if bs_HasPending s then
        (if bs_Attempts s \<ge> maxBadBoots then if bs_HasOld s then BootRollback else BootGiveUp else BootWatch)
      else if bs_HasSuspect s then
        (if bs_ConfirmAttempts s \<ge> maxBadBoots then BootEnvFaultConfirmed else BootConfirmRollback)
      else BootNormal)"

section \<open>Markers\<close>

text \<open>\<open>strconv.Atoi\<close> with its error dropped: zero for a text that is no number.\<close>

definition counter :: "string \<Rightarrow> fs \<Rightarrow> int" where
  "counter f fs = (case atoi (readTrim f fs) of None \<Rightarrow> 0 | Some n \<Rightarrow> n)"

abbreviation (input) readBootn :: "fs \<Rightarrow> int" where "readBootn \<equiv> counter ''.bootn''"
abbreviation (input) readConfirmn :: "fs \<Rightarrow> int" where "readConfirmn \<equiv> counter ''.confirmn''"

definition Itoa :: "int \<Rightarrow> string" where
  "Itoa n = (if n < 0 then CHR ''-'' # show_nat (nat (- n)) else show_nat (nat n))"

definition removes :: "disk \<Rightarrow> string list \<Rightarrow> fs \<Rightarrow> fs" where
  "removes disk ws fs = foldl (\<lambda>fs f. fs_run disk (RemoveFile f) fs) fs ws"

definition clearSuspectAsEnvFault :: "disk \<Rightarrow> string \<Rightarrow> fs \<Rightarrow> fs" where
  "clearSuspectAsEnvFault disk why fs =
     fs_run disk (WriteFile ''.envhalt'' (str_bytes (''environment/data fault: '' @ why))) (removes disk [''.suspect'', ''.confirmn''] fs)"

section \<open>A boot\<close>

text \<open>What is watched in the background while the process runs.\<close>

datatype watch = NoWatch | WatchPending string | WatchRollback string | WatchEnv

definition boot_state_of :: "diagnosis \<Rightarrow> fs \<Rightarrow> boot_state" where
  "boot_state_of diag fs =
     \<lparr>bs_EnvOK = dg_OK diag, bs_HasPending = exists ''.pending'' fs, bs_Attempts = readBootn fs + 1, bs_HasOld = exists ''.old'' fs,
      bs_HasSuspect = exists ''.suspect'' fs, bs_ConfirmAttempts = readConfirmn fs + 1\<rparr>"

text \<open>\<open>bootGuard\<close>: the files, whether the process restarted instead of going on, and what it watches.\<close>

definition bootGuard :: "disk \<Rightarrow> diagnosis \<Rightarrow> fs \<Rightarrow> fs \<times> bool \<times> watch" where
  "bootGuard disk diag fs =
     (let st = boot_state_of diag fs in
      case decideBoot st of
        BootEnvProblem \<Rightarrow>
          (if bs_HasPending st \<or> bs_HasSuspect st then fs_run disk (WriteFile ''.envhalt'' (str_bytes (dg_summary diag))) fs else fs,
           False, NoWatch)
      | BootRollback \<Rightarrow>
          let failed = readTrim ''.pending'' fs;
              fs1 = (if failed \<noteq> [] then fs_run disk (WriteFile ''.suspect'' (str_bytes failed)) fs else fs);
              fs2 = fs_run disk (WriteFile ''.confirmn'' (str_bytes ''0'')) fs1;
              fs3 = fs_run disk (RenameFile [] ''.bad'') fs2
          in (case fs_do disk (RenameFile ''.old'' []) fs3 of
                (fs4, True) \<Rightarrow> (removes disk [''.pending'', ''.bootn''] fs4, True, NoWatch)
              | (fs4, False) \<Rightarrow>
                  (removes disk [''.pending'', ''.bootn''] (fs_run disk (RenameFile ''.bad'' []) fs4), False, NoWatch))
      | BootGiveUp \<Rightarrow> (removes disk [''.pending'', ''.bootn''] fs, False, NoWatch)
      | BootWatch \<Rightarrow>
          (fs_run disk (WriteFile ''.bootn'' (str_bytes (Itoa (bs_Attempts st)))) fs, False, WatchPending (readTrim ''.pending'' fs))
      | BootConfirmRollback \<Rightarrow>
          (fs_run disk (WriteFile ''.confirmn'' (str_bytes (Itoa (bs_ConfirmAttempts st)))) fs, False, WatchRollback (readTrim ''.suspect'' fs))
      | BootEnvFaultConfirmed \<Rightarrow>
          (clearSuspectAsEnvFault disk (''rollback target also failed '' @ Itoa (bs_ConfirmAttempts st) @ '' boots'') fs, False, NoWatch)
      | BootNormal \<Rightarrow>
          let fs1 = removes disk [''.old'', ''.bad'', ''.bootn''] fs in (fs1, False, if envHalted fs1 then WatchEnv else NoWatch))"

text \<open>The end of the wait for health.\<close>

definition watch_done :: "disk \<Rightarrow> bool \<Rightarrow> watch \<Rightarrow> fs \<Rightarrow> fs" where
  "watch_done disk healthy w fs =
     (case w of
        NoWatch \<Rightarrow> fs
      | WatchPending ver \<Rightarrow>
          if healthy
          then removes disk [''.pending'', ''.bootn'', ''.confirmn'', ''.old'', ''.bad'', ''.badversion'', ''.suspect'', ''.envhalt''] fs
          else fs
      | WatchRollback suspect \<Rightarrow>
          if healthy
          then removes disk [''.suspect'', ''.confirmn'', ''.old'', ''.bad'', ''.envhalt'']
                 (if suspect \<noteq> [] then fs_run disk (WriteFile ''.badversion'' (str_bytes suspect)) fs else fs)
          else clearSuspectAsEnvFault disk ''previous binary alive but never became healthy'' fs
      | WatchEnv \<Rightarrow> if healthy then fs_run disk (RemoveFile ''.envhalt'') fs else fs)"

text \<open>
  A boot and how it ends: the process is healthy within the window, stays alive without becoming healthy,
  or dies before the window ends.
\<close>

datatype fate = Healthy | Alive | Crashed

definition boot :: "disk \<Rightarrow> diagnosis \<Rightarrow> fate \<Rightarrow> fs \<Rightarrow> fs" where
  "boot disk diag fate fs =
     (case bootGuard disk diag fs of
        (fs1, True, w) \<Rightarrow> fs1
      | (fs1, False, w) \<Rightarrow> (if fate = Crashed then fs1 else watch_done disk (fate = Healthy) w fs1))"

section \<open>The state machine\<close>

text \<open>
  Where an update from \<open>old\<close> to \<open>new\<close> of version \<open>v\<close> stands: installed and booted \<open>n\<close> times, rolled back and
  booted \<open>n\<close> times, kept, blacklisted, or found not to be the cause of the trouble.
\<close>

datatype phase = Pending nat | Suspect nat | Committed | Blacklisted | EnvFault | Recovered

fun phase_step :: "bool \<Rightarrow> fate \<Rightarrow> phase \<Rightarrow> phase" where
  "phase_step env fate (Pending n) =
     (if \<not> env then Pending n else if n \<ge> 2 then Suspect 0 else if fate = Healthy then Committed else Pending (n + 1))"
| "phase_step env fate (Suspect n) =
     (if \<not> env then Suspect n else if n \<ge> 2 then EnvFault
      else case fate of Healthy \<Rightarrow> Blacklisted | Alive \<Rightarrow> EnvFault | Crashed \<Rightarrow> Suspect (n + 1))"
| "phase_step env fate EnvFault = (if env \<and> fate = Healthy then Recovered else EnvFault)"
| "phase_step env fate Committed = Committed"
| "phase_step env fate Blacklisted = Blacklisted"
| "phase_step env fate Recovered = Recovered"

definition in_phase :: "bytes \<Rightarrow> bytes \<Rightarrow> string \<Rightarrow> bytes option \<Rightarrow> phase \<Rightarrow> fs \<Rightarrow> bool" where
  "in_phase old new v bad p fs =
     (case p of
        Pending n \<Rightarrow> fs [] = Some new \<and> fs ''.old'' = Some old \<and> fs ''.pending'' = Some (str_bytes v) \<and> fs ''.badversion'' = bad
          \<and> fs ''.bootn'' = Some (str_bytes (show_nat n))
      | Suspect n \<Rightarrow> fs [] = Some old \<and> fs ''.pending'' = None \<and> fs ''.suspect'' = Some (str_bytes v) \<and> fs ''.badversion'' = bad
          \<and> fs ''.confirmn'' = Some (str_bytes (show_nat n))
      | Committed \<Rightarrow> fs [] = Some new \<and> fs ''.pending'' = None \<and> fs ''.suspect'' = None \<and> fs ''.badversion'' = None \<and> fs ''.envhalt'' = None
      | Blacklisted \<Rightarrow> fs [] = Some old \<and> fs ''.pending'' = None \<and> fs ''.suspect'' = None
          \<and> fs ''.badversion'' = Some (str_bytes v) \<and> fs ''.envhalt'' = None
      | EnvFault \<Rightarrow> fs [] = Some old \<and> fs ''.pending'' = None \<and> fs ''.suspect'' = None \<and> fs ''.badversion'' = bad \<and> fs ''.envhalt'' \<noteq> None
      | Recovered \<Rightarrow> fs [] = Some old \<and> fs ''.pending'' = None \<and> fs ''.suspect'' = None \<and> fs ''.badversion'' = bad
          \<and> fs ''.envhalt'' = None)"

section \<open>Refinement\<close>

abbreviation (input) good :: disk where "good \<equiv> \<lambda>_. Done"

lemma fs_good [simp]:
  "fs_do good (WriteFile f d) fs = (fs(f \<mapsto> d), True)" "fs_do good (RemoveFile f) fs = (fs(f := None), True)"
  by simp_all

lemma removes_good: "removes good ws fs = (\<lambda>f. if f \<in> set ws then None else fs f)"
  unfolding removes_def by (induction ws arbitrary: fs) (auto simp: fun_eq_iff)

lemma counter_show: "fs f = Some (str_bytes (show_nat n)) \<Longrightarrow> n < 2 ^ 63 \<Longrightarrow> counter f fs = int n"
proof -
  assume a: "fs f = Some (str_bytes (show_nat n))" "n < 2 ^ 63"
  have "TrimSpace (show_nat n) = show_nat n" by (intro TrimSpace_plain plain_digit show_nat_digits)
  moreover have "hd (show_nat n) \<noteq> CHR ''-''" "hd (show_nat n) \<noteq> CHR ''+''"
    using show_nat_digits [of "hd (show_nat n)" n] by (auto simp: dec_val_def)
  ultimately show ?thesis using a by (simp add: counter_def readTrim_def atoi_def Let_def)
qed

lemma Itoa_of_nat: "Itoa (int n + 1) = show_nat (Suc n)"
  by (simp add: Itoa_def nat_add_distrib)

lemma boot_refines:
  assumes "in_phase old new v bad p fs" and "v \<noteq> []" and "\<And>c. c \<in> set v \<Longrightarrow> plain_char c" and "\<forall>n. p \<in> {Pending n, Suspect n} \<longrightarrow> n \<le> 2"
  shows "in_phase old new v bad (phase_step (dg_OK diag) fate p) (boot good diag fate fs)"
proof -
  have v: "TrimSpace v = v" using assms(3) by (rule TrimSpace_plain)
  have c: "counter f fs = int n" if "fs f = Some (str_bytes (show_nat n))" "n \<le> 2" for f n
    by (rule counter_show) (use that in simp_all)
  note defs = boot_def bootGuard_def boot_state_of_def decideBoot_def watch_done_def removes_good clearSuspectAsEnvFault_def
    in_phase_def readTrim_def Let_def Itoa_of_nat
  show ?thesis
  proof (cases p)
    case (Pending n)
    then have n: "n \<le> 2" using assms(4) by simp
    have f: "fs [] = Some new" "fs ''.old'' = Some old" "fs ''.pending'' = Some (str_bytes v)" "fs ''.badversion'' = bad"
      "counter ''.bootn'' fs = int n" "fs ''.bootn'' = Some (str_bytes (show_nat n))"
      using assms(1) Pending c [of "''.bootn''" n] n by (simp_all add: in_phase_def)
    show ?thesis
    proof (cases "dg_OK diag \<and> n < 2")
      case True
      then show ?thesis using Pending f by (cases fate) (simp_all add: defs)
    next
      case False
      then show ?thesis using Pending f n v assms(2) by (cases "dg_OK diag") (simp_all add: defs show_nat.simps [of 0] dec_digit_def)
    qed
  next
    case (Suspect n)
    then have n: "n \<le> 2" using assms(4) by simp
    have f: "fs [] = Some old" "fs ''.pending'' = None" "fs ''.suspect'' = Some (str_bytes v)" "fs ''.badversion'' = bad"
      "counter ''.confirmn'' fs = int n" "fs ''.confirmn'' = Some (str_bytes (show_nat n))"
      using assms(1) Suspect c [of "''.confirmn''" n] n by (simp_all add: in_phase_def)
    show ?thesis
    proof (cases "dg_OK diag \<and> n < 2")
      case True
      then show ?thesis using Suspect f v assms(2) by (cases fate) (simp_all add: defs)
    next
      case False
      then show ?thesis using Suspect f n by (cases "dg_OK diag") (simp_all add: defs)
    qed
  qed (use assms(1) in \<open>cases "dg_OK diag"; cases fate; simp add: defs\<close>)+
qed

lemma install_pending:
  assumes "install cr env nodeVer m fs = (fs', True)" and "ue_disk env = good" and "fs [] = Some old"
  shows "\<exists>new. in_phase old new (um_Version m) (fs ''.badversion'') (Pending 0) fs'"
proof -
  obtain bin fs1 where b: "selfUpdateNode cr (ue_mirror env) (ue_windows env) good bin fs = (fs1, True)" "fs' = markPending good (um_Version m) fs1"
    using assms(1,2) by (auto simp: install_def split: if_splits option.splits prod.splits bool.splits)
  then obtain new where s: "swapBinary (ue_windows env) good new fs = (fs1, True)"
    by (auto simp: selfUpdateNode_def Let_def split: option.splits)
  have "fs1 ''.badversion'' = fs ''.badversion''"
    using s assms(3) by (auto simp: swapBinary_def Let_def split: if_splits)
  then show ?thesis
    using swap_cases [OF s] assms(3) b(2)
    by (intro exI [of _ new]) (simp add: in_phase_def markPending_def show_nat.simps [of 0] dec_digit_def)
qed

lemma demo_install:
  "in_phase [3] [7] ''2.5.0'' None (Pending 0) (markPending good ''2.5.0'' (fst (swapBinary False good [7] ((\<lambda>f. None)([] \<mapsto> [3])))))"
  by (simp add: swapBinary_def Let_def in_phase_def markPending_def show_nat.simps [of 0] dec_digit_def)

lemma demo_version: "c \<in> set ''2.5.0'' \<Longrightarrow> plain_char c"
  by (auto simp: plain_char_def)

text \<open>(C26)
  The guard on files implements the state machine of phases. From the files of any phase of an update, a
  boot, with any diagnosis and however it ends, leaves the files of the phase that the machine steps to:
  the counters, the binaries, the suspect and the blacklist are where the phase says.
\<close>

theorem boot_guard_refines:
  assumes "in_phase old new v bad p fs" and "v \<noteq> []" and "\<And>c. c \<in> set v \<Longrightarrow> plain_char c"
    and "\<forall>n. p \<in> {Pending n, Suspect n} \<longrightarrow> n \<le> 2"
  shows "in_phase old new v bad (phase_step (dg_OK diag) fate p) (boot good diag fate fs)"
  using assms by (rule boot_refines)

theorem boot_guard_refines_witness:
  "in_phase [3] [7] ''2.5.0'' None (Pending 1) (boot good \<lparr>dg_OK = True, dg_Problems = []\<rparr> Crashed
     (markPending good ''2.5.0'' (fst (swapBinary False good [7] ((\<lambda>f. None)([] \<mapsto> [3]))))))"
  using boot_guard_refines [OF demo_install _ demo_version, of "\<lparr>dg_OK = True, dg_Problems = []\<rparr>" Crashed] by simp

section \<open>Every update is decided\<close>

text \<open>Boots in an environment without problems, each of which becomes healthy exactly when its binary is.\<close>

fun run_boots :: "(diagnosis \<times> fate) list \<Rightarrow> fs \<Rightarrow> fs" where
  "run_boots [] fs = fs"
| "run_boots ((d, fate) # evs) fs = run_boots evs (boot good d fate fs)"

fun faithful :: "(bytes option \<Rightarrow> bool) \<Rightarrow> (diagnosis \<times> fate) list \<Rightarrow> fs \<Rightarrow> bool" where
  "faithful healthy [] fs = True"
| "faithful healthy ((d, fate) # evs) fs =
     (dg_OK d \<and> (fate = Healthy \<longleftrightarrow> healthy (fs [])) \<and> faithful healthy evs (boot good d fate fs))"

fun distance :: "phase \<Rightarrow> nat" where
  "distance (Pending n) = 6 - n"
| "distance (Suspect n) = 3 - n"
| "distance p = 0"

text \<open>What a phase says of the two binaries.\<close>

definition verdict_ok :: "bool \<Rightarrow> bool \<Rightarrow> phase \<Rightarrow> bool" where
  "verdict_ok hnew hold p =
     (case p of
        Pending n \<Rightarrow> n \<le> 2 \<and> (n > 0 \<longrightarrow> \<not> hnew)
      | Suspect n \<Rightarrow> n \<le> 2 \<and> \<not> hnew \<and> (n > 0 \<longrightarrow> \<not> hold)
      | Committed \<Rightarrow> hnew
      | Blacklisted \<Rightarrow> \<not> hnew \<and> hold
      | EnvFault \<Rightarrow> \<not> hnew \<and> \<not> hold
      | Recovered \<Rightarrow> False)"

lemma decided_step:
  assumes "verdict_ok hnew hold p" and "fate = Healthy \<longleftrightarrow> (case p of Pending n \<Rightarrow> hnew | Committed \<Rightarrow> hnew | _ \<Rightarrow> hold)"
  shows "verdict_ok hnew hold (phase_step True fate p) \<and> distance (phase_step True fate p) \<le> distance p - 1"
  using assms by (cases p) (auto simp: verdict_ok_def split: fate.splits)

lemma decided_run:
  assumes "in_phase old new v bad p fs" and "v \<noteq> []" and "\<And>c. c \<in> set v \<Longrightarrow> plain_char c"
    and "verdict_ok (healthy (Some new)) (healthy (Some old)) p" and "faithful healthy evs fs"
  shows "\<exists>q. in_phase old new v bad q (run_boots evs fs) \<and> verdict_ok (healthy (Some new)) (healthy (Some old)) q
    \<and> distance q \<le> distance p - length evs"
  using assms(1,4,5)
proof (induction evs arbitrary: p fs)
  case (Cons ev evs)
  obtain d fate where ev: "ev = (d, fate)" by (cases ev)
  let ?q = "phase_step True fate p" and ?fs = "boot good d fate fs"
  have d: "dg_OK d" "fate = Healthy \<longleftrightarrow> healthy (fs [])" "faithful healthy evs ?fs" using Cons.prems(3) by (simp_all add: ev)
  have bound: "\<forall>n. p \<in> {Pending n, Suspect n} \<longrightarrow> n \<le> 2" using Cons.prems(2) by (auto simp: verdict_ok_def)
  have q: "in_phase old new v bad ?q ?fs" using boot_refines [OF Cons.prems(1) assms(2,3) bound, of d fate] d(1) by simp
  have "fate = Healthy \<longleftrightarrow> (case p of Pending n \<Rightarrow> healthy (Some new) | Committed \<Rightarrow> healthy (Some new) | _ \<Rightarrow> healthy (Some old))"
    using d(2) Cons.prems(1) by (cases p) (simp_all add: in_phase_def)
  note st = decided_step [OF Cons.prems(2) this]
  obtain r where "in_phase old new v bad r (run_boots evs ?fs)" "verdict_ok (healthy (Some new)) (healthy (Some old)) r"
    "distance r \<le> distance ?q - length evs"
    using Cons.IH [OF q conjunct1 [OF st] d(3)] by blast
  then show ?case using st by (intro exI [of _ r]) (auto simp: ev)
qed auto

text \<open>(C20)
  The node always ends on a healthy binary and with the right verdict. Six boots after an update, in a sound
  environment and whatever way unhealthy binaries fail, a healthy new binary is kept, with every marker and
  the blacklist cleared; if it is not healthy and the previous one is, the previous one runs and exactly the
  new version is blacklisted; and if neither is, the new version is not blacklisted and updates are paused.
\<close>

theorem update_is_decided:
  assumes "in_phase old new v bad (Pending 0) fs" and "v \<noteq> []" and "\<And>c. c \<in> set v \<Longrightarrow> plain_char c"
    and "faithful healthy evs fs" and "6 \<le> length evs"
  shows "let fs' = run_boots evs fs in fs' ''.pending'' = None \<and> fs' ''.suspect'' = None
    \<and> (if healthy (Some new) then fs' [] = Some new \<and> blockedVersion fs' = [] \<and> \<not> envHalted fs'
       else if healthy (Some old) then fs' [] = Some old \<and> blockedVersion fs' = v \<and> \<not> envHalted fs'
       else fs' [] = Some old \<and> fs' ''.badversion'' = bad \<and> envHalted fs')"
proof -
  have "verdict_ok (healthy (Some new)) (healthy (Some old)) (Pending 0)" by (simp add: verdict_ok_def)
  from decided_run [where healthy = healthy, OF assms(1-3) this assms(4)]
  obtain q where q: "in_phase old new v bad q (run_boots evs fs)" "verdict_ok (healthy (Some new)) (healthy (Some old)) q"
    "distance q \<le> distance (Pending 0) - length evs"
    by blast
  have "distance q = 0" using q(3) assms(5) by simp
  then have "q \<in> {Committed, Blacklisted, EnvFault}" using q(2) by (cases q) (auto simp: verdict_ok_def)
  moreover have "TrimSpace v = v" using assms(3) by (rule TrimSpace_plain)
  moreover have "TrimSpace [] = []" by (rule TrimSpace_plain) simp
  ultimately show ?thesis
    using q(1,2) assms(2) by (auto simp: verdict_ok_def in_phase_def Let_def blockedVersion_def readTrim_def)
qed

lemma demo_boots:
  "faithful (\<lambda>b. b = Some [3]) ([(\<lparr>dg_OK = True, dg_Problems = []\<rparr>, Crashed), (\<lparr>dg_OK = True, dg_Problems = []\<rparr>, Alive),
       (\<lparr>dg_OK = True, dg_Problems = []\<rparr>, Crashed)] @ replicate 3 (\<lparr>dg_OK = True, dg_Problems = []\<rparr>, Healthy))
     (markPending good ''2.5.0'' (fst (swapBinary False good [7] ((\<lambda>f. None)([] \<mapsto> [3])))))"
proof -
  let ?d = "\<lparr>dg_OK = True, dg_Problems = []\<rparr>"
  define fs where "fs = markPending good ''2.5.0'' (fst (swapBinary False good [7] ((\<lambda>f. None)([] \<mapsto> [3]))))"
  note st = boot_refines [where v = "''2.5.0''" and bad = None and old = "[3]" and new = "[7]" and diag = ?d, OF _ _ demo_version]
  have 0: "in_phase [3] [7] ''2.5.0'' None (Pending 0) fs" unfolding fs_def by (rule demo_install)
  have 1: "in_phase [3] [7] ''2.5.0'' None (Pending 1) (boot good ?d Crashed fs)" using st [OF 0, of Crashed] by simp
  have 2: "in_phase [3] [7] ''2.5.0'' None (Pending 2) (boot good ?d Alive (boot good ?d Crashed fs))"
    using st [OF 1, of Alive] by (simp add: numeral_2_eq_2)
  have 3: "in_phase [3] [7] ''2.5.0'' None (Suspect 0) (boot good ?d Crashed (boot good ?d Alive (boot good ?d Crashed fs)))"
    using st [OF 2, of Crashed] by simp
  define g where "g = boot good ?d Crashed (boot good ?d Alive (boot good ?d Crashed fs))"
  have 4: "in_phase [3] [7] ''2.5.0'' None Blacklisted (boot good ?d Healthy g)" using st [OF 3, of Healthy] by (simp add: g_def)
  have 5: "in_phase [3] [7] ''2.5.0'' None Blacklisted (boot good ?d Healthy (boot good ?d Healthy g))" using st [OF 4, of Healthy] by simp
  show ?thesis using 0 1 2 3 4 5 unfolding fs_def [symmetric] by (simp add: numeral_3_eq_3 in_phase_def flip: g_def)
qed

theorem update_is_decided_witness:
  "let fs' = run_boots ([(\<lparr>dg_OK = True, dg_Problems = []\<rparr>, Crashed), (\<lparr>dg_OK = True, dg_Problems = []\<rparr>, Alive),
       (\<lparr>dg_OK = True, dg_Problems = []\<rparr>, Crashed)] @ replicate 3 (\<lparr>dg_OK = True, dg_Problems = []\<rparr>, Healthy))
     (markPending good ''2.5.0'' (fst (swapBinary False good [7] ((\<lambda>f. None)([] \<mapsto> [3])))))
   in fs' [] = Some [3] \<and> blockedVersion fs' = ''2.5.0''"
  using update_is_decided [OF demo_install _ demo_version demo_boots] by (auto simp: Let_def)

section \<open>Gaps\<close>

text \<open>The third boot of a pending version is rolled back before it has a chance: it is tried twice, not three times.\<close>

lemma third_boot_not_tried:
  assumes "in_phase old new v bad (Pending 2) fs" and "dg_OK diag" and "v \<noteq> []"
  shows "fst (snd (bootGuard good diag fs)) \<and> fst (bootGuard good diag fs) [] = Some old"
proof -
  have "counter ''.bootn'' fs = 2" using counter_show [of fs "''.bootn''" 2] assms(1) by (simp add: in_phase_def)
  then show ?thesis using assms by (simp add: in_phase_def bootGuard_def boot_state_of_def decideBoot_def removes_good Let_def)
qed

text \<open>A rollback renames twice; a crash between leaves no executable.\<close>

lemma rollback_gap:
  assumes "in_phase old new v bad (Pending 2) fs" and "dg_OK diag"
  shows "fst (bootGuard (\<lambda>p. if p \<in> {RenameFile ''.old'' [], RenameFile ''.bad'' []} then Failed else Done) diag fs) [] = None"
proof -
  have "counter ''.bootn'' fs = 2" using counter_show [of fs "''.bootn''" 2] assms(1) by (simp add: in_phase_def)
  then show ?thesis using assms by (simp add: in_phase_def bootGuard_def boot_state_of_def decideBoot_def removes_def Let_def)
qed

text \<open>
  The guard is armed after the swap: a crash between leaves a new binary that no marker watches, and its
  first boot removes the backup.
\<close>

lemma unarmed_update:
  assumes "fs ''.pending'' = None" and "fs ''.suspect'' = None" and "dg_OK diag" and "swapBinary windows good data fs = (fs1, True)"
  shows "fst (bootGuard good diag (markPending (\<lambda>_. Failed) v fs1)) [] = Some data
    \<and> fst (bootGuard good diag (markPending (\<lambda>_. Failed) v fs1)) ''.old'' = None
    \<and> snd (snd (bootGuard good diag (markPending (\<lambda>_. Failed) v fs1))) \<in> {NoWatch, WatchEnv}"
proof -
  have "fs1 ''.pending'' = None" "fs1 ''.suspect'' = None" "fs1 [] = Some data"
    using assms(1,2,4) swap_cases [OF assms(4)] by (auto simp: swapBinary_def Let_def split: if_splits option.splits)
  then show ?thesis using assms(3)
    by (simp add: markPending_def bootGuard_def boot_state_of_def decideBoot_def removes_good Let_def)
qed

end
