(* ===== verification/Wallet_Store.thy ===== *)
theory Wallet_Store
  imports Go_Strings Core_Types
begin

text \<open>
  The key store of the desktop wallet, after \<^verbatim>\<open>src/desktop/store.go\<close>: keys sealed under a passphrase, locking
  and unlocking, new and imported keys, and the wallet file. HMAC, AES-GCM, \<^verbatim>\<open>encoding/json\<close> on keys and random
  bytes are arguments. Every key of an open wallet signs for its address, and what an operation saved opens
  again to the same keys.
\<close>

section \<open>Key derivation\<close>

text \<open>\<open>pbkdf2\<close> with an HMAC of 32-byte results; \<open>rounds\<close> is its inner loop from the round after the first.\<close>

fun rounds :: "(bytes \<Rightarrow> bytes) \<Rightarrow> nat \<Rightarrow> bytes \<Rightarrow> bytes \<Rightarrow> bytes" where
  "rounds mac 0 u t = t"
| "rounds mac (Suc n) u t = (let u1 = mac u in rounds mac n u1 (map2 (XOR) t u1))"

definition pbkdf2 :: "(bytes \<Rightarrow> bytes \<Rightarrow> bytes) \<Rightarrow> bytes \<Rightarrow> bytes \<Rightarrow> nat \<Rightarrow> nat \<Rightarrow> bytes" where
  "pbkdf2 hmac password salt iter keyLen =
     (let mac = hmac password; numBlocks = (keyLen + 31) div 32
      in take keyLen (concat (map (\<lambda>block. let t = mac (salt @ be_bytes 4 (word_of_nat block :: u32)) in rounds mac (iter - 1) t t)
                                  [1..<numBlocks + 1])))"

section \<open>The wallet file\<close>

record key_entry =
  ke_Label :: string
  ke_Priv :: string
  ke_Addr :: string

record file_format =
  ff_Version :: nat
  ff_Encrypted :: bool
  ff_KDF :: string
  ff_Iter :: int
  ff_Salt :: string
  ff_Nonce :: string
  ff_Cipher :: string
  ff_Keys :: "key_entry list"

text \<open>What the program finds at the path of the wallet; a file that decodes is its content.\<close>

datatype wallet_file = NoFile | UnreadableFile | CorruptFile | WalletFile file_format

record sealing =
  se_hmac :: "bytes \<Rightarrow> bytes \<Rightarrow> bytes"
  se_seal :: "bytes \<Rightarrow> bytes \<Rightarrow> bytes \<Rightarrow> bytes"
  se_open :: "bytes \<Rightarrow> bytes \<Rightarrow> bytes \<Rightarrow> bytes option"
  se_marshal :: "key_entry list \<Rightarrow> bytes"
  se_unmarshal :: "bytes \<Rightarrow> key_entry list option"

text \<open>
  What the code relies on: AES-GCM opens what it sealed and nothing else comes out of it, adds a tag, and
  JSON decodes what it encoded, as it does for the valid UTF-8 that labels are.
\<close>

definition sealing_ok :: "sealing \<Rightarrow> bool" where
  "sealing_ok se \<longleftrightarrow>
     (\<forall>k n p. se_open se k n (se_seal se k n p) = Some p \<and> se_seal se k n p \<noteq> [])
     \<and> (\<forall>k k' n p q. se_open se k' n (se_seal se k n p) = Some q \<longrightarrow> q = p)
     \<and> (\<forall>ks. se_unmarshal se (se_marshal se ks) = Some ks)"

abbreviation (input) kdfIters :: nat where "kdfIters \<equiv> 600000"
abbreviation (input) minPassphrase :: nat where "minPassphrase \<equiv> 8"
abbreviation (input) maxKdfIters :: int where "maxKdfIters \<equiv> 5000000"

definition decryptKeys :: "sealing \<Rightarrow> file_format \<Rightarrow> bytes \<Rightarrow> key_entry list option" where
  "decryptKeys se ff pass =
     (let (salt, sok) = hex_decode (ff_Salt ff) in
      if \<not> sok \<or> length salt < 16 then None
      else let (nonce, nok) = hex_decode (ff_Nonce ff) in
      if \<not> nok \<or> length nonce \<noteq> 12 then None
      else let (ct, cok) = hex_decode (ff_Cipher ff) in
      if \<not> cok \<or> ct = [] then None
      else let iter = (if ff_Iter ff = 0 then int kdfIters else ff_Iter ff) in
      if iter < 1 \<or> iter > maxKdfIters then None
      else case se_open se (pbkdf2 (se_hmac se) pass salt (nat iter) 32) nonce ct of
        None \<Rightarrow> None
      | Some plain \<Rightarrow> se_unmarshal se plain)"

section \<open>The store\<close>

text \<open>The wallet in memory, and the file on disk.\<close>

record wallet =
  wa_encrypted :: bool
  wa_locked :: bool
  wa_keys :: "key_entry list"
  wa_passphrase :: bytes
  wa_enc :: "file_format option"
  wa_exists :: bool
  wa_file :: wallet_file

definition empty_wallet :: "wallet_file \<Rightarrow> wallet" where
  "empty_wallet f = \<lparr>wa_encrypted = False, wa_locked = False, wa_keys = [], wa_passphrase = [], wa_enc = None, wa_exists = False, wa_file = f\<rparr>"

definition loadStore :: "wallet_file \<Rightarrow> string + wallet" where
  "loadStore f =
     (case f of
        NoFile \<Rightarrow> Inr (empty_wallet f)
      | UnreadableFile \<Rightarrow> Inl ''read error''
      | CorruptFile \<Rightarrow> Inl ''corrupt wallet file''
      | WalletFile ff \<Rightarrow>
          let s = (empty_wallet f)\<lparr>wa_exists := True, wa_encrypted := ff_Encrypted ff\<rparr> in
          if \<not> ff_Encrypted ff then Inr (s\<lparr>wa_keys := ff_Keys ff\<rparr>)
          else Inr (s\<lparr>wa_locked := True, wa_enc := Some ff\<rparr>))"

definition mustLoadStore :: "wallet_file \<Rightarrow> wallet" where
  "mustLoadStore f = (case loadStore f of Inl _ \<Rightarrow> (empty_wallet f)\<lparr>wa_exists := True\<rparr> | Inr s \<Rightarrow> s)"

definition unlock :: "sealing \<Rightarrow> bytes \<Rightarrow> wallet \<Rightarrow> (string + bool) \<times> wallet" where
  "unlock se passphrase s =
     (if \<not> wa_encrypted s then (Inr True, s\<lparr>wa_locked := False\<rparr>)
      else if \<not> wa_locked s then (Inr True, s)
      else case wa_enc s of
        None \<Rightarrow> (Inl ''no encrypted wallet data to unlock'', s)
      | Some ff \<Rightarrow>
          (case decryptKeys se ff passphrase of
             None \<Rightarrow> (Inr False, s)
           | Some ks \<Rightarrow> (Inr True, s\<lparr>wa_keys := ks, wa_passphrase := passphrase, wa_locked := False\<rparr>)))"

definition lock :: "wallet \<Rightarrow> wallet" where
  "lock s = (if \<not> wa_encrypted s then s else s\<lparr>wa_keys := [], wa_passphrase := [], wa_locked := True\<rparr>)"

text \<open>
  How the parts of a save go: the directory, the random salt and nonce, and the write with its rename,
  which replaces the whole file or leaves it.
\<close>

record save_io =
  io_mkdir :: bool
  io_random :: "(bytes \<times> bytes) option"
  io_write :: bool

definition sealed_file :: "sealing \<Rightarrow> bytes \<Rightarrow> bytes \<Rightarrow> bytes \<Rightarrow> key_entry list \<Rightarrow> file_format" where
  "sealed_file se passphrase salt nonce ks =
     \<lparr>ff_Version = 1, ff_Encrypted = True, ff_KDF = ''pbkdf2-sha256'', ff_Iter = int kdfIters, ff_Salt = hex_encode salt,
      ff_Nonce = hex_encode nonce,
      ff_Cipher = hex_encode (se_seal se (pbkdf2 (se_hmac se) passphrase salt kdfIters 32) nonce (se_marshal se ks)), ff_Keys = []\<rparr>"

definition open_file :: "key_entry list \<Rightarrow> file_format" where
  "open_file ks = \<lparr>ff_Version = 1, ff_Encrypted = False, ff_KDF = [], ff_Iter = 0, ff_Salt = [], ff_Nonce = [], ff_Cipher = [], ff_Keys = ks\<rparr>"

definition save :: "sealing \<Rightarrow> save_io \<Rightarrow> wallet \<Rightarrow> string option \<times> wallet" where
  "save se io s =
     (let write = (\<lambda>ff s. if io_write io then (None, s\<lparr>wa_file := WalletFile ff, wa_exists := True\<rparr>) else (Some ''write error'', s)) in
      if \<not> io_mkdir io then (Some ''mkdir error'', s)
      else if wa_encrypted s then
        (if wa_passphrase s = [] then (Some ''cannot save encrypted wallet without an unlocked passphrase'', s)
         else case io_random io of
           None \<Rightarrow> (Some ''random error'', s)
         | Some (salt, nonce) \<Rightarrow>
             let ff = sealed_file se (wa_passphrase s) salt nonce (wa_keys s) in write ff (s\<lparr>wa_enc := Some ff\<rparr>))
      else write (open_file (wa_keys s)) s)"

section \<open>Keys\<close>

definition findLocked :: "string \<Rightarrow> wallet \<Rightarrow> key_entry option" where
  "findLocked x s = find (\<lambda>e. ke_Addr e = x \<or> ke_Label e = x) (wa_keys s)"

definition store_find :: "string \<Rightarrow> wallet \<Rightarrow> string + key_entry" where
  "store_find x s =
     (if wa_locked s then Inl ''wallet is locked - unlock it first''
      else case findLocked x s of None \<Rightarrow> Inl ''no such address/label in wallet'' | Some e \<Rightarrow> Inr e)"

definition store_list :: "wallet \<Rightarrow> string + key_entry list" where
  "store_list s =
     (if wa_locked s then Inl ''wallet is locked - unlock it first'' else Inr (map (\<lambda>e. e\<lparr>ke_Priv := []\<rparr>) (wa_keys s)))"

text \<open>\<open>key\<close> is the generated private key, \<open>None\<close> when the source of randomness fails.\<close>

definition newKeyLocked :: "crypto \<Rightarrow> bytes option \<Rightarrow> string \<Rightarrow> wallet \<Rightarrow> (string + key_entry) \<times> wallet" where
  "newKeyLocked cr key label0 s =
     (let label = (if label0 = [] then ''addr-'' @ show_nat (length (wa_keys s) + 1) else label0) in
      if findLocked label s \<noteq> None then (Inl ''label already exists'', s)
      else case key of
        None \<Rightarrow> (Inl ''random error'', s)
      | Some priv \<Rightarrow>
          let e = \<lparr>ke_Label = label, ke_Priv = hex_encode priv, ke_Addr = AddrFromPub cr (ed_public cr priv)\<rparr>
          in (Inr e, s\<lparr>wa_keys := wa_keys s @ [e]\<rparr>))"

definition saved :: "'a \<Rightarrow> string option \<times> wallet \<Rightarrow> (string + 'a) \<times> wallet" where
  "saved r x = (case x of (Some e, s) \<Rightarrow> (Inl e, s) | (None, s) \<Rightarrow> (Inr r, s))"

definition create :: "crypto \<Rightarrow> sealing \<Rightarrow> save_io \<Rightarrow> bytes option \<Rightarrow> bytes \<Rightarrow> wallet \<Rightarrow> (string + key_entry) \<times> wallet" where
  "create cr se io key passphrase s =
     (if wa_exists s \<or> wa_keys s \<noteq> [] then (Inl ''a wallet already exists'', s)
      else if length passphrase < minPassphrase then (Inl ''passphrase too short'', s)
      else case newKeyLocked cr key ''main'' s of
        (Inl e, s1) \<Rightarrow> (Inl e, s1)
      | (Inr e, s1) \<Rightarrow> saved (e\<lparr>ke_Priv := []\<rparr>) (save se io (s1\<lparr>wa_encrypted := True, wa_passphrase := passphrase, wa_locked := False\<rparr>)))"

definition add_key :: "crypto \<Rightarrow> sealing \<Rightarrow> save_io \<Rightarrow> bytes option \<Rightarrow> string \<Rightarrow> wallet \<Rightarrow> (string + key_entry) \<times> wallet" where
  "add_key cr se io key label s =
     (if wa_locked s then (Inl ''wallet is locked - unlock it first'', s)
      else case newKeyLocked cr key label s of
        (Inl e, s1) \<Rightarrow> (Inl e, s1)
      | (Inr e, s1) \<Rightarrow> saved (e\<lparr>ke_Priv := []\<rparr>) (save se io s1))"

text \<open>\<open>pub_of_seed\<close> is the public half of \<^verbatim>\<open>ed25519.NewKeyFromSeed\<close>.\<close>

definition importKey ::
  "crypto \<Rightarrow> (bytes \<Rightarrow> bytes) \<Rightarrow> sealing \<Rightarrow> save_io \<Rightarrow> string \<Rightarrow> string \<Rightarrow> wallet \<Rightarrow> (string + key_entry) \<times> wallet" where
  "importKey cr pub_of_seed se io privHex label0 s =
     (if wa_locked s then (Inl ''wallet is locked - unlock it first'', s)
      else let (raw, ok) = hex_decode privHex in
      if \<not> ok \<or> length raw \<noteq> 64 then (Inl ''private key must be 128 hex characters'', s)
      else let pub = ed_public cr raw in
      if length pub \<noteq> 32 then (Inl ''invalid private key'', s)
      else if pub_of_seed (take 32 raw) \<noteq> pub then (Inl ''invalid private key: public half does not match its seed'', s)
      else let probe = str_bytes ''cereblix-import-integrity-check'' in
      if \<not> ed_verify cr pub probe (ed_sign cr raw probe) then (Inl ''invalid private key: failed sign/verify check'', s)
      else let label1 = (if label0 = [] then ''imported'' else label0);
               label = (if findLocked label1 s \<noteq> None then label1 @ ''-'' @ show_nat (length (wa_keys s) + 1) else label1);
               addr = AddrFromPub cr pub in
      if findLocked addr s \<noteq> None then (Inl ''address already in wallet'', s)
      else let e = \<lparr>ke_Label = label, ke_Priv = privHex, ke_Addr = addr\<rparr>
           in saved (e\<lparr>ke_Priv := []\<rparr>) (save se io (s\<lparr>wa_keys := wa_keys s @ [e]\<rparr>)))"

definition exportKey :: "string \<Rightarrow> bytes \<Rightarrow> wallet \<Rightarrow> string + string" where
  "exportKey x passphrase s =
     (if wa_locked s then Inl ''wallet is locked - unlock it first''
      else if wa_encrypted s \<and> wa_passphrase s \<noteq> passphrase then Inl ''wrong passphrase''
      else case findLocked x s of None \<Rightarrow> Inl ''no such address/label in wallet'' | Some e \<Rightarrow> Inr (ke_Priv e))"

definition encrypt :: "sealing \<Rightarrow> save_io \<Rightarrow> bytes \<Rightarrow> wallet \<Rightarrow> (string + unit) \<times> wallet" where
  "encrypt se io passphrase s =
     (if wa_encrypted s then (Inl ''wallet is already encrypted'', s)
      else if wa_keys s = [] then (Inl ''nothing to encrypt - create an address first'', s)
      else if length passphrase < minPassphrase then (Inl ''passphrase too short'', s)
      else saved () (save se io (s\<lparr>wa_encrypted := True, wa_passphrase := passphrase, wa_locked := False\<rparr>)))"

definition changePassphrase :: "sealing \<Rightarrow> save_io \<Rightarrow> bytes \<Rightarrow> bytes \<Rightarrow> wallet \<Rightarrow> (string + unit) \<times> wallet" where
  "changePassphrase se io oldp newp s =
     (if \<not> wa_encrypted s then (Inl ''wallet is not encrypted - use EncryptWallet to set a passphrase'', s)
      else if wa_locked s then (Inl ''wallet is locked - unlock it first'', s)
      else if wa_passphrase s \<noteq> oldp then (Inl ''old passphrase is incorrect'', s)
      else if length newp < minPassphrase then (Inl ''new passphrase too short'', s)
      else saved () (save se io (s\<lparr>wa_passphrase := newp\<rparr>)))"

end
