(* ===== verification/Wallet_Keys.thy ===== *)
theory Wallet_Keys
  imports Wallet_Store
begin

text \<open>
  What the desktop wallet's key store guarantees: its keys sign for their addresses in every state it can
  reach, a locked wallet holds no secret, and what an operation saved opens again.
\<close>

section \<open>Sealed files\<close>

lemma length_rounds: "length t = 32 \<Longrightarrow> (\<And>m. length (mac m) = 32) \<Longrightarrow> length (rounds mac n u t) = 32"
  by (induction mac n u t rule: rounds.induct) (simp_all add: Let_def)

lemma length_pbkdf2: "(\<And>k m. length (hmac k m) = 32) \<Longrightarrow> length (pbkdf2 hmac p s i n) = n"
proof -
  assume h: "\<And>k m. length (hmac k m) = 32"
  have "length (concat (map (\<lambda>block. let t = hmac p (s @ be_bytes 4 (word_of_nat block :: u32)) in rounds (hmac p) (i - 1) t t) xs)) = 32 * length xs"
    for xs by (induction xs) (simp_all add: Let_def length_rounds h)
  note l = this
  have "n \<le> 32 * ((n + 31) div 32)" by presburger
  then show ?thesis unfolding pbkdf2_def Let_def length_take l [unfolded Let_def] by simp
qed

lemma decrypt_sealed:
  assumes "sealing_ok se" and "length salt = 16" and "length nonce = 12"
  shows "decryptKeys se (sealed_file se p salt nonce ks) p = Some ks"
    and "decryptKeys se (sealed_file se p salt nonce ks) q = Some ks' \<Longrightarrow> ks' = ks"
proof -
  let ?k = "\<lambda>p. pbkdf2 (se_hmac se) p salt kdfIters 32"
  have d: "decryptKeys se (sealed_file se p salt nonce ks) q =
      (case se_open se (?k q) nonce (se_seal se (?k p) nonce (se_marshal se ks)) of None \<Rightarrow> None | Some plain \<Rightarrow> se_unmarshal se plain)" for q
    using assms by (simp add: decryptKeys_def sealed_file_def sealing_ok_def Let_def)
  show "decryptKeys se (sealed_file se p salt nonce ks) p = Some ks"
    using assms(1) unfolding d by (simp add: sealing_ok_def)
  show "ks' = ks" if a: "decryptKeys se (sealed_file se p salt nonce ks) q = Some ks'"
  proof -
    obtain plain where "se_open se (?k q) nonce (se_seal se (?k p) nonce (se_marshal se ks)) = Some plain" "se_unmarshal se plain = Some ks'"
      using a unfolding d by (auto split: option.splits)
    moreover from this(1) have "plain = se_marshal se ks" using assms(1) unfolding sealing_ok_def by blast
    ultimately show ?thesis using assms(1) by (simp add: sealing_ok_def)
  qed
qed

section \<open>Well-typed wallets\<close>

definition keys_ok :: "crypto \<Rightarrow> key_entry list \<Rightarrow> bool" where
  "keys_ok cr ks \<longleftrightarrow>
     (\<forall>e \<in> set ks. \<exists>raw. hex_decode (ke_Priv e) = (raw, True) \<and> length raw = 64 \<and> ke_Addr e = AddrFromPub cr (ed_public cr raw))"

definition blob_ok :: "crypto \<Rightarrow> sealing \<Rightarrow> file_format \<Rightarrow> bool" where
  "blob_ok cr se ff \<longleftrightarrow>
     (if ff_Encrypted ff then ff_Keys ff = [] \<and> (\<forall>p ks. decryptKeys se ff p = Some ks \<longrightarrow> keys_ok cr ks) else keys_ok cr (ff_Keys ff))"

definition file_ok :: "crypto \<Rightarrow> sealing \<Rightarrow> wallet_file \<Rightarrow> bool" where
  "file_ok cr se f \<longleftrightarrow> (\<forall>ff. f = WalletFile ff \<longrightarrow> blob_ok cr se ff)"

definition wallet_typed :: "crypto \<Rightarrow> sealing \<Rightarrow> wallet \<Rightarrow> bool" where
  "wallet_typed cr se w \<longleftrightarrow>
     keys_ok cr (wa_keys w) \<and> file_ok cr se (wa_file w)
     \<and> (\<forall>ff. wa_enc w = Some ff \<longrightarrow> ff_Encrypted ff \<and> blob_ok cr se ff)
     \<and> (wa_locked w \<longrightarrow> wa_encrypted w \<and> wa_keys w = [] \<and> wa_passphrase w = [])"

text \<open>What the user and the operating system do to a wallet; a restart loads the file again.\<close>

datatype wallet_op =
  OpRestart | OpUnlock bytes | OpLock | OpCreate save_io "bytes option" bytes | OpAdd save_io "bytes option" string
  | OpImport save_io string string | OpEncrypt save_io bytes | OpChange save_io bytes bytes

definition ok_of :: "('a + 'b) \<times> wallet \<Rightarrow> bool \<times> wallet" where
  "ok_of x = (case x of (Inl _, s) \<Rightarrow> (False, s) | (Inr _, s) \<Rightarrow> (True, s))"

fun wallet_do :: "crypto \<Rightarrow> (bytes \<Rightarrow> bytes) \<Rightarrow> sealing \<Rightarrow> wallet_op \<Rightarrow> wallet \<Rightarrow> bool \<times> wallet" where
  "wallet_do cr pub se OpRestart w = (False, mustLoadStore (wa_file w))"
| "wallet_do cr pub se (OpUnlock p) w = (False, snd (unlock se p w))"
| "wallet_do cr pub se OpLock w = (False, lock w)"
| "wallet_do cr pub se (OpCreate io key p) w = ok_of (create cr se io key p w)"
| "wallet_do cr pub se (OpAdd io key l) w = ok_of (add_key cr se io key l w)"
| "wallet_do cr pub se (OpImport io h l) w = ok_of (importKey cr pub se io h l w)"
| "wallet_do cr pub se (OpEncrypt io p) w = ok_of (encrypt se io p w)"
| "wallet_do cr pub se (OpChange io p q) w = ok_of (changePassphrase se io p q w)"

text \<open>Random values have the sizes the program asks for.\<close>

definition io_ok :: "save_io \<Rightarrow> bool" where
  "io_ok io \<longleftrightarrow> (\<forall>salt nonce. io_random io = Some (salt, nonce) \<longrightarrow> length salt = 16 \<and> length nonce = 12)"

fun op_ok :: "wallet_op \<Rightarrow> bool" where
  "op_ok (OpCreate io key p) = (io_ok io \<and> (\<forall>k. key = Some k \<longrightarrow> length k = 64))"
| "op_ok (OpAdd io key l) = (io_ok io \<and> (\<forall>k. key = Some k \<longrightarrow> length k = 64))"
| "op_ok (OpImport io h l) = io_ok io"
| "op_ok (OpEncrypt io p) = io_ok io"
| "op_ok (OpChange io p q) = io_ok io"
| "op_ok _ = True"

lemma wallet_typed_save:
  assumes "sealing_ok se" and "io_ok io" and "wallet_typed cr se w" and "\<not> wa_locked w"
  shows "wallet_typed cr se (snd (save se io w))"
proof -
  have sealed: "blob_ok cr se (sealed_file se p salt nonce (wa_keys w))" if "io_random io = Some (salt, nonce)" for p salt nonce
  proof -
    have l: "length salt = 16" "length nonce = 12" using assms(2) that by (simp_all add: io_ok_def)
    have "ff_Encrypted (sealed_file se p salt nonce (wa_keys w))" "ff_Keys (sealed_file se p salt nonce (wa_keys w)) = []"
      by (simp_all add: sealed_file_def)
    then show ?thesis using decrypt_sealed(2) [OF assms(1) l] assms(3) by (auto simp: blob_ok_def wallet_typed_def)
  qed
  have enc: "ff_Encrypted (sealed_file se p salt nonce ks)" for p salt nonce ks by (simp add: sealed_file_def)
  have op: "blob_ok cr se (open_file (wa_keys w))" using assms(3) by (simp add: blob_ok_def open_file_def wallet_typed_def)
  show ?thesis
    using assms(3,4) sealed op enc by (auto simp: save_def wallet_typed_def file_ok_def Let_def split: option.splits)
qed

lemma newKey_typed:
  assumes "wallet_typed cr se w" and "\<not> wa_locked w" and "\<forall>k. key = Some k \<longrightarrow> length k = 64"
    and "newKeyLocked cr key l w = (r, w')"
  shows "wallet_typed cr se w' \<and> wa_locked w' = wa_locked w \<and> wa_encrypted w' = wa_encrypted w"
  using assms by (auto simp: newKeyLocked_def Let_def wallet_typed_def keys_ok_def split: if_splits option.splits)

lemma snd_ok_of [simp]: "snd (ok_of (saved r x)) = snd x" "snd (ok_of (Inl e, w)) = w" "snd (ok_of (Inr y, w)) = w"
  by (auto simp: ok_of_def saved_def split: prod.split option.split)

lemma wallet_typed_load: "file_ok cr se f \<Longrightarrow> wallet_typed cr se (mustLoadStore f)"
  by (auto simp: mustLoadStore_def loadStore_def empty_wallet_def wallet_typed_def file_ok_def blob_ok_def keys_ok_def Let_def
      split: wallet_file.split)

lemma wallet_typed_do:
  assumes "sealing_ok se" and "op_ok op" and "wallet_typed cr se w"
  shows "wallet_typed cr se (snd (wallet_do cr pub se op w))"
proof (cases op)
  case OpRestart
  have "file_ok cr se (wa_file w)" using assms(3) by (simp add: wallet_typed_def)
  from wallet_typed_load [OF this] show ?thesis by (simp add: OpRestart)
next
  case (OpUnlock p)
  then show ?thesis using assms(3) by (auto simp: unlock_def wallet_typed_def blob_ok_def split: option.splits)
next
  case OpLock
  then show ?thesis using assms(3) by (auto simp: lock_def wallet_typed_def keys_ok_def)
next
  case (OpCreate io key p)
  have io: "io_ok io" "\<forall>k. key = Some k \<longrightarrow> length k = 64" using assms(2) OpCreate by simp_all
  show ?thesis
  proof (cases "wa_exists w \<or> wa_keys w \<noteq> [] \<or> length p < minPassphrase")
    case False
    obtain r w1 where n: "newKeyLocked cr key ''main'' w = (r, w1)" by (rule prod.exhaust)
    have t: "wallet_typed cr se (w1\<lparr>wa_encrypted := True, wa_passphrase := p, wa_locked := False\<rparr>)" "r = Inl e \<Longrightarrow> w1 = w" for e
      using n assms(3) io(2) by (auto simp: newKeyLocked_def Let_def wallet_typed_def keys_ok_def split: if_splits option.splits)
    show ?thesis using OpCreate False n wallet_typed_save [OF assms(1) io(1) t(1)] t(2) assms(3)
      by (cases r) (auto simp: create_def)
  qed (use OpCreate assms(3) in \<open>auto simp: create_def\<close>)
next
  case (OpAdd io key l)
  have io: "io_ok io" "\<forall>k. key = Some k \<longrightarrow> length k = 64" using assms(2) OpAdd by simp_all
  show ?thesis
  proof (cases "wa_locked w")
    case False
    obtain r w1 where n: "newKeyLocked cr key l w = (r, w1)" by (rule prod.exhaust)
    note t = newKey_typed [OF assms(3) False io(2) n]
    show ?thesis using OpAdd False n wallet_typed_save [OF assms(1) io(1), of cr w1] t by (cases r) (auto simp: add_key_def)
  qed (use OpAdd assms(3) in \<open>auto simp: add_key_def\<close>)
next
  case (OpImport io h l)
  obtain raw ok where d: "hex_decode h = (raw, ok)" by (rule prod.exhaust)
  have t: "wallet_typed cr se (w\<lparr>wa_keys := wa_keys w @ [\<lparr>ke_Label = lab, ke_Priv = h, ke_Addr = AddrFromPub cr (ed_public cr raw)\<rparr>]\<rparr>)"
    if "\<not> wa_locked w" "ok" "length raw = 64" for lab
    using that assms(3) d by (auto simp: wallet_typed_def keys_ok_def)
  have "wallet_typed cr se (snd (save se io (w\<lparr>wa_keys := wa_keys w @ [\<lparr>ke_Label = lab, ke_Priv = h, ke_Addr = AddrFromPub cr (ed_public cr raw)\<rparr>]\<rparr>)))"
    if "\<not> wa_locked w" "ok" "length raw = 64" for lab
    using wallet_typed_save [OF assms(1) _ t [OF that]] assms(2) OpImport that by simp
  then show ?thesis using OpImport assms(3) d by (auto simp: importKey_def Let_def)
next
  case (OpEncrypt io p)
  have "wallet_typed cr se (w\<lparr>wa_encrypted := True, wa_passphrase := p, wa_locked := False\<rparr>)"
    using assms(3) by (auto simp: wallet_typed_def)
  from wallet_typed_save [OF assms(1) _ this, of io] show ?thesis using OpEncrypt assms(2,3) by (auto simp: encrypt_def)
next
  case (OpChange io p q)
  have "wallet_typed cr se (w\<lparr>wa_passphrase := q\<rparr>)" if "\<not> wa_locked w" using assms(3) that by (auto simp: wallet_typed_def)
  from wallet_typed_save [OF assms(1) _ this, of io] show ?thesis using OpChange assms(2,3) by (auto simp: changePassphrase_def)
qed

definition wallet_run :: "crypto \<Rightarrow> (bytes \<Rightarrow> bytes) \<Rightarrow> sealing \<Rightarrow> wallet_op list \<Rightarrow> wallet \<Rightarrow> wallet" where
  "wallet_run cr pub se ops w = foldl (\<lambda>w op. snd (wallet_do cr pub se op w)) w ops"

lemma wallet_run_typed:
  "sealing_ok se \<Longrightarrow> \<forall>op \<in> set ops. op_ok op \<Longrightarrow> wallet_typed cr se w \<Longrightarrow> wallet_typed cr se (wallet_run cr pub se ops w)"
  unfolding wallet_run_def by (induction ops arbitrary: w) (simp_all add: wallet_typed_do)

text \<open>(C25)
  A wallet stays well typed. Whatever the user does, however saves fail and wherever the program restarts,
  every key in memory is a 64-byte private key whose public half gives the address it is filed under, the
  wallet's file and sealed blob hold only such keys under any passphrase, an encrypted file holds no key
  in the clear, and a locked wallet has neither keys nor a passphrase in memory.
\<close>

theorem wallet_stays_typed:
  assumes "sealing_ok se" and "file_ok cr se f" and "\<forall>op \<in> set ops. op_ok op"
  shows "wallet_typed cr se (wallet_run cr pub se ops (mustLoadStore f))"
  using wallet_run_typed [OF assms(1,3) wallet_typed_load [OF assms(2)]] .

section \<open>Saving and opening again\<close>

lemma save_reopens:
  assumes "sealing_ok se" and "io_ok io" and "save se io w = (None, w')" and "\<not> wa_locked w"
  shows "wa_keys w' = wa_keys w \<and> wa_encrypted w' = wa_encrypted w \<and> wa_passphrase w' = wa_passphrase w
    \<and> (if wa_encrypted w' then
         (let s = mustLoadStore (wa_file w') in
          wa_locked s \<and> wa_keys s = [] \<and> fst (unlock se (wa_passphrase w') s) = Inr True
          \<and> wa_keys (snd (unlock se (wa_passphrase w') s)) = wa_keys w')
         \<and> fst (unlock se (wa_passphrase w') (lock w')) = Inr True
         \<and> wa_keys (snd (unlock se (wa_passphrase w') (lock w'))) = wa_keys w'
         \<and> (\<exists>ff. wa_file w' = WalletFile ff \<and> ff_Keys ff = [])
       else wa_keys (mustLoadStore (wa_file w')) = wa_keys w')"
proof (cases "wa_encrypted w")
  case True
  obtain salt nonce where r: "io_random io = Some (salt, nonce)" "io_mkdir io" "io_write io"
    using assms(3) True by (auto simp: save_def Let_def split: if_splits option.splits)
  then have l: "length salt = 16" "length nonce = 12" using assms(2) by (simp_all add: io_ok_def)
  define ff where "ff = sealed_file se (wa_passphrase w) salt nonce (wa_keys w)"
  have w': "w' = w\<lparr>wa_enc := Some ff, wa_file := WalletFile ff, wa_exists := True\<rparr>"
    using assms(3) True r by (auto simp: save_def Let_def ff_def split: if_splits)
  have f: "ff_Encrypted ff" "ff_Keys ff = []" by (simp_all add: ff_def sealed_file_def)
  have d: "decryptKeys se ff (wa_passphrase w) = Some (wa_keys w)" unfolding ff_def by (rule decrypt_sealed(1) [OF assms(1) l])
  show ?thesis using True f d by (simp add: w' mustLoadStore_def loadStore_def empty_wallet_def unlock_def lock_def Let_def)
next
  case False
  then have "w' = w\<lparr>wa_file := WalletFile (open_file (wa_keys w)), wa_exists := True\<rparr>"
    using assms(3) by (auto simp: save_def Let_def split: if_splits)
  then show ?thesis using False by (simp add: mustLoadStore_def loadStore_def empty_wallet_def open_file_def Let_def)
qed

lemma saved_True: "ok_of (saved r x) = (True, w) \<Longrightarrow> x = (None, w)"
  by (auto simp: ok_of_def saved_def split: prod.splits option.splits)

lemma not_saved [simp]: "ok_of (Inl e, v) \<noteq> (True, w)"
  by (simp add: ok_of_def)

lemma newKey_unlocked: "newKeyLocked cr key l w = (r, w1) \<Longrightarrow> wa_locked w1 = wa_locked w"
  by (auto simp: newKeyLocked_def Let_def split: if_splits option.splits)

lemma wallet_do_saves:
  assumes "wallet_do cr pub se op w = (True, w')" and "op_ok op"
  shows "\<exists>io v. save se io v = (None, w') \<and> io_ok io \<and> \<not> wa_locked v"
proof (cases op)
  case (OpCreate io key p)
  obtain r w1 where n: "newKeyLocked cr key ''main'' w = (r, w1)" by (rule prod.exhaust)
  have "\<exists>v. save se io v = (None, w') \<and> \<not> wa_locked v"
    using assms(1) OpCreate n by (cases r) (fastforce simp: create_def dest!: saved_True split: if_splits)+
  then show ?thesis using assms(2) OpCreate by auto
next
  case (OpAdd io key l)
  obtain r w1 where n: "newKeyLocked cr key l w = (r, w1)" by (rule prod.exhaust)
  have "\<exists>v. save se io v = (None, w') \<and> \<not> wa_locked v"
    using assms(1) OpAdd n newKey_unlocked [OF n] by (cases r) (fastforce simp: add_key_def dest!: saved_True split: if_splits)+
  then show ?thesis using assms(2) OpAdd by auto
next
  case (OpImport io h l)
  obtain raw ok where d: "hex_decode h = (raw, ok)" by (rule prod.exhaust)
  have "\<exists>v. save se io v = (None, w') \<and> \<not> wa_locked v"
    using assms(1) OpImport d by (fastforce simp: importKey_def Let_def dest!: saved_True split: if_splits)
  then show ?thesis using assms(2) OpImport by auto
next
  case (OpEncrypt io p)
  have "\<exists>v. save se io v = (None, w') \<and> \<not> wa_locked v"
    using assms(1) OpEncrypt by (fastforce simp: encrypt_def dest!: saved_True split: if_splits)
  then show ?thesis using assms(2) OpEncrypt by auto
next
  case (OpChange io p q)
  have "\<exists>v. save se io v = (None, w') \<and> \<not> wa_locked v"
    using assms(1) OpChange by (fastforce simp: changePassphrase_def dest!: saved_True split: if_splits)
  then show ?thesis using assms(2) OpChange by auto
qed (use assms(1) in auto)

text \<open>(C22)
  Saved keys are not lost. When an operation that creates, adds, imports, encrypts or changes the passphrase
  succeeds, the wallet locked and unlocked with the session's passphrase has the same keys, and so has the
  wallet loaded from the file by a new process, which starts locked and without keys when the wallet is
  encrypted; the file of an encrypted wallet names no key in the clear.
\<close>

theorem saved_wallet_reopens:
  assumes "sealing_ok se" and "op_ok op" and "wallet_do cr pub se op w = (True, w')"
  shows "if wa_encrypted w' then
       (let s = mustLoadStore (wa_file w') in
        wa_locked s \<and> wa_keys s = [] \<and> fst (unlock se (wa_passphrase w') s) = Inr True
        \<and> wa_keys (snd (unlock se (wa_passphrase w') s)) = wa_keys w')
       \<and> fst (unlock se (wa_passphrase w') (lock w')) = Inr True
       \<and> wa_keys (snd (unlock se (wa_passphrase w') (lock w'))) = wa_keys w'
       \<and> (\<exists>ff. wa_file w' = WalletFile ff \<and> ff_Keys ff = [])
     else wa_keys (mustLoadStore (wa_file w')) = wa_keys w'"
proof -
  obtain io v where v: "save se io v = (None, w')" "io_ok io" "\<not> wa_locked v" using wallet_do_saves [OF assms(3,2)] by blast
  show ?thesis using save_reopens [OF assms(1) v(2,1,3)] by (rule conjunct2 [THEN conjunct2 [THEN conjunct2]])
qed

section \<open>A concrete sealing\<close>

definition put_text :: "string \<Rightarrow> bytes" where
  "put_text s = concat (map (\<lambda>c. [1, of_char c]) s) @ [0]"

fun get_text :: "bytes \<Rightarrow> string \<times> bytes" where
  "get_text (f # c # r) = (if f = 1 then (case get_text r of (s, t) \<Rightarrow> (char_of (unat c) # s, t)) else ([], c # r))"
| "get_text _ = ([], [])"

lemma get_put_text: "get_text (put_text s @ r) = (s, r)"
proof (induction s)
  case Nil
  then show ?case by (cases r) (simp_all add: put_text_def)
next
  case (Cons c s)
  then show ?case by (simp add: put_text_def char_of_unat_of_char)
qed

definition put_entry :: "key_entry \<Rightarrow> bytes" where
  "put_entry e = put_text (ke_Label e) @ put_text (ke_Priv e) @ put_text (ke_Addr e)"

primrec get_entries :: "nat \<Rightarrow> bytes \<Rightarrow> key_entry list" where
  "get_entries 0 b = []"
| "get_entries (Suc n) b =
     (case get_text b of (l, b1) \<Rightarrow> case get_text b1 of (p, b2) \<Rightarrow> case get_text b2 of (a, b3) \<Rightarrow>
        \<lparr>ke_Label = l, ke_Priv = p, ke_Addr = a\<rparr> # get_entries n b3)"

lemma get_put_entries: "get_entries (length ks) (concat (map put_entry ks)) = ks"
proof -
  have "get_entries (length ks) (concat (map put_entry ks) @ r) = ks" for r
    by (induction ks) (simp_all add: put_entry_def get_put_text)
  from this [of "[]"] show ?thesis by simp
qed

definition demo_sealing :: sealing where
  "demo_sealing = \<lparr>se_hmac = (\<lambda>k m. replicate 32 0), se_seal = (\<lambda>k n p. 1 # p), se_open = (\<lambda>k n c. Some (tl c)),
     se_marshal = (\<lambda>ks. replicate (length ks) 1 @ 0 # concat (map put_entry ks)),
     se_unmarshal = (\<lambda>b. Some (get_entries (length (takeWhile (\<lambda>x. x = 1) b)) (tl (dropWhile (\<lambda>x. x = 1) b))))\<rparr>"

lemma demo_sealing_ok: "sealing_ok demo_sealing"
proof -
  have "takeWhile (\<lambda>x. x = 1) (replicate n 1 @ 0 # r) = replicate n (1 :: u8)" "dropWhile (\<lambda>x. x = 1) (replicate n 1 @ (0 :: u8) # r) = 0 # r" for n r
    by (induction n) simp_all
  then show ?thesis by (simp add: sealing_ok_def demo_sealing_def get_put_entries)
qed

definition good_io :: save_io where
  "good_io = \<lparr>io_mkdir = True, io_random = Some (replicate 16 0, replicate 12 0), io_write = True\<rparr>"

definition demo_create :: wallet_op where
  "demo_create = OpCreate good_io (Some (replicate 64 1)) (replicate 8 112)"

lemma demo_create_ok: "op_ok demo_create"
  by (simp add: demo_create_def io_ok_def good_io_def)

theorem wallet_stays_typed_witness:
  "wallet_typed demo_crypto demo_sealing
     (wallet_run demo_crypto (\<lambda>s. s) demo_sealing [demo_create, OpLock, OpUnlock (replicate 8 112), OpRestart] (mustLoadStore NoFile))"
  by (rule wallet_stays_typed [OF demo_sealing_ok]) (simp_all add: file_ok_def demo_create_ok)

lemma demo_created:
  "\<exists>w'. wallet_do demo_crypto pub demo_sealing demo_create (mustLoadStore NoFile) = (True, w') \<and> wa_encrypted w'
    \<and> wa_passphrase w' = replicate 8 112 \<and> length (wa_keys w') = 1"
  by (simp add: demo_create_def mustLoadStore_def loadStore_def empty_wallet_def create_def newKeyLocked_def findLocked_def save_def good_io_def
      ok_of_def saved_def Let_def)

theorem saved_wallet_reopens_witness:
  "\<exists>w'. wallet_do demo_crypto (\<lambda>s. s) demo_sealing demo_create (mustLoadStore NoFile) = (True, w')
    \<and> length (wa_keys w') = 1 \<and> wa_keys (snd (unlock demo_sealing (replicate 8 112) (lock w'))) = wa_keys w'"
proof -
  obtain w' where w: "wallet_do demo_crypto (\<lambda>s. s) demo_sealing demo_create (mustLoadStore NoFile) = (True, w')"
    "wa_encrypted w'" "wa_passphrase w' = replicate 8 112" "length (wa_keys w') = 1"
    using demo_created by blast
  show ?thesis using saved_wallet_reopens [OF demo_sealing_ok demo_create_ok w(1)] w by auto
qed

section \<open>After a failed save\<close>

text \<open>
  Operations change the wallet before they save it, and keep the change when the save fails: a failed change
  of the passphrase leaves the session, and its sealed blob, under the new one while the file keeps the old.
\<close>

lemma failed_change_takes_effect:
  assumes "wa_encrypted w" and "\<not> wa_locked w" and "length newp \<ge> minPassphrase" and "io_mkdir io" and "io_random io = Some (salt, nonce)"
    and "\<not> io_write io" and "sealing_ok se" and "length salt = 16" and "length nonce = 12"
  shows "\<exists>e w'. changePassphrase se io (wa_passphrase w) newp w = (Inl e, w') \<and> wa_passphrase w' = newp \<and> wa_file w' = wa_file w
    \<and> fst (unlock se newp (lock w')) = Inr True"
proof -
  have "newp \<noteq> []" using assms(3) by auto
  moreover have "decryptKeys se (sealed_file se newp salt nonce (wa_keys w)) newp = Some (wa_keys w)"
    by (rule decrypt_sealed(1) [OF assms(7-9)])
  ultimately show ?thesis
    using assms(1-6) by (simp add: changePassphrase_def save_def saved_def Let_def unlock_def lock_def)
qed

text \<open>A failed first save leaves a key behind, and creating the wallet again is refused.\<close>

lemma save_fails:
  assumes "\<not> io_write io \<or> \<not> io_mkdir io"
  shows "\<exists>e w'. save se io w = (Some e, w') \<and> wa_keys w' = wa_keys w \<and> wa_file w' = wa_file w"
  using assms by (cases "io_mkdir io"; cases "io_random io") (auto simp: save_def Let_def)

lemma failed_create_blocks_retry:
  assumes "\<not> wa_exists w" and "wa_keys w = []" and "length p \<ge> minPassphrase" and "\<not> io_write io \<or> \<not> io_mkdir io"
  shows "\<exists>e w'. create cr se io (Some priv) p w = (Inl e, w') \<and> wa_file w' = wa_file w
    \<and> create cr se io2 key2 q w' = (Inl ''a wallet already exists'', w')"
proof -
  let ?e = "\<lparr>ke_Label = ''main'', ke_Priv = hex_encode priv, ke_Addr = AddrFromPub cr (ed_public cr priv)\<rparr>"
  let ?w = "w\<lparr>wa_keys := [?e], wa_encrypted := True, wa_passphrase := p, wa_locked := False\<rparr>"
  obtain e w' where f: "save se io ?w = (Some e, w')" "wa_keys w' = [?e]" "wa_file w' = wa_file w"
    using save_fails [OF assms(4), of se ?w] by auto
  have "create cr se io (Some priv) p w = (Inl e, w')"
    using assms(1-3) f(1) by (simp add: create_def newKeyLocked_def findLocked_def saved_def Let_def)
  moreover have "create cr se io2 key2 q w' = (Inl ''a wallet already exists'', w')" using f(2) by (simp add: create_def)
  ultimately show ?thesis using f(3) by blast
qed

text \<open>An import whose label is taken makes up another, which may be taken too: labels are not unique.\<close>

lemma import_can_repeat_label:
  assumes "wa_keys w = [\<lparr>ke_Label = ''a'', ke_Priv = p1, ke_Addr = a1\<rparr>, \<lparr>ke_Label = ''a-3'', ke_Priv = p2, ke_Addr = a2\<rparr>]"
    and "importKey cr pub se io h ''a'' w = (Inr e, w')"
  shows "map ke_Label (wa_keys w') = [''a'', ''a-3'', ''a-3'']"
proof -
  have "show_nat (Suc (Suc (Suc 0))) = ''3''" by (subst show_nat.simps) (simp add: dec_digit_def)
  then show ?thesis using assms
    by (auto simp: importKey_def findLocked_def save_def saved_def Let_def split: if_splits prod.splits option.splits)
qed

end
