(* ===== verification/Wallet_App.thy ===== *)
theory Wallet_App
  imports Wallet_Keys Core_Mempool Core_Views Float64
begin

text \<open>
  The desktop wallet's payments, after \<^verbatim>\<open>src/desktop/app.go\<close>: amounts as text, the fee, choosing an address,
  signing, and replacing a pending payment from the wallet's own record of it. Answers of the node are
  arguments and may be anything.
\<close>

section \<open>Amounts\<close>

text \<open>
  \<^verbatim>\<open>fmt.Sprintf("%.8f", float64(v)/unit)\<close>: two binary64 operations, then the exact decimal value rounded to
  eight places.
\<close>

definition pad_digits :: "nat \<Rightarrow> nat \<Rightarrow> string" where
  "pad_digits k n = replicate (k - length (show_nat n)) (CHR ''0'') @ show_nat n"

definition formatCRB :: "u64 \<Rightarrow> string" where
  "formatCRB v =
     (let x = f64_round (f64_round (of_nat (unat v)) / 10 ^ 8); n = nat (rne (x * 10 ^ 8))
      in show_nat (n div 10 ^ 8) @ ''.'' @ pad_digits 8 (n mod 10 ^ 8))"

definition allDigits :: "string \<Rightarrow> bool" where
  "allDigits s = list_all (\<lambda>c. dec_val c \<noteq> None) s"

definition parseCRB :: "string \<Rightarrow> string + u64" where
  "parseCRB s0 =
     (let s = TrimSpace s0 in
      if s = [] then Inl ''empty amount''
      else if CHR ''+'' \<in> set s \<or> CHR ''-'' \<in> set s then Inl ''bad amount''
      else let parts = split_char (CHR ''.'') s in
      if length parts > 2 then Inl ''bad amount: more than one decimal point''
      else let intPart = parts ! 0; frac0 = (if length parts = 2 then parts ! 1 else []) in
      if intPart = [] \<and> frac0 = [] then Inl ''bad amount''
      else if \<not> allDigits intPart \<or> \<not> allDigits frac0 then Inl ''bad amount''
      else if length frac0 > 8 then Inl ''max 8 decimals''
      else let fracPart = frac0 @ replicate (8 - length frac0) (CHR ''0'') in
      case (if intPart = [] then Some 0 else parse_uint64 intPart) of
        None \<Rightarrow> Inl ''amount too large''
      | Some whole \<Rightarrow>
          (case (if fracPart = [] then Some 0 else parse_uint64 fracPart) of
             None \<Rightarrow> Inl ''bad amount''
           | Some fr \<Rightarrow>
               if whole > (- 1 - fr) div 100000000 then Inl ''amount too large''
               else Inr (whole * 100000000 + fr)))"

section \<open>The record of sent payments\<close>

record sent_record =
  sr_Txid :: string
  sr_From :: string
  sr_To :: string
  sr_Amount :: u64
  sr_Nonce :: u64
  sr_Fee :: u64

definition sent_add :: "sent_record \<Rightarrow> sent_record list \<Rightarrow> sent_record list" where
  "sent_add r recs =
     (if sr_Txid r = [] then recs
      else case List.find (\<lambda>i. sr_Txid (recs ! i) = sr_Txid r) [0..<length recs] of
        Some i \<Rightarrow> recs[i := r]
      | None \<Rightarrow> let l = recs @ [r] in if length l > 1000 then drop (length l - 1000) l else l)"

definition sent_find :: "string \<Rightarrow> sent_record list \<Rightarrow> sent_record option" where
  "sent_find txid recs = List.find (\<lambda>r. sr_Txid r = txid) recs"

section \<open>Payments\<close>

text \<open>What the node answers: to the two questions about its status, about addresses, about a transaction, and to a submission.\<close>

record node_answers =
  na_fee :: "u64 option"
  na_height :: "u64 option"
  na_balance :: "string \<Rightarrow> u64 option"
  na_nonce :: "string \<Rightarrow> u64 option"
  na_tx :: "string \<Rightarrow> string + tx_location"
  na_post :: "tx \<Rightarrow> string option"

record app =
  ap_store :: wallet
  ap_sent :: "sent_record list"
  ap_lastActivity :: int

record send_result =
  sd_Txid :: string
  sd_To :: string
  sd_Amount :: string

abbreviation (input) maxAutoFee :: u64 where "maxAutoFee \<equiv> 100000000"

definition suggestedFeeRaw :: "node_answers \<Rightarrow> u64" where
  "suggestedFeeRaw na =
     (case na_fee na of Some f \<Rightarrow> if f > 0 then if f > maxAutoFee then maxAutoFee else f else 1000 | None \<Rightarrow> 1000)"

definition resolveFee :: "node_answers \<Rightarrow> string \<Rightarrow> string + u64" where
  "resolveFee na feeCRB = (if TrimSpace feeCRB = [] then Inr (suggestedFeeRaw na) else parseCRB feeCRB)"

definition nextBlockHeight :: "node_answers \<Rightarrow> string + u64" where
  "nextBlockHeight na =
     (case na_height na of None \<Rightarrow> Inl ''cannot reach a node to read the current block height'' | Some h \<Rightarrow> Inr (h + 1))"

definition accountNonce :: "node_answers \<Rightarrow> string \<Rightarrow> string + u64" where
  "accountNonce na addr = (case na_nonce na addr of None \<Rightarrow> Inl ''node error'' | Some n \<Rightarrow> Inr n)"

definition pickFundedAddr :: "node_answers \<Rightarrow> u64 \<Rightarrow> wallet \<Rightarrow> string + key_entry" where
  "pickFundedAddr na need w =
     (case store_list w of
        Inl e \<Rightarrow> Inl e
      | Inr ks \<Rightarrow>
          (case find (\<lambda>k. case na_balance na (ke_Addr k) of None \<Rightarrow> False | Some b \<Rightarrow> b \<ge> need) ks of
             None \<Rightarrow> Inl ''no single address has enough balance (specify one or top up)''
           | Some k \<Rightarrow> store_find (ke_Addr k) w))"

definition buildSignedTx :: "crypto \<Rightarrow> node_answers \<Rightarrow> key_entry \<Rightarrow> string \<Rightarrow> u64 \<Rightarrow> u64 \<Rightarrow> u64 \<Rightarrow> string + tx" where
  "buildSignedTx cr na from to amount fee nonce =
     (let (priv, ok) = hex_decode (ke_Priv from) in
      if \<not> ok \<or> length priv \<noteq> 64 then Inl ''corrupt private key in wallet''
      else case nextBlockHeight na of
        Inl e \<Rightarrow> Inl e
      | Inr height \<Rightarrow>
          Inr (SignTxAt cr \<lparr>tx_FromPub = [], tx_To = to, tx_Amount = amount, tx_Fee = fee, tx_Nonce = nonce, tx_Sig = [],
                 tx_id = [], tx_fromAddr = []\<rparr> priv height))"

definition broadcast :: "crypto \<Rightarrow> node_answers \<Rightarrow> tx \<Rightarrow> app \<Rightarrow> (string + send_result) \<times> app" where
  "broadcast cr na t a =
     (case na_post na t of
        Some e \<Rightarrow> (Inl e, a)
      | None \<Rightarrow>
          let r = \<lparr>sr_Txid = ID cr t, sr_From = from_or_empty cr t, sr_To = tx_To t, sr_Amount = tx_Amount t, sr_Nonce = tx_Nonce t,
                   sr_Fee = tx_Fee t\<rparr>
          in (Inr \<lparr>sd_Txid = ID cr t, sd_To = tx_To t, sd_Amount = formatCRB (tx_Amount t)\<rparr>, a\<lparr>ap_sent := sent_add r (ap_sent a)\<rparr>))"

text \<open>The transaction that \<open>Send\<close> builds, and the whole of it.\<close>

definition Send_tx :: "crypto \<Rightarrow> node_answers \<Rightarrow> string \<Rightarrow> string \<Rightarrow> string \<Rightarrow> string \<Rightarrow> app \<Rightarrow> string + tx" where
  "Send_tx cr na fromAddrOrLabel to0 amountCRB feeCRB a =
     (let to = TrimSpace to0 in
      if \<not> ValidAddr to then Inl ''invalid destination address''
      else case parseCRB amountCRB of
        Inl e \<Rightarrow> Inl e
      | Inr amount \<Rightarrow>
          if amount = 0 then Inl ''amount must be greater than zero''
          else case resolveFee na feeCRB of
            Inl e \<Rightarrow> Inl e
          | Inr fee \<Rightarrow>
              (case (if TrimSpace fromAddrOrLabel = [] then pickFundedAddr na (amount + fee) (ap_store a)
                     else store_find fromAddrOrLabel (ap_store a)) of
                 Inl e \<Rightarrow> Inl e
               | Inr from \<Rightarrow>
                   (case accountNonce na (ke_Addr from) of
                      Inl e \<Rightarrow> Inl e
                    | Inr nonce \<Rightarrow> buildSignedTx cr na from to amount fee nonce)))"

definition Send :: "crypto \<Rightarrow> node_answers \<Rightarrow> int \<Rightarrow> string \<Rightarrow> string \<Rightarrow> string \<Rightarrow> string \<Rightarrow> app \<Rightarrow> (string + send_result) \<times> app" where
  "Send cr na now fromAddrOrLabel to amountCRB feeCRB a0 =
     (let a = a0\<lparr>ap_lastActivity := now\<rparr> in
      case Send_tx cr na fromAddrOrLabel to amountCRB feeCRB a of Inl e \<Rightarrow> (Inl e, a) | Inr t \<Rightarrow> broadcast cr na t a)"

section \<open>Replacing a payment\<close>

text \<open>The sender, destination, amount, nonce and old fee of the replacement.\<close>

definition rbf_terms :: "bool \<Rightarrow> sent_record option \<Rightarrow> tx_location \<Rightarrow> wallet \<Rightarrow> string + key_entry \<times> string \<times> u64 \<times> u64 \<times> u64" where
  "rbf_terms cancel rc loc w =
     (if cancel then
        (case store_find (tl_From loc) w of
           Inl e \<Rightarrow> Inl ''sender is not in this wallet - only its owner can replace it''
         | Inr f \<Rightarrow>
             (case rc of None \<Rightarrow> Inr (f, ke_Addr f, 1, tl_Nonce loc, tl_Fee loc)
              | Some r \<Rightarrow> Inr (f, ke_Addr f, 1, sr_Nonce r, sr_Fee r)))
      else case rc of
        None \<Rightarrow> Inl ''can only speed up transactions sent from this wallet''
      | Some r \<Rightarrow>
          (case store_find (sr_From r) w of
             Inl e \<Rightarrow> Inl ''sender is not in this wallet - only its owner can replace it''
           | Inr f \<Rightarrow> Inr (f, sr_To r, sr_Amount r, sr_Nonce r, sr_Fee r)))"

definition rbf_fee :: "node_answers \<Rightarrow> string \<Rightarrow> u64 \<Rightarrow> string + u64" where
  "rbf_fee na feeCRB oldFee =
     (let m0 = oldFee + oldFee div 10; minFee = (if m0 \<le> oldFee then oldFee + 1 else m0);
          s = suggestedFeeRaw na; fee = (if s > minFee then s else minFee)
      in if TrimSpace feeCRB = [] then Inr fee
         else case parseCRB feeCRB of
           Inl e \<Rightarrow> Inl e
         | Inr f \<Rightarrow> if f < minFee then Inl ''fee too low to replace (old fee + 10%)'' else Inr f)"

definition rbf_tx :: "crypto \<Rightarrow> node_answers \<Rightarrow> string \<Rightarrow> string \<Rightarrow> bool \<Rightarrow> app \<Rightarrow> string + tx" where
  "rbf_tx cr na txid0 feeCRB cancel a =
     (let txid = TrimSpace txid0 in
      case na_tx na txid of
        Inl e \<Rightarrow> Inl e
      | Inr loc \<Rightarrow>
          if tl_Coinbase loc then Inl ''cannot replace a coinbase transaction''
          else if \<not> tl_Pending loc then Inl ''transaction is already confirmed - it can no longer be replaced''
          else case rbf_terms cancel (sent_find txid (ap_sent a)) loc (ap_store a) of
            Inl e \<Rightarrow> Inl e
          | Inr (from, to, amount, nonce, oldFee) \<Rightarrow>
              (case rbf_fee na feeCRB oldFee of Inl e \<Rightarrow> Inl e | Inr fee \<Rightarrow> buildSignedTx cr na from to amount fee nonce))"

definition rbfReplace :: "crypto \<Rightarrow> node_answers \<Rightarrow> string \<Rightarrow> string \<Rightarrow> bool \<Rightarrow> app \<Rightarrow> (string + send_result) \<times> app" where
  "rbfReplace cr na txid feeCRB cancel a =
     (case rbf_tx cr na txid feeCRB cancel a of Inl e \<Rightarrow> (Inl e, a) | Inr t \<Rightarrow> broadcast cr na t a)"

definition SpeedUp :: "crypto \<Rightarrow> node_answers \<Rightarrow> int \<Rightarrow> string \<Rightarrow> string \<Rightarrow> app \<Rightarrow> (string + send_result) \<times> app" where
  "SpeedUp cr na now txid feeCRB a = rbfReplace cr na txid feeCRB False (a\<lparr>ap_lastActivity := now\<rparr>)"

definition Cancel :: "crypto \<Rightarrow> node_answers \<Rightarrow> int \<Rightarrow> string \<Rightarrow> string \<Rightarrow> app \<Rightarrow> (string + send_result) \<times> app" where
  "Cancel cr na now txid feeCRB a = rbfReplace cr na txid feeCRB True (a\<lparr>ap_lastActivity := now\<rparr>)"

text \<open>One turn of the idle lock; times in seconds.\<close>

definition autolock_tick :: "int \<Rightarrow> int \<Rightarrow> app \<Rightarrow> app" where
  "autolock_tick timeoutMin now a =
     (if timeoutMin \<le> 0 then a
      else if \<not> wa_encrypted (ap_store a) \<or> wa_locked (ap_store a) then a
      else if now - ap_lastActivity a \<ge> timeoutMin * 60 then a\<lparr>ap_store := lock (ap_store a)\<rparr> else a)"

text \<open>\<open>TotalBalance\<close>: the balances of all addresses, a failed query counting as none.\<close>

definition TotalBalance :: "node_answers \<Rightarrow> app \<Rightarrow> string + string" where
  "TotalBalance na a =
     (case store_list (ap_store a) of
        Inl e \<Rightarrow> Inl e
      | Inr ks \<Rightarrow> Inr (formatCRB (foldl (\<lambda>t k. t + (case na_balance na (ke_Addr k) of None \<Rightarrow> 0 | Some b \<Rightarrow> b)) 0 ks)))"

definition resolveAddr :: "string \<Rightarrow> app \<Rightarrow> string" where
  "resolveAddr s a = (case store_find s (ap_store a) of Inr e \<Rightarrow> ke_Addr e | Inl _ \<Rightarrow> TrimSpace s)"

text \<open>\<open>History\<close>: the histories of the addresses, each transaction once, newest first.\<close>

fun merge_new :: "string list \<Rightarrow> history_item list \<Rightarrow> history_item list" where
  "merge_new seen [] = []"
| "merge_new seen (h # hs) = (if hi_TxID h \<in> set seen then merge_new seen hs else h # merge_new (hi_TxID h # seen) hs)"

definition app_History :: "(string \<Rightarrow> string + history_item list) \<Rightarrow> string \<Rightarrow> app \<Rightarrow> string + history_item list" where
  "app_History hist addrOrLabel a =
     (case (if TrimSpace addrOrLabel = [] then map_sum id (map ke_Addr) (store_list (ap_store a)) else Inr [resolveAddr addrOrLabel a]) of
        Inl e \<Rightarrow> Inl e
      | Inr addrs \<Rightarrow>
          (case List.find (\<lambda>x. case hist x of Inl _ \<Rightarrow> True | Inr _ \<Rightarrow> False) addrs of
             Some x \<Rightarrow> (case hist x of Inl e \<Rightarrow> Inl e | Inr _ \<Rightarrow> Inl [])
           | None \<Rightarrow>
               Inr (sort_key (\<lambda>h. - uint (hi_Height h))
                 (merge_new [] (concat (map (\<lambda>x. case hist x of Inl _ \<Rightarrow> [] | Inr hs \<Rightarrow> hs) addrs))))))"

end
