(* ===== verification/Wallet_Amounts.thy ===== *)
theory Wallet_Amounts
  imports Wallet_App
begin

text \<open>
  Amounts in the desktop wallet: they are read exactly, and shown as they are read up to the precision of
  binary64.
\<close>

section \<open>Digits\<close>

lemma length_show_nat: "n < 10 ^ Suc k \<Longrightarrow> length (show_nat n) \<le> Suc k"
proof (induction k arbitrary: n)
  case 0
  then show ?case by (subst show_nat.simps) simp
next
  case (Suc k)
  show ?case
  proof (cases "n < 10")
    case False
    have "n div 10 < 10 ^ Suc k" using Suc.prems by (simp add: less_mult_imp_div_less)
    from Suc.IH [OF this] False show ?thesis by (subst show_nat.simps) simp
  qed (subst show_nat.simps, simp)
qed

lemma show_nat_steps:
  "n < 10 \<Longrightarrow> show_nat n = [dec_digit n]"
  "10 \<le> n \<Longrightarrow> show_nat n = show_nat (n div 10) @ [dec_digit (n mod 10)]"
  by (subst show_nat.simps, simp)+

lemma zero_digit: "dec_val (CHR ''0'') = Some 0"
  by (simp add: dec_val_def)

lemma read_zeros: "read_digits a (replicate k (CHR ''0'')) = Some (a * 10 ^ k)"
  by (induction k arbitrary: a) (simp_all add: zero_digit algebra_simps)

lemma read_zeros_front: "read_digits 0 (replicate k (CHR ''0'') @ s) = read_digits 0 s"
  by (simp add: read_digits_append read_zeros)

lemma read_all_digits: "\<forall>c \<in> set s. dec_val c \<noteq> None \<Longrightarrow> \<exists>v. read_digits a s = Some v"
  by (induction s arbitrary: a) (auto split: option.split)

lemma read_digits_less: "read_digits a s = Some v \<Longrightarrow> v < (a + 1) * 10 ^ length s"
proof (induction s arbitrary: a)
  case (Cons c s)
  obtain d where d: "dec_val c = Some d" "read_digits (10 * a + d) s = Some v" using Cons.prems by (auto split: option.splits)
  have "d < 10" using d(1) by (auto simp: dec_val_def Let_def split: if_splits)
  then have "10 * a + d + 1 \<le> 10 * (a + 1)" by simp
  then have "(10 * a + d + 1) * 10 ^ length s \<le> 10 * (a + 1) * 10 ^ length s" by (rule mult_right_mono) simp
  with Cons.IH [OF d(2)] have "v < 10 * (a + 1) * 10 ^ length s" by (rule order_less_le_trans)
  then show ?case by (simp add: algebra_simps)
qed simp

section \<open>Reading amounts\<close>

text \<open>The number that digits denote.\<close>

definition decimal :: "string \<Rightarrow> nat" where
  "decimal s = (case read_digits 0 s of None \<Rightarrow> 0 | Some v \<Rightarrow> v)"

lemma split_char_free: "c \<notin> set s \<Longrightarrow> split_char c s = [s]"
  by (induction s) auto

lemma split_char_once: "c \<notin> set s \<Longrightarrow> c \<notin> set t \<Longrightarrow> split_char c (s @ c # t) = [s, t]"
  by (induction s) (auto simp: split_char_free)

lemma amount_word:
  assumes "f < 10 ^ 8" and "w < 2 ^ 64"
  shows "(word_of_nat w > (- 1 - (word_of_nat f :: u64)) div 100000000) = (\<not> w * 10 ^ 8 + f < 2 ^ 64)"
    and "w * 10 ^ 8 + f < 2 ^ 64 \<Longrightarrow> word_of_nat w * 100000000 + word_of_nat f = (word_of_nat (w * 10 ^ 8 + f) :: u64)"
proof -
  have uf: "unat (word_of_nat f :: u64) = f" "unat (word_of_nat w :: u64) = w"
    using assms by (simp_all add: unsigned_of_nat take_bit_nat_eq_self)
  have "unat (- 1 :: u64) = 2 ^ 64 - 1" by (simp add: unsigned_minus_1_eq_mask mask_eq_exp_minus_1)
  moreover have "(word_of_nat f :: u64) \<le> - 1" by simp
  ultimately have "unat (- 1 - (word_of_nat f :: u64)) = 2 ^ 64 - 1 - f"
    using uf by (simp add: unat_sub)
  then have "unat ((- 1 - (word_of_nat f :: u64)) div 100000000) = (2 ^ 64 - 1 - f) div 10 ^ 8"
    by (simp add: unat_div_distrib)
  then have "(word_of_nat w > (- 1 - (word_of_nat f :: u64)) div 100000000) = ((2 ^ 64 - 1 - f) div 10 ^ 8 < w)"
    by (simp add: word_less_nat_alt uf)
  also have "\<dots> = (2 ^ 64 - 1 - f < w * 10 ^ 8)" by (simp add: div_less_iff_less_mult)
  also have "\<dots> = (\<not> w * 10 ^ 8 + f < 2 ^ 64)" using assms(1) by auto
  finally show "(word_of_nat w > (- 1 - (word_of_nat f :: u64)) div 100000000) = (\<not> w * 10 ^ 8 + f < 2 ^ 64)" .
  show "word_of_nat w * 100000000 + word_of_nat f = (word_of_nat (w * 10 ^ 8 + f) :: u64)" by simp
qed

lemma parseCRB_reads:
  assumes "\<forall>c \<in> set i \<union> set f. dec_val c \<noteq> None" and "i \<noteq> [] \<or> f \<noteq> []" and "length f \<le> 8"
  shows "parseCRB (i @ ''.'' @ f) =
    (let n = decimal i * 10 ^ 8 + decimal f * 10 ^ (8 - length f)
     in if n < 2 ^ 64 then Inr (word_of_nat n) else Inl ''amount too large'')"
proof -
  define w where "w = decimal i"
  define p where "p = f @ replicate (8 - length f) (CHR ''0'')"
  define m where "m = decimal f * 10 ^ (8 - length f)"
  have ri: "read_digits 0 i = Some w" and rf: "read_digits 0 f = Some (decimal f)"
    using assms(1) read_all_digits [of i 0] read_all_digits [of f 0] by (auto simp: w_def decimal_def)
  have rp: "read_digits 0 p = Some m" by (simp add: p_def read_digits_append rf read_zeros m_def)
  have lp: "length p = 8" using assms(3) by (simp add: p_def)
  have m: "m < 10 ^ 8" using read_digits_less [OF rp] lp by simp
  have pl: "c \<in> set (i @ ''.'' @ f) \<Longrightarrow> plain_char c \<and> c \<noteq> CHR ''+'' \<and> c \<noteq> CHR ''-''" for c
  proof -
    assume "c \<in> set (i @ ''.'' @ f)"
    then consider "dec_val c \<noteq> None" | "c = CHR ''.''" using assms(1) by auto
    then show ?thesis
    proof cases
      case 1
      then show ?thesis using plain_digit [of c] by (auto simp: dec_val_def)
    qed (simp add: plain_char_def)
  qed
  have "dec_val (CHR ''.'') = None" by (simp add: dec_val_def)
  then have dot: "CHR ''.'' \<notin> set i" "CHR ''.'' \<notin> set f" using bspec [OF assms(1), of "CHR ''.''"] by auto
  have t: "TrimSpace (i @ ''.'' @ f) = i @ ''.'' @ f" by (rule TrimSpace_plain) (use pl in blast)
  have sg: "CHR ''+'' \<notin> set (i @ ''.'' @ f)" "CHR ''-'' \<notin> set (i @ ''.'' @ f)" using pl by blast+
  have sp: "split_char (CHR ''.'') (i @ ''.'' @ f) = [i, f]" using split_char_once [OF dot] by simp
  have ad: "allDigits i" "allDigits f" using assms(1) by (auto simp: allDigits_def list_all_iff)
  have pp: "parse_uint64 p = Some (word_of_nat m)" "p \<noteq> []" using rp lp m by (auto simp: parse_uint64_def)
  have pi: "(if i = [] then Some 0 else parse_uint64 i) = (if w < 2 ^ 64 then Some (word_of_nat w) else None)"
    using ri by (auto simp: parse_uint64_def)
  have "parseCRB (i @ ''.'' @ f) = (if w < 2 ^ 64 then (if (word_of_nat w :: u64) > (- 1 - word_of_nat m) div 100000000 then Inl ''amount too large''
      else Inr (word_of_nat w * 100000000 + word_of_nat m)) else Inl ''amount too large'')"
    using assms(2,3) t sg sp ad pp pi lp
    by (simp add: parseCRB_def Let_def flip: p_def del: of_nat_add of_nat_mult)
  also have "\<dots> = (if w * 10 ^ 8 + m < 2 ^ 64 then Inr (word_of_nat (w * 10 ^ 8 + m)) else Inl ''amount too large'')"
  proof (cases "w < 2 ^ 64")
    case True
    then show ?thesis using amount_word [OF m True] by (simp del: of_nat_add of_nat_mult)
  next
    case False
    then have "\<not> w * 10 ^ 8 + m < 2 ^ 64" by simp
    then show ?thesis using False by simp
  qed
  finally show ?thesis by (simp add: w_def m_def Let_def)
qed

text \<open>Amounts are read exactly. A decimal text with at most eight places is read as its value in the smallest
  unit, with no rounding, and is refused exactly when that value does not fit in 64 bits.
\<close>

theorem parseCRB_exact:
  assumes "\<forall>c \<in> set i \<union> set f. dec_val c \<noteq> None" and "i \<noteq> [] \<or> f \<noteq> []" and "length f \<le> 8"
  shows "parseCRB (i @ ''.'' @ f) =
    (let n = decimal i * 10 ^ 8 + decimal f * 10 ^ (8 - length f)
     in if n < 2 ^ 64 then Inr (word_of_nat n) else Inl ''amount too large'')"
  using assms by (rule parseCRB_reads)

theorem parseCRB_exact_witness: "parseCRB ''0.05'' = Inr 5000000"
  using parseCRB_exact [of "''0''" "''05''"] by (simp add: dec_val_def decimal_def)

section \<open>Showing amounts\<close>

lemma rne_close: "\<bar>of_int (rne x) - x\<bar> \<le> 1 / 2"
  using floor_correct [of x] unfolding rne_def Let_def abs_if by (simp split: if_splits; linarith)

lemma f64_round_close:
  assumes "0 < x"
  shows "\<bar>f64_round x - x\<bar> \<le> x / 2 ^ 53"
proof -
  define u :: rat where "u = 2 powi (f64_exp x - 52)"
  have u: "0 < u" by (simp add: u_def)
  have "2 powi f64_exp x \<le> x" using f64_exp_bounds [OF assms] by simp
  moreover have "u = 2 powi f64_exp x / 2 ^ 52" by (simp add: u_def power_int_diff)
  ultimately have ux: "u \<le> x / 2 ^ 52" by (simp add: divide_right_mono)
  have "f64_round x - x = (of_int (rne (x / u)) - x / u) * u"
    using assms u by (simp add: f64_round_def Let_def left_diff_distrib flip: u_def)
  then have "\<bar>f64_round x - x\<bar> = \<bar>of_int (rne (x / u)) - x / u\<bar> * u" using u by (simp add: abs_mult)
  also have "\<dots> \<le> 1 / 2 * u" using rne_close [of "x / u"] u by (intro mult_right_mono) simp_all
  finally show ?thesis using ux by simp
qed

lemma rne_near:
  assumes "\<bar>x - of_int n\<bar> < 1 / 2"
  shows "rne x = n"
proof -
  have "\<bar>of_int (rne x) - (of_int n :: rat)\<bar> < 1" using rne_close [of x] assms by linarith
  then have "\<bar>of_int (rne x - n) :: rat\<bar> < of_int 1" by simp
  then have "\<bar>rne x - n\<bar> < 1" by (simp only: of_int_abs [symmetric] of_int_less_iff)
  then show ?thesis by simp
qed

lemma f64_exp_eq:
  assumes "2 powi k \<le> x" and "x < 2 powi (k + 1)"
  shows "f64_exp x = k"
proof -
  have "0 < (2 :: rat) powi k" by simp
  then have x: "0 < x" using assms(1) by (rule less_le_trans)
  have "(2 :: rat) powi k < 2 powi (f64_exp x + 1)" "(2 :: rat) powi f64_exp x < 2 powi (k + 1)"
    using f64_exp_bounds [OF x] assms by auto
  then have "\<not> f64_exp x + 1 \<le> k" "\<not> k + 1 \<le> f64_exp x"
    using power_int_increasing [of "f64_exp x + 1" k "2 :: rat"] power_int_increasing [of "k + 1" "f64_exp x" "2 :: rat"] by auto
  then show ?thesis by simp
qed

lemma shown_exactly:
  assumes "n < 2 ^ 52"
  shows "rne (f64_round (f64_round (of_nat n) / 10 ^ 8) * 10 ^ 8) = int n"
proof (cases "n = 0")
  case True
  then show ?thesis by (simp add: f64_round_def rne_def)
next
  case False
  define y :: rat where "y = of_nat n / 10 ^ 8"
  have "0 < y" using False by (simp add: y_def)
  then have "\<bar>f64_round y - y\<bar> * 10 ^ 8 \<le> y / 2 ^ 53 * 10 ^ 8" using f64_round_close [of y] by (intro mult_right_mono) simp_all
  also have "\<dots> = of_nat n / 2 ^ 53" by (simp add: y_def)
  also have "\<dots> < 1 / 2"
  proof -
    have "(of_nat n :: rat) < of_nat (2 ^ 52)" using assms by (simp only: of_nat_less_iff)
    then show ?thesis by simp
  qed
  finally have "\<bar>f64_round y - y\<bar> * 10 ^ 8 < 1 / 2" .
  moreover have "f64_round y * 10 ^ 8 - of_int (int n) = (f64_round y - y) * 10 ^ 8" by (simp add: y_def left_diff_distrib)
  moreover have "\<bar>(f64_round y - y) * 10 ^ 8\<bar> = \<bar>f64_round y - y\<bar> * 10 ^ 8" unfolding abs_mult by simp
  ultimately have "\<bar>f64_round y * 10 ^ 8 - of_int (int n)\<bar> < 1 / 2" by (simp only:)
  moreover have "f64_round (of_nat n) = (of_nat n :: rat)" using assms by (intro f64_round_of_nat) simp
  ultimately show ?thesis by (simp only: y_def rne_near)
qed

lemma pad_digits_reads:
  assumes "n < 10 ^ 8"
  shows "length (pad_digits 8 n) = 8" and "read_digits 0 (pad_digits 8 n) = Some n" and "\<forall>c \<in> set (pad_digits 8 n). dec_val c \<noteq> None"
proof -
  have "length (show_nat n) \<le> 8" using length_show_nat [of n 7] assms by simp
  then show "length (pad_digits 8 n) = 8" by (simp add: pad_digits_def)
  show "read_digits 0 (pad_digits 8 n) = Some n" by (simp add: pad_digits_def read_zeros_front)
  show "\<forall>c \<in> set (pad_digits 8 n). dec_val c \<noteq> None"
    using show_nat_digits [of _ n] zero_digit by (auto simp: pad_digits_def simp del: not_None_eq)
qed

lemma shown_amount:
  "formatCRB v = (let n = nat (rne (f64_round (f64_round (of_nat (unat v)) / 10 ^ 8) * 10 ^ 8)) in show_nat (n div 10 ^ 8) @ ''.'' @ pad_digits 8 (n mod 10 ^ 8))"
  by (simp add: formatCRB_def Let_def)

text \<open>(C40)
  What the wallet shows is what it reads. An amount below \<open>2^52\<close> of the smallest unit (45 million coins) that
  is shown and entered again is the same amount: the two binary64 roundings never reach the eighth place.
\<close>

theorem format_then_parse:
  assumes "unat v < 2 ^ 52"
  shows "parseCRB (formatCRB v) = Inr v"
proof -
  let ?n = "unat v"
  let ?i = "show_nat (?n div 10 ^ 8)" and ?f = "pad_digits 8 (?n mod 10 ^ 8)"
  have f: "length ?f = 8" "read_digits 0 ?f = Some (?n mod 10 ^ 8)" "\<forall>c \<in> set ?f. dec_val c \<noteq> None"
    by (rule pad_digits_reads; simp)+
  have "\<forall>c \<in> set ?i \<union> set ?f. dec_val c \<noteq> None" using f(3) show_nat_digits [of _ "?n div 10 ^ 8"] by blast
  moreover have "decimal ?i * 10 ^ 8 + decimal ?f * 10 ^ (8 - length ?f) = ?n"
    by (simp only: decimal_def f option.case read_show_nat diff_self_eq_0 power_0 mult_1_right div_mult_mod_eq)
  moreover have "?n < 2 ^ 64" using unsigned_less [of v] by simp
  moreover have "formatCRB v = ?i @ ''.'' @ ?f" by (simp only: shown_amount shown_exactly [OF assms] nat_int Let_def)
  ultimately show ?thesis using parseCRB_reads [of ?i ?f] f(1) by (simp only: Let_def) simp
qed

theorem format_then_parse_witness: "formatCRB 5000000 = ''0.05000000'' \<and> parseCRB (formatCRB 5000000) = Inr 5000000"
proof
  show "parseCRB (formatCRB 5000000) = Inr 5000000" by (rule format_then_parse) simp
  show "formatCRB 5000000 = ''0.05000000''"
    using shown_exactly [of 5000000]
    by (simp add: shown_amount pad_digits_def show_nat_steps dec_digit_def)
qed

text \<open>Above that bound the rounding shows: the last place is off by one.\<close>

lemma large_amount_shown_wrong: "formatCRB 7236811204063838 = ''72368112.04063839''"
proof -
  have "f64_exp (72368112.04063838 :: rat) = 26"
    by (rule f64_exp_eq) (simp_all add: power_int_def)
  moreover have "\<lfloor>1897086636278110748672 / 390625 :: rat\<rfloor> = 4856541788871963" by (simp add: floor_eq_iff)
  ultimately have r: "f64_round (3618405602031919 / 50000000 :: rat) = 1214135447217991 / 16777216"
    using power_int_minus [of "2 :: rat" 26] by (simp add: f64_round_def rne_def Let_def)
  have e: "f64_round (7236811204063838 :: rat) = 7236811204063838"
    using f64_round_of_nat [of 7236811204063838] by simp
  have n: "rne (474271659069527734375 / 65536 :: rat) = 7236811204063839"
  proof -
    have "\<lfloor>474271659069527734375 / 65536 :: rat\<rfloor> = 7236811204063838" by (simp add: floor_eq_iff)
    then show ?thesis by (simp add: rne_def Let_def)
  qed
  have "nat (rne (f64_round (f64_round (of_nat (unat (7236811204063838 :: u64))) / 10 ^ 8) * 10 ^ 8)) = 7236811204063839"
    by (simp add: r e n)
  then have "formatCRB 7236811204063838 = show_nat (7236811204063839 div 10 ^ 8) @ ''.'' @ pad_digits 8 (7236811204063839 mod 10 ^ 8)"
    by (simp only: shown_amount Let_def)
  then show ?thesis by (simp add: pad_digits_def show_nat_steps dec_digit_def)
qed

end
