(* ===== verification/Wallet_Cli.thy ===== *)
theory Wallet_Cli
  imports Wallet_Amounts
begin

text \<open>
  The command-line wallet, after \<^verbatim>\<open>src/cmd/cereblix-wallet/main.go\<close>: its key store, amounts through binary64,
  and its payments. The desktop wallet reads the same file. A result of \<open>None\<close> is a run-time panic.
\<close>

section \<open>The key store\<close>

record cli_store =
  cs_keys :: "key_entry list"
  cs_encrypted :: bool
  cs_passphrase :: bytes
  cs_file :: wallet_file

text \<open>How a save goes: the directory, the random salt and nonce, and the write with its rename.\<close>

record cli_io =
  ci_mkdir :: bool
  ci_salt :: bytes
  ci_nonce :: bytes
  ci_write :: bool

abbreviation (input) cliKdfIters :: nat where "cliKdfIters \<equiv> 200000"

text \<open>Errors of the hexadecimal fields are dropped; AES-GCM panics on a nonce that is not 12 bytes long.\<close>

definition cli_decryptKeys :: "sealing \<Rightarrow> file_format \<Rightarrow> bytes \<Rightarrow> (string + key_entry list) option" where
  "cli_decryptKeys se ff pass =
     (let salt = fst (hex_decode (ff_Salt ff)); nonce = fst (hex_decode (ff_Nonce ff)); ct = fst (hex_decode (ff_Cipher ff));
          iter = (if ff_Iter ff = 0 then int cliKdfIters else ff_Iter ff)
      in if length nonce \<noteq> 12 then None
         else case se_open se (pbkdf2 (se_hmac se) pass salt (nat iter) 32) nonce ct of
           None \<Rightarrow> Some (Inl ''wrong passphrase or corrupt wallet'')
         | Some plain \<Rightarrow> (case se_unmarshal se plain of None \<Rightarrow> Some (Inl ''json error'') | Some ks \<Rightarrow> Some (Inr ks)))"

text \<open>\<open>pass\<close> is what the user enters at the prompt.\<close>

definition cli_loadStore :: "sealing \<Rightarrow> bytes \<Rightarrow> wallet_file \<Rightarrow> (string + cli_store) option" where
  "cli_loadStore se pass f =
     (let s = \<lparr>cs_keys = [], cs_encrypted = False, cs_passphrase = [], cs_file = f\<rparr> in
      case f of
        NoFile \<Rightarrow> Some (Inr s)
      | UnreadableFile \<Rightarrow> Some (Inl ''read error'')
      | CorruptFile \<Rightarrow> Some (Inl ''corrupt wallet file'')
      | WalletFile ff \<Rightarrow>
          let s1 = s\<lparr>cs_encrypted := ff_Encrypted ff\<rparr> in
          if \<not> ff_Encrypted ff then Some (Inr (s1\<lparr>cs_keys := ff_Keys ff\<rparr>))
          else case cli_decryptKeys se ff pass of
            None \<Rightarrow> None
          | Some (Inl e) \<Rightarrow> Some (Inl e)
          | Some (Inr ks) \<Rightarrow> Some (Inr (s1\<lparr>cs_keys := ks, cs_passphrase := pass\<rparr>)))"

definition cli_sealed_file :: "sealing \<Rightarrow> bytes \<Rightarrow> bytes \<Rightarrow> bytes \<Rightarrow> key_entry list \<Rightarrow> file_format" where
  "cli_sealed_file se passphrase salt nonce ks =
     \<lparr>ff_Version = 1, ff_Encrypted = True, ff_KDF = ''pbkdf2-sha256'', ff_Iter = int cliKdfIters, ff_Salt = hex_encode salt,
      ff_Nonce = hex_encode nonce,
      ff_Cipher = hex_encode (se_seal se (pbkdf2 (se_hmac se) passphrase salt cliKdfIters 32) nonce (se_marshal se ks)), ff_Keys = []\<rparr>"

definition cli_save :: "sealing \<Rightarrow> cli_io \<Rightarrow> cli_store \<Rightarrow> string option \<times> cli_store" where
  "cli_save se io s =
     (if \<not> ci_mkdir io then (Some ''mkdir error'', s)
      else let ff = (if cs_encrypted s then cli_sealed_file se (cs_passphrase s) (ci_salt io) (ci_nonce io) (cs_keys s) else open_file (cs_keys s))
           in if ci_write io then (None, s\<lparr>cs_file := WalletFile ff\<rparr>) else (Some ''write error'', s))"

definition cli_find :: "string \<Rightarrow> cli_store \<Rightarrow> key_entry option" where
  "cli_find x s = find (\<lambda>e. ke_Addr e = x \<or> ke_Label e = x) (cs_keys s)"

text \<open>\<open>priv\<close> is the generated key. The entry comes back even when the save failed, and stays in memory.\<close>

definition cli_add :: "crypto \<Rightarrow> sealing \<Rightarrow> cli_io \<Rightarrow> bytes \<Rightarrow> string \<Rightarrow> cli_store \<Rightarrow> key_entry option \<times> string option \<times> cli_store" where
  "cli_add cr se io priv label0 s =
     (let label = (if label0 = [] then ''addr-'' @ show_nat (length (cs_keys s) + 1) else label0) in
      if cli_find label s \<noteq> None then (None, Some ''label already exists'', s)
      else let e = \<lparr>ke_Label = label, ke_Priv = hex_encode priv, ke_Addr = AddrFromPub cr (ed_public cr priv)\<rparr>
           in (Some e, cli_save se io (s\<lparr>cs_keys := cs_keys s @ [e]\<rparr>)))"

definition cmdImport :: "crypto \<Rightarrow> sealing \<Rightarrow> cli_io \<Rightarrow> string list \<Rightarrow> cli_store \<Rightarrow> string option \<times> cli_store" where
  "cmdImport cr se io rest s =
     (case rest of
        [] \<Rightarrow> (Some ''usage: import <128-hex-privkey> [label]'', s)
      | privHex # rest1 \<Rightarrow>
          (let (raw, ok) = hex_decode privHex in
           if \<not> ok \<or> length raw \<noteq> 64 then (Some ''private key must be 128 hex characters'', s)
           else let label1 = (case rest1 of [] \<Rightarrow> ''imported'' | l # _ \<Rightarrow> l);
                    label = (if cli_find label1 s \<noteq> None then label1 @ ''-'' @ show_nat (length (cs_keys s) + 1) else label1);
                    addr = AddrFromPub cr (ed_public cr raw) in
           if cli_find addr s \<noteq> None then (Some ''address already in wallet'', s)
           else cli_save se io (s\<lparr>cs_keys := cs_keys s @ [\<lparr>ke_Label = label, ke_Priv = privHex, ke_Addr = addr\<rparr>]\<rparr>)))"

definition cmdEncrypt :: "sealing \<Rightarrow> cli_io \<Rightarrow> bytes \<Rightarrow> bytes \<Rightarrow> cli_store \<Rightarrow> string option \<times> cli_store" where
  "cmdEncrypt se io p1 p2 s =
     (if cs_encrypted s then (Some ''wallet is already encrypted'', s)
      else if cs_keys s = [] then (Some ''nothing to encrypt - create an address first'', s)
      else if p1 \<noteq> p2 then (Some ''passphrases do not match'', s)
      else if length p1 < 6 then (Some ''passphrase too short (min 6)'', s)
      else cli_save se io (s\<lparr>cs_encrypted := True, cs_passphrase := p1\<rparr>))"

definition cli_resolveAddr :: "string \<Rightarrow> cli_store \<Rightarrow> string" where
  "cli_resolveAddr x s = (case cli_find x s of Some e \<Rightarrow> ke_Addr e | None \<Rightarrow> x)"

section \<open>Amounts\<close>

text \<open>
  \<open>parse\<close> is \<^verbatim>\<open>strconv.ParseFloat\<close>. The product and the sum may be fused into one operation, and the conversion
  of a value outside 64 bits is the platform's: both are arguments.
\<close>

datatype go_float = Finite rat | PosInf | NegInf | NotANumber

definition toAmount :: "(string \<Rightarrow> go_float option) \<Rightarrow> bool \<Rightarrow> (go_float \<Rightarrow> u64) \<Rightarrow> string \<Rightarrow> string + u64" where
  "toAmount parse fused platform s =
     (case parse (TrimSpace s) of
        None \<Rightarrow> Inl ''bad amount''
      | Some (Finite f) \<Rightarrow>
          if f < 0 then Inl ''bad amount''
          else let x = (if fused then f64_round (f * 10 ^ 8 + 1 / 2) else f64_round (f64_round (f * 10 ^ 8) + 1 / 2))
               in Inr (if x < 2 ^ 64 then word_of_int \<lfloor>x\<rfloor> else platform (Finite x))
      | Some NegInf \<Rightarrow> Inl ''bad amount''
      | Some v \<Rightarrow> Inr (platform v))"

section \<open>Payments\<close>

definition cli_suggestedFee :: "node_answers \<Rightarrow> u64" where
  "cli_suggestedFee na = (case na_fee na of Some f \<Rightarrow> if f > 0 then f else 1000 | None \<Rightarrow> 1000)"

definition cli_nextBlockHeight :: "node_answers \<Rightarrow> u64" where
  "cli_nextBlockHeight na = (case na_height na of None \<Rightarrow> 0 | Some h \<Rightarrow> h + 1)"

definition cli_pickFundedAddr :: "node_answers \<Rightarrow> u64 \<Rightarrow> cli_store \<Rightarrow> string + key_entry" where
  "cli_pickFundedAddr na need s =
     (case find (\<lambda>k. (case na_balance na (ke_Addr k) of None \<Rightarrow> 0 | Some b \<Rightarrow> b) \<ge> need) (cs_keys s) of
        None \<Rightarrow> Inl ''no single address has enough balance (specify one or top up)''
      | Some k \<Rightarrow> Inr k)"

text \<open>Signing with a key that is not 64 bytes long panics.\<close>

definition cli_sign :: "crypto \<Rightarrow> node_answers \<Rightarrow> key_entry \<Rightarrow> string \<Rightarrow> u64 \<Rightarrow> u64 \<Rightarrow> u64 \<Rightarrow> (string + tx) option" where
  "cli_sign cr na from to amount fee nonce =
     (let priv = fst (hex_decode (ke_Priv from)) in
      if length priv \<noteq> 64 then None
      else Some (Inr (SignTxAt cr \<lparr>tx_FromPub = [], tx_To = to, tx_Amount = amount, tx_Fee = fee, tx_Nonce = nonce, tx_Sig = [],
             tx_id = [], tx_fromAddr = []\<rparr> priv (cli_nextBlockHeight na))))"

text \<open>The transactions that \<open>cmdSend\<close> and \<open>rbfReplace\<close> post; \<open>amt\<close> reads an amount.\<close>

definition cli_send_tx :: "crypto \<Rightarrow> (string \<Rightarrow> string + u64) \<Rightarrow> node_answers \<Rightarrow> string list \<Rightarrow> cli_store \<Rightarrow> (string + tx) option" where
  "cli_send_tx cr amt na rest s =
     (case rest of
        to # amountT # rest2 \<Rightarrow>
          if \<not> ValidAddr to then Some (Inl ''bad destination address'')
          else (case amt amountT of
            Inl e \<Rightarrow> Some (Inl e)
          | Inr amount \<Rightarrow>
              (case (case rest2 of [] \<Rightarrow> Inr (cli_suggestedFee na) | feeT # _ \<Rightarrow> amt feeT) of
                 Inl e \<Rightarrow> Some (Inl e)
               | Inr fee \<Rightarrow>
                   (case (case rest2 of
                            _ # x # _ \<Rightarrow> (case cli_find x s of None \<Rightarrow> Inl ''no such address/label in wallet'' | Some e \<Rightarrow> Inr e)
                          | _ \<Rightarrow> cli_pickFundedAddr na (amount + fee) s) of
                      Inl e \<Rightarrow> Some (Inl e)
                    | Inr from \<Rightarrow>
                        (case na_nonce na (ke_Addr from) of
                           None \<Rightarrow> Some (Inl ''node error'')
                         | Some nonce \<Rightarrow> cli_sign cr na from to amount fee nonce))))
      | _ \<Rightarrow> Some (Inl ''usage: send <to> <amount> [fee] [from-addr|label]''))"

definition cli_rbf_tx :: "crypto \<Rightarrow> (string \<Rightarrow> string + u64) \<Rightarrow> node_answers \<Rightarrow> string list \<Rightarrow> bool \<Rightarrow> cli_store \<Rightarrow> (string + tx) option" where
  "cli_rbf_tx cr amt na rest cancel s =
     (case rest of
        [] \<Rightarrow> Some (Inl ''usage'')
      | txid # rest1 \<Rightarrow>
          (case na_tx na txid of
             Inl e \<Rightarrow> Some (Inl e)
           | Inr loc \<Rightarrow>
               if tl_Coinbase loc then Some (Inl ''cannot replace a coinbase transaction'')
               else if \<not> tl_Pending loc then Some (Inl ''transaction is already confirmed - it can no longer be replaced'')
               else (case cli_find (tl_From loc) s of
                 None \<Rightarrow> Some (Inl ''sender is not in this wallet - only its owner can replace it'')
               | Some from \<Rightarrow>
                   let m0 = tl_Fee loc + tl_Fee loc div 10; minFee = (if m0 \<le> tl_Fee loc then tl_Fee loc + 1 else m0);
                       sg = cli_suggestedFee na; fee0 = (if sg > minFee then sg else minFee)
                   in (case (case rest1 of
                               [] \<Rightarrow> Inr fee0
                             | feeT # _ \<Rightarrow>
                                 (case amt feeT of Inl e \<Rightarrow> Inl e | Inr f \<Rightarrow> if f < minFee then Inl ''fee too low'' else Inr f)) of
                         Inl e \<Rightarrow> Some (Inl e)
                       | Inr fee \<Rightarrow>
                           if cancel then cli_sign cr na from (ke_Addr from) 1 fee (tl_Nonce loc)
                           else cli_sign cr na from (tl_To loc) (tl_Amount loc) fee (tl_Nonce loc)))))"

section \<open>Balances\<close>

definition crb :: "u64 \<Rightarrow> string" where
  "crb v = formatCRB v @ '' CRB''"

text \<open>The total that \<open>list\<close> and \<open>balance\<close> print; a failed query counts as none.\<close>

definition cli_total :: "node_answers \<Rightarrow> cli_store \<Rightarrow> string" where
  "cli_total na s = crb (foldl (\<lambda>t k. t + (case na_balance na (ke_Addr k) of None \<Rightarrow> 0 | Some b \<Rightarrow> b)) 0 (cs_keys s))"

definition cmdReceive :: "crypto \<Rightarrow> sealing \<Rightarrow> cli_io \<Rightarrow> bytes \<Rightarrow> cli_store \<Rightarrow> string list \<times> string option \<times> cli_store" where
  "cmdReceive cr se io priv s =
     (if cs_keys s = [] then
        (case cli_add cr se io priv ''main'' s of
           (e, Some err, s1) \<Rightarrow> ([], Some err, s1)
         | (e, None, s1) \<Rightarrow> ((case e of None \<Rightarrow> [] | Some k \<Rightarrow> [ke_Addr k]), None, s1))
      else (map ke_Addr (cs_keys s), None, s))"

end
