(* ===== verification/Wallet_Pay.thy ===== *)
theory Wallet_Pay
  imports Wallet_Amounts
begin

text \<open>
  Payments of the desktop wallet: the transaction signed is the one the user asked for, and no answer of a
  node changes what a replacement pays, to whom, or under which nonce.
\<close>

section \<open>Keys and signed transactions\<close>

lemma SignTxAt_sender:
  assumes "ed25519_ok cr"
  shows "FromAddr cr (SignTxAt cr t priv h) = Inr (AddrFromPub cr (ed_public cr priv))"
proof -
  have l: "length (ed_public cr priv) = 32" using assms by (simp add: ed25519_ok_def)
  then have "hex_encode (ed_public cr priv) \<noteq> []" by (auto simp flip: length_greater_0_conv)
  with l show ?thesis by (simp add: SignTxAt_def cacheFromAddr_def FromAddr_def IsCoinbase_def Let_def AddrFromPub_def)
qed

lemma signed_ID:
  assumes "digest32 cr"
  shows "\<exists>d. ID cr (SignTxAt cr t priv h) = hex_encode d \<and> length d = 32"
proof -
  have "tx_id (SignTxAt cr t priv h) = hex_encode d \<Longrightarrow> length d = 32 \<Longrightarrow> ID cr (SignTxAt cr t priv h) = hex_encode d" for d
    by (auto simp: ID_def simp flip: length_greater_0_conv)
  moreover have "\<exists>d. tx_id (SignTxAt cr t priv h) = hex_encode d \<and> length d = 32"
    using assms by (auto simp: SignTxAt_def Let_def computeID_def digest32_def)
  ultimately show ?thesis by blast
qed

definition names :: "key_entry \<Rightarrow> string set" where
  "names e = {ke_Addr e, ke_Label e}"

lemma store_find_Inr:
  "store_find x w = Inr e \<Longrightarrow> e \<in> set (wa_keys w) \<and> x \<in> names e \<and> \<not> wa_locked w"
  by (auto simp: store_find_def findLocked_def names_def find_Some_iff split: if_splits option.splits)

lemma buildSignedTx_Inr:
  assumes "ed25519_ok cr" and "digest32 cr" and "keys_ok cr ks" and "e \<in> set ks" and "buildSignedTx cr na e to amount fee nonce = Inr t"
  shows "tx_To t = to \<and> tx_Amount t = amount \<and> tx_Fee t = fee \<and> tx_Nonce t = nonce \<and> FromAddr cr t = Inr (ke_Addr e)
    \<and> ID cr t \<noteq> [] \<and> (\<forall>c \<in> set (ID cr t). hex_val c \<noteq> None)
    \<and> (ValidAddr to \<and> amount \<noteq> 0 \<longrightarrow> (\<exists>h. na_height na = Some h \<and> CheckSigAt cr t (h + 1) = None))"
proof -
  obtain raw where r: "hex_decode (ke_Priv e) = (raw, True)" "length raw = 64" "ke_Addr e = AddrFromPub cr (ed_public cr raw)"
    using assms(3,4) by (auto simp: keys_ok_def)
  define u where "u = \<lparr>tx_FromPub = [], tx_To = to, tx_Amount = amount, tx_Fee = fee, tx_Nonce = nonce, tx_Sig = [], tx_id = [], tx_fromAddr = []\<rparr>"
  obtain h where h: "na_height na = Some h" and t: "t = SignTxAt cr u raw (h + 1)"
    using assms(5) r by (auto simp: buildSignedTx_def nextBlockHeight_def u_def split: option.splits sum.splits)
  obtain d where d: "ID cr t = hex_encode d" "length d = 32"
    using signed_ID [OF assms(2), of u raw "h + 1"] t by blast
  have "hex_encode d \<noteq> []" using d(2) by (auto simp flip: length_greater_0_conv)
  moreover have "ValidAddr to \<and> amount \<noteq> 0 \<longrightarrow> CheckSigAt cr t (h + 1) = None"
    using SignTxAt_checks [OF assms(1), of u "h + 1" "h + 1" raw] by (simp add: u_def t)
  ultimately show ?thesis using t h r(3) d hex_encode_chars SignTxAt_sender [OF assms(1), of u raw "h + 1"] by (auto simp: u_def)
qed

section \<open>Sending\<close>

lemma resolveFee_blank: "TrimSpace f = [] \<Longrightarrow> resolveFee na f = Inr fee \<Longrightarrow> fee = suggestedFeeRaw na"
  by (simp add: resolveFee_def)

lemma suggestedFee_bounds: "0 < suggestedFeeRaw na \<and> suggestedFeeRaw na \<le> 100000000"
  by (auto simp: suggestedFeeRaw_def not_less split: option.split)

lemma pickFundedAddr_Inr:
  assumes "pickFundedAddr na need w = Inr e"
  shows "\<exists>x b. store_find x w = Inr e \<and> na_balance na x = Some b \<and> need \<le> b"
  using assms by (auto simp: pickFundedAddr_def store_list_def find_Some_iff split: if_splits option.splits)

text \<open>
  What a transaction built for the user's four fields satisfies. The entry is the one its name selects: the
  field's, or when that is blank the name of an address with the balance for amount and fee.
\<close>

definition as_asked :: "crypto \<Rightarrow> node_answers \<Rightarrow> string \<Rightarrow> string \<Rightarrow> string \<Rightarrow> string \<Rightarrow> app \<Rightarrow> tx \<Rightarrow> key_entry \<Rightarrow> bool" where
  "as_asked cr na from to amt fee a t e \<longleftrightarrow>
     tx_To t = TrimSpace to \<and> ValidAddr (tx_To t) \<and> parseCRB amt = Inr (tx_Amount t) \<and> tx_Amount t \<noteq> 0
     \<and> (if TrimSpace fee = [] then 0 < tx_Fee t \<and> tx_Fee t \<le> 100000000 else parseCRB fee = Inr (tx_Fee t))
     \<and> e \<in> set (wa_keys (ap_store a)) \<and> FromAddr cr t = Inr (ke_Addr e) \<and> na_nonce na (ke_Addr e) = Some (tx_Nonce t)
     \<and> (if TrimSpace from = [] then \<exists>x \<in> names e. \<exists>b. na_balance na x = Some b \<and> tx_Amount t + tx_Fee t \<le> b else from \<in> names e)
     \<and> (\<exists>h. na_height na = Some h \<and> CheckSigAt cr t (h + 1) = None)"

lemma as_asked_store: "ap_store a = ap_store b \<Longrightarrow> as_asked cr na from to amt fee a t e = as_asked cr na from to amt fee b t e"
  by (simp only: as_asked_def)

lemma Send_tx_Inr:
  assumes "ed25519_ok cr" and "digest32 cr" and "wallet_typed cr se (ap_store a)" and "Send_tx cr na from to amt fee a = Inr t"
  shows "\<not> wa_locked (ap_store a) \<and> (\<exists>e. as_asked cr na from to amt fee a t e)
    \<and> ID cr t \<noteq> [] \<and> (\<forall>c \<in> set (ID cr t). hex_val c \<noteq> None)"
proof -
  obtain amount f e nonce where
    v: "ValidAddr (TrimSpace to)" "parseCRB amt = Inr amount" "amount \<noteq> 0" "resolveFee na fee = Inr f"
      "(if TrimSpace from = [] then pickFundedAddr na (amount + f) (ap_store a) else store_find from (ap_store a)) = Inr e"
      "accountNonce na (ke_Addr e) = Inr nonce" "buildSignedTx cr na e (TrimSpace to) amount f nonce = Inr t"
    using assms(4) by (auto simp: Send_tx_def Let_def split: if_splits sum.splits)
  obtain x where x: "store_find x (ap_store a) = Inr e"
    "if TrimSpace from = [] then \<exists>b. na_balance na x = Some b \<and> amount + f \<le> b else x = from"
    using v(5) pickFundedAddr_Inr [of na "amount + f" "ap_store a" e] by (auto split: if_splits)
  note e = store_find_Inr [OF x(1)]
  have k: "keys_ok cr (wa_keys (ap_store a))" using assms(3) by (simp add: wallet_typed_def)
  note t = buildSignedTx_Inr [OF assms(1,2) k _ v(7)]
  have n: "na_nonce na (ke_Addr e) = Some nonce" using v(6) by (simp add: accountNonce_def split: option.splits)
  have f: "if TrimSpace fee = [] then 0 < f \<and> f \<le> 100000000 else parseCRB fee = Inr f"
    using v(4) suggestedFee_bounds [of na] by (auto simp: resolveFee_def)
  have "as_asked cr na from to amt fee a t e"
    unfolding as_asked_def using t e v(1-3) n f x(2) by (auto split: if_splits)
  then show ?thesis using t e by blast
qed


section \<open>Replacing\<close>

lemma sent_add_find:
  assumes "sr_Txid r \<noteq> []"
  shows "sent_find (sr_Txid r) (sent_add r recs) = Some r"
proof (cases "List.find (\<lambda>i. sr_Txid (recs ! i) = sr_Txid r) [0..<length recs]")
  case None
  then have n: "\<forall>x \<in> set recs. sr_Txid x \<noteq> sr_Txid r" by (auto simp: find_None_iff in_set_conv_nth)
  have drop: "drop (length (recs @ [r]) - 1000) (recs @ [r]) = drop (length (recs @ [r]) - 1000) recs @ [r]" by simp
  have "sent_find (sr_Txid r) (xs @ [r]) = Some r" if "set xs \<subseteq> set recs" for xs
    using n that by (induction xs) (auto simp: sent_find_def)
  from this [of recs] this [of "drop (length (recs @ [r]) - 1000) recs"]
  show ?thesis using assms None drop set_drop_subset [of _ recs] by (auto simp: sent_add_def Let_def)
next
  case (Some i)
  then have i: "i < length recs" "\<forall>j < i. sr_Txid (recs ! j) \<noteq> sr_Txid r" by (auto simp: find_Some_iff)
  have "sent_add r recs = recs[i := r]" using assms Some by (simp add: sent_add_def)
  then show ?thesis using i by (auto simp: sent_find_def find_Some_iff intro!: exI [of _ i])
qed

text \<open>The fee of a replacement: what the user entered, or the higher of the suggestion and the network's minimum.\<close>

definition replacement_fee_ok :: "string \<Rightarrow> u64 \<Rightarrow> u64 \<Rightarrow> bool" where
  "replacement_fee_ok feeT old fee \<longleftrightarrow>
     rbf_min old \<le> fee \<and> (if TrimSpace feeT = [] then fee \<le> max (rbf_min old) 100000000 else parseCRB feeT = Inr fee)"

lemma rbf_fee_Inr: "rbf_fee na feeT old = Inr fee \<Longrightarrow> replacement_fee_ok feeT old fee"
  using suggestedFee_bounds [of na]
  by (auto simp: rbf_fee_def replacement_fee_ok_def rbf_min_def Let_def not_less max_def split: if_splits sum.splits)

lemma rbf_tx_Inr:
  assumes "ed25519_ok cr" and "digest32 cr" and "wallet_typed cr se (ap_store a)" and "rbf_tx cr na txid feeT cancel a = Inr t"
  shows "\<exists>e \<in> set (wa_keys (ap_store a)). FromAddr cr t = Inr (ke_Addr e) \<and>
    (case sent_find (TrimSpace txid) (ap_sent a) of
       None \<Rightarrow> cancel \<and> tx_To t = ke_Addr e \<and> tx_Amount t = 1
     | Some r \<Rightarrow> tx_Nonce t = sr_Nonce r \<and> replacement_fee_ok feeT (sr_Fee r) (tx_Fee t)
         \<and> (if cancel then tx_To t = ke_Addr e \<and> tx_Amount t = 1
            else tx_To t = sr_To r \<and> tx_Amount t = sr_Amount r \<and> sr_From r \<in> names e))"
proof -
  obtain loc e to amount nonce old fee where
    r: "rbf_terms cancel (sent_find (TrimSpace txid) (ap_sent a)) loc (ap_store a) = Inr (e, to, amount, nonce, old)"
    and f: "rbf_fee na feeT old = Inr fee" and b: "buildSignedTx cr na e to amount fee nonce = Inr t"
    using assms(4) by (auto simp: rbf_tx_def Let_def split: if_splits sum.splits)
  have e: "e \<in> set (wa_keys (ap_store a))"
    using r store_find_Inr by (auto simp: rbf_terms_def split: if_splits option.splits sum.splits)
  have k: "keys_ok cr (wa_keys (ap_store a))" using assms(3) by (simp add: wallet_typed_def)
  note t = buildSignedTx_Inr [OF assms(1,2) k e b] and q = rbf_fee_Inr [OF f]
  have "case sent_find (TrimSpace txid) (ap_sent a) of
       None \<Rightarrow> cancel \<and> to = ke_Addr e \<and> amount = 1
     | Some r \<Rightarrow> nonce = sr_Nonce r \<and> old = sr_Fee r
         \<and> (if cancel then to = ke_Addr e \<and> amount = 1 else to = sr_To r \<and> amount = sr_Amount r \<and> sr_From r \<in> names e)"
    using r store_find_Inr by (auto simp: rbf_terms_def split: if_splits option.splits sum.splits)
  then show ?thesis using t q e by (intro bexI [of _ e]) (auto split: option.splits if_splits)
qed

lemma Send_recorded:
  assumes "ed25519_ok cr" and "digest32 cr" and "wallet_typed cr se (ap_store a)"
    and "Send cr na now from to amt fee a = (Inr sd, a1)"
  shows "\<exists>t e r. as_asked cr na from to amt fee a t e \<and> TrimSpace (sd_Txid sd) = sd_Txid sd
    \<and> sent_find (sd_Txid sd) (ap_sent a1) = Some r \<and> sr_From r = ke_Addr e \<and> sr_To r = tx_To t \<and> sr_Amount r = tx_Amount t
    \<and> sr_Nonce r = tx_Nonce t \<and> sr_Fee r = tx_Fee t"
proof -
  let ?a = "a\<lparr>ap_lastActivity := now\<rparr>"
  obtain t where t: "Send_tx cr na from to amt fee ?a = Inr t" and b: "broadcast cr na t ?a = (Inr sd, a1)"
    using assms(4) by (auto simp: Send_def Let_def split: sum.splits)
  have w: "wallet_typed cr se (ap_store ?a)" using assms(3) by simp
  obtain e where e: "as_asked cr na from to amt fee ?a t e" and i: "ID cr t \<noteq> []" "\<forall>c \<in> set (ID cr t). hex_val c \<noteq> None"
    using Send_tx_Inr [OF assms(1,2) w t] by blast
  define r where "r = \<lparr>sr_Txid = ID cr t, sr_From = from_or_empty cr t, sr_To = tx_To t, sr_Amount = tx_Amount t, sr_Nonce = tx_Nonce t,
    sr_Fee = tx_Fee t\<rparr>"
  have s: "sd_Txid sd = ID cr t" "ap_sent a1 = sent_add r (ap_sent a)" using b by (auto simp: broadcast_def r_def Let_def split: option.splits)
  have f: "from_or_empty cr t = ke_Addr e" using e by (simp add: as_asked_def from_or_empty_def)
  have "sent_find (sr_Txid r) (ap_sent a1) = Some r" unfolding s(2) using i(1) by (intro sent_add_find) (simp add: r_def)
  moreover have "TrimSpace (ID cr t) = ID cr t" using i(2) by (intro TrimSpace_hex) blast
  moreover have "as_asked cr na from to amt fee a t e" using e as_asked_store [of ?a a] by simp
  ultimately show ?thesis using s(1) f by (intro exI [of _ t] exI [of _ e] exI [of _ r]) (simp add: r_def)
qed

text \<open>(C17)
  A replacement never redirects a payment. Take a payment that was sent, and the wallet at any later time
  while its record is kept. Whatever a node answers, speeding it up pays the same amount to the same address
  under the same nonce from a key that the original sender's address names, and cancelling it pays one unit
  to an address of the wallet itself, which signs it, under the original's nonce. The fee is at least the
  network's minimum for a replacement and is the one entered or, when none was, at most the larger of that
  minimum and one coin.
\<close>

theorem replacement_never_redirects:
  assumes "ed25519_ok cr" and "digest32 cr" and "wallet_typed cr se (ap_store a)" and "wallet_typed cr se (ap_store a2)"
    and "Send cr na now from to amt fee a = (Inr sd, a1)"
    and "sent_find (sd_Txid sd) (ap_sent a2) = sent_find (sd_Txid sd) (ap_sent a1)"
    and "rbf_tx cr na2 (sd_Txid sd) fee2 cancel a2 = Inr t2"
  shows "\<exists>t e e2. as_asked cr na from to amt fee a t e \<and> tx_Nonce t2 = tx_Nonce t
    \<and> e2 \<in> set (wa_keys (ap_store a2)) \<and> FromAddr cr t2 = Inr (ke_Addr e2)
    \<and> (if cancel then tx_To t2 = ke_Addr e2 \<and> tx_Amount t2 = 1
       else tx_To t2 = tx_To t \<and> tx_Amount t2 = tx_Amount t \<and> ke_Addr e \<in> names e2)
    \<and> replacement_fee_ok fee2 (tx_Fee t) (tx_Fee t2)"
proof -
  obtain t e r where o: "as_asked cr na from to amt fee a t e" "TrimSpace (sd_Txid sd) = sd_Txid sd"
    "sent_find (sd_Txid sd) (ap_sent a1) = Some r" "sr_From r = ke_Addr e" "sr_To r = tx_To t" "sr_Amount r = tx_Amount t"
    "sr_Nonce r = tx_Nonce t" "sr_Fee r = tx_Fee t"
    using Send_recorded [OF assms(1-3,5)] by blast
  show ?thesis using rbf_tx_Inr [OF assms(1,2,4,7)] o assms(6) by (auto split: if_splits)
qed

section \<open>What a lying node can still do\<close>

text \<open>
  Without a record, the fee of a cancellation follows the old fee the node names, and the cap on suggested
  fees does not apply.
\<close>

lemma cancel_fee_follows_node:
  assumes "sent_find (TrimSpace txid) (ap_sent a) = None" and "TrimSpace fee = []" and "na_tx na (TrimSpace txid) = Inr loc"
    and "rbf_tx cr na txid fee True a = Inr t" and "ed25519_ok cr" and "digest32 cr" and "wallet_typed cr se (ap_store a)"
  shows "rbf_min (tl_Fee loc) \<le> tx_Fee t"
proof -
  obtain e where e: "store_find (tl_From loc) (ap_store a) = Inr e" using assms(1,3,4) by (auto simp: rbf_tx_def rbf_terms_def split: if_splits sum.splits)
  obtain f where f: "rbf_fee na fee (tl_Fee loc) = Inr f" "buildSignedTx cr na e (ke_Addr e) 1 f (tl_Nonce loc) = Inr t"
    using assms(1,3,4) e by (auto simp: rbf_tx_def rbf_terms_def split: if_splits sum.splits)
  have k: "keys_ok cr (wa_keys (ap_store a))" using assms(7) by (simp add: wallet_typed_def)
  have "e \<in> set (wa_keys (ap_store a))" using store_find_Inr [OF e] by blast
  from buildSignedTx_Inr [OF assms(5,6) k this f(2)] rbf_fee_Inr [OF f(1)] show ?thesis by (simp add: replacement_fee_ok_def)
qed

text \<open>
  A node that reports a low height gets a signature over the payload that names no chain: it is valid at
  every height before \<open>ChainIDHeight\<close>.
\<close>

lemma low_height_signs_old_payload:
  assumes "ed25519_ok cr" and "na_height na = Some h" and "h + 1 < ChainIDHeight" and "h' < ChainIDHeight"
    and "ValidAddr to" and "amount \<noteq> 0" and "buildSignedTx cr na e to amount fee nonce = Inr t"
  shows "CheckSigAt cr t h' = None"
proof -
  define u where "u = \<lparr>tx_FromPub = [], tx_To = to, tx_Amount = amount, tx_Fee = fee, tx_Nonce = nonce, tx_Sig = [], tx_id = [], tx_fromAddr = []\<rparr>"
  obtain raw where "t = SignTxAt cr u raw (h + 1)"
    using assms(2,7) by (auto simp: buildSignedTx_def nextBlockHeight_def u_def Let_def split: if_splits prod.splits)
  moreover have "ChainIDHeight \<le> h + 1 \<longleftrightarrow> ChainIDHeight \<le> h'" using assms(3,4) by (meson linorder_not_le)
  moreover have "ValidAddr (tx_To u)" "tx_Amount u \<noteq> 0" using assms(5,6) by (simp_all add: u_def)
  ultimately show ?thesis using SignTxAt_checks [OF assms(1), of u "h + 1" h' raw] by simp
qed

text \<open>Two payments from one address before the first is confirmed have the same nonce: the second replaces the first or is refused.\<close>

lemma second_payment_same_nonce:
  "as_asked cr na f1 d1 m1 g1 a1 t1 e \<Longrightarrow> as_asked cr na2 f2 d2 m2 g2 a2 t2 e \<Longrightarrow> na_nonce na (ke_Addr e) = na_nonce na2 (ke_Addr e)
   \<Longrightarrow> tx_Nonce t1 = tx_Nonce t2"
  by (simp add: as_asked_def)

section \<open>A payment and its replacement\<close>

definition demo_key :: key_entry where
  "demo_key = \<lparr>ke_Label = ''main'', ke_Priv = hex_encode (replicate 64 1), ke_Addr = AddrFromPub demo_crypto (ed_public demo_crypto (replicate 64 1))\<rparr>"

definition demo_app :: app where
  "demo_app = \<lparr>ap_store = (empty_wallet NoFile)\<lparr>wa_keys := [demo_key]\<rparr>, ap_sent = [], ap_lastActivity = 0\<rparr>"

definition demo_answers :: node_answers where
  "demo_answers = \<lparr>na_fee = Some 2000, na_height = Some 900, na_balance = (\<lambda>x. Some 900000000), na_nonce = (\<lambda>x. Some 4),
     na_tx = (\<lambda>x. Inr \<lparr>tl_Found = True, tl_Pending = True, tl_TxID = x, tl_Height = 0, tl_BlockHash = [], tl_Time = 0,
       tl_From = ''elsewhere'', tl_To = ''elsewhere'', tl_Amount = 7, tl_Fee = 8, tl_Nonce = 9, tl_Coinbase = False\<rparr>),
     na_post = (\<lambda>t. None)\<rparr>"

lemma demo_app_typed: "wallet_typed demo_crypto demo_sealing (ap_store demo_app)"
  by (simp add: demo_app_def empty_wallet_def wallet_typed_def keys_ok_def file_ok_def demo_key_def)

lemma demo_texts: "TrimSpace [] = []" "TrimSpace (tx_To demo_tx) = tx_To demo_tx" "parseCRB ''1.5'' = Inr 150000000"
proof -
  show "TrimSpace [] = []" by (rule TrimSpace_plain) simp
  show "TrimSpace (tx_To demo_tx) = tx_To demo_tx" by (rule TrimSpace_plain) (auto simp: demo_tx_def plain_char_def)
  show "parseCRB ''1.5'' = Inr 150000000"
    using parseCRB_reads [of "''1''" "''5''"] by (simp add: dec_val_def decimal_def)
qed

lemma demo_signs: "\<exists>t. buildSignedTx demo_crypto demo_answers demo_key to amount fee nonce = Inr t"
  by (simp add: buildSignedTx_def nextBlockHeight_def demo_answers_def demo_key_def)

lemma demo_finds: "store_find (ke_Addr demo_key) (ap_store demo_app) = Inr demo_key"
  by (simp add: store_find_def findLocked_def demo_app_def empty_wallet_def)

lemma demo_send:
  assumes "ap_store a = ap_store demo_app"
  shows "\<exists>t. Send_tx demo_crypto demo_answers [] (tx_To demo_tx) ''1.5'' [] a = Inr t"
proof -
  have "pickFundedAddr demo_answers (150000000 + 2000) (ap_store demo_app) = Inr demo_key"
    using demo_finds by (simp add: pickFundedAddr_def store_list_def demo_answers_def) (simp add: demo_app_def empty_wallet_def)
  moreover have "resolveFee demo_answers [] = Inr 2000" "accountNonce demo_answers x = Inr 4" for x
    by (simp_all add: resolveFee_def demo_texts suggestedFeeRaw_def accountNonce_def demo_answers_def)
  ultimately show ?thesis using assms demo_signs ValidAddr_demo by (simp add: Send_tx_def Let_def demo_texts)
qed

lemma demo_replaces:
  assumes "ap_store a = ap_store demo_app" and "sent_find (TrimSpace x) (ap_sent a) = Some r" and "sr_From r = ke_Addr demo_key"
  shows "\<exists>t. rbf_tx demo_crypto demo_answers x [] False a = Inr t"
proof -
  obtain loc where l: "na_tx demo_answers (TrimSpace x) = Inr loc" "\<not> tl_Coinbase loc" "tl_Pending loc" by (simp add: demo_answers_def)
  obtain f where f: "rbf_fee demo_answers [] (sr_Fee r) = Inr f" by (simp add: rbf_fee_def demo_texts Let_def)
  obtain t where t: "buildSignedTx demo_crypto demo_answers demo_key (sr_To r) (sr_Amount r) f (sr_Nonce r) = Inr t"
    using demo_signs by blast
  show ?thesis using assms l f t demo_finds by (simp add: rbf_tx_def rbf_terms_def Let_def)
qed


theorem replacement_never_redirects_witness:
  "\<exists>sd a1 t2. Send demo_crypto demo_answers 0 [] (tx_To demo_tx) ''1.5'' [] demo_app = (Inr sd, a1)
    \<and> rbf_tx demo_crypto demo_answers (sd_Txid sd) [] False a1 = Inr t2 \<and> tx_To t2 = tx_To demo_tx \<and> tx_Amount t2 = 150000000"
proof -
  obtain t where t: "Send_tx demo_crypto demo_answers [] (tx_To demo_tx) ''1.5'' [] (demo_app\<lparr>ap_lastActivity := 0\<rparr>) = Inr t"
    using demo_send [of "demo_app\<lparr>ap_lastActivity := 0\<rparr>"] by auto
  then obtain sd a1 where s: "Send demo_crypto demo_answers 0 [] (tx_To demo_tx) ''1.5'' [] demo_app = (Inr sd, a1)"
    and w: "ap_store a1 = ap_store demo_app"
    by (simp add: Send_def broadcast_def Let_def) (simp add: demo_answers_def)
  obtain t0 e r where r: "as_asked demo_crypto demo_answers [] (tx_To demo_tx) ''1.5'' [] demo_app t0 e"
    "TrimSpace (sd_Txid sd) = sd_Txid sd" "sent_find (sd_Txid sd) (ap_sent a1) = Some r" "sr_From r = ke_Addr e"
    using Send_recorded [OF ed25519_ok_demo digest32_demo demo_app_typed s] by blast
  have "e = demo_key" using r(1) by (simp add: as_asked_def demo_app_def)
  then obtain t2 where t2: "rbf_tx demo_crypto demo_answers (sd_Txid sd) [] False a1 = Inr t2"
    using demo_replaces [OF w] r by fastforce
  have w1: "wallet_typed demo_crypto demo_sealing (ap_store a1)" using demo_app_typed w by simp
  from replacement_never_redirects [OF ed25519_ok_demo digest32_demo demo_app_typed w1 s refl t2] s t2
  show ?thesis by (auto simp: as_asked_def demo_texts)
qed

end
