(* ===== verification/Wallet_Cli_Spec.thy ===== *)
theory Wallet_Cli_Spec
  imports Wallet_Cli Wallet_Pay
begin

text \<open>
  The command-line wallet: its file and the desktop wallet's open in either program, small amounts are read
  exactly in spite of binary64, and what it lets a node do that the desktop wallet does not.
\<close>

section \<open>One file, two programs\<close>

lemma desktop_opens_cli:
  assumes "sealing_ok se" and "length salt = 16" and "length nonce = 12"
  shows "decryptKeys se (cli_sealed_file se p salt nonce ks) p = Some ks"
  using assms by (simp add: decryptKeys_def cli_sealed_file_def sealing_ok_def Let_def)

lemma cli_opens_desktop:
  assumes "sealing_ok se" and "length nonce = 12"
  shows "cli_decryptKeys se (sealed_file se p salt nonce ks) p = Some (Inr ks)"
  using assms by (simp add: cli_decryptKeys_def sealed_file_def sealing_ok_def Let_def)

lemma files_shared:
  assumes "sealing_ok se" and "length (ci_salt io) = 16" and "length (ci_nonce io) = 12" and "cli_save se io s = (None, s')"
    and "io_ok dio" and "save se dio w = (None, w')"
  shows "let d = mustLoadStore (cs_file s'); r = unlock se (cs_passphrase s) d in
      wa_encrypted d = cs_encrypted s \<and> (cs_encrypted s \<longrightarrow> wa_locked d \<and> wa_keys d = [])
      \<and> fst r = Inr True \<and> wa_keys (snd r) = cs_keys s"
    and "\<exists>c. cli_loadStore se (wa_passphrase w) (wa_file w') = Some (Inr c) \<and> cs_keys c = wa_keys w \<and> cs_encrypted c = wa_encrypted w"
proof -
  define ff where "ff = (if cs_encrypted s then cli_sealed_file se (cs_passphrase s) (ci_salt io) (ci_nonce io) (cs_keys s) else open_file (cs_keys s))"
  have f: "cs_file s' = WalletFile ff" using assms(4) by (auto simp: cli_save_def Let_def ff_def split: if_splits)
  have e: "ff_Encrypted ff = cs_encrypted s" by (simp add: ff_def cli_sealed_file_def open_file_def)
  have d: "cs_encrypted s \<Longrightarrow> decryptKeys se ff (cs_passphrase s) = Some (cs_keys s)"
    using desktop_opens_cli [OF assms(1-3)] by (simp add: ff_def)
  have k: "\<not> cs_encrypted s \<Longrightarrow> ff_Keys ff = cs_keys s" by (simp add: ff_def open_file_def)
  show "let d = mustLoadStore (cs_file s'); r = unlock se (cs_passphrase s) d in
      wa_encrypted d = cs_encrypted s \<and> (cs_encrypted s \<longrightarrow> wa_locked d \<and> wa_keys d = [])
      \<and> fst r = Inr True \<and> wa_keys (snd r) = cs_keys s"
    using e d k by (cases "cs_encrypted s") (simp_all add: f mustLoadStore_def loadStore_def empty_wallet_def unlock_def Let_def)
  show "\<exists>c. cli_loadStore se (wa_passphrase w) (wa_file w') = Some (Inr c) \<and> cs_keys c = wa_keys w \<and> cs_encrypted c = wa_encrypted w"
  proof (cases "wa_encrypted w")
    case True
    obtain salt nonce where r: "io_random dio = Some (salt, nonce)" "wa_file w' = WalletFile (sealed_file se (wa_passphrase w) salt nonce (wa_keys w))"
      using assms(6) True by (auto simp: save_def Let_def split: if_splits option.splits)
    then have "length nonce = 12" using assms(5) by (simp add: io_ok_def)
    then have "cli_decryptKeys se (sealed_file se (wa_passphrase w) salt nonce (wa_keys w)) (wa_passphrase w) = Some (Inr (wa_keys w))"
      by (rule cli_opens_desktop [OF assms(1)])
    moreover have "ff_Encrypted (sealed_file se (wa_passphrase w) salt nonce (wa_keys w))" by (simp add: sealed_file_def)
    ultimately show ?thesis using r True by (simp add: cli_loadStore_def Let_def)
  next
    case False
    then have "wa_file w' = WalletFile (open_file (wa_keys w))" using assms(6) by (auto simp: save_def Let_def split: if_splits)
    then show ?thesis using False by (simp add: cli_loadStore_def open_file_def Let_def)
  qed
qed


definition demo_cli_io :: cli_io where
  "demo_cli_io = \<lparr>ci_mkdir = True, ci_salt = replicate 16 5, ci_nonce = replicate 12 6, ci_write = True\<rparr>"

definition demo_cli_store :: cli_store where
  "demo_cli_store = \<lparr>cs_keys = [demo_key], cs_encrypted = True, cs_passphrase = replicate 6 112, cs_file = NoFile\<rparr>"


section \<open>Amounts\<close>

lemma f64_near: "0 \<le> x \<Longrightarrow> \<bar>f64_round x - x\<bar> \<le> x / 2 ^ 53"
  using f64_round_close [of x] by (cases "x = 0") (auto simp: f64_round_def [of 0])

lemma toAmount_exact:
  assumes "parse (TrimSpace s) = Some (Finite (f64_round (of_nat n / 10 ^ 8)))" and "n < 2 ^ 50"
  shows "toAmount parse fused platform s = Inr (word_of_nat n)"
proof -
  define N :: rat where "N = of_nat n"
  define g :: rat where "g = f64_round (N / 10 ^ 8) * 10 ^ 8"
  define h where "h = (if fused then g else f64_round g)"
  define x where "x = f64_round (h + 1 / 2)"
  have N: "0 \<le> N" "N + 1 \<le> 2 ^ 50"
  proof -
    have "(of_nat (n + 1) :: rat) \<le> of_nat (2 ^ 50)" using assms(2) by (simp only: of_nat_le_iff)
    then show "0 \<le> N" "N + 1 \<le> 2 ^ 50" by (simp_all add: N_def add.commute)
  qed
  have "\<bar>f64_round (N / 10 ^ 8) - N / 10 ^ 8\<bar> \<le> N / 10 ^ 8 / 2 ^ 53" using N by (intro f64_near) simp
  then have "\<bar>f64_round (N / 10 ^ 8) - N / 10 ^ 8\<bar> * 10 ^ 8 \<le> N / 10 ^ 8 / 2 ^ 53 * 10 ^ 8" by (intro mult_right_mono) simp_all
  moreover have "g - N = (f64_round (N / 10 ^ 8) - N / 10 ^ 8) * 10 ^ 8" by (simp add: g_def left_diff_distrib)
  moreover have "\<bar>(f64_round (N / 10 ^ 8) - N / 10 ^ 8) * 10 ^ 8\<bar> = \<bar>f64_round (N / 10 ^ 8) - N / 10 ^ 8\<bar> * 10 ^ 8" unfolding abs_mult by simp
  moreover have "N / 10 ^ 8 / 2 ^ 53 * 10 ^ 8 = N / 2 ^ 53" by simp
  ultimately have g: "\<bar>g - N\<bar> \<le> N / 2 ^ 53" by (simp only:)
  have g0: "0 \<le> g" using N by (simp add: g_def f64_round_nonneg)
  have "\<bar>g - N\<bar> \<le> 1 / 8" using order_trans [OF g, of "1 / 8"] N by simp
  then have gN: "g \<le> N + 1 / 8" "N - 1 / 8 \<le> g" unfolding abs_le_iff by linarith+
  have "\<bar>h - g\<bar> \<le> 1 / 8" using f64_near [OF g0] gN N by (auto simp: h_def)
  then have hN: "h \<le> N + 1 / 4" "N - 1 / 4 \<le> h" using gN by linarith+
  have h0: "0 \<le> h" using g0 by (simp add: h_def f64_round_nonneg)
  have "\<bar>x - (h + 1 / 2)\<bar> \<le> (h + 1 / 2) / 2 ^ 53" unfolding x_def using h0 by (intro f64_near) simp
  also have "\<dots> \<le> 1 / 8" using hN N by simp
  finally have "N \<le> x" "x < N + 1" using hN by linarith+
  then have fl: "\<lfloor>x\<rfloor> = int n" by (simp add: N_def floor_eq_iff)
  have "x < 2 ^ 64" using \<open>x < N + 1\<close> N by simp
  have "0 \<le> f64_round (N / 10 ^ 8)" using N by (simp add: f64_round_nonneg)
  then have "toAmount parse fused platform s = Inr (if x < 2 ^ 64 then word_of_int \<lfloor>x\<rfloor> else platform (Finite x))"
    using assms(1) unfolding toAmount_def x_def h_def g_def N_def Let_def by simp
  then show ?thesis using \<open>x < 2 ^ 64\<close> fl by simp
qed

text \<open>A text that parses to no number is an amount: the platform's conversion of it.\<close>

lemma not_a_number_is_an_amount: "parse (TrimSpace s) = Some NotANumber \<Longrightarrow> toAmount parse fused platform s = Inr (platform NotANumber)"
  by (simp add: toAmount_def)

section \<open>What a node can do\<close>

lemma cli_sign_Inr:
  assumes "cli_sign cr na e to amount fee nonce = Some (Inr t)"
  shows "tx_To t = to \<and> tx_Amount t = amount \<and> tx_Fee t = fee \<and> tx_Nonce t = nonce"
  using assms by (auto simp: cli_sign_def Let_def split: if_splits)

text \<open>
  Speeding a payment up pays whatever the node says the payment was: to any address, any amount. The desktop
  wallet does not (\<open>replacement_never_redirects\<close>).
\<close>

lemma speed_up_pays_what_node_says:
  assumes "cli_find from s = Some e" and "length (fst (hex_decode (ke_Priv e))) = 64" and "na_tx na txid = Inr loc"
    and "tl_From loc = from" and "\<not> tl_Coinbase loc" and "tl_Pending loc"
  shows "\<exists>t. cli_rbf_tx cr amt na [txid] False s = Some (Inr t) \<and> tx_To t = tl_To loc \<and> tx_Amount t = tl_Amount loc
    \<and> rbf_min (tl_Fee loc) \<le> tx_Fee t"
  using assms by (auto simp: cli_rbf_tx_def cli_sign_def rbf_min_def Let_def not_less)

text \<open>When the height cannot be read, the payment is signed over the payload that names no chain.\<close>

lemma unknown_height_signs_old_payload:
  assumes "ed25519_ok cr" and "na_height na = None" and "h < ChainIDHeight" and "ValidAddr to" and "amount \<noteq> 0"
    and "cli_sign cr na e to amount fee nonce = Some (Inr t)"
  shows "CheckSigAt cr t h = None"
proof -
  define u where "u = \<lparr>tx_FromPub = [], tx_To = to, tx_Amount = amount, tx_Fee = fee, tx_Nonce = nonce, tx_Sig = [], tx_id = [], tx_fromAddr = []\<rparr>"
  have "t = SignTxAt cr u (fst (hex_decode (ke_Priv e))) 0"
    using assms(2,6) by (simp add: cli_sign_def cli_nextBlockHeight_def u_def Let_def split: if_splits)
  moreover have "ChainIDHeight \<le> 0 \<longleftrightarrow> ChainIDHeight \<le> h" using assms(3) by (simp add: not_le [symmetric])
  ultimately show ?thesis using SignTxAt_checks [OF assms(1), of u 0 h "fst (hex_decode (ke_Priv e))"] assms(4,5) by (simp add: u_def)
qed

text \<open>A file with a nonce of another length crashes the program; the desktop wallet reports it.\<close>

lemma bad_nonce_panics:
  assumes "length (fst (hex_decode (ff_Nonce ff))) \<noteq> 12" and "ff_Encrypted ff"
  shows "cli_loadStore se pass (WalletFile ff) = None" and "fst (unlock se pass (mustLoadStore (WalletFile ff))) = Inr False"
  using assms
  by (simp_all add: cli_loadStore_def cli_decryptKeys_def Let_def mustLoadStore_def loadStore_def empty_wallet_def unlock_def decryptKeys_def
      case_prod_beta)

end
