(* ===== verification/Miner_Client.thy ===== *)
theory Miner_Client
  imports Stratum_Spec Node_Miner Cmd_Update
begin

text \<open>
  The command-line miner, after \<^verbatim>\<open>src/cmd/cereblix-miner/main.go\<close>: its settings and the address of its node, the
  work it fetches, the search of one thread, the submission of what it found, and its self-update. A block
  found on work of a node is mined as it was found. A result of \<open>None\<close> of a search is a run-time panic.
\<close>

section \<open>Settings\<close>

record miner_config =
  mc_Addr :: string
  mc_Node :: string
  mc_Mode :: string
  mc_Threads :: int

definition modeFromURL :: "string \<Rightarrow> string" where
  "modeFromURL u = (if str_contains u ''/pool/'' then ''pool'' else ''solo'')"

definition buildNode :: "string \<Rightarrow> string \<Rightarrow> string" where
  "buildNode host mode = (if mode = ''solo'' then host @ ''/api'' else host @ ''/pool/api'')"

abbreviation (input) has_prefix :: "string \<Rightarrow> string \<Rightarrow> bool" where
  "has_prefix s p \<equiv> take (length p) s = p"

definition TrimPrefix :: "string \<Rightarrow> string \<Rightarrow> string" where
  "TrimPrefix s p = (if has_prefix s p then drop (length p) s else s)"

definition normalizeNodeURL :: "string \<Rightarrow> string + string" where
  "normalizeNodeURL n0 =
     (let n = TrimSpace n0 in
      if n = [] then Inr n
      else let low = map lower_char n;
               hostport = foldl TrimPrefix low [''https://'', ''http://'', ''stratum+tcp://'', ''stratum://''];
               hostOnly = cut_at (CHR ''/'') hostport in
      if has_prefix low ''stratum'' \<or> str_contains hostOnly ''stratum.'' \<or> has_suffix hostOnly '':3333'' \<or> has_suffix hostOnly '':3334''
      then Inl ''that looks like a Stratum endpoint''
      else if \<not> has_prefix low ''http://'' \<and> \<not> has_prefix low ''https://'' then Inr (''https://'' @ n) else Inr n)"

text \<open>
  How \<open>main\<close> settles its settings without a terminal: the saved ones, if any, the flags over them, the
  defaults, and the checks.
\<close>

definition start_config :: "string \<Rightarrow> string \<Rightarrow> int \<Rightarrow> int \<Rightarrow> miner_config option \<Rightarrow> string + miner_config" where
  "start_config fNode fAddr fThreads cpus saved =
     (let c0 = (case saved of None \<Rightarrow> \<lparr>mc_Addr = [], mc_Node = [], mc_Mode = [], mc_Threads = 0\<rparr> | Some c \<Rightarrow> c);
          c1 = (if fAddr \<noteq> [] then c0\<lparr>mc_Addr := fAddr\<rparr> else c0);
          c2 = (if fNode \<noteq> [] then c1\<lparr>mc_Node := fNode, mc_Mode := modeFromURL fNode\<rparr> else c1);
          c3 = (if fThreads > 0 then c2\<lparr>mc_Threads := fThreads\<rparr> else c2);
          c4 = (if mc_Node c3 = [] then c3\<lparr>mc_Node := buildNode ''https://cereblix.com'' ''solo'', mc_Mode := ''solo''\<rparr> else c3);
          c5 = (if mc_Mode c4 = [] then c4\<lparr>mc_Mode := modeFromURL (mc_Node c4)\<rparr> else c4);
          c6 = (if mc_Threads c5 \<le> 0 then c5\<lparr>mc_Threads := cpus\<rparr> else c5)
      in if \<not> ValidAddr (mc_Addr c6) then Inl ''a valid address is required''
         else case normalizeNodeURL (mc_Node c6) of
           Inl e \<Rightarrow> Inl e
         | Inr fixed \<Rightarrow> if fixed \<noteq> mc_Node c6 then Inr (c6\<lparr>mc_Node := fixed, mc_Mode := modeFromURL fixed\<rparr>) else Inr c6)"

section \<open>Work\<close>

record miner_work =
  mw_ID :: string
  mw_Header :: string
  mw_Target :: string
  mw_Seed :: string
  mw_Epoch :: u64
  mw_Height :: u64
  mw_Extranonce :: u64

text \<open>\<open>fetchWork\<close> on the decoded answer: the error, if any, the current work, and whether it was replaced.\<close>

definition fetchWork :: "string + miner_work \<Rightarrow> miner_work option \<Rightarrow> string option \<times> miner_work option \<times> bool" where
  "fetchWork answer cur =
     (case answer of
        Inl e \<Rightarrow> (Some e, cur, False)
      | Inr w \<Rightarrow>
          if mw_Header w = [] then (Some ''node returned no work'', cur, False)
          else case cur of
            None \<Rightarrow> (None, Some w, True)
          | Some old \<Rightarrow>
              if mw_ID old \<noteq> mw_ID w \<or> mw_Header old \<noteq> mw_Header w then (None, Some w, True) else (None, Some old, False))"

section \<open>One thread\<close>

definition thread_base :: "u64 \<Rightarrow> u64 \<Rightarrow> u64" where
  "thread_base extranonce i = or (push_bit 48 (and extranonce 0xFFFF)) (push_bit 40 (and i 0xFF))"

abbreviation (input) counterMask :: u64 where "counterMask \<equiv> 0xFFFFFFFFFF"

text \<open>The inner loop for a number of attempts; \<open>changed k\<close> says whether the current work is another after attempt \<open>k\<close>.\<close>

fun thread_search :: "(bytes \<Rightarrow> bytes) \<Rightarrow> int \<Rightarrow> u64 \<Rightarrow> (nat \<Rightarrow> bool) \<Rightarrow> nat \<Rightarrow> nat \<Rightarrow> bytes \<Rightarrow> u64 \<Rightarrow> u64 option" where
  "thread_search hash target base changed k 0 header ctr = None"
| "thread_search hash target base changed k (Suc n) header ctr =
     (let nonce = or base (and ctr counterMask); h = putNonce header nonce in
      if int (from_be (hash h)) \<le> target then Some nonce
      else if k mod 32 = 0 \<and> changed k then None
      else thread_search hash target base changed (k + 1) n h (ctr + 1))"

text \<open>
  One turn of \<open>mineThread\<close> on work \<open>w\<close>. The machine is known by the seed text it was made for, none at first;
  the search starts at the clock.
\<close>

definition mineThread :: "pow_fun \<Rightarrow> u64 \<Rightarrow> u64 \<Rightarrow> nat \<Rightarrow> (nat \<Rightarrow> bool) \<Rightarrow> miner_work \<Rightarrow> string option \<Rightarrow> (u64 option \<times> string option) option" where
  "mineThread pow i nanos attempts changed w vm =
     (let vm1 = (if mw_Seed w \<noteq> (case vm of None \<Rightarrow> [] | Some s \<Rightarrow> s) then Some (mw_Seed w) else vm);
          (header, ok) = hex_decode (mw_Header w) in
      if \<not> ok \<or> length header \<noteq> HeaderLen then Some (None, vm1)
      else case vm1 of
        None \<Rightarrow> if attempts = 0 then Some (None, vm1) else None
      | Some seed \<Rightarrow>
          Some (thread_search (\<lambda>h. pow (fst (hex_decode seed)) h (mw_Height w)) (int (from_be (fst (hex_decode (mw_Target w)))))
                  (thread_base (mw_Extranonce w) i) changed 0 attempts header (and nanos counterMask), vm1))"

text \<open>\<open>submit\<close>: the body it posts, a nonce as a quoted text, and what it counts for the decoded answer.\<close>

definition submit_body :: "string \<Rightarrow> u64 \<Rightarrow> string \<times> string" where
  "submit_body i nonce = (i, CHR 0x22 # show_u64 nonce @ [CHR 0x22])"

record miner_answer =
  ma_Result :: string
  ma_Hash :: string
  ma_Block :: bool
  ma_Error :: string

definition submit_counts :: "miner_answer option \<Rightarrow> u64 \<times> u64 \<Rightarrow> u64 \<times> u64" where
  "submit_counts answer sb =
     (case sb of (shares, blocks) \<Rightarrow>
        (case answer of
           None \<Rightarrow> (shares, blocks)
         | Some out \<Rightarrow>
             if ma_Error out \<noteq> [] then (shares, blocks)
             else if ma_Result out = ''stale'' \<or> ma_Result out = ''duplicate'' then (shares, blocks)
             else if ma_Result out = ''share'' then (shares + 1, if ma_Block out then blocks + 1 else blocks)
             else (shares, blocks + 1)))"

section \<open>Self-update\<close>

definition updateMirrors :: "string list" where
  "updateMirrors = [''https://github.com/CereblixCRB/cereblix/releases/latest/download/'', ''https://cereblix.com/'']"

definition dlURLs :: "string \<Rightarrow> string list" where
  "dlURLs filename = map (\<lambda>m. m @ filename) updateMirrors"

definition miner_newer :: "string \<Rightarrow> string \<Rightarrow> bool" where
  "miner_newer a b = newer_parts (split_char (CHR ''.'') (TrimSpace a)) (split_char (CHR ''.'') b)"

definition fetchLatestVersion :: "(string \<Rightarrow> (nat \<times> bytes) option) \<Rightarrow> string" where
  "fetchLatestVersion mirror =
     (case find (\<lambda>m. case mirror (m @ ''miner-version.txt'') of
                       None \<Rightarrow> False | Some (status, b) \<Rightarrow> status = 200 \<and> TrimSpace (bytes_str (take 64 b)) \<noteq> []) updateMirrors of
        None \<Rightarrow> []
      | Some m \<Rightarrow> (case mirror (m @ ''miner-version.txt'') of None \<Rightarrow> [] | Some (status, b) \<Rightarrow> TrimSpace (bytes_str (take 64 b))))"

definition miner_swap :: "disk \<Rightarrow> bytes \<Rightarrow> fs \<Rightarrow> fs \<times> bool" where
  "miner_swap disk data fs =
     (case fs_do disk (WriteFile ''.new'' data) fs of
        (fs1, False) \<Rightarrow> (fs1, False)
      | (fs1, True) \<Rightarrow>
          (case fs_do disk (RenameFile [] ''.old'') (fs_run disk (RemoveFile ''.old'') fs1) of
             (fs2, False) \<Rightarrow> (fs2, False)
           | (fs2, True) \<Rightarrow>
               (case fs_do disk (RenameFile ''.new'' []) fs2 of
                  (fs3, False) \<Rightarrow> (fs_run disk (RenameFile ''.old'' []) fs3, False)
                | (fs3, True) \<Rightarrow> (fs3, True))))"

definition miner_selfUpdate :: "(string \<Rightarrow> (nat \<times> bytes) option) \<Rightarrow> string \<Rightarrow> disk \<Rightarrow> fs \<Rightarrow> fs \<times> bool" where
  "miner_selfUpdate mirror filename disk fs =
     (case find (\<lambda>u. case mirror u of None \<Rightarrow> False | Some (status, data) \<Rightarrow> status = 200 \<and> length data \<ge> 1000000) (dlURLs filename) of
        None \<Rightarrow> (fs, False)
      | Some u \<Rightarrow> (case mirror u of None \<Rightarrow> (fs, False) | Some (status, data) \<Rightarrow> miner_swap disk data fs))"

definition runUpdate :: "(string \<Rightarrow> (nat \<times> bytes) option) \<Rightarrow> string \<Rightarrow> string \<Rightarrow> disk \<Rightarrow> fs \<Rightarrow> fs" where
  "runUpdate mirror version filename disk fs =
     (let latest = fetchLatestVersion mirror in
      if latest = [] then fs else if \<not> miner_newer latest version then fs else fst (miner_selfUpdate mirror filename disk fs))"

section \<open>What a thread finds\<close>

lemma thread_search_found:
  "thread_search hash target base changed k n (HeaderBytes b) ctr = Some nonce \<Longrightarrow>
    int (from_be (hash (HeaderBytes (b\<lparr>blk_Nonce := nonce\<rparr>)))) \<le> target \<and> (\<exists>j < n. nonce = or base (and (ctr + of_nat j) counterMask))"
proof (induction n arbitrary: b k ctr)
  case (Suc n)
  let ?m = "or base (and ctr counterMask)"
  show ?case
  proof (cases "int (from_be (hash (putNonce (HeaderBytes b) ?m))) \<le> target")
    case True
    then have "nonce = ?m" using Suc.prems by (simp add: Let_def)
    then show ?thesis using True by (auto simp: putNonce_HeaderBytes intro: exI [of _ 0])
  next
    case False
    then have "thread_search hash target base changed (k + 1) n (HeaderBytes (b\<lparr>blk_Nonce := ?m\<rparr>)) (ctr + 1) = Some nonce"
      using Suc.prems by (simp add: putNonce_HeaderBytes Let_def split: if_splits)
    from Suc.IH [OF this] obtain j where
      "int (from_be (hash (HeaderBytes (b\<lparr>blk_Nonce := nonce\<rparr>)))) \<le> target" "j < n" "nonce = or base (and (ctr + 1 + of_nat j) counterMask)"
      by auto
    then show ?thesis by (intro conjI exI [of _ "Suc j"]) (simp_all add: algebra_simps)
  qed
qed simp

text \<open>The nonces of a thread carry the extranonce in the top 16 bits and the thread in the next 8: no two threads share one.\<close>

lemma thread_nonce_bits:
  assumes "nonce = or (thread_base extranonce i) (and c counterMask)"
  shows "drop_bit 48 nonce = and extranonce 0xFFFF" and "and (drop_bit 40 nonce) 0xFF = and i 0xFF"
proof -
  have m: "(0xFFFF :: u64) = mask 16" "(0xFF :: u64) = mask 8" "(0xFFFFFFFFFF :: u64) = mask 40" by (simp_all add: mask_eq_exp_minus_1)
  show "drop_bit 48 nonce = and extranonce 0xFFFF"
    unfolding assms thread_base_def m by (rule bit_eqI) (auto simp: bit_simps)
  show "and (drop_bit 40 nonce) 0xFF = and i 0xFF"
    unfolding assms thread_base_def m by (rule bit_eqI) (auto simp: bit_simps)
qed

lemma threads_disjoint:
  assumes "and i 0xFF \<noteq> and i' 0xFF"
  shows "or (thread_base e i) (and c counterMask) \<noteq> or (thread_base e' i') (and c' counterMask)"
  using thread_nonce_bits(2) assms by metis

section \<open>From a node's work to its chain\<close>

definition client_work :: "job \<Rightarrow> miner_work" where
  "client_work j = \<lparr>mw_ID = jb_id j, mw_Header = jb_header j, mw_Target = jb_target j, mw_Seed = jb_seed j, mw_Epoch = jb_epoch j,
     mw_Height = jb_height j, mw_Extranonce = 0\<rparr>"

lemma trim_quotes_quoted: "trim_quotes (CHR 0x22 # show_u64 n @ [CHR 0x22]) = show_u64 n"
proof -
  have q: "(of_char c :: nat) \<noteq> 34" if "c \<in> set (show_u64 n)" for c
    using show_nat_digits [of c "unat n"] that by (auto simp: show_u64_def dec_val_def Let_def split: if_splits)
  have "dropWhile (\<lambda>c. (of_char c :: nat) = 34) (s @ t) = s @ t" if "s \<noteq> []" "\<And>c. c \<in> set s \<Longrightarrow> (of_char c :: nat) \<noteq> 34" for s t
    using that by (cases s) auto
  note d = this
  have "show_u64 n \<noteq> []" by (simp add: show_u64_def)
  then show ?thesis using d [of "show_u64 n" "[CHR 0x22]"] d [of "rev (show_u64 n)" "[]"] q by (simp add: trim_quotes_def)
qed

lemma getwork_parts:
  assumes "jobs_ok n" and "\<forall>(k, e) \<in> set (nd_templates n). wt_born e < t'"
    and "api_getwork cr now now' t t' addr n = (Inr j, n')"
  shows "\<exists>b e seed epoch. map_of (nd_templates n') (jb_id j) = Some e \<and> wt_blk e = b \<and> EpochSeedForNext cr (nd_Chain n') = Some (seed, epoch)
    \<and> jb_header j = hex_encode (HeaderBytes b) \<and> jb_target j = blk_Target b \<and> jb_seed j = hex_encode seed \<and> jb_height j = blk_Height b
    \<and> tx_To (hd (blk_Txs b)) = addr \<and> blk_PrevHash b = Hash cr (last (ch_blocks (nd_Chain n')))"
proof -
  obtain b i where g: "getTemplate cr now now' t t' addr n = (Inr (b, i), n')"
    using assms(3) by (auto simp: api_getwork_def split: prod.splits sum.splits option.splits)
  obtain seed epoch where s: "EpochSeedForNext cr (nd_Chain n') = Some (seed, epoch)" "jb_id j = i" "jb_header j = hex_encode (HeaderBytes b)"
    "jb_target j = blk_Target b" "jb_seed j = hex_encode seed" "jb_height j = blk_Height b"
  proof (cases "EpochSeedForNext cr (nd_Chain n')")
    case None
    then show thesis using assms(3) g by (simp add: api_getwork_def)
  next
    case (Some x)
    then show thesis using assms(3) g that by (cases x) (auto simp: api_getwork_def)
  qed
  note t = getTemplate_job [OF assms(1,2) g]
  obtain e where "map_of (nd_templates n') i = Some e \<and> wt_blk e = b" using t by (elim conjE exE) simp
  then have e: "map_of (nd_templates n') i = Some e" "wt_blk e = b"
    "tx_To (hd (blk_Txs b)) = addr" "blk_PrevHash b = Hash cr (last (ch_blocks (nd_Chain n')))"
    using t by simp_all
  show ?thesis using s e by blast
qed

lemma mineThread_found:
  assumes "mineThread pow i nanos k changed w vm = Some (Some nonce, vm')" and "mw_Header w = hex_encode (HeaderBytes b)"
  shows "int (from_be (pow (fst (hex_decode (mw_Seed w))) (HeaderBytes (b\<lparr>blk_Nonce := nonce\<rparr>)) (mw_Height w)))
      \<le> int (from_be (fst (hex_decode (mw_Target w))))
    \<and> drop_bit 48 nonce = and (mw_Extranonce w) 0xFFFF \<and> and (drop_bit 40 nonce) 0xFF = and i 0xFF"
proof -
  obtain seed where v: "(if mw_Seed w \<noteq> (case vm of None \<Rightarrow> [] | Some s \<Rightarrow> s) then Some (mw_Seed w) else vm) = Some seed"
    and f: "thread_search (\<lambda>h. pow (fst (hex_decode seed)) h (mw_Height w)) (int (from_be (fst (hex_decode (mw_Target w)))))
      (thread_base (mw_Extranonce w) i) changed 0 k (HeaderBytes b) (and nanos counterMask) = Some nonce"
    using assms by (auto simp: mineThread_def Let_def split: if_splits option.splits)
  have "seed = mw_Seed w" using v by (auto split: if_splits option.splits)
  with thread_search_found [OF f] thread_nonce_bits show ?thesis by blast
qed

text \<open>(C27)
  A block that the command-line miner finds on a node's work is mined as it was found. Whatever the clock and
  the thread, the nonce a thread finds on work handed out by a node makes a block that pays the miner's
  address on top of the node's tip and meets its own target under the seed of the epoch; submitting the work
  id and the nonce makes the node's chain what \<open>AddBlock\<close> makes of exactly that block, and the answer is its
  hash when it is accepted.
\<close>

theorem found_block_reaches_node:
  assumes "jobs_ok n" and "\<forall>(k, e) \<in> set (nd_templates n). wt_born e < t'"
    and "api_getwork cr now now' t t' addr n = (Inr j, n')"
    and "mineThread pow i nanos k changed (client_work j) vm = Some (Some nonce, vm')"
  shows "\<exists>b seed epoch. blk_Nonce b = nonce \<and> tx_To (hd (blk_Txs b)) = addr \<and> blk_PrevHash b = Hash cr (last (ch_blocks (nd_Chain n')))
    \<and> EpochSeedForNext cr (nd_Chain n') = Some (seed, epoch)
    \<and> (\<forall>target. TargetInt b = Inr target \<longrightarrow> HashMeetsTarget (pow seed (HeaderBytes b) (blk_Height b)) target)
    \<and> (case AddBlock cr pow tm b (nd_Chain n') of
         (Some e, c1, w) \<Rightarrow> api_submitwork cr pow tm (Some (submit_body (jb_id j) nonce)) n' = (Inl (ChainErr e), n'\<lparr>nd_Chain := c1\<rparr>)
       | (None, c1, w) \<Rightarrow>
           fst (api_submitwork cr pow tm (Some (submit_body (jb_id j) nonce)) n') = Inr (Hash cr b)
           \<and> nd_Chain (snd (api_submitwork cr pow tm (Some (submit_body (jb_id j) nonce)) n')) = c1)"
proof -
  obtain b0 e seed epoch where b0: "map_of (nd_templates n') (jb_id j) = Some e" "wt_blk e = b0"
    "EpochSeedForNext cr (nd_Chain n') = Some (seed, epoch)" "jb_header j = hex_encode (HeaderBytes b0)" "jb_target j = blk_Target b0"
    "jb_seed j = hex_encode seed" "jb_height j = blk_Height b0" "tx_To (hd (blk_Txs b0)) = addr"
    "blk_PrevHash b0 = Hash cr (last (ch_blocks (nd_Chain n')))"
    using getwork_parts [OF assms(1-3)] by blast
  let ?b = "b0\<lparr>blk_Nonce := nonce\<rparr>"
  have "int (from_be (pow seed (HeaderBytes ?b) (blk_Height b0))) \<le> int (from_be (fst (hex_decode (blk_Target b0))))"
    using mineThread_found [OF assms(4), of b0] b0 by (simp add: client_work_def)
  then have h: "\<forall>target. TargetInt ?b = Inr target \<longrightarrow> HashMeetsTarget (pow seed (HeaderBytes ?b) (blk_Height ?b)) target"
    by (auto simp: TargetInt_def HashMeetsTarget_def case_prod_beta Let_def split: if_splits)
  have snap: "nd_Chain (updateTipSnap cr x) = nd_Chain x" for x by (simp add: updateTipSnap_def split: option.split)
  show ?thesis
    by (rule exI [of _ ?b], rule exI [of _ seed], rule exI [of _ epoch])
      (use b0 h snap in \<open>auto simp: api_submitwork_def submit_body_def trim_quotes_quoted Let_def split: prod.split option.split\<close>)
qed

theorem found_block_reaches_node_witness:
  "\<exists>j n' nonce vm' (b :: block). api_getwork demo_crypto 1781136060 1781136060 1 2 (AddrFromPub demo_crypto [9]) (bare_node pool_chain) = (Inr j, n')
    \<and> mineThread (\<lambda>s h x. []) 3 77 5 (\<lambda>k. False) (client_work j) (Some ''x'') = Some (Some nonce, vm')
    \<and> blk_Nonce b = nonce \<and> tx_To (hd (blk_Txs b)) = AddrFromPub demo_crypto [9]"
proof -
  obtain j n' where g: "api_getwork demo_crypto 1781136060 1781136060 1 2 (AddrFromPub demo_crypto [9]) (bare_node pool_chain) = (Inr j, n')"
    using demo_api_job by blast
  obtain b seed where b: "jb_header j = hex_encode (HeaderBytes b)" "jb_seed j = hex_encode seed"
    using getwork_parts [OF demo_job(1,2) g] by blast
  have "''x'' \<noteq> hex_encode seed"
  proof
    assume "''x'' = hex_encode seed"
    then have "CHR ''x'' \<in> set (hex_encode seed)" by (metis list.set_intros(1))
    then have "hex_val (CHR ''x'') \<noteq> None" by (rule hex_encode_chars)
    then show False by (simp add: hex_val_def)
  qed
  then have "\<exists>nonce vm'. mineThread (\<lambda>s h x. []) 3 77 5 (\<lambda>k. False) (client_work j) (Some ''x'') = Some (Some nonce, vm')"
    using b by (simp add: mineThread_def client_work_def Let_def numeral_eq_Suc [of num.One] from_be_def eval_nat_numeral)
  then obtain nonce vm' where m: "mineThread (\<lambda>s h x. []) 3 77 5 (\<lambda>k. False) (client_work j) (Some ''x'') = Some (Some nonce, vm')" by blast
  have "\<exists>b :: block. blk_Nonce b = nonce \<and> tx_To (hd (blk_Txs b)) = AddrFromPub demo_crypto [9]"
    by (rule ex_forward [OF found_block_reaches_node [where tm = 0, OF demo_job(1,2) g m]]) (elim exE conjE, intro conjI)
  with g m show ?thesis by blast
qed

section \<open>What the miner trusts\<close>

text \<open>Any answer of a megabyte from a mirror is installed: it is neither signed nor compared to a digest.\<close>

lemma update_is_unauthenticated:
  assumes "\<forall>u. mirror u = Some (200, data)" and "length data \<ge> 1000000" and "fs [] = Some cur"
  shows "\<exists>fs'. miner_selfUpdate mirror filename (\<lambda>_. Done) fs = (fs', True) \<and> fs' [] = Some data"
  using assms by (simp add: miner_selfUpdate_def dlURLs_def updateMirrors_def miner_swap_def)

text \<open>An answer that is no JSON leaves every field empty, and is counted as a block found.\<close>

lemma unreadable_answer_counts_as_block:
  "submit_counts (Some \<lparr>ma_Result = [], ma_Hash = [], ma_Block = False, ma_Error = []\<rparr>) (s, b) = (s, b + 1)"
  by (simp add: submit_counts_def)

end
