(* ===== verification/Spec2Isabelle.thy ===== *)
theory Spec2Isabelle
  imports Core_Consensus Core_Template Core_Store_History NeuroMorph_Machine Node_Errors Node_Ends
    Node_Limiter Node_Miner Stratum_Spec Stratum_Vardiff Cmd_Selfheal Wallet_Cli_Spec Miner_Client
begin

text \<open>
  A verification library for the Cereblix node, a proof-of-work currency written in Go.

  \<^bold>\<open>The program.\<close> \<^verbatim>\<open>src/core\<close> holds the data types and rules of the chain (\<^verbatim>\<open>types.go\<close>), the upgrades
  that activate when enough blocks signal for them (\<^verbatim>\<open>upgrade.go\<close>), signed checkpoints (\<^verbatim>\<open>checkpoint.go\<close>),
  the engine that validates blocks, extends or reorganises the chain, keeps the mempool and answers
  queries (\<^verbatim>\<open>chain.go\<close>, \<^verbatim>\<open>mempool_persist.go\<close>) and the indexed block store (\<^verbatim>\<open>bbolt_store.go\<close>).
  \<^verbatim>\<open>src/neuromorph\<close> is the proof-of-work function, a virtual machine running a random program per nonce.
  \<^verbatim>\<open>src/node\<close> exchanges blocks with peers and serves HTTP. Around them, \<^verbatim>\<open>src/cmd/cereblixd\<close> is the node
  command, which updates itself from manifests that the authority signs (\<^verbatim>\<open>src/core/manifest.go\<close>) and heals a
  failed update, \<^verbatim>\<open>src/cmd/cereblix-stratum\<close> connects Stratum miners to a node or a pool, \<^verbatim>\<open>src/cmd/cereblix-miner\<close>
  mines by HTTP, and \<^verbatim>\<open>src/desktop\<close> and \<^verbatim>\<open>src/cmd/cereblix-wallet\<close> are wallets that share a file.

  \<^bold>\<open>Conventions.\<close> A Go \<^verbatim>\<open>uint64\<close> is a 64-bit word and wraps; \<^verbatim>\<open>int64\<close> and \<^verbatim>\<open>int\<close> are integers with the
  conversion written out where it can wrap; \<^verbatim>\<open>*big.Int\<close> is \<open>int\<close>; strings are byte sequences; a map is an
  association list without duplicate keys, whose order stands for Go's unspecified iteration order; a Go
  error is a value of \<open>err\<close>, a run-time panic is \<open>None\<close>. Operations under the chain's mutex are atomic
  functions from a chain to a chain. SHA-256 and Ed25519 are the fields of a record \<open>crypto\<close>, AES
  on one block is an argument \<open>enc\<close>, the proof of work is an argument \<open>pow\<close> of block validation, bbolt a record \<open>kv\<close> and \<^verbatim>\<open>encoding/json\<close> on blocks a
  record \<open>json\<close>; \<open>digest32\<close>, \<open>ed25519_ok\<close>, \<open>kv_ok\<close> and \<open>json_ok\<close> name what the code relies on, and each
  is shown to hold of a concrete instance; so is \<open>sealing_ok\<close> on HMAC, AES-GCM and JSON in the wallet's key
  store. Sources, mirrors, the answers of a node to a wallet and file operations that fail or tear are
  arguments. The clock is an argument.

  \<^bold>\<open>The theories.\<close>
    \<^item> \<open>Cereblix_Prelude\<close>: bytes, hexadecimal, decimal, Go maps, 64-bit sums, the crypto record.
    \<^item> \<open>Core_Types\<close> (\<^verbatim>\<open>types.go\<close>): addresses, transactions, blocks, header bytes, targets, signing. Lemmas:
      the header and the signing payload determine their fields, targets and signatures round-trip, total issuance.
    \<^item> \<open>Core_Upgrade\<close> (\<^verbatim>\<open>upgrade.go\<close>): signal counting and activation heights; activation is the first height
      that qualifies and is final as the chain grows.
    \<^item> \<open>Core_Target\<close>: legacy and LWMA retargeting with bounds, monotonicity and the stationary point.
    \<^item> \<open>Float64\<close>, \<open>Core_Fee\<close>: IEEE binary64 rounding and the fee curve computed in it; bounds, monotonicity.
    \<^item> \<open>Core_Ledger\<close>: accounts, maturity, transaction validation and application, lifetime totals; issuance,
      replay protection, totals against balances.
    \<^item> \<open>Core_Checkpoint\<close> (\<^verbatim>\<open>checkpoint.go\<close>): signed checkpoints and the anchor test.
    \<^item> \<open>Core_State\<close>: the chain record, activation caches, epoch seeds, the VM cache, \<open>validateBlock\<close> and the
      pre-verification off the lock. \<open>Core_Validate\<close>: the cached validator decides exactly the cacheless rules.
    \<^item> \<open>Core_Mempool\<close>: admission, replacement, the per-sender index, pruning, persistence.
    \<^item> \<open>Core_Template\<close>: block templates; a template validates and leaves out nothing that could follow.
    \<^item> \<open>Core_Chain\<close>: loading, \<open>AddBlock\<close>, \<open>TryAdoptChain\<close> with its guards and fork choice, checkpoints.
      \<open>Core_Invariant\<close>, \<open>Core_Consensus\<close>: the chain invariant, its preservation by every operation, and what it
      gives on reachable chains: consistency with a replay of the blocks, no inflation, no double spend.
    \<^item> \<open>Core_Views\<close>: the read methods of the chain; history against a scan of the chain.
    \<^item> \<open>Core_Store\<close> (\<^verbatim>\<open>bbolt_store.go\<close>): rows, keys, writes as sequences of transactions, indexed reads.
      \<open>Core_Store_Index\<close>: the buckets as the rows of the stored blocks; \<open>Core_Store_Reorg\<close>: every state a crash
      can leave; \<open>Core_Store_Query\<close>, \<open>Core_Store_History\<close>: the queries return what the in-memory chain
      computes. \<open>Core_Store_Demo\<close>: a concrete store for the witnesses.
    \<^item> \<open>Core_Adoption\<close>: when \<open>TryAdoptChain\<close> adopts a branch, stated without caches.
    \<^item> \<open>Node_Peers\<close> (\<^verbatim>\<open>src/node/node.go\<close>): the node record, the guards on addresses it dials, the peer set and
      peer health. \<open>Node_Sync\<close>: one synchronisation with a peer, a record of numbered answers.
      \<open>Node_Serve\<close>: the HTTP handlers and the cache of mining jobs. \<open>Node_Watch\<close>: the background loops, one
      turn each, and start-up.
    \<^item> \<open>Node_Search\<close>: the search for the fork ends and finds it. \<open>Node_Ends\<close>: a synchronisation ends against
      any peer. \<open>Node_Converge\<close>, \<open>Node_Follow\<close>, \<open>Node_Pair\<close>: adopting a preferred branch chunk by chunk;
      following a server of a chain; a node follows a node that is ahead.
    \<^item> \<open>Node_Jobs\<close>: a mining job is mined as it was handed out. \<open>Node_Invariant\<close>: everything that happens to
      a node is a sequence of atomic events, and what they keep. \<open>Node_Errors\<close>: refused requests change
      nothing.
    \<^item> \<open>Node_Limiter\<close>: the rate limiter. \<open>Node_Miner\<close>: the built-in miner.
    \<^item> \<open>Go_Strings\<close>: splitting and trimming of texts. \<open>Stratum_Bridge\<close> (\<^verbatim>\<open>src/cmd/cereblix-stratum\<close>): logins, jobs,
      submissions and share difficulty. \<open>Stratum_Spec\<close>: the nonce forwarded is the one hashed, down to the node
      that accepts the block; share targets. \<open>Stratum_Vardiff\<close>: the difficulty controller and retries.
    \<^item> \<open>Cmd_Update\<close> (\<^verbatim>\<open>manifest.go\<close>, \<^verbatim>\<open>src/cmd/cereblixd/update.go\<close>): signed manifests, versions, downloads and
      the swap of the executable, over files by suffix and a disk that may fail at any operation; what is
      installed was signed. \<open>Cmd_Selfheal\<close> (\<^verbatim>\<open>selfheal.go\<close>): the boot guard refines a machine of six states
      in which every update is decided.
    \<^item> \<open>Wallet_Store\<close> (\<^verbatim>\<open>src/desktop/store.go\<close>): the key store and its file. \<open>Wallet_Keys\<close>: wallets stay well
      typed and saved wallets open again. \<open>Wallet_App\<close> (\<^verbatim>\<open>src/desktop/app.go\<close>): payments and replacements.
      \<open>Wallet_Amounts\<close>: reading and showing amounts. \<open>Wallet_Pay\<close>: payments are as asked, replacements never
      redirect them, and what a lying node can still do. \<open>Wallet_Cli\<close>, \<open>Wallet_Cli_Spec\<close>
      (\<^verbatim>\<open>src/cmd/cereblix-wallet\<close>): the command-line wallet; either wallet opens the other's file.
    \<^item> \<open>Miner_Client\<close> (\<^verbatim>\<open>src/cmd/cereblix-miner\<close>): settings, the search of a thread, the self-update; a block found
      on a node's work is mined as it was found.
    \<^item> \<open>Float64_Bits\<close>, \<open>NeuroMorph\<close> (\<^verbatim>\<open>neuromorph.go\<close>): IEEE 754 arithmetic on bit patterns, epoch parameters,
      memory, the register machine and the hash. \<open>NeuroMorph_Epoch\<close>: parameter ranges and the opcode table;
      \<open>NeuroMorph_Machine\<close>: bounded runs, memory bounds, platform independence, reuse of a machine.

  \<^bold>\<open>Interfaces.\<close> Locales state what one component promises another: a Go map with a weight (\<open>go_map\<close>, \<open>weighted_map\<close>), the operations
  of the mempool (\<open>pool_ops\<close>), a memo of verified work (\<open>verify_memo\<close>, for signatures, proofs of work and
  blocks), a retarget rule (\<open>retarget_rule\<close>), a readiness gate (\<open>readiness_gate\<close>) and a peer that serves a
  chain (\<open>chain_server\<close>, provided by a node). Each is interpreted on
  the model's own definitions.

  \<^bold>\<open>Bounds and recursion.\<close> Loops over blocks and transactions are structural; the queue walk of the
  mempool, the selection loop of a template and the deletion batches of the store carry measures; the interpreter of
  NeuroMorph ends because each branch spends one of eight permits of its place, at most 257 steps per
  instruction. The search for a fork takes 64 rounds, enough for heights below \<open>2^63\<close>; the download from a
  peer takes fuel, and a fuel of the advertised height plus two is enough. Chains
  are taken shorter than \<open>2^63\<close> blocks where heights are converted. The fee curve's value is the same
  whether or not the compiler fuses its multiply and add: both were compared for every fill up to 20 blocks.

  \<^bold>\<open>The node.\<close> A handler takes the decoded request and returns the response, the new node and what it leaves
  to another goroutine. A synchronisation interleaves with the rest of the node: an argument says what the
  other goroutines do during each request. Between two requests it is one atomic step, and so is a handler;
  the lock-free gaps inside them are not modelled.

  \<^bold>\<open>Not modelled.\<close> Goroutine scheduling inside an operation; partial disk writes of the JSONL file; log
  output; JSON text, HTTP transport, timers and connection limits of \<^verbatim>\<open>src/node\<close>, and its pages of status and
  constants; sockets, WebSocket and keep-alive of the Stratum bridge, its diagnostics and its copy of the
  self-update; the health probe, diagnosis output and boot log of the node command; the explorer, settings,
  update notice and node process of the desktop application; the shell of the command-line wallet and the
  wizard of the miner; the Android and WebAssembly front ends, which are input and output around the
  core; store export and compaction, which are file tools. The bits of a NaN, which a platform chooses,
  are an argument of the NeuroMorph machine.
\<close>

end
